(* ===== verification/Prelude.thy ===== *)
theory Prelude
  imports Main "HOL-Library.Char_ord" "HOL-Library.List_Lexorder" "HOL-Library.Sublist"
begin

text \<open>
  Shared vocabulary of the development: the proof collections, the error values, the
  result type and generic lemmas on lists and sums that the component theories use.

  A Go \<open>string\<close> or \<open>[]byte\<close> is a HOL \<^typ>\<open>string\<close>: a list of 8-bit characters. Its Go
  length is \<^const>\<open>length\<close> and Go's byte-wise string order is the lexicographic order of
  \<open>List_Lexorder\<close> over \<open>Char_ord\<close>.
\<close>

named_theorems go_defs \<open>unfolding of the small library functions\<close>
named_theorems row_simps \<open>projections of table rows under the store's updates\<close>

datatype err =
    NoRows
  | BadJson
  | BadGzip
  | UnknownEncoding string
  | OutOfFuel
  | Required
  | SnapshotNotReady
  | SnapshotCursor
  | SnapshotTombstoneHistory
  | SnapshotExpired
  | SnapshotLimit
  | SnapshotInvalid
  | DigestMismatch
  | NotFound
  | Locked
  | Panic
  | Fatal

type_synonym 'a result = "err + 'a"

definition bind_res :: "'a result \<Rightarrow> ('a \<Rightarrow> 'b result) \<Rightarrow> 'b result" where
  "bind_res m f = (case m of Inl e \<Rightarrow> Inl e | Inr x \<Rightarrow> f x)"

lemma bind_res_simps [simp]:
  "bind_res (Inl e) f = Inl e"
  "bind_res (Inr x) f = f x"
  by (simp_all add: bind_res_def)

lemma bind_res_cong [fundef_cong]:
  assumes "m = m'" and "\<And>x. m' = Inr x \<Longrightarrow> f x = f' x"
  shows "bind_res m f = bind_res m' f'"
  using assms by (cases m') simp_all

lemma bind_res_Inr_iff: "bind_res m f = Inr y \<longleftrightarrow> (\<exists>x. m = Inr x \<and> f x = Inr y)"
  by (cases m) simp_all

lemma bind_res_Inl_iff:
  "bind_res m f = Inl e \<longleftrightarrow> m = Inl e \<or> (\<exists>x. m = Inr x \<and> f x = Inl e)"
  by (cases m) simp_all

text \<open>A bounded loop that stops at the first error, as a \<open>for\<close> with an early return does.\<close>

fun map_res :: "('a \<Rightarrow> 'b result) \<Rightarrow> 'a list \<Rightarrow> 'b list result" where
  "map_res f [] = Inr []"
| "map_res f (x # xs) = bind_res (f x) (\<lambda>y. bind_res (map_res f xs) (\<lambda>ys. Inr (y # ys)))"

lemma map_res_cong [fundef_cong]:
  assumes "xs = ys" and "\<And>x. x \<in> set ys \<Longrightarrow> f x = g x"
  shows "map_res f xs = map_res g ys"
  using assms by (induction ys arbitrary: xs) auto

lemma map_res_Inr: "(\<And>x. x \<in> set xs \<Longrightarrow> f x = Inr (g x)) \<Longrightarrow> map_res f xs = Inr (map g xs)"
  by (induction xs) auto

lemma map_res_length: "map_res f xs = Inr ys \<Longrightarrow> length ys = length xs"
  by (induction xs arbitrary: ys) (auto simp: bind_res_Inr_iff)

text \<open>The last row with a given key replaced, or the row appended: an SQL upsert on a key.\<close>

definition upsert :: "('a \<Rightarrow> 'k) \<Rightarrow> ('a \<Rightarrow> 'a) \<Rightarrow> 'a \<Rightarrow> 'a list \<Rightarrow> 'a list" where
  "upsert key merge new rows =
     (if \<exists>r \<in> set rows. key r = key new
      then map (\<lambda>r. if key r = key new then merge r else r) rows
      else rows @ [new])"

text \<open>\<open>INSERT OR IGNORE\<close> on a key.\<close>

definition insert_ignore :: "('a \<Rightarrow> 'k) \<Rightarrow> 'a \<Rightarrow> 'a list \<Rightarrow> 'a list" where
  "insert_ignore key new rows =
     (if \<exists>r \<in> set rows. key r = key new then rows else rows @ [new])"

lemma insert_ignore_keys:
  "set (map key (insert_ignore key new rows)) = insert (key new) (set (map key rows))"
  by (cases "\<exists>r \<in> set rows. key r = key new") (auto simp: insert_ignore_def intro: rev_image_eqI)

lemma insert_ignore_distinct:
  "distinct (map key rows) \<Longrightarrow> distinct (map key (insert_ignore key new rows))"
  by (auto simp: insert_ignore_def)

lemma upsert_keys:
  assumes "\<And>r. key r = key new \<Longrightarrow> key (merge r) = key r"
  shows "map key (upsert key merge new rows) =
    (if key new \<in> set (map key rows) then map key rows else map key rows @ [key new])"
proof -
  have "map key (map (\<lambda>r. if key r = key new then merge r else r) rows) = map key rows"
    using assms by (induction rows) auto
  moreover have "(\<exists>r \<in> set rows. key r = key new) \<longleftrightarrow> key new \<in> set (map key rows)"
    by (auto simp: image_iff) metis
  ultimately show ?thesis by (simp add: upsert_def)
qed

lemma upsert_distinct:
  assumes "\<And>r. key r = key new \<Longrightarrow> key (merge r) = key r" and "distinct (map key rows)"
  shows "distinct (map key (upsert key merge new rows))"
proof -
  have "map key (upsert key merge new rows) =
    (if key new \<in> set (map key rows) then map key rows else map key rows @ [key new])"
    by (rule upsert_keys) (rule assms(1))
  with assms(2) show ?thesis by simp
qed

lemma find_insert_ignore:
  "find (\<lambda>r. key r = k) (insert_ignore key new rows) =
     (case find (\<lambda>r. key r = k) rows of
        Some r \<Rightarrow> Some r
      | None \<Rightarrow> if key new = k then Some new else None)"
proof -
  have app: "find P (xs @ ys) = (case find P xs of Some r \<Rightarrow> Some r | None \<Rightarrow> find P ys)"
    for P :: "'a \<Rightarrow> bool" and xs ys
    by (induction xs) auto
  show ?thesis
  proof (cases "\<exists>r \<in> set rows. key r = key new")
    case True
    then have "key new = k \<Longrightarrow> find (\<lambda>r. key r = k) rows \<noteq> None"
      by (auto simp: find_None_iff)
    with True show ?thesis by (auto simp: insert_ignore_def split: option.splits)
  next
    case False
    then show ?thesis by (simp add: insert_ignore_def app split: option.split)
  qed
qed

lemma sum_list_map_upd:
  fixes f :: "'a \<Rightarrow> nat"
  assumes "distinct (map key rows)" and "r0 \<in> set rows" and "f (g r0) = Suc (f r0)"
  shows "sum_list (map f (map (\<lambda>r. if key r = key r0 then g r else r) rows)) =
    Suc (sum_list (map f rows))"
  using assms
proof (induction rows)
  case Nil
  then show ?case by simp
next
  case (Cons r rs)
  show ?case
  proof (cases "key r = key r0")
    case True
    with Cons.prems have "r = r0" by auto
    moreover have "map (\<lambda>r. if key r = key r0 then g r else r) rs = rs"
    proof (intro map_idI)
      fix x assume "x \<in> set rs"
      then have "key x \<in> key ` set rs" by simp
      with Cons.prems(1) True show "(if key x = key r0 then g x else x) = x" by auto
    qed
    ultimately show ?thesis using Cons.prems(3) by (simp add: comp_def)
  next
    case False
    with Cons.prems have "r0 \<in> set rs" by auto
    with Cons.IH Cons.prems False show ?thesis by simp
  qed
qed

end
