(* ===== verification/Go_Strings.thy ===== *)
theory Go_Strings
  imports Prelude
begin

text \<open>
  The part of Go's \<open>strings\<close>, \<open>unicode/utf8\<close>, \<open>unicode\<close> and \<open>strconv\<close> packages the program uses, on byte
  strings: UTF-8 segmentation, white space, letter case, searching, splitting, joining
  and decimal numerals.
\<close>

section \<open>UTF-8\<close>

abbreviation byte :: "char \<Rightarrow> nat" where
  "byte c \<equiv> of_char c"

abbreviation bytes :: "nat list \<Rightarrow> string" where
  "bytes ns \<equiv> map char_of ns"

definition cont :: "char \<Rightarrow> bool" where
  "cont c \<longleftrightarrow> 128 \<le> byte c \<and> byte c \<le> 191"

definition second_lo :: "nat \<Rightarrow> nat" where
  "second_lo b0 = (if b0 = 224 then 160 else if b0 = 240 then 144 else 128)"

definition second_hi :: "nat \<Rightarrow> nat" where
  "second_hi b0 = (if b0 = 237 then 159 else if b0 = 244 then 143 else 191)"

text \<open>
  The number of bytes of the well-formed encoded rune at the head of the string, 0 when
  there is none (\<open>utf8.DecodeRuneInString\<close> then reports a width of one invalid byte).
\<close>

fun utf8_head :: "string \<Rightarrow> nat" where
  "utf8_head [] = 0"
| "utf8_head (c0 # s) =
    (let b0 = byte c0 in
     if b0 < 128 then 1
     else if 194 \<le> b0 \<and> b0 \<le> 223 then
       (case s of c1 # _ \<Rightarrow> if cont c1 then 2 else 0 | [] \<Rightarrow> 0)
     else if 224 \<le> b0 \<and> b0 \<le> 239 then
       (case s of
          c1 # c2 # _ \<Rightarrow>
            if second_lo b0 \<le> byte c1 \<and> byte c1 \<le> second_hi b0 \<and> cont c2 then 3 else 0
        | _ \<Rightarrow> 0)
     else if 240 \<le> b0 \<and> b0 \<le> 244 then
       (case s of
          c1 # c2 # c3 # _ \<Rightarrow>
            if second_lo b0 \<le> byte c1 \<and> byte c1 \<le> second_hi b0 \<and> cont c2 \<and> cont c3
            then 4 else 0
        | _ \<Rightarrow> 0)
     else 0)"

lemma utf8_head_le: "utf8_head s \<le> length s"
  by (cases s) (auto simp: Let_def split: list.splits)

text \<open>A string cut into runes: encoded runes, or single invalid bytes.\<close>

function runes :: "string \<Rightarrow> string list" where
  "runes [] = []"
| "runes (c # s) =
    (let n = utf8_head (c # s) in
     if n \<le> 1 then [c] # runes s else take n (c # s) # runes (drop (n - 1) s))"
  by pat_completeness auto
termination
  by (relation "measure length") auto

declare runes.simps(2) [simp del]

definition valid_rune :: "string \<Rightarrow> bool" where
  "valid_rune r \<longleftrightarrow> r \<noteq> [] \<and> utf8_head r = length r"

definition valid_utf8 :: "string \<Rightarrow> bool" where
  "valid_utf8 s \<longleftrightarrow> list_all valid_rune (runes s)"

text \<open>The code point of a rune; an invalid byte is U+FFFD.\<close>

definition rune_of :: "string \<Rightarrow> nat" where
  "rune_of r =
    (if utf8_head r \<noteq> length r then 65533
     else (case map byte r of
         [b0] \<Rightarrow> b0
       | [b0, b1] \<Rightarrow> (b0 - 192) * 64 + (b1 - 128)
       | [b0, b1, b2] \<Rightarrow> (b0 - 224) * 4096 + (b1 - 128) * 64 + (b2 - 128)
       | [b0, b1, b2, b3] \<Rightarrow>
           (b0 - 240) * 262144 + (b1 - 128) * 4096 + (b2 - 128) * 64 + (b3 - 128)
       | _ \<Rightarrow> 65533))"

text \<open>\<open>utf8.AppendRune\<close>: surrogates and values above U+10FFFF become U+FFFD.\<close>

definition utf8_encode :: "nat \<Rightarrow> string" where
  "utf8_encode r =
    (if r < 128 then bytes [r]
     else if r < 2048 then bytes [192 + r div 64, 128 + r mod 64]
     else if (55296 \<le> r \<and> r \<le> 57343) \<or> 1114112 \<le> r then bytes [239, 191, 189]
     else if r < 65536 then bytes [224 + r div 4096, 128 + (r div 64) mod 64, 128 + r mod 64]
     else bytes [240 + r div 262144, 128 + (r div 4096) mod 64,
                 128 + (r div 64) mod 64, 128 + r mod 64])"

lemma concat_runes: "concat (runes s) = s"
proof (induction s rule: runes.induct)
  case 1
  then show ?case by simp
next
  case (2 c s)
  show ?case
  proof (cases "utf8_head (c # s) \<le> 1")
    case True
    with "2.IH"(1) show ?thesis by (simp add: runes.simps Let_def)
  next
    case False
    then obtain m where m: "utf8_head (c # s) = Suc m" "m > 0"
      by (cases "utf8_head (c # s)") auto
    from "2.IH"(2) False m have "concat (runes (drop m s)) = drop m s" by simp
    with False m show ?thesis
      by (simp add: runes.simps Let_def)
  qed
qed

lemma utf8_head_append: "utf8_head r = length r \<Longrightarrow> r \<noteq> [] \<Longrightarrow> utf8_head (r @ s) = length r"
  by (cases r) (auto simp: Let_def split: list.splits if_splits)

lemma runes_valid_append:
  assumes "valid_rune r"
  shows "runes (r @ s) = r # runes s"
proof -
  from assms obtain c r' where r: "r = c # r'" and h: "utf8_head (c # r') = Suc (length r')"
    by (cases r) (auto simp: valid_rune_def)
  have h': "utf8_head (c # r' @ s) = Suc (length r')"
    using utf8_head_append [of r s] h r by simp
  show ?thesis
  proof (cases r')
    case Nil
    with h' show ?thesis unfolding r by (simp add: runes.simps Let_def)
  next
    case (Cons a list)
    with h' show ?thesis unfolding r by (simp add: runes.simps Let_def)
  qed
qed

lemma valid_rune_ascii: "byte c < 128 \<Longrightarrow> valid_rune [c]"
  by (simp add: valid_rune_def)

lemma runes_ascii: "byte c < 128 \<Longrightarrow> runes (c # s) = [c] # runes s"
  using runes_valid_append [of "[c]" s] by (simp add: valid_rune_ascii)

lemma valid_utf8_Nil [simp]: "valid_utf8 []"
  by (simp add: valid_utf8_def)

lemma valid_utf8_ascii:
  "\<forall>c \<in> set s. byte c < 128 \<Longrightarrow> valid_utf8 s"
  by (induction s) (auto simp: valid_utf8_def runes_ascii valid_rune_ascii)

lemma runes_valid_concat:
  "list_all valid_rune rs \<Longrightarrow> runes (concat rs) = rs"
  by (induction rs) (auto simp: runes_valid_append)

lemma runes_append_valid:
  assumes "valid_utf8 s"
  shows "runes (s @ t) = runes s @ runes t"
proof -
  have "list_all valid_rune rs \<Longrightarrow> runes (concat rs @ t) = rs @ runes t" for rs
    by (induction rs) (auto simp: runes_valid_append)
  from this [of "runes s"] assms show ?thesis
    by (simp add: valid_utf8_def concat_runes)
qed

lemma valid_utf8_append: "valid_utf8 s \<Longrightarrow> valid_utf8 t \<Longrightarrow> valid_utf8 (s @ t)"
  by (simp add: valid_utf8_def runes_append_valid [unfolded valid_utf8_def])

section \<open>White space\<close>

definition is_space :: "nat \<Rightarrow> bool" where
  "is_space r \<longleftrightarrow>
     (9 \<le> r \<and> r \<le> 13) \<or> r = 32 \<or> r = 133 \<or> r = 160 \<or> r = 5760 \<or> (8192 \<le> r \<and> r \<le> 8202)
     \<or> r = 8232 \<or> r = 8233 \<or> r = 8239 \<or> r = 8287 \<or> r = 12288"

abbreviation space_rune :: "string \<Rightarrow> bool" where
  "space_rune r \<equiv> is_space (rune_of r)"

definition TrimSpace :: "string \<Rightarrow> string" where
  "TrimSpace s = concat (rev (dropWhile space_rune (rev (dropWhile space_rune (runes s)))))"

function fields_runes :: "string list \<Rightarrow> string list list" where
  "fields_runes [] = []"
| "fields_runes (r # rs) =
    (if space_rune r then fields_runes rs
     else (r # takeWhile (\<lambda>r. \<not> space_rune r) rs)
            # fields_runes (dropWhile (\<lambda>r. \<not> space_rune r) rs))"
  by pat_completeness auto
termination
  by (relation "measure length") (auto simp: le_imp_less_Suc length_dropWhile_le)

definition Fields :: "string \<Rightarrow> string list" where
  "Fields s = map concat (fields_runes (runes s))"

section \<open>Searching, cutting and joining\<close>

definition HasPrefix :: "string \<Rightarrow> string \<Rightarrow> bool" where
  "HasPrefix s p \<longleftrightarrow> take (length p) s = p"

definition HasSuffix :: "string \<Rightarrow> string \<Rightarrow> bool" where
  "HasSuffix s p \<longleftrightarrow> length p \<le> length s \<and> drop (length s - length p) s = p"

definition TrimPrefix :: "string \<Rightarrow> string \<Rightarrow> string" where
  "TrimPrefix s p = (if HasPrefix s p then drop (length p) s else s)"

lemma HasPrefix_TrimPrefix: "HasPrefix s p \<Longrightarrow> s = p @ TrimPrefix s p"
  unfolding TrimPrefix_def HasPrefix_def by (metis append_take_drop_id)

definition TrimSuffix :: "string \<Rightarrow> string \<Rightarrow> string" where
  "TrimSuffix s p = (if HasSuffix s p then take (length s - length p) s else s)"

fun Index :: "string \<Rightarrow> string \<Rightarrow> nat option" where
  "Index [] sub = (if sub = [] then Some 0 else None)"
| "Index (c # s) sub = (if HasPrefix (c # s) sub then Some 0 else map_option Suc (Index s sub))"

fun LastIndex :: "string \<Rightarrow> string \<Rightarrow> nat option" where
  "LastIndex [] sub = (if sub = [] then Some 0 else None)"
| "LastIndex (c # s) sub =
    (case LastIndex s sub of
       Some i \<Rightarrow> Some (Suc i)
     | None \<Rightarrow> if HasPrefix (c # s) sub then Some 0 else None)"

definition Contains :: "string \<Rightarrow> string \<Rightarrow> bool" where
  "Contains s sub \<longleftrightarrow> Index s sub \<noteq> None"

fun IndexByte :: "string \<Rightarrow> char \<Rightarrow> nat option" where
  "IndexByte [] c = None"
| "IndexByte (d # s) c = (if d = c then Some 0 else map_option Suc (IndexByte s c))"

function SplitByte :: "string \<Rightarrow> char \<Rightarrow> string list" where
  "SplitByte s c =
    (case dropWhile (\<lambda>d. d \<noteq> c) s of
       [] \<Rightarrow> [s]
     | _ # r \<Rightarrow> takeWhile (\<lambda>d. d \<noteq> c) s # SplitByte r c)"
  by pat_completeness auto
termination
proof (relation "measure (\<lambda>(s, c). length s)", goal_cases)
  case 1
  then show ?case by simp
next
  case (2 s c x21 x22)
  have "length (dropWhile (\<lambda>d. d \<noteq> c) s) \<le> length s" by (rule length_dropWhile_le)
  with 2 show ?case by simp
qed

declare SplitByte.simps [simp del]

fun Join :: "string \<Rightarrow> string list \<Rightarrow> string" where
  "Join sep [] = []"
| "Join sep [x] = x"
| "Join sep (x # y # xs) = x @ sep @ Join sep (y # xs)"

definition TrimRightByte :: "string \<Rightarrow> char \<Rightarrow> string" where
  "TrimRightByte s c = rev (dropWhile (\<lambda>d. d = c) (rev s))"

definition firstNonEmpty :: "string list \<Rightarrow> string" where
  "firstNonEmpty vs = (case find (\<lambda>s. TrimSpace s \<noteq> []) vs of Some s \<Rightarrow> s | None \<Rightarrow> [])"

section \<open>Decimal numerals\<close>

definition digit :: "nat \<Rightarrow> char" where
  "digit d = char_of (48 + d)"

definition is_digit :: "char \<Rightarrow> bool" where
  "is_digit c \<longleftrightarrow> 48 \<le> byte c \<and> byte c \<le> 57"

fun Itoa :: "nat \<Rightarrow> string" where
  "Itoa n = (if n < 10 then [digit n] else Itoa (n div 10) @ [digit (n mod 10)])"

declare Itoa.simps [simp del]

definition digits_val :: "string \<Rightarrow> nat" where
  "digits_val s = foldl (\<lambda>n c. 10 * n + (byte c - 48)) 0 s"

lemma byte_digit: "d < 10 \<Longrightarrow> byte (digit d) = 48 + d"
  by (simp add: digit_def)

lemma is_digit_digit: "d < 10 \<Longrightarrow> is_digit (digit d)"
  by (simp add: is_digit_def byte_digit)

lemma Itoa_digits: "\<forall>c \<in> set (Itoa n). is_digit c"
proof (induction n rule: Itoa.induct)
  case (1 n)
  then show ?case
    by (cases "n < 10") (auto simp: Itoa.simps [of n] is_digit_digit)
qed

lemma Itoa_not_Nil: "Itoa n \<noteq> []"
  by (subst Itoa.simps) simp

lemma digits_val_Itoa: "digits_val (Itoa n) = n"
proof (induction n rule: Itoa.induct)
  case (1 n)
  show ?case
  proof (cases "n < 10")
    case True
    then show ?thesis by (simp add: Itoa.simps [of n] digits_val_def byte_digit)
  next
    case False
    then have "digits_val (Itoa n) = 10 * digits_val (Itoa (n div 10)) + n mod 10"
      by (simp add: Itoa.simps [of n] digits_val_def byte_digit)
    with 1 False show ?thesis by simp
  qed
qed

lemma Itoa_inj: "Itoa m = Itoa n \<Longrightarrow> m = n"
  by (metis digits_val_Itoa)

end
