(* ===== verification/Json.thy ===== *)
theory Json
  imports Go_Strings
begin

text \<open>
  \<open>encoding/json\<close> as the program uses it: the dynamic values, \<open>Marshal\<close> and the
  \<open>Encoder\<close>, the stream \<open>Decoder\<close> (which reads one value and leaves the rest), and
  \<open>Unmarshal\<close> (one value, the whole input, numbers as \<open>float64\<close>).

  A \<open>map[string]any\<close> is an association list with strictly increasing keys (\<open>sorted_keys\<close>), the
  canonical form of the finite map. \<open>Struct\<close> is a Go struct, encoded in field order.
  \<open>Raw\<close> is a value of a named string type. A number carries its text.
\<close>

datatype gv =
    Null
  | Bool bool
  | Num string
  | Str string
  | Arr "gv list"
  | Obj "(string \<times> gv) list"
  | Struct "(string \<times> gv) list"
  | Raw string

definition sorted_keys :: "(string \<times> 'a) list \<Rightarrow> bool" where
  "sorted_keys kvs \<longleftrightarrow> sorted_wrt (<) (map fst kvs)"

fun obj_put :: "string \<Rightarrow> 'a \<Rightarrow> (string \<times> 'a) list \<Rightarrow> (string \<times> 'a) list" where
  "obj_put k v [] = [(k, v)]"
| "obj_put k v ((k', v') # kvs) =
    (if k < k' then (k, v) # (k', v') # kvs
     else if k = k' then (k, v) # kvs
     else (k', v') # obj_put k v kvs)"

definition obj_of :: "(string \<times> 'a) list \<Rightarrow> (string \<times> 'a) list" where
  "obj_of kvs = foldl (\<lambda>acc (k, v). obj_put k v acc) [] kvs"

abbreviation obj_get :: "(string \<times> 'a) list \<Rightarrow> string \<Rightarrow> 'a option" where
  "obj_get kvs k \<equiv> map_of kvs k"

section \<open>Encoding\<close>

definition hex4 :: "nat \<Rightarrow> string" where
  "hex4 n = (let h = (\<lambda>d. if d < 10 then char_of (48 + d) else char_of (87 + d)) in
     [h (n div 4096 mod 16), h (n div 256 mod 16), h (n div 16 mod 16), h (n mod 16)])"

text \<open>
  One rune inside a JSON string. The flag is \<open>escapeHTML\<close>: on for \<open>Marshal\<close>, off for the
  program's stream encoders.
\<close>

definition quote_rune :: "bool \<Rightarrow> string \<Rightarrow> string" where
  "quote_rune html r =
    (if utf8_head r \<noteq> length r then CHR 0x5C # ''ufffd''
     else (case r of
       [c] \<Rightarrow>
         (let b = byte c in
          if c = CHR 0x22 \<or> c = CHR 0x5C then [CHR 0x5C, c]
          else if b = 8 then [CHR 0x5C, CHR ''b'']
          else if b = 12 then [CHR 0x5C, CHR ''f'']
          else if b = 10 then [CHR 0x5C, CHR ''n'']
          else if b = 13 then [CHR 0x5C, CHR ''r'']
          else if b = 9 then [CHR 0x5C, CHR ''t'']
          else if b < 32 \<or> (html \<and> (b = 60 \<or> b = 62 \<or> b = 38))
          then CHR 0x5C # CHR ''u'' # hex4 b
          else [c])
     | _ \<Rightarrow>
         if rune_of r = 8232 \<or> rune_of r = 8233 then CHR 0x5C # CHR ''u'' # hex4 (rune_of r)
         else r))"

definition quote :: "bool \<Rightarrow> string \<Rightarrow> string" where
  "quote html s = [CHR 0x22] @ concat (map (quote_rune html) (runes s)) @ [CHR 0x22]"

definition member_text :: "bool \<Rightarrow> string \<times> string \<Rightarrow> string" where
  "member_text html kt = quote html (fst kt) @ '':'' @ snd kt"

fun marshal :: "bool \<Rightarrow> gv \<Rightarrow> string" where
  "marshal html Null = ''null''"
| "marshal html (Bool b) = (if b then ''true'' else ''false'')"
| "marshal html (Num lit) = lit"
| "marshal html (Str s) = quote html s"
| "marshal html (Raw s) = quote html s"
| "marshal html (Arr vs) = ''['' @ Join '','' (map (marshal html) vs) @ '']''"
| "marshal html (Obj kvs) =
    ''{'' @ Join '','' (map (member_text html)
       (sort_key fst (map (\<lambda>kv. (fst kv, marshal html (snd kv))) kvs))) @ ''}''"
| "marshal html (Struct kvs) =
    ''{'' @ Join '','' (map (member_text html) (map (\<lambda>kv. (fst kv, marshal html (snd kv))) kvs))
      @ ''}''"

abbreviation Marshal :: "gv \<Rightarrow> string" where
  "Marshal v \<equiv> marshal True v"

text \<open>The stream encoder with \<open>SetEscapeHTML(false)\<close> ends every value with a newline.\<close>

definition Encode :: "gv \<Rightarrow> string" where
  "Encode v = marshal False v @ [CHR 0x0A]"

section \<open>Decoding\<close>

definition json_ws :: "char \<Rightarrow> bool" where
  "json_ws c \<longleftrightarrow> c = CHR '' '' \<or> c = CHR 0x09 \<or> c = CHR 0x0A \<or> c = CHR 0x0D"

definition skip_ws :: "string \<Rightarrow> string" where
  "skip_ws s = dropWhile json_ws s"

definition hexv :: "char \<Rightarrow> nat option" where
  "hexv c =
    (let b = byte c in
     if 48 \<le> b \<and> b \<le> 57 then Some (b - 48)
     else if 97 \<le> b \<and> b \<le> 102 then Some (b - 87)
     else if 65 \<le> b \<and> b \<le> 70 then Some (b - 55)
     else None)"

fun getu4 :: "string \<Rightarrow> nat option" where
  "getu4 (a # b # c # d # _) =
    (case (hexv a, hexv b, hexv c, hexv d) of
       (Some w, Some x, Some y, Some z) \<Rightarrow> Some (((w * 16 + x) * 16 + y) * 16 + z)
     | _ \<Rightarrow> None)"
| "getu4 _ = None"

definition escape_char :: "char \<Rightarrow> char option" where
  "escape_char c =
    (if c = CHR 0x22 \<or> c = CHR 0x5C \<or> c = CHR ''/'' then Some c
     else if c = CHR ''b'' then Some (CHR 0x08)
     else if c = CHR ''f'' then Some (CHR 0x0C)
     else if c = CHR ''n'' then Some (CHR 0x0A)
     else if c = CHR ''r'' then Some (CHR 0x0D)
     else if c = CHR ''t'' then Some (CHR 0x09)
     else None)"

text \<open>
  The code point of a backslash-u escape, given its first unit and what follows it, and the number
  of further bytes used: a valid surrogate pair is one code point, a lone surrogate U+FFFD.
\<close>

definition unicode_escape :: "nat \<Rightarrow> string \<Rightarrow> nat \<times> nat" where
  "unicode_escape u r =
    (if 55296 \<le> u \<and> u \<le> 57343 then
       (case r of
          b # c # r' \<Rightarrow>
            (if b = CHR 0x5C \<and> c = CHR ''u'' then
               (case getu4 r' of
                  Some u2 \<Rightarrow>
                    (if u \<le> 56319 \<and> 56320 \<le> u2 \<and> u2 \<le> 57343
                     then (65536 + (u - 55296) * 1024 + (u2 - 56320), 6)
                     else (65533, 0))
                | None \<Rightarrow> (65533, 0))
             else (65533, 0))
        | _ \<Rightarrow> (65533, 0))
     else (u, 0))"

text \<open>The body of a string literal, after the opening quote: its value and what follows the closing quote.\<close>

function pstr :: "string \<Rightarrow> (string \<times> string) option" where
  "pstr [] = None"
| "pstr (c # s) =
    (if c = CHR 0x22 then Some ([], s)
     else if byte c < 32 then None
     else if c = CHR 0x5C then
       (case s of
          [] \<Rightarrow> None
        | e # r \<Rightarrow>
           (if e = CHR ''u'' then
              (case getu4 r of
                 None \<Rightarrow> None
               | Some u \<Rightarrow>
                   (case unicode_escape u (drop 4 r) of
                      (cp, k) \<Rightarrow>
                        map_option (\<lambda>(t, rest). (utf8_encode cp @ t, rest)) (pstr (drop (4 + k) r))))
            else
              (case escape_char e of
                 None \<Rightarrow> None
               | Some d \<Rightarrow> map_option (\<lambda>(t, rest). (d # t, rest)) (pstr r))))
     else
       (let n = utf8_head (c # s) in
        if n = 0 then map_option (\<lambda>(t, rest). (bytes [239, 191, 189] @ t, rest)) (pstr s)
        else map_option (\<lambda>(t, rest). (take n (c # s) @ t, rest)) (pstr (drop (n - 1) s))))"
  by pat_completeness auto
termination
  by (relation "measure length") auto

declare pstr.simps(2) [simp del]

text \<open>A number literal and what follows it.\<close>

definition pdigits :: "string \<Rightarrow> (string \<times> string) option" where
  "pdigits s = (case takeWhile is_digit s of [] \<Rightarrow> None | ds \<Rightarrow> Some (ds, dropWhile is_digit s))"

definition pint :: "string \<Rightarrow> (string \<times> string) option" where
  "pint s =
    (case s of
       [] \<Rightarrow> None
     | c # r \<Rightarrow> if c = CHR ''0'' then Some (''0'', r) else pdigits s)"

definition pfrac :: "string \<Rightarrow> (string \<times> string) option" where
  "pfrac s =
    (case s of
       [] \<Rightarrow> Some ([], [])
     | c # r \<Rightarrow>
         if c = CHR ''.'' then map_option (\<lambda>(ds, rest). (c # ds, rest)) (pdigits r)
         else Some ([], s))"

definition pexp :: "string \<Rightarrow> (string \<times> string) option" where
  "pexp s =
    (case s of
       [] \<Rightarrow> Some ([], [])
     | c # r \<Rightarrow>
         if c = CHR ''e'' \<or> c = CHR ''E'' then
           (case r of
              [] \<Rightarrow> None
            | g # r' \<Rightarrow>
                if g = CHR ''+'' \<or> g = CHR ''-''
                then map_option (\<lambda>(ds, rest). (c # g # ds, rest)) (pdigits r')
                else map_option (\<lambda>(ds, rest). (c # ds, rest)) (pdigits r))
         else Some ([], s))"

definition psign :: "string \<Rightarrow> string \<times> string" where
  "psign s = (case s of [] \<Rightarrow> ([], []) | c # r \<Rightarrow> if c = CHR ''-'' then ([c], r) else ([], s))"

definition pnum :: "string \<Rightarrow> (string \<times> string) option" where
  "pnum s =
    (let (sg, s0) = psign s
     in Option.bind (pint s0) (\<lambda>(i, s1).
        Option.bind (pfrac s1) (\<lambda>(f, s2).
        Option.bind (pexp s2) (\<lambda>(e, s3). Some (sg @ i @ f @ e, s3)))))"

definition plit :: "string \<Rightarrow> gv \<Rightarrow> string \<Rightarrow> (gv \<times> string) option" where
  "plit w v s = (if HasPrefix s w then Some (v, drop (length w) s) else None)"

text \<open>The next token, when it is the given one.\<close>

definition tok :: "char \<Rightarrow> string \<Rightarrow> string option" where
  "tok c s = (case skip_ws s of [] \<Rightarrow> None | d # r \<Rightarrow> if d = c then Some r else None)"

text \<open>
  The value parser. The first number is fuel (one unit per call, see \<open>Decode\<close>), the second the
  nesting still allowed: the decoder rejects values nested deeper than 10000.
\<close>

fun pval :: "nat \<Rightarrow> nat \<Rightarrow> string \<Rightarrow> (gv \<times> string) option"
  and pelems :: "nat \<Rightarrow> nat \<Rightarrow> string \<Rightarrow> (gv list \<times> string) option"
  and pmembers :: "nat \<Rightarrow> nat \<Rightarrow> string \<Rightarrow> ((string \<times> gv) list \<times> string) option" where
  "pval 0 d s = None"
| "pval (Suc n) d s =
    (case skip_ws s of
       [] \<Rightarrow> None
     | c # r \<Rightarrow>
         if c = CHR ''{'' then
           (if d = 0 then None
            else (case tok (CHR ''}'') r of
                Some r' \<Rightarrow> Some (Obj [], r')
              | None \<Rightarrow>
                  map_option (\<lambda>(kvs, rest). (Obj (obj_of kvs), rest)) (pmembers n (d - 1) r)))
         else if c = CHR ''['' then
           (if d = 0 then None
            else (case tok (CHR '']'') r of
                Some r' \<Rightarrow> Some (Arr [], r')
              | None \<Rightarrow> map_option (\<lambda>(vs, rest). (Arr vs, rest)) (pelems n (d - 1) r)))
         else if c = CHR 0x22 then map_option (\<lambda>(t, rest). (Str t, rest)) (pstr r)
         else if c = CHR ''t'' then plit ''true'' (Bool True) (c # r)
         else if c = CHR ''f'' then plit ''false'' (Bool False) (c # r)
         else if c = CHR ''n'' then plit ''null'' Null (c # r)
         else map_option (\<lambda>(lit, rest). (Num lit, rest)) (pnum (c # r)))"
| "pelems 0 d s = None"
| "pelems (Suc n) d s =
    (case pval n d s of
       None \<Rightarrow> None
     | Some (v, r) \<Rightarrow>
         (case tok (CHR '','') r of
            Some r' \<Rightarrow> map_option (\<lambda>(vs, rest). (v # vs, rest)) (pelems n d r')
          | None \<Rightarrow> map_option (\<lambda>r'. ([v], r')) (tok (CHR '']'') r)))"
| "pmembers 0 d s = None"
| "pmembers (Suc n) d s =
    (case tok (CHR 0x22) s of
       None \<Rightarrow> None
     | Some r0 \<Rightarrow>
         (case pstr r0 of
            None \<Rightarrow> None
          | Some (k, r1) \<Rightarrow>
             (case tok (CHR '':'') r1 of
                None \<Rightarrow> None
              | Some r2 \<Rightarrow>
                  (case pval n d r2 of
                     None \<Rightarrow> None
                   | Some (v, r) \<Rightarrow>
                       (case tok (CHR '','') r of
                          Some r' \<Rightarrow>
                            map_option (\<lambda>(kvs, rest). ((k, v) # kvs, rest)) (pmembers n d r')
                        | None \<Rightarrow> map_option (\<lambda>r'. ([(k, v)], r')) (tok (CHR ''}'') r))))))"

definition max_depth :: nat where
  "max_depth = 10000"

text \<open>\<open>Decoder.Decode\<close> with \<open>UseNumber\<close>: the first value and the unread rest.\<close>

definition Decode :: "string \<Rightarrow> (gv \<times> string) option" where
  "Decode s = pval (Suc (length s)) max_depth s"

section \<open>Numbers as \<open>float64\<close>\<close>

text \<open>
  Without \<open>UseNumber\<close> a number becomes the nearest \<open>float64\<close> (ties to even; out of range is an
  error) and is printed again with the fewest digits that determine it, in exponent form below
  \<open>1e-6\<close> and from \<open>1e21\<close> on. Exact rationals \<open>(p, q)\<close> stand for \<open>p / q\<close>.
\<close>

type_synonym ratio = "nat \<times> nat"

definition lit_parts :: "string \<Rightarrow> bool \<times> nat \<times> int" where
  "lit_parts lit =
    (let neg = HasPrefix lit ''-'';
         body = TrimPrefix lit ''-'';
         ip = takeWhile is_digit body;
         r = dropWhile is_digit body;
         fp = (if HasPrefix r ''.'' then takeWhile is_digit (drop 1 r) else []);
         r' = (if HasPrefix r ''.'' then dropWhile is_digit (drop 1 r) else r);
         ex = drop 1 r';
         e = (if HasPrefix ex ''-'' then - int (digits_val (drop 1 ex))
              else int (digits_val (TrimPrefix ex ''+'')))
     in (neg, digits_val (ip @ fp), e - int (length fp)))"

definition scale10 :: "nat \<Rightarrow> int \<Rightarrow> ratio" where
  "scale10 m e = (if 0 \<le> e then (m * 10 ^ nat e, 1) else (m, 10 ^ nat (- e)))"

definition scale2 :: "nat \<Rightarrow> int \<Rightarrow> ratio" where
  "scale2 m e = (if 0 \<le> e then (m * 2 ^ nat e, 1) else (m, 2 ^ nat (- e)))"

definition req :: "ratio \<Rightarrow> ratio \<Rightarrow> bool" where
  "req x y \<longleftrightarrow> fst x * snd y = fst y * snd x"

definition rle :: "ratio \<Rightarrow> ratio \<Rightarrow> bool" where
  "rle x y \<longleftrightarrow> fst x * snd y \<le> fst y * snd x"

definition round_half_even :: "nat \<Rightarrow> nat \<Rightarrow> nat" where
  "round_half_even p q =
    (let d = p div q; r = p mod q in
     if 2 * r < q then d else if q < 2 * r then Suc d else if even d then d else Suc d)"

fun bitlen :: "nat \<Rightarrow> nat" where
  "bitlen n = (if n = 0 then 0 else Suc (bitlen (n div 2)))"

declare bitlen.simps [simp del]

definition f64_round :: "ratio \<Rightarrow> ratio" where
  "f64_round x =
    (let (p, q) = x;
         k = int (bitlen p) - int (bitlen q);
         fl = (if rle (scale2 1 k) x then k else k - 1);
         e = max (- 1074) (fl - 52);
         m = (if 0 \<le> e then round_half_even p (q * 2 ^ nat e)
              else round_half_even (p * 2 ^ nat (- e)) q)
     in scale2 m e)"

definition f64_overflow :: "ratio \<Rightarrow> bool" where
  "f64_overflow x \<longleftrightarrow> rle (2 ^ 1024 - 2 ^ 970, 1) x"

fun lead10 :: "nat \<Rightarrow> nat \<Rightarrow> nat \<Rightarrow> nat" where
  "lead10 0 p q = 0"
| "lead10 (Suc n) p q = (if q \<le> p then 0 else Suc (lead10 n (10 * p) q))"

definition dec_point :: "ratio \<Rightarrow> int" where
  "dec_point x =
    (let (p, q) = x in
     if q \<le> p then int (length (Itoa (p div q))) else 1 - int (lead10 400 p q))"

definition digits_at :: "ratio \<Rightarrow> nat \<Rightarrow> (nat \<times> int) option" where
  "digits_at x n =
    (let (p, q) = x;
         k = dec_point x - int n;
         (a, b) = (if 0 \<le> k then (p, q * 10 ^ nat k) else (p * 10 ^ nat (- k), q));
         d = a div b;
         lo = req (f64_round (scale10 d k)) x;
         hi = req (f64_round (scale10 (Suc d) k)) x
     in if lo \<and> hi then Some (if 2 * (a mod b) \<le> b then d else Suc d, k)
        else if lo then Some (d, k) else if hi then Some (Suc d, k) else None)"

definition shortest :: "ratio \<Rightarrow> nat \<times> int" where
  "shortest x = hd (List.map_filter (digits_at x) [1..<18])"

definition strip_zeros :: "string \<Rightarrow> string" where
  "strip_zeros s = TrimRightByte s (CHR ''0'')"

definition f64_format :: "ratio \<Rightarrow> string" where
  "f64_format x =
    (if fst x = 0 then ''0''
     else
       let (c, k) = shortest x;
           ds = strip_zeros (Itoa c);
           dp = int (length (Itoa c)) + k;
           ex = dp - 1
       in if rle (f64_round (1, 1000000)) x \<and> \<not> rle (10 ^ 21, 1) x then
            (if dp \<le> 0 then ''0.'' @ replicate (nat (- dp)) (CHR ''0'') @ ds
             else if int (length ds) \<le> dp
             then ds @ replicate (nat (dp - int (length ds))) (CHR ''0'')
             else take (nat dp) ds @ ''.'' @ drop (nat dp) ds)
          else
            [hd ds] @ (if tl ds = [] then [] else ''.'' @ tl ds) @ ''e''
            @ (if ex < 0 then ''-'' @ Itoa (nat (- ex)) else ''+'' @ Itoa (nat ex)))"

definition f64_text :: "string \<Rightarrow> string option" where
  "f64_text lit =
    (let (neg, m, e) = lit_parts lit; x = scale10 m e in
     if f64_overflow x then None
     else Some ((if neg then ''-'' else []) @ f64_format (f64_round x)))"

text \<open>Numbers of a decoded value as \<open>float64\<close>; \<open>None\<close> when one of them is out of range.\<close>

fun opt_all :: "'a option list \<Rightarrow> 'a list option" where
  "opt_all [] = Some []"
| "opt_all (x # xs) = (case x of None \<Rightarrow> None | Some y \<Rightarrow> map_option (\<lambda>ys. y # ys) (opt_all xs))"

fun to_float :: "gv \<Rightarrow> gv option" where
  "to_float (Num lit) = map_option Num (f64_text lit)"
| "to_float (Arr vs) = map_option Arr (opt_all (map to_float vs))"
| "to_float (Obj kvs) =
    map_option Obj
      (opt_all (map (\<lambda>kv. map_option (\<lambda>v. (fst kv, v)) (to_float (snd kv))) kvs))"
| "to_float v = Some v"

text \<open>\<open>json.Unmarshal\<close> into an \<open>any\<close>.\<close>

definition Unmarshal :: "string \<Rightarrow> gv option" where
  "Unmarshal s =
    (case Decode s of
       None \<Rightarrow> None
     | Some (v, rest) \<Rightarrow> if skip_ws rest = [] then to_float v else None)"

end
