(* ===== verification/Schema.thy ===== *)
theory Schema
  imports Json
begin

text \<open>
  The tables of the archive database (\<open>OpenStore\<close> in \<open>internal/archive/store.go\<close>) as records of rows,
  and the \<open>Record\<close> of \<open>internal/archive/types.go\<close>.

  A table is the list of its rows in rowid order. A \<open>TEXT\<close> column that may be \<open>NULL\<close> is always read
  through \<open>COALESCE(...,'')\<close>, so \<open>NULL\<close> is the empty string here. A \<open>time.Time\<close> is represented by its
  \<open>RFC3339Nano\<close> text, which is what the database holds and compares.

  A gzip column is symbolic: nothing (\<open>NULL\<close> or no bytes), a gzip stream of some content, or bytes that are
  not a complete gzip stream.

  The clock the triggers read with \<open>strftime('%Y-%m-%dT%H:%M:%fZ','now')\<close> belongs to the environment: \<open>sql_now\<close> gives
  its reading when the event with a given sequence number is recorded. Nothing constrains it.
\<close>

datatype gz =
    NoData
  | Stream string
  | Corrupt string

datatype blob_data =
    GzipCodec gz
  | OtherCodec string

record blob_row =
  bl_hash :: string
  bl_media :: string
  bl_raw_size :: int
  bl_data :: blob_data

type_synonym facets = "(string \<times> string list) list"

record Record =
  RequestID :: string
  TraceID :: string
  SessionID :: string
  ParentResponseID :: string
  ResponseID :: string
  KeyID :: string
  PrincipalID :: string
  CredentialHash :: string
  PrincipalAlias :: string
  Summary :: string
  ResponsePreview :: string
  ProjectPath :: string
  ProjectName :: string
  GitRemote :: string
  ThreadID :: string
  TurnID :: string
  WindowID :: string
  RequestKind :: string
  ThreadSource :: string
  Client :: string
  SourceFormat :: string
  RequestedModel :: string
  Model :: string
  Streaming :: bool
  Outcome :: string
  StatusCode :: int
  Error :: string
  StartedAt :: string
  CompletedAt :: string
  OriginalRequest :: string
  UpstreamRequest :: string
  Response :: string
  Truncated :: bool
  Metadata :: gv
  Facets :: facets

record rec_row =
  r_id :: nat
  request_id :: string
  trace_id :: string
  session_id :: string
  key_id :: string
  summary :: string
  response_preview :: string
  source_format :: string
  requested_model :: string
  model :: string
  streaming :: bool
  outcome :: string
  status_code :: int
  error_text :: string
  started_at :: string
  completed_at :: string
  parent_response_id :: string
  response_id :: string
  original_ref :: string
  upstream_ref :: string
  response_ref :: string
  truncated :: bool
  metadata_json :: string
  facets_json :: string
  principal_id :: string
  credential_hash :: string
  original_request_gz :: gz
  upstream_request_gz :: gz
  response_gz :: gz

record turn_row =
  t_id :: nat
  t_request_id :: string
  t_session_id :: string
  t_key_id :: string
  t_summary :: string
  t_response_preview :: string
  t_requested_model :: string
  t_model :: string
  t_outcome :: string
  t_status_code :: int
  t_started_at :: string
  t_completed_at :: string
  t_facets_json :: string
  t_principal_id :: string
  t_credential_hash :: string
  t_turn_id :: string
  t_tool_names_json :: string
  t_request_kinds_json :: string

record summary_row =
  ss_session_id :: string
  ss_requests :: nat
  ss_first_at :: string
  ss_last_at :: string
  ss_key_id :: string
  ss_principal_id :: string
  ss_model :: string
  ss_project :: string
  ss_summary :: string
  ss_summary_at :: string

record principal_row =
  cp_hash :: string
  cp_principal :: string
  cp_alias :: string
  cp_status :: string
  cp_updated_at :: string

record event_row =
  ev_sequence :: nat
  ev_request_id :: string
  ev_session_id :: string
  ev_previous_session_id :: string
  ev_recorded_at :: string

record digest_row =
  dg_session_id :: string
  dg_requests :: nat
  dg_first_at :: string
  dg_last_at :: string
  dg_records_sha256 :: string
  dg_max_ingest_sequence :: nat

record turn_text_row =
  tt_session_id :: string
  tt_turn_id :: string
  tt_text :: gz

record db =
  blobs :: "blob_row list"
  records :: "rec_row list"
  record_facets :: "(string \<times> string \<times> string) list"
  session_summaries :: "summary_row list"
  session_facets :: "(string \<times> string \<times> string) list"
  session_indexed_requests :: "(string \<times> string) list"
  normalized_response_requests :: "string list"
  previewed_requests :: "(string \<times> nat) list"
  repair_versions :: "(string \<times> nat) list"
  credential_principals :: "principal_row list"
  turn_records :: "turn_row list"
  turn_texts :: "turn_text_row list"
  ingest_clock :: nat
  ingest_events :: "event_row list"
  export_digests :: "digest_row list"
  tombstone_safe_after :: nat
  sql_now :: "nat \<Rightarrow> string"

text \<open>A new archive: no rows, the clock at zero, every sequence covered by the tombstone history.\<close>

definition empty_db :: db where
  "empty_db =
    \<lparr>blobs = [], records = [], record_facets = [], session_summaries = [], session_facets = [],
     session_indexed_requests = [], normalized_response_requests = [], previewed_requests = [],
     repair_versions = [], credential_principals = [], turn_records = [], turn_texts = [],
     ingest_clock = 0, ingest_events = [], export_digests = [], tombstone_safe_after = 0,
     sql_now = (\<lambda>_. ''1970-01-01T00:00:00.000Z'')\<rparr>"

text \<open>A record row with every column at its zero value.\<close>

definition blank_row :: rec_row where
  "blank_row =
    \<lparr>r_id = 0, request_id = [], trace_id = [], session_id = [], key_id = [], summary = [],
     response_preview = [], source_format = [], requested_model = [], model = [], streaming = False,
     outcome = [], status_code = 0, error_text = [], started_at = [], completed_at = [],
     parent_response_id = [], response_id = [], original_ref = [], upstream_ref = [], response_ref = [],
     truncated = False, metadata_json = [], facets_json = [], principal_id = [], credential_hash = [],
     original_request_gz = NoData, upstream_request_gz = NoData, response_gz = NoData\<rparr>"

definition blank_record :: Record where
  "blank_record =
    \<lparr>RequestID = [], TraceID = [], SessionID = [], ParentResponseID = [], ResponseID = [], KeyID = [],
     PrincipalID = [], CredentialHash = [], PrincipalAlias = [], Summary = [], ResponsePreview = [],
     ProjectPath = [], ProjectName = [], GitRemote = [], ThreadID = [], TurnID = [], WindowID = [], RequestKind = [],
     ThreadSource = [], Client = [], SourceFormat = [], RequestedModel = [], Model = [], Streaming = False, Outcome = [],
     StatusCode = 0, Error = [], StartedAt = [], CompletedAt = [], OriginalRequest = [], UpstreamRequest = [],
     Response = [], Truncated = False, Metadata = Null, Facets = []\<rparr>"

end
