(* ===== verification/Ingest.thy ===== *)
theory Ingest
  imports Schema
begin

text \<open>
  The \<open>records\<close> table with its triggers (\<open>OpenStore\<close> in \<open>internal/archive/store.go\<close>): every insert, update and
  delete of a row advances the ingest clock by one and appends an event that names the session of the row and, when
  the row moved, the session it left. The events are what delta exports are computed from.
\<close>

section \<open>Operations\<close>

definition fire :: "string \<Rightarrow> string \<Rightarrow> string \<Rightarrow> db \<Rightarrow> db" where
  "fire rq sess prev d =
    (let n = ingest_clock d + 1
     in d\<lparr>ingest_clock := n,
          ingest_events := ingest_events d @
            [\<lparr>ev_sequence = n, ev_request_id = rq, ev_session_id = sess, ev_previous_session_id = prev,
              ev_recorded_at = sql_now d n\<rparr>]\<rparr>)"

definition fire_update :: "rec_row \<Rightarrow> rec_row \<Rightarrow> db \<Rightarrow> db" where
  "fire_update old new d =
    fire (request_id new) (session_id new)
      (if session_id old \<noteq> session_id new then session_id old else []) d"

text \<open>\<open>UPDATE records SET ... WHERE ...\<close>: the matching rows are rewritten and each fires the update trigger.\<close>

definition update_records :: "(rec_row \<Rightarrow> bool) \<Rightarrow> (rec_row \<Rightarrow> rec_row) \<Rightarrow> db \<Rightarrow> db" where
  "update_records P f d =
    fold (\<lambda>r. fire_update r (f r)) (filter P (records d))
      (d\<lparr>records := map (\<lambda>r. if P r then f r else r) (records d)\<rparr>)"

definition next_id :: "rec_row list \<Rightarrow> nat" where
  "next_id rs = fold max (map r_id rs) 0 + 1"

definition insert_record :: "rec_row \<Rightarrow> db \<Rightarrow> db" where
  "insert_record row d =
    fire (request_id row) (session_id row) []
      (d\<lparr>records := records d @ [row\<lparr>r_id := next_id (records d)\<rparr>]\<rparr>)"

definition delete_records :: "(rec_row \<Rightarrow> bool) \<Rightarrow> db \<Rightarrow> db" where
  "delete_records P d =
    fold (\<lambda>r. fire (request_id r) (session_id r) []) (filter P (records d))
      (d\<lparr>records := filter (\<lambda>r. \<not> P r) (records d)\<rparr>)"

text \<open>\<open>INSERT ... ON CONFLICT(request_id) DO UPDATE\<close>: \<open>merge\<close> is the \<open>SET\<close> clause.\<close>

definition upsert_record :: "(rec_row \<Rightarrow> rec_row) \<Rightarrow> rec_row \<Rightarrow> db \<Rightarrow> db" where
  "upsert_record merge row d =
    (if request_id row \<in> request_id ` set (records d)
     then update_records (\<lambda>r. request_id r = request_id row) merge d
     else insert_record row d)"

section \<open>The event log\<close>

text \<open>The log is in sequence order and nothing in it is later than the clock.\<close>

definition log_ok :: "db \<Rightarrow> bool" where
  "log_ok d \<longleftrightarrow> sorted_wrt (<) (map ev_sequence (ingest_events d))
    \<and> (\<forall>e \<in> set (ingest_events d). ev_sequence e \<le> ingest_clock d)"

lemma fire_simps [row_simps]:
  "records (fire a b c d) = records d" "ingest_clock (fire a b c d) = Suc (ingest_clock d)"
  "ingest_events (fire a b c d) = ingest_events d @
    [\<lparr>ev_sequence = Suc (ingest_clock d), ev_request_id = a, ev_session_id = b, ev_previous_session_id = c,
      ev_recorded_at = sql_now d (Suc (ingest_clock d))\<rparr>]"
  "blobs (fire a b c d) = blobs d" "record_facets (fire a b c d) = record_facets d"
  "session_summaries (fire a b c d) = session_summaries d" "session_facets (fire a b c d) = session_facets d"
  "session_indexed_requests (fire a b c d) = session_indexed_requests d"
  "turn_records (fire a b c d) = turn_records d" "export_digests (fire a b c d) = export_digests d"
  "credential_principals (fire a b c d) = credential_principals d"
  "tombstone_safe_after (fire a b c d) = tombstone_safe_after d" "sql_now (fire a b c d) = sql_now d"
  by (simp_all add: fire_def Let_def)

lemma log_ok_fire: "log_ok d \<Longrightarrow> log_ok (fire a b c d)"
  by (auto simp: log_ok_def row_simps sorted_wrt_append le_imp_less_Suc)

text \<open>A fold of triggers changes the clock and the log only.\<close>

definition fires :: "(string \<times> string \<times> string) list \<Rightarrow> db \<Rightarrow> db" where
  "fires xs = fold (\<lambda>(a, b, c). fire a b c) xs"

lemma fires_simps [simp]: "fires [] d = d" "fires ((a, b, c) # xs) d = fires xs (fire a b c d)"
  by (simp_all add: fires_def)

lemma fires_keeps [row_simps]:
  "records (fires xs d) = records d" "blobs (fires xs d) = blobs d"
  "record_facets (fires xs d) = record_facets d"
  "session_summaries (fires xs d) = session_summaries d" "session_facets (fires xs d) = session_facets d"
  "session_indexed_requests (fires xs d) = session_indexed_requests d"
  "turn_records (fires xs d) = turn_records d" "export_digests (fires xs d) = export_digests d"
  "credential_principals (fires xs d) = credential_principals d"
  "tombstone_safe_after (fires xs d) = tombstone_safe_after d" "sql_now (fires xs d) = sql_now d"
  "ingest_clock (fires xs d) = ingest_clock d + length xs"
  by (induction xs arbitrary: d; auto simp: row_simps)+

lemma log_ok_fires: "log_ok d \<Longrightarrow> log_ok (fires xs d)"
  by (induction xs arbitrary: d) (auto simp: log_ok_fire)

lemma events_fires:
  "\<exists>new. ingest_events (fires xs d) = ingest_events d @ new
    \<and> map (\<lambda>e. (ev_request_id e, ev_session_id e, ev_previous_session_id e)) new = xs
    \<and> (\<forall>e \<in> set new. ingest_clock d < ev_sequence e)"
proof (induction xs arbitrary: d)
  case (Cons x xs)
  obtain a b c where x: "x = (a, b, c)" by (cases x)
  from Cons.IH [of "fire a b c d"] obtain new where
    "ingest_events (fires xs (fire a b c d)) = ingest_events (fire a b c d) @ new"
    "map (\<lambda>e. (ev_request_id e, ev_session_id e, ev_previous_session_id e)) new = xs"
    "\<forall>e \<in> set new. Suc (ingest_clock d) < ev_sequence e"
    by (auto simp: row_simps)
  then show ?case
    by (intro exI [of _ "\<lparr>ev_sequence = Suc (ingest_clock d), ev_request_id = a, ev_session_id = b,
        ev_previous_session_id = c, ev_recorded_at = sql_now d (Suc (ingest_clock d))\<rparr> # new"]) (auto simp: x row_simps)
qed simp

definition update_event :: "rec_row \<Rightarrow> rec_row \<Rightarrow> string \<times> string \<times> string" where
  "update_event old new =
    (request_id new, session_id new, if session_id old \<noteq> session_id new then session_id old else [])"

lemma update_records_fires:
  "update_records P f d =
    fires (map (\<lambda>r. update_event r (f r)) (filter P (records d)))
      (d\<lparr>records := map (\<lambda>r. if P r then f r else r) (records d)\<rparr>)"
  by (simp add: update_records_def fires_def fold_map comp_def fire_update_def [abs_def] update_event_def)

lemma insert_record_fires:
  "insert_record row d =
    fires [(request_id row, session_id row, [])]
      (d\<lparr>records := records d @ [row\<lparr>r_id := next_id (records d)\<rparr>]\<rparr>)"
  by (simp add: insert_record_def)

lemma delete_records_fires:
  "delete_records P d =
    fires (map (\<lambda>r. (request_id r, session_id r, [])) (filter P (records d)))
      (d\<lparr>records := filter (\<lambda>r. \<not> P r) (records d)\<rparr>)"
  by (simp add: delete_records_def fires_def fold_map comp_def)

section \<open>Nothing changes unlogged\<close>

text \<open>
  A transition between two states of the archive: the log is extended with later events only, and every row that
  appears, changes, moves or disappears has a new event that names its request and its session.
\<close>

definition logged :: "db \<Rightarrow> db \<Rightarrow> bool" where
  "logged d d' \<longleftrightarrow>
    ingest_clock d \<le> ingest_clock d' \<and> (log_ok d \<longrightarrow> log_ok d') \<and>
    (\<exists>new. ingest_events d' = ingest_events d @ new \<and> (\<forall>e \<in> set new. ingest_clock d < ev_sequence e) \<and>
      (\<forall>r \<in> set (records d') - set (records d).
         \<exists>e \<in> set new. ev_request_id e = request_id r \<and> ev_session_id e = session_id r) \<and>
      (\<forall>r \<in> set (records d) - set (records d').
         \<exists>e \<in> set new. ev_request_id e = request_id r \<and>
           (ev_session_id e = session_id r \<or> ev_previous_session_id e = session_id r)))"

lemma logged_same:
  assumes "records d' = records d" and "ingest_clock d' = ingest_clock d" and "ingest_events d' = ingest_events d"
  shows "logged d d'"
  using assms by (simp add: logged_def log_ok_def)

lemma logged_trans:
  assumes "logged d d'" and "logged d' d''"
  shows "logged d d''"
proof -
  obtain n1 where 1: "ingest_events d' = ingest_events d @ n1" "\<forall>e \<in> set n1. ingest_clock d < ev_sequence e"
    "\<forall>r \<in> set (records d') - set (records d).
       \<exists>e \<in> set n1. ev_request_id e = request_id r \<and> ev_session_id e = session_id r"
    "\<forall>r \<in> set (records d) - set (records d'). \<exists>e \<in> set n1. ev_request_id e = request_id r \<and>
       (ev_session_id e = session_id r \<or> ev_previous_session_id e = session_id r)"
    using assms(1) by (auto simp: logged_def)
  obtain n2 where 2: "ingest_events d'' = ingest_events d' @ n2" "\<forall>e \<in> set n2. ingest_clock d' < ev_sequence e"
    "\<forall>r \<in> set (records d'') - set (records d').
       \<exists>e \<in> set n2. ev_request_id e = request_id r \<and> ev_session_id e = session_id r"
    "\<forall>r \<in> set (records d') - set (records d''). \<exists>e \<in> set n2. ev_request_id e = request_id r \<and>
       (ev_session_id e = session_id r \<or> ev_previous_session_id e = session_id r)"
    using assms(2) by (auto simp: logged_def)
  have clock: "ingest_clock d \<le> ingest_clock d'" "ingest_clock d' \<le> ingest_clock d''"
    and log: "log_ok d \<longrightarrow> log_ok d''"
    using assms by (auto simp: logged_def)
  have "ingest_events d'' = ingest_events d @ (n1 @ n2)" using 1(1) 2(1) by simp
  moreover have "\<forall>e \<in> set (n1 @ n2). ingest_clock d < ev_sequence e"
    using 1(2) 2(2) clock by (auto intro: le_less_trans)
  moreover have "\<forall>r \<in> set (records d'') - set (records d).
       \<exists>e \<in> set (n1 @ n2). ev_request_id e = request_id r \<and> ev_session_id e = session_id r"
    using 1(3) 2(3) by (metis DiffD1 DiffD2 DiffI Un_iff set_append)
  moreover have "\<forall>r \<in> set (records d) - set (records d''). \<exists>e \<in> set (n1 @ n2). ev_request_id e = request_id r \<and>
       (ev_session_id e = session_id r \<or> ev_previous_session_id e = session_id r)"
    using 1(4) 2(4) by (metis DiffD1 DiffD2 DiffI Un_iff set_append)
  ultimately show ?thesis using clock log unfolding logged_def by (intro conjI exI [of _ "n1 @ n2"]) auto
qed

lemma logged_fires:
  assumes "\<forall>r \<in> set (records d') - set (records d). \<exists>p. (request_id r, session_id r, p) \<in> set xs"
    and "\<forall>r \<in> set (records d) - set (records d'). \<exists>s p. (request_id r, s, p) \<in> set xs \<and> session_id r \<in> {s, p}"
    and "ingest_clock d' = ingest_clock d" and "ingest_events d' = ingest_events d"
  shows "logged d (fires xs d')"
proof -
  let ?key = "\<lambda>e. (ev_request_id e, ev_session_id e, ev_previous_session_id e)"
  obtain new where new: "ingest_events (fires xs d') = ingest_events d @ new" "map ?key new = xs"
    "\<forall>e \<in> set new. ingest_clock d < ev_sequence e"
    using events_fires [of xs d'] assms(3,4) by auto
  have in_xs: "(a, b, c) \<in> set xs \<longleftrightarrow> (\<exists>e \<in> set new. ?key e = (a, b, c))" for a b c
    unfolding new(2) [symmetric] by auto
  have "log_ok d \<longrightarrow> log_ok (fires xs d')"
    using log_ok_fires [of d' xs] assms(3,4) by (simp add: log_ok_def)
  then show ?thesis
    unfolding logged_def using new assms(1,2,3)
    by (intro conjI exI [of _ new]) (auto simp: row_simps in_xs; fastforce)+
qed

lemma logged_update:
  assumes "\<And>r. request_id (f r) = request_id r"
  shows "logged d (update_records P f d)"
  unfolding update_records_fires
proof (rule logged_fires)
  let ?rs' = "map (\<lambda>r. if P r then f r else r) (records d)"
  let ?xs = "map (\<lambda>r. update_event r (f r)) (filter P (records d))"
  have changed: "update_event r (f r) \<in> set ?xs" if "r \<in> set (records d)" "P r" for r
    using that by auto
  show "\<forall>r \<in> set (records (d\<lparr>records := ?rs'\<rparr>)) - set (records d). \<exists>p. (request_id r, session_id r, p) \<in> set ?xs"
  proof
    fix r
    assume "r \<in> set (records (d\<lparr>records := ?rs'\<rparr>)) - set (records d)"
    then obtain r0 where "r0 \<in> set (records d)" "P r0" "r = f r0" by (auto split: if_splits)
    with changed [of r0] show "\<exists>p. (request_id r, session_id r, p) \<in> set ?xs"
      unfolding update_event_def by blast
  qed
  show "\<forall>r \<in> set (records d) - set (records (d\<lparr>records := ?rs'\<rparr>)).
      \<exists>s p. (request_id r, s, p) \<in> set ?xs \<and> session_id r \<in> {s, p}"
  proof
    fix r
    assume r: "r \<in> set (records d) - set (records (d\<lparr>records := ?rs'\<rparr>))"
    have "P r"
    proof (rule ccontr)
      assume "\<not> P r"
      with r have "r \<in> set ?rs'" by (auto simp: image_iff intro!: bexI [of _ r])
      with r show False by simp
    qed
    with changed [of r] r have "update_event r (f r) \<in> set ?xs" by blast
    then have "(request_id r, session_id (f r), if session_id r \<noteq> session_id (f r) then session_id r else []) \<in> set ?xs"
      by (simp only: update_event_def assms)
    moreover have "session_id r \<in> {session_id (f r), if session_id r \<noteq> session_id (f r) then session_id r else []}"
      by simp
    ultimately show "\<exists>s p. (request_id r, s, p) \<in> set ?xs \<and> session_id r \<in> {s, p}" by blast
  qed
qed simp_all

lemma logged_insert: "logged d (insert_record row d)"
  unfolding insert_record_fires by (rule logged_fires) auto

lemma logged_delete: "logged d (delete_records P d)"
  unfolding delete_records_fires by (rule logged_fires) (auto simp: image_iff)

lemma logged_upsert:
  assumes "\<And>r. request_id (merge r) = request_id r"
  shows "logged d (upsert_record merge row d)"
  by (simp add: upsert_record_def logged_update [OF assms] logged_insert)

text \<open>
  An operation of the archive that may fail; a failed operation is rolled back. A loop of logged operations is
  logged.
\<close>

fun foldM_res :: "('a \<Rightarrow> 's \<Rightarrow> 's result) \<Rightarrow> 'a list \<Rightarrow> 's \<Rightarrow> 's result" where
  "foldM_res f [] s = Inr s"
| "foldM_res f (x # xs) s = bind_res (f x s) (foldM_res f xs)"

lemma foldM_res_rel:
  assumes "foldM_res f xs s = Inr s'" and "\<And>x s s'. f x s = Inr s' \<Longrightarrow> Q s s'"
    and "\<And>s. Q s s" and "\<And>s s' s''. Q s s' \<Longrightarrow> Q s' s'' \<Longrightarrow> Q s s''"
  shows "Q s s'"
  using assms(1)
proof (induction xs arbitrary: s)
  case (Cons x xs)
  then obtain s1 where "f x s = Inr s1" "foldM_res f xs s1 = Inr s'" by (auto simp: bind_res_Inr_iff)
  then show ?case using Cons.IH assms(2,4) by blast
qed (simp add: assms(3))

locale logged_op =
  fixes op :: "'a \<Rightarrow> db \<Rightarrow> db result"
  assumes op_logged: "op x d = Inr d' \<Longrightarrow> logged d d'"
begin

lemma loop_logged: "foldM_res op xs d = Inr d' \<Longrightarrow> logged d d'"
  by (erule foldM_res_rel) (auto intro: op_logged logged_same logged_trans)

end

end
