(* ===== verification/Hashing.thy ===== *)
theory Hashing
  imports Go_Strings "HOL-Library.Word"
begin

text \<open>
  The digests and text encodings of the archive: \<open>crypto/sha256\<close> on 32-bit words,
  \<open>encoding/hex\<close> and \<open>encoding/base64\<close> (the standard padded alphabet).
\<close>

unbundle bit_operations_syntax

section \<open>SHA-256\<close>

type_synonym u32 = "32 word"

definition sha_k :: "u32 list" where
  "sha_k = [
    1116352408, 1899447441, 3049323471, 3921009573, 961987163, 1508970993, 2453635748, 2870763221,
    3624381080, 310598401, 607225278, 1426881987, 1925078388, 2162078206, 2614888103, 3248222580,
    3835390401, 4022224774, 264347078, 604807628, 770255983, 1249150122, 1555081692, 1996064986,
    2554220882, 2821834349, 2952996808, 3210313671, 3336571891, 3584528711, 113926993, 338241895,
    666307205, 773529912, 1294757372, 1396182291, 1695183700, 1986661051, 2177026350, 2456956037,
    2730485921, 2820302411, 3259730800, 3345764771, 3516065817, 3600352804, 4094571909, 275423344,
    430227734, 506948616, 659060556, 883997877, 958139571, 1322822218, 1537002063, 1747873779,
    1955562222, 2024104815, 2227730452, 2361852424, 2428436474, 2756734187, 3204031479, 3329325298]"

definition sha_init :: "u32 list" where
  "sha_init = [1779033703, 3144134277, 1013904242, 2773480762,
               1359893119, 2600822924, 528734635, 1541459225]"

definition rotr32 :: "nat \<Rightarrow> u32 \<Rightarrow> u32" where
  "rotr32 n w = drop_bit n w OR push_bit (32 - n) w"

definition sigma0 :: "u32 \<Rightarrow> u32" where
  "sigma0 w = rotr32 7 w XOR rotr32 18 w XOR drop_bit 3 w"

definition sigma1 :: "u32 \<Rightarrow> u32" where
  "sigma1 w = rotr32 17 w XOR rotr32 19 w XOR drop_bit 10 w"

text \<open>The message schedule, newest word first.\<close>

fun sha_schedule :: "nat \<Rightarrow> u32 list \<Rightarrow> u32 list" where
  "sha_schedule 0 ws = ws"
| "sha_schedule (Suc n) ws =
    sha_schedule n ((sigma1 (ws ! 1) + ws ! 6 + sigma0 (ws ! 14) + ws ! 15) # ws)"

fun sha_round :: "u32 list \<Rightarrow> u32 \<times> u32 \<Rightarrow> u32 list" where
  "sha_round [a, b, c, d, e, f, g, h] (k, w) =
    (let s1 = rotr32 6 e XOR rotr32 11 e XOR rotr32 25 e;
         ch = (e AND f) XOR (NOT e AND g);
         t1 = h + s1 + ch + k + w;
         s0 = rotr32 2 a XOR rotr32 13 a XOR rotr32 22 a;
         maj = (a AND b) XOR (a AND c) XOR (b AND c)
     in [t1 + s0 + maj, a, b, c, d + t1, e, f, g])"
| "sha_round st kw = st"

definition sha_block :: "u32 list \<Rightarrow> u32 list \<Rightarrow> u32 list" where
  "sha_block st ws =
    map2 (+) st (foldl sha_round st (zip sha_k (rev (sha_schedule 48 (rev ws)))))"

fun be_words :: "nat list \<Rightarrow> u32 list" where
  "be_words (a # b # c # d # r) =
    (of_nat (((a * 256 + b) * 256 + c) * 256 + d)) # be_words r"
| "be_words r = []"

definition sha_pad :: "nat list \<Rightarrow> nat list" where
  "sha_pad m =
    (let n = length m; z = (119 - n mod 64) mod 64
     in m @ [128] @ replicate z 0
        @ map (\<lambda>i. (8 * n div 256 ^ (7 - i)) mod 256) [0..<8])"

function sha_blocks :: "u32 list \<Rightarrow> u32 list \<Rightarrow> u32 list" where
  "sha_blocks st ws =
    (if length ws < 16 then st else sha_blocks (sha_block st (take 16 ws)) (drop 16 ws))"
  by pat_completeness auto
termination
  by (relation "measure (\<lambda>(st, ws). length ws)") auto

declare sha_blocks.simps [simp del]

definition sha256 :: "string \<Rightarrow> nat list" where
  "sha256 s =
    concat (map (\<lambda>w. let n = unat w in
       [n div 16777216, n div 65536 mod 256, n div 256 mod 256, n mod 256])
      (sha_blocks sha_init (be_words (sha_pad (map byte s)))))"

section \<open>Hexadecimal\<close>

definition hexdigit :: "nat \<Rightarrow> char" where
  "hexdigit d = (if d < 10 then char_of (48 + d) else char_of (87 + d))"

definition hex_encode :: "nat list \<Rightarrow> string" where
  "hex_encode bs = concat (map (\<lambda>b. [hexdigit (b div 16), hexdigit (b mod 16)]) bs)"

definition hexval :: "char \<Rightarrow> nat option" where
  "hexval c =
    (let b = byte c in
     if 48 \<le> b \<and> b \<le> 57 then Some (b - 48)
     else if 97 \<le> b \<and> b \<le> 102 then Some (b - 87)
     else if 65 \<le> b \<and> b \<le> 70 then Some (b - 55)
     else None)"

text \<open>Whether \<open>hex.DecodeString\<close> accepts the text.\<close>

fun hex_valid :: "string \<Rightarrow> bool" where
  "hex_valid [] = True"
| "hex_valid [c] = False"
| "hex_valid (c # d # s) = (hexval c \<noteq> None \<and> hexval d \<noteq> None \<and> hex_valid s)"

definition sha256_hex :: "string \<Rightarrow> string" where
  "sha256_hex s = hex_encode (sha256 s)"

lemma length_hex_encode: "length (hex_encode bs) = 2 * length bs"
  by (induction bs) (auto simp: hex_encode_def)

lemma hexval_hexdigit: "d < 16 \<Longrightarrow> hexval (hexdigit d) = Some d"
  by (auto simp: hexval_def hexdigit_def)

lemma hex_valid_encode: "\<forall>b \<in> set bs. b < 256 \<Longrightarrow> hex_valid (hex_encode bs)"
  by (induction bs) (auto simp: hex_encode_def hexval_hexdigit)

lemma length_sha_round: "length st = 8 \<Longrightarrow> length (sha_round st kw) = 8"
  by (cases "(st, kw)" rule: sha_round.cases) (auto simp: Let_def)

lemma length_foldl_sha_round: "length st = 8 \<Longrightarrow> length (foldl sha_round st kws) = 8"
  by (induction kws arbitrary: st) (auto simp: length_sha_round)

lemma length_sha_block: "length st = 8 \<Longrightarrow> length (sha_block st ws) = 8"
  by (simp add: sha_block_def length_foldl_sha_round)

lemma length_sha_blocks: "length st = 8 \<Longrightarrow> length (sha_blocks st ws) = 8"
proof (induction st ws rule: sha_blocks.induct)
  case (1 st ws)
  then show ?case by (subst sha_blocks.simps) (simp add: length_sha_block)
qed

lemma length_sha256: "length (sha256 s) = 32"
proof -
  have "length (concat (map (\<lambda>w. let n = unat (w :: u32) in
       [n div 16777216, n div 65536 mod 256, n div 256 mod 256, n mod 256]) ws)) = 4 * length ws" for ws
    by (induction ws) (auto simp: Let_def)
  moreover have "length (sha_blocks sha_init ws) = 8" for ws
    by (rule length_sha_blocks) (simp add: sha_init_def)
  ultimately show ?thesis by (simp add: sha256_def)
qed

lemma sha256_bytes: "b \<in> set (sha256 s) \<Longrightarrow> b < 256"
proof -
  assume "b \<in> set (sha256 s)"
  then obtain w :: u32 where b: "b \<in> {unat w div 16777216, unat w div 65536 mod 256,
      unat w div 256 mod 256, unat w mod 256}"
    by (auto simp: sha256_def Let_def)
  have "unat w < 2 ^ 32" using unsigned_less [of w, where ?'a = nat] by simp
  then have "unat w div 16777216 < 256" by (simp add: less_mult_imp_div_less)
  with b show ?thesis by auto
qed

lemma length_sha256_hex: "length (sha256_hex s) = 64"
  by (simp add: sha256_hex_def length_hex_encode length_sha256)

lemma hex_valid_sha256_hex: "hex_valid (sha256_hex s)"
  unfolding sha256_hex_def by (rule hex_valid_encode) (auto dest: sha256_bytes)

section \<open>Base64 with padding\<close>

definition b64char :: "nat \<Rightarrow> char" where
  "b64char v =
    (if v < 26 then char_of (65 + v) else if v < 52 then char_of (71 + v)
     else if v < 62 then char_of (v - 4) else if v = 62 then CHR ''+'' else CHR ''/'')"

definition b64val :: "char \<Rightarrow> nat option" where
  "b64val c =
    (let b = byte c in
     if 65 \<le> b \<and> b \<le> 90 then Some (b - 65)
     else if 97 \<le> b \<and> b \<le> 122 then Some (b - 71)
     else if 48 \<le> b \<and> b \<le> 57 then Some (b + 4)
     else if b = 43 then Some 62 else if b = 47 then Some 63 else None)"

fun b64_encode :: "string \<Rightarrow> string" where
  "b64_encode [] = []"
| "b64_encode [a] =
    (let x = byte a in [b64char (x div 4), b64char (x mod 4 * 16), CHR ''='', CHR ''=''])"
| "b64_encode [a, b] =
    (let x = byte a; y = byte b in
     [b64char (x div 4), b64char (x mod 4 * 16 + y div 16), b64char (y mod 16 * 4), CHR ''=''])"
| "b64_encode (a # b # c # s) =
    (let x = byte a; y = byte b; z = byte c in
     [b64char (x div 4), b64char (x mod 4 * 16 + y div 16),
      b64char (y mod 16 * 4 + z div 64), b64char (z mod 64)] @ b64_encode s)"

text \<open>\<open>DecodeString\<close> skips carriage returns and line feeds and does not demand zero padding bits.\<close>

fun b64_quanta :: "string \<Rightarrow> string option" where
  "b64_quanta [] = Some []"
| "b64_quanta (p # q # r # t # s) =
    (case (b64val p, b64val q) of
       (Some x, Some y) \<Rightarrow>
         (let a = char_of (x * 4 + y div 16) in
          if r = CHR ''='' then (if t = CHR ''='' \<and> s = [] then Some [a] else None)
          else (case b64val r of
              None \<Rightarrow> None
            | Some z \<Rightarrow>
                (let b = char_of (y mod 16 * 16 + z div 4) in
                 if t = CHR ''='' then (if s = [] then Some [a, b] else None)
                 else (case b64val t of
                     None \<Rightarrow> None
                   | Some w \<Rightarrow>
                       map_option (\<lambda>rest. a # b # char_of (z mod 4 * 64 + w) # rest)
                         (b64_quanta s)))))
     | _ \<Rightarrow> None)"
| "b64_quanta _ = None"

definition b64_decode :: "string \<Rightarrow> string option" where
  "b64_decode s = b64_quanta (filter (\<lambda>c. byte c \<noteq> 10 \<and> byte c \<noteq> 13) s)"

lemma b64val_b64char: "v < 64 \<Longrightarrow> b64val (b64char v) = Some v"
  by (auto simp: b64val_def b64char_def Let_def)

lemma b64char_not_pad: "v < 64 \<Longrightarrow> b64char v \<noteq> CHR ''=''"
proof
  assume "v < 64" "b64char v = CHR ''=''"
  then have "b64val (CHR ''='') = Some v" using b64val_b64char by metis
  then show False by (simp add: b64val_def Let_def)
qed

lemma b64char_not_newline: "v < 64 \<Longrightarrow> byte (b64char v) \<noteq> 10 \<and> byte (b64char v) \<noteq> 13"
  by (auto simp: b64char_def)

lemma byte_less_256: "byte c < 256"
  using of_char_mod_256 [of c, where 'a = nat] by (metis mod_less_divisor zero_less_numeral)

lemma pack_div_mod:
  fixes q m c :: nat
  assumes "c < m"
  shows "(q * m + c) div m = q" and "(q * m + c) mod m = c"
  using assms by simp_all

lemma b64_quanta_encode: "b64_quanta (b64_encode s) = Some s"
proof (induction s rule: b64_encode.induct)
  case 1
  then show ?case by simp
next
  case (2 a)
  have "byte a div 4 < 64" using byte_less_256 [of a] by linarith
  then show ?case by (simp add: Let_def b64val_b64char)
next
  case (3 a b)
  have "byte a div 4 < 64" "byte a mod 4 * 16 + byte b div 16 < 64" "byte b mod 16 * 4 < 64"
    using byte_less_256 [of a] byte_less_256 [of b] by linarith+
  moreover have "byte b div 16 < 16" using byte_less_256 [of b] by linarith
  note pack_div_mod [OF this, of "byte a mod 4"] mod_less [OF this]
  ultimately show ?case
    by (simp add: Let_def b64val_b64char b64char_not_pad)
next
  case (4 a b c s)
  have bnds: "byte a div 4 < 64" "byte a mod 4 * 16 + byte b div 16 < 64"
    "byte b mod 16 * 4 + byte c div 64 < 64" "byte c mod 64 < 64"
    using byte_less_256 [of a] byte_less_256 [of b] byte_less_256 [of c] by linarith+
  have lt: "byte b div 16 < 16" "byte c div 64 < 4"
    using byte_less_256 [of b] byte_less_256 [of c] by linarith+
  note d = pack_div_mod [OF lt(1), of "byte a mod 4"] pack_div_mod [OF lt(2), of "byte b mod 16"]
    mod_less [OF lt(1)] mod_less [OF lt(2)]
  have e: "byte a div 4 * 4 + byte a mod 4 = byte a" "byte b div 16 * 16 + byte b mod 16 = byte b"
    "byte c div 64 * 64 + byte c mod 64 = byte c"
    by simp_all
  show ?case
    by (simp add: Let_def b64val_b64char b64char_not_pad bnds d e "4.IH" del: mult_Suc_right)
qed

lemma b64_encode_chars:
  "c \<in> set (b64_encode s) \<Longrightarrow> byte c \<noteq> 10 \<and> byte c \<noteq> 13"
proof (induction s rule: b64_encode.induct)
  case 1
  then show ?case by simp
next
  case (2 a)
  have "byte a div 4 < 64" "byte a mod 4 * 16 < 64" using byte_less_256 [of a] by linarith+
  with 2 show ?case by (auto simp: Let_def b64char_not_newline)
next
  case (3 a b)
  have "byte a div 4 < 64" "byte a mod 4 * 16 + byte b div 16 < 64" "byte b mod 16 * 4 < 64"
    using byte_less_256 [of a] byte_less_256 [of b] by linarith+
  with 3 show ?case by (auto simp: Let_def b64char_not_newline)
next
  case (4 a b c s)
  have "byte a div 4 < 64" "byte a mod 4 * 16 + byte b div 16 < 64"
    "byte b mod 16 * 4 + byte c div 64 < 64" "byte c mod 64 < 64"
    using byte_less_256 [of a] byte_less_256 [of b] byte_less_256 [of c] by linarith+
  with 4 show ?case by (auto simp: Let_def b64char_not_newline)
qed

theorem b64_decode_encode: "b64_decode (b64_encode s) = Some s"
proof -
  have "filter (\<lambda>c. byte c \<noteq> 10 \<and> byte c \<noteq> 13) (b64_encode s) = b64_encode s"
    by (rule filter_True) (auto dest: b64_encode_chars)
  then show ?thesis by (simp add: b64_decode_def b64_quanta_encode)
qed

end
