(* ===== verification/Identity.thy ===== *)
theory Identity
  imports Ingest Hashing Unicode_Case
begin

text \<open>
  Caller identity (\<open>internal/archive/identity.go\<close>): the identity fields of a record are completed from its metadata
  and from the credential table, and a change of the credential table is projected onto the searchable columns.

  \<open>fmt.Sprint\<close> of a metadata value that is neither a string, a boolean nor nil is the parameter \<open>sprint\<close>.
  SQLite's \<open>NOCASE\<close> collation folds ASCII letters only.
\<close>

section \<open>Facets\<close>

definition facet :: "facets \<Rightarrow> string \<Rightarrow> string list" where
  "facet fs name = (case obj_get fs name of Some vs \<Rightarrow> vs | None \<Rightarrow> [])"

definition firstFacet :: "facets \<Rightarrow> string \<Rightarrow> string" where
  "firstFacet fs name = (case facet fs name of v # _ \<Rightarrow> v | [] \<Rightarrow> [])"

text \<open>\<open>json.Unmarshal\<close> into a \<open>map[string][]string\<close>: values of another type leave zero values behind.\<close>

definition facet_values :: "gv \<Rightarrow> string list" where
  "facet_values v = (case v of Arr vs \<Rightarrow> map (\<lambda>x. case x of Str s \<Rightarrow> s | _ \<Rightarrow> []) vs | _ \<Rightarrow> [])"

definition decode_facets :: "string \<Rightarrow> facets" where
  "decode_facets s =
    (case Decode s of
       Some (Obj kvs, rest) \<Rightarrow> if skip_ws rest = [] then map (\<lambda>kv. (fst kv, facet_values (snd kv))) kvs else []
     | _ \<Rightarrow> [])"

definition facetsJSON :: "facets \<Rightarrow> string" where
  "facetsJSON fs = Marshal (Obj (map (\<lambda>kv. (fst kv, Arr (map Str (snd kv)))) fs))"

section \<open>Identity of a record\<close>

record CredentialPrincipal =
  cm_hash :: string
  cm_principal :: string
  cm_alias :: string
  cm_status :: string
  cm_updated_at :: string

definition Sprint :: "(gv \<Rightarrow> string) \<Rightarrow> gv \<Rightarrow> string" where
  "Sprint sprint v =
    (case v of
       Str s \<Rightarrow> s
     | Bool b \<Rightarrow> if b then ''true'' else ''false''
     | Null \<Rightarrow> ''<nil>''
     | _ \<Rightarrow> sprint v)"

definition metadata_get :: "gv \<Rightarrow> string \<Rightarrow> gv option" where
  "metadata_get md name = (case md of Obj kvs \<Rightarrow> obj_get kvs name | _ \<Rightarrow> None)"

fun identityString :: "(gv \<Rightarrow> string) \<Rightarrow> gv \<Rightarrow> string list \<Rightarrow> string" where
  "identityString sprint md [] = []"
| "identityString sprint md (name # names) =
    (case metadata_get md name of
       None \<Rightarrow> identityString sprint md names
     | Some v \<Rightarrow>
         let t = TrimSpace (Sprint sprint v) in
         if t \<noteq> [] \<and> t \<noteq> ''<nil>'' then t else identityString sprint md names)"

text \<open>\<open>if cond { record.Field = ... }\<close>, and a sequence of such statements.\<close>

definition on_if :: "(Record \<Rightarrow> bool) \<Rightarrow> (Record \<Rightarrow> Record) \<Rightarrow> Record \<Rightarrow> Record" where
  "on_if c f r = (if c r then f r else r)"

definition steps :: "(Record \<Rightarrow> Record) list \<Rightarrow> Record \<Rightarrow> Record" where
  "steps fs = fold (\<lambda>f. f) fs"

definition normalizeIdentityRecord :: "(gv \<Rightarrow> string) \<Rightarrow> Record \<Rightarrow> Record" where
  "normalizeIdentityRecord sprint =
    steps
      [on_if (\<lambda>r. Metadata r = Null) (\<lambda>r. r\<lparr>Metadata := Obj []\<rparr>),
       on_if (\<lambda>r. PrincipalID r = [])
         (\<lambda>r. r\<lparr>PrincipalID := identityString sprint (Metadata r) [''principal_id'']\<rparr>),
       on_if (\<lambda>r. CredentialHash r = [])
         (\<lambda>r. r\<lparr>CredentialHash := identityString sprint (Metadata r)
                  [''credential_hash'', ''key_hash'', ''api_key_hash'', ''key_id'']\<rparr>),
       on_if (\<lambda>r. KeyID r = []) (\<lambda>r. r\<lparr>KeyID := CredentialHash r\<rparr>),
       on_if (\<lambda>r. PrincipalID r \<noteq> []) (\<lambda>r. r\<lparr>Facets := obj_put ''principal.id'' [PrincipalID r] (Facets r)\<rparr>),
       on_if (\<lambda>r. CredentialHash r \<noteq> [])
         (\<lambda>r. r\<lparr>Facets := obj_put ''credential.hash'' [CredentialHash r] (Facets r)\<rparr>)]"

text \<open>The credential table as a map from the folded hash to principal and alias; a later row wins.\<close>

definition credentialPrincipalIndex :: "db \<Rightarrow> string \<rightharpoonup> string \<times> string" where
  "credentialPrincipalIndex d =
    map_of (rev (map (\<lambda>p. (ToLower (TrimSpace (cp_hash p)), (cp_principal p, cp_alias p))) (credential_principals d)))"

definition looksLikeCredentialHash :: "string \<Rightarrow> bool" where
  "looksLikeCredentialHash value =
    (let v = ToLower (TrimSpace value) in
     HasPrefix v ''sha256:'' \<and> length v = length ''sha256:'' + 64 \<and> hex_valid (TrimPrefix v ''sha256:''))"

definition resolveIdentity :: "(gv \<Rightarrow> string) \<Rightarrow> (string \<rightharpoonup> string \<times> string) \<Rightarrow> Record \<Rightarrow> Record" where
  "resolveIdentity sprint identities r0 =
    (let r1 = normalizeIdentityRecord sprint r0;
         c1 = TrimSpace (CredentialHash r1);
         candidate = (if c1 = [] then TrimSpace (KeyID r1) else c1)
     in if candidate = [] then r1
        else
          let found = identities (ToLower candidate);
              mapped = found \<noteq> None;
              pid = (case found of Some (p, _) \<Rightarrow> p | None \<Rightarrow> []);
              alias = (case found of Some (_, a) \<Rightarrow> a | None \<Rightarrow> [])
          in steps
              [on_if (\<lambda>r. CredentialHash r = [] \<and> (mapped \<or> looksLikeCredentialHash candidate))
                 (\<lambda>r. r\<lparr>CredentialHash := candidate,
                         Facets := obj_put ''credential.hash'' [candidate] (Facets r)\<rparr>),
               on_if (\<lambda>r. PrincipalID r = []) (\<lambda>r. r\<lparr>PrincipalID := pid\<rparr>),
               on_if (\<lambda>r. PrincipalAlias r = []) (\<lambda>r. r\<lparr>PrincipalAlias := alias\<rparr>),
               on_if (\<lambda>r. PrincipalID r \<noteq> [])
                 (\<lambda>r. r\<lparr>Facets := obj_put ''principal.id'' [PrincipalID r] (Facets r)\<rparr>)] r1)"

section \<open>The credential table\<close>

definition nocase :: "string \<Rightarrow> string" where
  "nocase s = map (\<lambda>c. if 65 \<le> byte c \<and> byte c \<le> 90 then char_of (byte c + 32) else c) s"

definition CredentialPrincipals :: "db \<Rightarrow> principal_row list" where
  "CredentialPrincipals d =
    sort_key cp_principal (sort_key cp_updated_at (sort_key (\<lambda>p. nocase (cp_hash p)) (credential_principals d)))"

definition cred_match :: "string \<Rightarrow> rec_row \<Rightarrow> bool" where
  "cred_match h r \<longleftrightarrow>
    nocase (credential_hash r) = nocase h \<or> (credential_hash r = [] \<and> nocase (key_id r) = nocase h)"

definition set_identity :: "string \<Rightarrow> rec_row \<Rightarrow> rec_row" where
  "set_identity pid r =
    r\<lparr>credential_hash := (if credential_hash r = [] then key_id r else credential_hash r), principal_id := pid\<rparr>"

text \<open>One mapping: the table row, the affected sessions, the records and their turn rows.\<close>

definition apply_mapping ::
  "string \<Rightarrow> CredentialPrincipal \<Rightarrow> string list \<times> db \<Rightarrow> (string list \<times> db) result" where
  "apply_mapping now item0 = (\<lambda>(affected, d).
    (let hash = TrimSpace (cm_hash item0);
         pid = TrimSpace (cm_principal item0)
     in if hash = [] \<or> pid = [] then Inl Required
        else
          let status = (if cm_status item0 = [] then ''active'' else cm_status item0);
              updated = (if cm_updated_at item0 = [] then now else cm_updated_at item0);
              row = \<lparr>cp_hash = hash, cp_principal = pid, cp_alias = cm_alias item0, cp_status = status,
                     cp_updated_at = updated\<rparr>;
              d1 = d\<lparr>credential_principals := upsert (\<lambda>p. nocase (cp_hash p))
                     (\<lambda>p. p\<lparr>cp_principal := pid, cp_alias := cm_alias item0, cp_status := status,
                            cp_updated_at := updated\<rparr>) row (credential_principals d)\<rparr>;
              sessions = map session_id (filter (cred_match hash) (records d1));
              d2 = update_records (cred_match hash) (set_identity pid) d1;
              owned = map request_id (filter (\<lambda>r. principal_id r = pid
                        \<and> nocase (credential_hash r) = nocase hash) (records d2));
              d3 = d2\<lparr>turn_records := map (\<lambda>t. if t_request_id t \<in> set owned
                        then t\<lparr>t_principal_id := pid, t_credential_hash := hash\<rparr> else t) (turn_records d2)\<rparr>
          in Inr (affected @ sessions, d3)))"

definition first_principal :: "db \<Rightarrow> string \<Rightarrow> string" where
  "first_principal d sid =
    (case sort_key started_at (filter (\<lambda>r. session_id r = sid \<and> principal_id r \<noteq> []) (records d)) of
       r # _ \<Rightarrow> principal_id r
     | [] \<Rightarrow> [])"

text \<open>The facets and the summary of one affected session are rebuilt from its records.\<close>

definition refresh_identity :: "string \<Rightarrow> db \<Rightarrow> db" where
  "refresh_identity sid d =
    (let rs = filter (\<lambda>r. session_id r = sid) (records d);
         names = {''principal.id'', ''credential.hash''};
         ids = set (map request_id rs);
         ps = filter (\<lambda>r. principal_id r \<noteq> []) rs;
         hs = filter (\<lambda>r. credential_hash r \<noteq> []) rs;
         add = (\<lambda>rows facets. fold (insert_ignore id) rows facets)
     in d\<lparr>record_facets :=
            add (map (\<lambda>r. (request_id r, ''credential.hash'', credential_hash r)) hs)
              (add (map (\<lambda>r. (request_id r, ''principal.id'', principal_id r)) ps)
                (filter (\<lambda>(rq, name, _). \<not> (rq \<in> ids \<and> name \<in> names)) (record_facets d))),
          session_facets :=
            add (map (\<lambda>r. (sid, ''credential.hash'', credential_hash r)) hs)
              (add (map (\<lambda>r. (sid, ''principal.id'', principal_id r)) ps)
                (filter (\<lambda>(s, name, _). \<not> (s = sid \<and> name \<in> names)) (session_facets d))),
          session_summaries :=
            map (\<lambda>s. if ss_session_id s = sid then s\<lparr>ss_principal_id := first_principal d sid\<rparr> else s)
              (session_summaries d)\<rparr>)"

definition ApplyCredentialPrincipals :: "string \<Rightarrow> CredentialPrincipal list \<Rightarrow> db \<Rightarrow> db result" where
  "ApplyCredentialPrincipals now mappings d =
    bind_res (foldM_res (apply_mapping now) mappings ([], d)) (\<lambda>(affected, d').
      Inr (fold refresh_identity (remdups affected) d'))"

section \<open>What identity resolution keeps\<close>

text \<open>A record without its identity fields.\<close>

definition anonymous :: "Record \<Rightarrow> Record" where
  "anonymous r = r\<lparr>PrincipalID := [], CredentialHash := [], PrincipalAlias := [], KeyID := [], Metadata := Null, Facets := []\<rparr>"

text \<open>Later identity never overwrites earlier identity.\<close>

definition refines :: "Record \<Rightarrow> Record \<Rightarrow> bool" where
  "refines r r' \<longleftrightarrow> anonymous r' = anonymous r
    \<and> (PrincipalID r \<noteq> [] \<longrightarrow> PrincipalID r' = PrincipalID r)
    \<and> (CredentialHash r \<noteq> [] \<longrightarrow> CredentialHash r' = CredentialHash r)
    \<and> (PrincipalAlias r \<noteq> [] \<longrightarrow> PrincipalAlias r' = PrincipalAlias r)
    \<and> (KeyID r \<noteq> [] \<longrightarrow> KeyID r' = KeyID r)
    \<and> (Metadata r \<noteq> Null \<longrightarrow> Metadata r' = Metadata r)"

lemma refines_refl [simp]: "refines r r"
  by (simp add: refines_def)

lemma refines_trans: "refines r r' \<Longrightarrow> refines r' r'' \<Longrightarrow> refines r r''"
  unfolding refines_def by metis

lemma refines_set:
  "PrincipalID r = [] \<Longrightarrow> refines r (r\<lparr>PrincipalID := x\<rparr>)"
  "CredentialHash r = [] \<Longrightarrow> refines r (r\<lparr>CredentialHash := x\<rparr>)"
  "CredentialHash r = [] \<Longrightarrow> refines r (r\<lparr>CredentialHash := x, Facets := fs\<rparr>)"
  "PrincipalAlias r = [] \<Longrightarrow> refines r (r\<lparr>PrincipalAlias := x\<rparr>)"
  "KeyID r = [] \<Longrightarrow> refines r (r\<lparr>KeyID := x\<rparr>)"
  "Metadata r = Null \<Longrightarrow> refines r (r\<lparr>Metadata := md\<rparr>)"
  "refines r (r\<lparr>Facets := fs\<rparr>)"
  by (simp_all add: refines_def anonymous_def)

lemma refines_on_if: "(c r \<Longrightarrow> refines r (f r)) \<Longrightarrow> refines r (on_if c f r)"
  by (simp add: on_if_def)

lemma refines_steps: "(\<And>f r. f \<in> set fs \<Longrightarrow> refines r (f r)) \<Longrightarrow> refines r (steps fs r)"
proof (induction fs arbitrary: r)
  case (Cons f fs)
  have "refines r (f r)" "refines (f r) (steps fs (f r))" using Cons by auto
  then show ?case by (simp add: steps_def) (rule refines_trans)
qed (simp add: steps_def)

lemma refines_normalize: "refines r (normalizeIdentityRecord sprint r)"
  unfolding normalizeIdentityRecord_def by (rule refines_steps) (auto intro!: refines_on_if refines_set)

lemma refines_branch: "refines r a \<Longrightarrow> refines a b \<Longrightarrow> refines r (if c then a else b)"
  by (auto intro: refines_trans)

lemma resolve_refines: "refines r (resolveIdentity sprint idx r)"
  unfolding resolveIdentity_def Let_def
  by (rule refines_branch [OF refines_normalize], rule refines_steps)
    (auto simp only: list.set insert_iff empty_iff intro!: refines_on_if refines_set)

lemma resolveIdentity_anonymous: "anonymous (resolveIdentity sprint idx r) = anonymous r"
  using resolve_refines by (simp add: refines_def)

lemma resolveIdentity_keeps:
  "RequestID (resolveIdentity sprint idx r) = RequestID r" "SessionID (resolveIdentity sprint idx r) = SessionID r"
  "OriginalRequest (resolveIdentity sprint idx r) = OriginalRequest r"
  "UpstreamRequest (resolveIdentity sprint idx r) = UpstreamRequest r"
  "Response (resolveIdentity sprint idx r) = Response r"
proof -
  have a: "RequestID (anonymous x) = RequestID x" "SessionID (anonymous x) = SessionID x"
    "OriginalRequest (anonymous x) = OriginalRequest x" "UpstreamRequest (anonymous x) = UpstreamRequest x"
    "Response (anonymous x) = Response x" for x
    by (simp_all add: anonymous_def)
  show "RequestID (resolveIdentity sprint idx r) = RequestID r" "SessionID (resolveIdentity sprint idx r) = SessionID r"
    "OriginalRequest (resolveIdentity sprint idx r) = OriginalRequest r"
    "UpstreamRequest (resolveIdentity sprint idx r) = UpstreamRequest r"
    "Response (resolveIdentity sprint idx r) = Response r"
    using a [of "resolveIdentity sprint idx r"] a [of r] unfolding resolveIdentity_anonymous by simp_all
qed

text \<open>
  Resolving the identity of a record completes it and never overwrites it: a principal, credential hash, alias,
  key or metadata the record carries is kept, and no field but the identity fields and facets changes.
\<close>

theorem resolveIdentity_refines:
  "refines r (resolveIdentity sprint idx r)
    \<and> OriginalRequest (resolveIdentity sprint idx r) = OriginalRequest r
    \<and> Response (resolveIdentity sprint idx r) = Response r"
  by (simp add: resolve_refines resolveIdentity_keeps)

section \<open>What the credential table changes\<close>

text \<open>A record row without the two identity columns.\<close>

definition payload_part :: "rec_row \<Rightarrow> rec_row" where
  "payload_part r = r\<lparr>credential_hash := [], principal_id := []\<rparr>"

definition only_identity :: "db \<Rightarrow> db \<Rightarrow> bool" where
  "only_identity d d' \<longleftrightarrow>
    logged d d' \<and> blobs d' = blobs d \<and> map payload_part (records d') = map payload_part (records d)"

lemma only_identity_refl: "only_identity d d"
  by (simp add: only_identity_def logged_same)

lemma only_identity_trans [trans]: "only_identity d d' \<Longrightarrow> only_identity d' d'' \<Longrightarrow> only_identity d d''"
  by (auto simp: only_identity_def intro: logged_trans)

lemma only_identity_same:
  "records d' = records d \<Longrightarrow> ingest_clock d' = ingest_clock d \<Longrightarrow> ingest_events d' = ingest_events d \<Longrightarrow>
    blobs d' = blobs d \<Longrightarrow> only_identity d d'"
  by (simp add: only_identity_def logged_same)

lemma only_identity_update: "only_identity d (update_records P (set_identity pid) d)"
proof -
  have "map payload_part (map (\<lambda>r. if P r then set_identity pid r else r) (records d)) =
      map payload_part (records d)"
    by (simp add: set_identity_def payload_part_def)
  moreover have "logged d (update_records P (set_identity pid) d)"
    by (rule logged_update) (simp add: set_identity_def)
  ultimately show ?thesis by (simp add: only_identity_def update_records_fires row_simps)
qed

lemma apply_mapping_only_identity:
  assumes "apply_mapping now item s = Inr s'"
  shows "only_identity (snd s) (snd s')"
proof -
  obtain affected d where s: "s = (affected, d)" by (cases s)
  from assms obtain P pid ps ts where d': "snd s' =
      update_records P (set_identity pid) (d\<lparr>credential_principals := ps\<rparr>)\<lparr>turn_records := ts\<rparr>"
    by (auto simp: apply_mapping_def s Let_def split: if_splits)
  have "only_identity d (d\<lparr>credential_principals := ps\<rparr>)" by (rule only_identity_same) simp_all
  also have "only_identity \<dots> (update_records P (set_identity pid) (d\<lparr>credential_principals := ps\<rparr>))"
    by (rule only_identity_update)
  also have "only_identity \<dots> (snd s')" unfolding d' by (rule only_identity_same) simp_all
  finally show ?thesis by (simp add: s)
qed

lemma refresh_identity_only_identity: "only_identity d (refresh_identity sid d)"
  by (rule only_identity_same) (simp_all add: refresh_identity_def Let_def)

lemma fold_refresh_only_identity: "only_identity d (fold refresh_identity sids d)"
  by (induction sids arbitrary: d)
    (auto intro: only_identity_refl only_identity_trans [OF refresh_identity_only_identity])


text \<open>
  Applying one mapping attributes every record of that credential: whatever the letter case, each record whose
  credential hash, or whose key when it has no hash, is the mapped one carries the mapped principal afterwards. A
  mapping without hash or principal is rejected as a whole.
\<close>

theorem ApplyCredentialPrincipals_one:
  assumes "ApplyCredentialPrincipals now [item] d = Inr d'"
  shows "TrimSpace (cm_hash item) \<noteq> [] \<and> TrimSpace (cm_principal item) \<noteq> []
    \<and> records d' = map (\<lambda>r. if cred_match (TrimSpace (cm_hash item)) r
        then set_identity (TrimSpace (cm_principal item)) r else r) (records d)
    \<and> (\<forall>r \<in> set (records d'). cred_match (TrimSpace (cm_hash item)) r \<longrightarrow>
        principal_id r = TrimSpace (cm_principal item))"
proof -
  let ?h = "TrimSpace (cm_hash item)" and ?p = "TrimSpace (cm_principal item)"
  have keep: "records (fold refresh_identity sids x) = records x" for sids x
    by (induction sids arbitrary: x) (simp_all add: refresh_identity_def Let_def)
  have ne: "?h \<noteq> []" "?p \<noteq> []" and rs: "records d' = map (\<lambda>r. if cred_match ?h r then set_identity ?p r else r) (records d)"
    using assms by (auto simp: ApplyCredentialPrincipals_def apply_mapping_def Let_def keep update_records_fires
        row_simps split: if_splits)
  have "cred_match ?h (set_identity ?p r) \<longleftrightarrow> cred_match ?h r" for r
    using ne by (auto simp: cred_match_def set_identity_def nocase_def)
  then have "\<forall>r \<in> set (records d'). cred_match ?h r \<longrightarrow> principal_id r = ?p"
    unfolding rs by (auto simp: set_identity_def)
  with ne rs show ?thesis by simp
qed

section \<open>Examples\<close>

definition sample_mapping :: CredentialPrincipal where
  "sample_mapping = \<lparr>cm_hash = ''K'', cm_principal = ''p'', cm_alias = [], cm_status = [], cm_updated_at = []\<rparr>"

definition identity_sample :: db where
  "identity_sample = empty_db\<lparr>records := [blank_row\<lparr>request_id := ''q'', session_id := ''s'', key_id := ''k''\<rparr>]\<rparr>"

lemma sample_trim: "TrimSpace ''K'' = ''K''" "TrimSpace ''p'' = ''p''"
  by (simp_all add: TrimSpace_def runes_ascii rune_of_def is_space_def)

lemma sample_applies: "\<exists>d'. ApplyCredentialPrincipals ''now'' [sample_mapping] identity_sample = Inr d'"
  by (simp add: ApplyCredentialPrincipals_def apply_mapping_def sample_mapping_def sample_trim Let_def)


theorem ApplyCredentialPrincipals_one_witness:
  "\<exists>d'. ApplyCredentialPrincipals ''now'' [sample_mapping] identity_sample = Inr d' \<and> map principal_id (records d') = [''p'']"
proof -
  obtain d' where d': "ApplyCredentialPrincipals ''now'' [sample_mapping] identity_sample = Inr d'"
    using sample_applies by (elim exE)
  let ?r = "blank_row\<lparr>request_id := ''q'', session_id := ''s'', key_id := ''k''\<rparr>"
  have k: "char_of (107 :: nat) = CHR ''k''" by (simp add: char_of_eq_iff)
  have p: "TrimSpace (cm_principal sample_mapping) = ''p''" "TrimSpace (cm_hash sample_mapping) = ''K''"
    by (simp_all add: sample_mapping_def sample_trim)
  have "cred_match ''K'' ?r" by (simp add: cred_match_def nocase_def blank_row_def k)
  moreover have "records d' = map (\<lambda>r. if cred_match ''K'' r then set_identity ''p'' r else r) [?r]"
    using ApplyCredentialPrincipals_one [OF d', THEN conjunct2, THEN conjunct2, THEN conjunct1]
    unfolding p by (simp add: identity_sample_def)
  ultimately have "map principal_id (records d') = [''p'']" by (simp add: set_identity_def)
  with d' show ?thesis by (intro exI conjI)
qed

end
