(* ===== verification/Json_Roundtrip.thy ===== *)
theory Json_Roundtrip
  imports Json
begin

text \<open>
  Decoding what was encoded: \<open>decode_marshal\<close> says that the decoder reads back every well-formed value,
  with structs read as maps, and leaves exactly the bytes that follow.
\<close>

section \<open>Strings\<close>

lemma valid_rune_cases [consumes 1, case_names one two three four]:
  assumes "valid_rune r"
  obtains
    (one) c where "r = [c]" "byte c < 128"
  | (two) c0 c1 where "r = [c0, c1]" "194 \<le> byte c0" "byte c0 \<le> 223" "cont c1"
  | (three) c0 c1 c2 where "r = [c0, c1, c2]" "224 \<le> byte c0" "byte c0 \<le> 239"
      "second_lo (byte c0) \<le> byte c1" "byte c1 \<le> second_hi (byte c0)" "cont c2"
  | (four) c0 c1 c2 c3 where "r = [c0, c1, c2, c3]" "240 \<le> byte c0" "byte c0 \<le> 244"
      "second_lo (byte c0) \<le> byte c1" "byte c1 \<le> second_hi (byte c0)" "cont c2" "cont c3"
proof -
  obtain c0 s where r: "r = c0 # s" using assms by (cases r) (auto simp: valid_rune_def)
  from assms have h: "utf8_head (c0 # s) = Suc (length s)" by (simp add: valid_rune_def r)
  show thesis
  proof (cases s)
    case Nil
    with h have "byte c0 < 128" by (auto simp: Let_def split: if_splits)
    with Nil r show ?thesis by (intro one) auto
  next
    case (Cons c1 s1)
    note s1 = Cons
    show ?thesis
    proof (cases s1)
      case Nil
      with h s1 show ?thesis
        by (intro two [of c0 c1]) (auto simp: r Let_def split: if_splits)
    next
      case (Cons c2 s2)
      note s2 = Cons
      show ?thesis
      proof (cases s2)
        case Nil
        with h s1 s2 show ?thesis
          by (intro three [of c0 c1 c2]) (auto simp: r Let_def split: if_splits)
      next
        case (Cons c3 s3)
        with h s1 s2 show ?thesis
          by (intro four [of c0 c1 c2 c3]) (auto simp: r Let_def split: if_splits)
      qed
    qed
  qed
qed

lemma rune_lens:
  fixes a b c d :: nat
  shows "a < 64 \<Longrightarrow> (b * 64 + a) div 64 = b" "a < 64 \<Longrightarrow> (b * 64 + a) mod 64 = a"
  by simp_all

lemma utf8_encode_rune_of:
  assumes "valid_rune r"
  shows "utf8_encode (rune_of r) = r"
  using assms
proof (cases rule: valid_rune_cases)
  case (one c)
  then show ?thesis by (simp add: rune_of_def utf8_encode_def)
next
  case (two c0 c1)
  define x where "x = byte c0 - 192"
  define y where "y = byte c1 - 128"
  have b: "byte c0 = 192 + x" "byte c1 = 128 + y" "2 \<le> x" "x < 32" "y < 64"
    using two by (auto simp: x_def y_def cont_def)
  have c: "c0 = char_of (192 + x)" "c1 = char_of (128 + y)"
    by (simp_all flip: b(1,2))
  have ro: "rune_of r = x * 64 + y"
    using two b by (simp add: rune_of_def cont_def)
  have n1: "\<not> x * 64 + y < 128" "x * 64 + y < 2048" using b by linarith+
  have "utf8_encode (x * 64 + y) = [c0, c1]"
    using n1 b(5) by (simp add: utf8_encode_def c)
  then show ?thesis by (simp add: ro two(1) [symmetric])
next
  case (three c0 c1 c2)
  define x where "x = byte c0 - 224"
  define y where "y = byte c1 - 128"
  define z where "z = byte c2 - 128"
  have b: "byte c0 = 224 + x" "byte c1 = 128 + y" "byte c2 = 128 + z" "x < 16" "y < 64" "z < 64"
    using three by (auto simp: x_def y_def z_def cont_def second_lo_def second_hi_def split: if_splits)
  have lo: "x = 0 \<Longrightarrow> 32 \<le> y" and hi: "x = 13 \<Longrightarrow> y < 32"
    using three b by (auto simp: second_lo_def second_hi_def split: if_splits)
  have c: "c0 = char_of (224 + x)" "c1 = char_of (128 + y)" "c2 = char_of (128 + z)"
    by (simp_all flip: b(1,2,3))
  have ro: "rune_of r = x * 4096 + y * 64 + z"
    using three b by (simp add: rune_of_def cont_def)
  have n1: "\<not> x * 4096 + y * 64 + z < 2048" using lo b by (cases "x = 0") linarith+
  have n2: "\<not> ((55296 \<le> x * 4096 + y * 64 + z \<and> x * 4096 + y * 64 + z \<le> 57343)
      \<or> 1114112 \<le> x * 4096 + y * 64 + z)"
    using hi b by (cases "x = 13") linarith+
  have n3: "x * 4096 + y * 64 + z < 65536" using b by linarith
  have d1: "(x * 4096 + y * 64 + z) div 4096 = x" using b by linarith
  have d2: "(x * 4096 + y * 64 + z) div 64 mod 64 = y"
  proof -
    have "(x * 4096 + y * 64 + z) div 64 = x * 64 + y" using b by linarith
    then show ?thesis using b by simp
  qed
  have eq: "x * 4096 + y * 64 + z = (x * 64 + y) * 64 + z" by simp
  have d3: "(x * 4096 + y * 64 + z) mod 64 = z"
    by (subst eq, subst mod_mult_self3) (simp add: b(6))
  show ?thesis
    unfolding ro utf8_encode_def using n1 n2 n3 by (simp only: d1 d2 d3 if_False if_True
      three(1) c less_trans [of _ 128 2048]) (simp add: d1 d2 d3)
next
  case (four c0 c1 c2 c3)
  define x where "x = byte c0 - 240"
  define y where "y = byte c1 - 128"
  define z where "z = byte c2 - 128"
  define w where "w = byte c3 - 128"
  have b: "byte c0 = 240 + x" "byte c1 = 128 + y" "byte c2 = 128 + z" "byte c3 = 128 + w"
      "x < 5" "y < 64" "z < 64" "w < 64"
    using four by (auto simp: x_def y_def z_def w_def cont_def second_lo_def second_hi_def split: if_splits)
  have lo: "x = 0 \<Longrightarrow> 16 \<le> y" and hi: "x = 4 \<Longrightarrow> y < 16"
    using four b by (auto simp: second_lo_def second_hi_def split: if_splits)
  have c: "c0 = char_of (240 + x)" "c1 = char_of (128 + y)" "c2 = char_of (128 + z)"
      "c3 = char_of (128 + w)"
    by (simp_all flip: b(1,2,3,4))
  define v where "v = x * 262144 + y * 4096 + z * 64 + w"
  have ro: "rune_of r = v"
    using four b by (simp add: rune_of_def cont_def v_def)
  have n1: "65536 \<le> v" using lo b by (cases "x = 0") (auto simp: v_def)
  have n2: "v < 1114112" using hi b by (cases "x = 4") (auto simp: v_def)
  have d1: "v div 262144 = x" unfolding v_def using b by linarith
  have "v div 4096 = x * 64 + y" unfolding v_def using b by linarith
  then have d2: "v div 4096 mod 64 = y" using b by simp
  have v: "v = ((x * 64 + y) * 64 + z) * 64 + w" by (simp add: v_def)
  then have vd: "v div 64 = (x * 64 + y) * 64 + z" using b by simp
  have d3: "v div 64 mod 64 = z"
    by (subst vd, subst mod_mult_self3) (simp add: b)
  have d4: "v mod 64 = w"
    by (subst v, subst mod_mult_self3) (simp add: b)
  show ?thesis
    unfolding ro utf8_encode_def using n1 n2 by (simp add: d1 d2 d3 d4 four(1) c)
qed

lemma hexv_hexdigit:
  "d < 16 \<Longrightarrow> hexv (if d < 10 then char_of (48 + d) else char_of (87 + d)) = Some d"
  by (auto simp: hexv_def)

lemma getu4_hex4:
  assumes "n < 65536"
  shows "getu4 (hex4 n @ s) = Some n"
proof -
  have lt: "n div 4096 < 16" using assms by (simp add: less_mult_imp_div_less)
  then have a: "n div 4096 mod 16 = n div 4096" by simp
  have b: "n div 4096 * 16 + n div 256 mod 16 = n div 256"
    using div_mult_mod_eq [of "n div 256" 16] by (simp add: div_mult2_eq [symmetric])
  have c: "n div 256 * 16 + n div 16 mod 16 = n div 16"
    using div_mult_mod_eq [of "n div 16" 16] by (simp add: div_mult2_eq [symmetric])
  have "((n div 4096 * 16 + n div 256 mod 16) * 16 + n div 16 mod 16) * 16 + n mod 16 = n"
    by (simp only: b c div_mult_mod_eq)
  moreover have "getu4 (hex4 n @ s) =
      Some (((n div 4096 * 16 + n div 256 mod 16) * 16 + n div 16 mod 16) * 16 + n mod 16)"
    unfolding hex4_def Let_def a by (simp add: hexv_hexdigit lt)
  ultimately show ?thesis by simp
qed

lemma length_hex4 [simp]: "length (hex4 n) = 4"
  by (simp add: hex4_def Let_def)

lemma pstr_u_escape:
  assumes "u < 55296"
  shows "pstr (CHR 0x5C # CHR ''u'' # hex4 u @ s) =
    map_option (\<lambda>(t, rest). (utf8_encode u @ t, rest)) (pstr s)"
  using assms by (subst pstr.simps(2)) (simp add: getu4_hex4 unicode_escape_def)

lemma char_of_control:
  "char_of (8::nat) = CHR 0x08" "char_of (12::nat) = CHR 0x0C" "char_of (10::nat) = CHR 0x0A"
  "char_of (13::nat) = CHR 0x0D" "char_of (9::nat) = CHR 0x09"
  using char_of_char [of "CHR 0x08", where 'a = nat] char_of_char [of "CHR 0x0C", where 'a = nat]
    char_of_char [of "CHR 0x0A", where 'a = nat] char_of_char [of "CHR 0x0D", where 'a = nat]
    char_of_char [of "CHR 0x09", where 'a = nat]
  by simp_all

lemma byte_eqD: "byte c = n \<Longrightarrow> c = char_of n"
  by auto

lemma pstr_quote_ascii:
  assumes "byte c < 128"
  shows "pstr (quote_rune html [c] @ s) = map_option (\<lambda>(t, rest). (c # t, rest)) (pstr s)"
proof -
  let ?b = "byte c"
  have valid: "utf8_head [c] = length [c]" using assms by simp
  consider (quote) "c = CHR 0x22 \<or> c = CHR 0x5C"
    | (short) "?b = 8 \<or> ?b = 12 \<or> ?b = 10 \<or> ?b = 13 \<or> ?b = 9"
    | (hex) "c \<noteq> CHR 0x22" "c \<noteq> CHR 0x5C" "\<not> (?b = 8 \<or> ?b = 12 \<or> ?b = 10 \<or> ?b = 13 \<or> ?b = 9)"
        "?b < 32 \<or> (html \<and> (?b = 60 \<or> ?b = 62 \<or> ?b = 38))"
    | (plain) "c \<noteq> CHR 0x22" "c \<noteq> CHR 0x5C" "32 \<le> ?b"
        "\<not> (html \<and> (?b = 60 \<or> ?b = 62 \<or> ?b = 38))"
    by linarith
  then show ?thesis
  proof cases
    case quote
    then show ?thesis
      by (auto simp: quote_rune_def valid pstr.simps(2) escape_char_def)
  next
    case short
    then have c: "c = char_of (8::nat) \<or> c = char_of (12::nat) \<or> c = char_of (10::nat)
        \<or> c = char_of (13::nat) \<or> c = char_of (9::nat)"
      by (auto dest: byte_eqD)
    then show ?thesis
      by (auto simp: char_of_control quote_rune_def valid pstr.simps(2) escape_char_def)
  next
    case hex
    then have q: "quote_rune html [c] = CHR 0x5C # CHR ''u'' # hex4 ?b"
      by (auto simp: quote_rune_def valid Let_def)
    have "?b < 55296" using assms by simp
    moreover have "utf8_encode ?b = [c]" using assms by (simp add: utf8_encode_def)
    ultimately show ?thesis by (simp add: q pstr_u_escape)
  next
    case plain
    with assms have q: "quote_rune html [c] = [c]"
      by (auto simp: quote_rune_def Let_def)
    from plain assms show ?thesis
      by (simp add: q pstr.simps(2) [of c s])
  qed
qed

lemma byte_quote: "byte (CHR 0x22) = 34" and byte_backslash: "byte (CHR 0x5C) = 92"
  by simp_all

lemma pstr_plain_rune:
  assumes "valid_rune (c # r)" and "128 \<le> byte c"
  shows "pstr (c # r @ s) = map_option (\<lambda>(t, rest). (c # r @ t, rest)) (pstr s)"
proof -
  have h: "utf8_head (c # r @ s) = Suc (length r)"
    using utf8_head_append [of "c # r" s] assms(1) by (simp add: valid_rune_def)
  have "c \<noteq> CHR 0x22" "c \<noteq> CHR 0x5C" "\<not> byte c < 32" using assms(2) by auto
  then show ?thesis
    by (subst pstr.simps(2)) (simp only: h if_False Let_def, simp)
qed

lemma pstr_quote_rune:
  assumes "valid_rune r"
  shows "pstr (quote_rune html r @ s) = map_option (\<lambda>(t, rest). (r @ t, rest)) (pstr s)"
proof (cases "length r = 1")
  case True
  with assms obtain c where "r = [c]" "byte c < 128"
    by (cases rule: valid_rune_cases) auto
  then show ?thesis using pstr_quote_ascii by simp
next
  case False
  with assms have long: "length r \<ge> 2" and high: "128 \<le> byte (hd r)"
    by (cases rule: valid_rune_cases; simp)+
  then obtain c r' where r: "r = c # r'" "r' \<noteq> []" by (cases r; cases "tl r") auto
  have head: "utf8_head r = length r" using assms by (simp add: valid_rune_def)
  show ?thesis
  proof (cases "rune_of r = 8232 \<or> rune_of r = 8233")
    case True
    then have "quote_rune html r = CHR 0x5C # CHR ''u'' # hex4 (rune_of r)"
      using head r by (auto simp: quote_rune_def split: list.splits)
    moreover have "rune_of r < 55296" using True by auto
    ultimately show ?thesis
      by (simp add: pstr_u_escape utf8_encode_rune_of [OF assms])
  next
    case False
    then have "quote_rune html r = r"
      using head r by (auto simp: quote_rune_def split: list.splits)
    with r assms high show ?thesis by (simp add: pstr_plain_rune)
  qed
qed

lemma pstr_body:
  "list_all valid_rune rs \<Longrightarrow>
   pstr (concat (map (quote_rune html) rs) @ CHR 0x22 # rest) = Some (concat rs, rest)"
  by (induction rs) (simp_all add: pstr.simps(2) [of "CHR 0x22"] pstr_quote_rune)

theorem pstr_quote:
  assumes "valid_utf8 s"
  shows "quote html s @ rest = CHR 0x22 # tl (quote html s) @ rest"
    and "pstr (tl (quote html s) @ rest) = Some (s, rest)"
  using assms pstr_body [of "runes s" html rest]
  by (simp_all add: quote_def valid_utf8_def concat_runes)

section \<open>Numbers\<close>

definition num_ok :: "string \<Rightarrow> bool" where
  "num_ok lit \<longleftrightarrow> pnum lit = Some (lit, [])"

definition num_stop :: "string \<Rightarrow> bool" where
  "num_stop rest \<longleftrightarrow>
     (case rest of [] \<Rightarrow> True | c # _ \<Rightarrow> \<not> is_digit c \<and> c \<noteq> CHR ''.'' \<and> c \<noteq> CHR ''e'' \<and> c \<noteq> CHR ''E'')"

lemma pdigits_append:
  assumes "pdigits s = Some (ds, r)" and "num_stop rest"
  shows "pdigits (s @ rest) = Some (ds, r @ rest)"
proof -
  have t: "takeWhile is_digit s = ds" "ds \<noteq> []" and d: "dropWhile is_digit s = r"
    using assms(1) by (auto simp: pdigits_def split: list.splits)
  have stop: "takeWhile is_digit rest = []" "dropWhile is_digit rest = rest"
    using assms(2) by (cases rest; auto simp: num_stop_def)+
  show ?thesis
  proof (cases "\<forall>c \<in> set s. is_digit c")
    case True
    then have "takeWhile is_digit (s @ rest) = s" "dropWhile is_digit (s @ rest) = rest"
      using stop by (simp_all add: takeWhile_append2 dropWhile_append2)
    moreover have "ds = s" "r = []" using True t d
      by (simp add: takeWhile_eq_all_conv [THEN iffD2]) (use True d in \<open>auto simp: dropWhile_eq_Nil_conv\<close>)
    ultimately show ?thesis using t by (simp add: pdigits_def split: list.split)
  next
    case False
    then have "takeWhile is_digit (s @ rest) = ds" "dropWhile is_digit (s @ rest) = r @ rest"
      using t d by (auto simp: takeWhile_append1 dropWhile_append1)
    then show ?thesis using t by (simp add: pdigits_def split: list.split)
  qed
qed

lemma pint_append:
  "pint s = Some (i, r) \<Longrightarrow> num_stop rest \<Longrightarrow> pint (s @ rest) = Some (i, r @ rest)"
  by (cases s) (auto simp: pint_def split: if_splits dest: pdigits_append)

lemma pfrac_append:
  assumes "pfrac s = Some (f, r)" and stop: "num_stop rest"
  shows "pfrac (s @ rest) = Some (f, r @ rest)"
proof (cases s)
  case Nil
  with assms show ?thesis by (cases rest) (auto simp: pfrac_def num_stop_def)
next
  case (Cons c s1)
  with assms show ?thesis
    by (auto simp: pfrac_def split: if_splits dest: pdigits_append [OF _ stop])
qed

lemma pexp_append:
  assumes "pexp s = Some (e, r)" and stop: "num_stop rest"
  shows "pexp (s @ rest) = Some (e, r @ rest)"
proof (cases s)
  case Nil
  with assms show ?thesis by (cases rest) (auto simp: pexp_def num_stop_def)
next
  case (Cons c s1)
  note pd = pdigits_append [OF _ stop]
  show ?thesis
  proof (cases "c = CHR ''e'' \<or> c = CHR ''E''")
    case True
    with assms Cons show ?thesis
      by (cases s1) (auto simp: pexp_def split: if_splits dest: pd)
  next
    case False
    with assms Cons show ?thesis by (auto simp: pexp_def)
  qed
qed

lemma pnum_append:
  assumes "num_ok lit" and stop: "num_stop rest"
  shows "pnum (lit @ rest) = Some (lit, rest)"
proof -
  obtain sg s0 where sg: "psign lit = (sg, s0)" by (cases "psign lit")
  from assms(1) sg obtain i s1 f s2 e where
      parts: "pint s0 = Some (i, s1)" "pfrac s1 = Some (f, s2)" "pexp s2 = Some (e, [])"
        "sg @ i @ f @ e = lit"
    by (auto simp: num_ok_def pnum_def bind_eq_Some_conv)
  have "lit \<noteq> []" using sg parts(1) by (auto simp: pint_def psign_def)
  then have "psign (lit @ rest) = (sg, s0 @ rest)"
    using sg by (cases lit) (auto simp: psign_def split: if_splits)
  then show ?thesis
    using pint_append [OF parts(1) stop] pfrac_append [OF parts(2) stop] pexp_append [OF parts(3) stop]
      parts(4)
    by (simp add: pnum_def)
qed

lemma num_ok_start:
  assumes "num_ok lit"
  obtains c r where "lit = c # r" "is_digit c \<or> c = CHR ''-''"
proof (cases lit)
  case Nil
  with assms show ?thesis by (simp add: num_ok_def pnum_def pint_def psign_def)
next
  case (Cons c r)
  have "is_digit (CHR ''0'')" by (simp add: is_digit_def)
  with assms Cons have "is_digit c \<or> c = CHR ''-''"
    by (auto simp: num_ok_def pnum_def pint_def pdigits_def psign_def bind_eq_Some_conv
        split: if_splits list.splits)
  with Cons show ?thesis by (rule that)
qed

lemma num_ok_Itoa: "num_ok (Itoa n)"
proof -
  have dig: "\<forall>c \<in> set (Itoa n). is_digit c" by (rule Itoa_digits)
  obtain c r where cr: "Itoa n = c # r" using Itoa_not_Nil by (cases "Itoa n") auto
  have c: "is_digit c" using dig cr by simp
  then have nm: "c \<noteq> CHR ''-''" by (auto simp: is_digit_def)
  have pd: "pdigits (Itoa n) = Some (Itoa n, [])"
    using dig cr by (simp add: pdigits_def takeWhile_eq_all_conv [THEN iffD2] split: list.split)
  have zero: "c = CHR ''0'' \<Longrightarrow> r = []"
  proof -
    assume "c = CHR ''0''"
    have "n < 10 \<or> hd (Itoa n) \<noteq> CHR ''0''"
    proof (induction n rule: Itoa.induct)
      case (1 n)
      show ?case
      proof (cases "n < 10")
        case False
        then have "hd (Itoa n) = hd (Itoa (n div 10))"
          by (subst Itoa.simps) (simp add: Itoa_not_Nil)
        moreover have "n div 10 < 10 \<Longrightarrow> hd (Itoa (n div 10)) \<noteq> CHR ''0''"
        proof
          assume a: "n div 10 < 10" "hd (Itoa (n div 10)) = CHR ''0''"
          then have "digit (n div 10) = CHR ''0''" by (simp add: Itoa.simps [of "n div 10"])
          then have "byte (digit (n div 10)) = 48" by simp
          then have "n div 10 = 0" using byte_digit [OF a(1)] by simp
          with False show False by simp
        qed
        ultimately show ?thesis using 1 False by auto
      qed simp
    qed
    then show "r = []" using \<open>c = CHR ''0''\<close> cr by (auto simp: Itoa.simps [of n])
  qed
  have "pint (Itoa n) = Some (Itoa n, [])"
    using pd zero by (auto simp: pint_def cr)
  then show ?thesis
    using nm by (simp add: num_ok_def pnum_def psign_def cr pfrac_def pexp_def)
qed

section \<open>Values\<close>

text \<open>What the decoder makes of an encoded value.\<close>

fun reify :: "gv \<Rightarrow> gv" where
  "reify (Arr vs) = Arr (map reify vs)"
| "reify (Obj kvs) = Obj (obj_of (sort_key fst (map (\<lambda>kv. (fst kv, reify (snd kv))) kvs)))"
| "reify (Struct kvs) = Obj (obj_of (map (\<lambda>kv. (fst kv, reify (snd kv))) kvs))"
| "reify (Raw s) = Str s"
| "reify v = v"

fun jwf :: "gv \<Rightarrow> bool" where
  "jwf (Num lit) = num_ok lit"
| "jwf (Str s) = valid_utf8 s"
| "jwf (Raw s) = valid_utf8 s"
| "jwf (Arr vs) = list_all jwf vs"
| "jwf (Obj kvs) = list_all (\<lambda>kv. valid_utf8 (fst kv) \<and> jwf (snd kv)) kvs"
| "jwf (Struct kvs) = list_all (\<lambda>kv. valid_utf8 (fst kv) \<and> jwf (snd kv)) kvs"
| "jwf _ = True"

fun jdepth :: "gv \<Rightarrow> nat" where
  "jdepth (Arr vs) = Suc (fold max (map jdepth vs) 0)"
| "jdepth (Obj kvs) = Suc (fold max (map (\<lambda>kv. jdepth (snd kv)) kvs) 0)"
| "jdepth (Struct kvs) = Suc (fold max (map (\<lambda>kv. jdepth (snd kv)) kvs) 0)"
| "jdepth _ = 0"

lemma fold_max_le: "fold max xs (a::nat) \<le> d \<longleftrightarrow> a \<le> d \<and> (\<forall>x \<in> set xs. x \<le> d)"
  by (induction xs arbitrary: a) auto

lemma insort_key_map: "insort_key f (g x) (map g xs) = map g (insort_key (\<lambda>a. f (g a)) x xs)"
  by (induction xs) auto

lemma sort_key_map: "sort_key f (map g xs) = map g (sort_key (\<lambda>a. f (g a)) xs)"
  by (induction xs) (simp_all add: insort_key_map)

lemma skip_ws_Cons: "\<not> json_ws c \<Longrightarrow> skip_ws (c # s) = c # s"
  by (simp add: skip_ws_def)

lemma tok_Cons: "\<not> json_ws c \<Longrightarrow> tok d (c # s) = (if c = d then Some s else None)"
  by (simp add: tok_def skip_ws_Cons)

lemma json_ws_simps [simp]:
  "\<not> json_ws (CHR ''{'')" "\<not> json_ws (CHR ''['')" "\<not> json_ws (CHR 0x22)" "\<not> json_ws (CHR '','')"
  "\<not> json_ws (CHR ''}'')" "\<not> json_ws (CHR '']'')" "\<not> json_ws (CHR '':'')" "\<not> json_ws (CHR ''t'')"
  "\<not> json_ws (CHR ''f'')" "\<not> json_ws (CHR ''n'')"
  by (simp_all add: json_ws_def)

lemma marshal_start:
  assumes "jwf v"
  obtains c r where "marshal html v = c # r" "\<not> json_ws c" "c \<noteq> CHR '']''"
proof (cases v)
  case (Num lit)
  with assms obtain c r where c: "lit = c # r" "is_digit c \<or> c = CHR ''-''"
    by (auto elim: num_ok_start)
  then have "\<not> json_ws c" "c \<noteq> CHR '']''" by (auto simp: is_digit_def json_ws_def)
  with c Num show ?thesis by (intro that) auto
next
  case (Bool b)
  then show ?thesis by (cases b) (simp_all add: that)
qed (simp_all add: quote_def that)

definition value_stop :: "string \<Rightarrow> bool" where
  "value_stop rest \<longleftrightarrow> num_stop rest"

lemma value_stop_simps [simp]:
  "value_stop []" "value_stop (CHR '','' # r)" "value_stop (CHR '']'' # r)" "value_stop (CHR ''}'' # r)"
  "value_stop (CHR 0x0A # r)"
  by (simp_all add: value_stop_def num_stop_def is_digit_def)

text \<open>The statement proved by induction on the value, for any fuel above the length of the text.\<close>

definition reads_back :: "bool \<Rightarrow> gv \<Rightarrow> bool" where
  "reads_back html v \<longleftrightarrow>
     (\<forall>n d rest. jdepth v \<le> d \<longrightarrow> value_stop rest \<longrightarrow> length (marshal html v) < n \<longrightarrow>
        pval n d (marshal html v @ rest) = Some (reify v, rest))"

lemma Join_Cons2: "ys \<noteq> [] \<Longrightarrow> Join sep (y # ys) = y @ sep @ Join sep ys"
  by (cases ys) simp_all

lemma pelems_reads_back:
  assumes "vs \<noteq> []" and "\<forall>v \<in> set vs. reads_back html v \<and> jdepth v \<le> d"
    and "length (Join '','' (map (marshal html) vs)) + 1 < n"
  shows "pelems n d (Join '','' (map (marshal html) vs) @ CHR '']'' # rest) = Some (map reify vs, rest)"
  using assms
proof (induction vs arbitrary: n)
  case Nil
  then show ?case by simp
next
  case (Cons v vs)
  then obtain m where n: "n = Suc m" by (cases n) auto
  show ?case
  proof (cases "vs = []")
    case True
    with Cons.prems n have "pval m d (marshal html v @ CHR '']'' # rest) = Some (reify v, CHR '']'' # rest)"
      by (simp add: reads_back_def)
    with True n show ?thesis by (simp add: tok_Cons)
  next
    case False
    then have j: "Join '','' (map (marshal html) (v # vs)) =
        marshal html v @ CHR '','' # Join '','' (map (marshal html) vs)"
      by (simp add: Join_Cons2)
    from Cons.prems n j have "pval m d (marshal html v @ CHR '','' # x) = Some (reify v, CHR '','' # x)" for x
      by (simp add: reads_back_def)
    moreover have "pelems m d (Join '','' (map (marshal html) vs) @ CHR '']'' # rest) = Some (map reify vs, rest)"
      using Cons.prems n j by (intro Cons.IH False) auto
    ultimately show ?thesis unfolding j n by (simp add: tok_Cons)
  qed
qed

lemma pmembers_reads_back:
  assumes "kvs \<noteq> []"
    and "\<forall>kv \<in> set kvs. valid_utf8 (fst kv) \<and> reads_back html (snd kv) \<and> jdepth (snd kv) \<le> d"
    and "length (Join '','' (map (\<lambda>kv. member_text html (fst kv, marshal html (snd kv))) kvs)) + 1 < n"
  shows "pmembers n d (Join '','' (map (\<lambda>kv. member_text html (fst kv, marshal html (snd kv))) kvs)
      @ CHR ''}'' # rest) = Some (map (\<lambda>kv. (fst kv, reify (snd kv))) kvs, rest)"
  using assms
proof (induction kvs arbitrary: n)
  case Nil
  then show ?case by simp
next
  case (Cons kv kvs)
  obtain k v where kv: "kv = (k, v)" by (cases kv)
  let ?t = "\<lambda>kv. member_text html (fst kv, marshal html (snd kv))"
  obtain m where n: "n = Suc m" using Cons.prems(3) by (cases n) auto
  have vk: "valid_utf8 k" and rv: "reads_back html v" and dv: "jdepth v \<le> d"
    using Cons.prems(2) kv by auto
  have mtxt: "member_text html (k, marshal html v) @ x = CHR 0x22 # tl (quote html k) @ CHR '':'' # marshal html v @ x" for x
    using pstr_quote(1) [OF vk, of html "CHR '':'' # marshal html v @ x"] by (simp add: kv member_text_def)
  have key: "pstr (tl (quote html k) @ CHR '':'' # y) = Some (k, CHR '':'' # y)" for y
    by (rule pstr_quote(2) [OF vk])
  show ?case
  proof (cases "kvs = []")
    case True
    with Cons.prems n kv have "length (marshal html v) < m" by (simp add: member_text_def)
    with rv dv have "pval m d (marshal html v @ CHR ''}'' # rest) = Some (reify v, CHR ''}'' # rest)"
      by (simp add: reads_back_def)
    with True n show ?thesis by (simp add: mtxt key tok_Cons kv)
  next
    case False
    let ?rest = "Join '','' (map ?t kvs)"
    have j: "Join '','' (map ?t (kv # kvs)) = ?t kv @ CHR '','' # ?rest"
      using False by (simp add: Join_Cons2)
    have "length (marshal html v) < m" using Cons.prems n kv j by (simp add: member_text_def)
    with rv dv have "pval m d (marshal html v @ CHR '','' # x) = Some (reify v, CHR '','' # x)" for x
      by (simp add: reads_back_def)
    moreover have "pmembers m d (?rest @ CHR ''}'' # rest) =
        Some (map (\<lambda>kv. (fst kv, reify (snd kv))) kvs, rest)"
      using Cons.prems n j by (intro Cons.IH False) auto
    ultimately show ?thesis
      unfolding j n by (simp add: mtxt key tok_Cons kv)
  qed
qed

lemma member_text_start: "\<exists>r. member_text html kt = CHR 0x22 # r"
  by (simp add: member_text_def quote_def)

lemma pval_object:
  assumes "\<forall>kv \<in> set kvs. valid_utf8 (fst kv) \<and> reads_back html (snd kv) \<and> jdepth (snd kv) \<le> d"
    and "length (Join '','' (map (\<lambda>kv. member_text html (fst kv, marshal html (snd kv))) kvs)) + 2 < n"
  shows "pval n (Suc d) (CHR ''{'' # Join '','' (map (\<lambda>kv. member_text html (fst kv, marshal html (snd kv))) kvs)
      @ CHR ''}'' # rest) = Some (Obj (obj_of (map (\<lambda>kv. (fst kv, reify (snd kv))) kvs)), rest)"
proof -
  obtain m where n: "n = Suc m" using assms(2) by (cases n) auto
  show ?thesis
  proof (cases "kvs = []")
    case True
    then show ?thesis by (simp add: n skip_ws_Cons tok_Cons obj_of_def)
  next
    case False
    then obtain kv kvs' where kvs: "kvs = kv # kvs'" by (cases kvs) auto
    obtain r where r: "Join '','' (map (\<lambda>kv. member_text html (fst kv, marshal html (snd kv))) kvs) = CHR 0x22 # r"
      using member_text_start [of html "(fst kv, marshal html (snd kv))"] unfolding kvs
      by (cases kvs') auto
    have "pmembers m d (CHR 0x22 # r @ CHR ''}'' # rest) =
        Some (map (\<lambda>kv. (fst kv, reify (snd kv))) kvs, rest)"
      using pmembers_reads_back [OF False assms(1), of m rest] assms(2) by (simp add: n r)
    then show ?thesis by (simp add: n r skip_ws_Cons tok_Cons)
  qed
qed

lemma plit_word: "plit w v (w @ rest) = Some (v, rest)"
  by (simp add: plit_def HasPrefix_def)

lemma reads_back_leafI:
  assumes "\<And>n d rest. value_stop rest \<Longrightarrow> pval (Suc n) d (marshal html v @ rest) = Some (reify v, rest)"
  shows "reads_back html v"
  unfolding reads_back_def
proof (intro allI impI)
  fix n d rest
  assume "value_stop rest" "length (marshal html v) < n"
  then show "pval n d (marshal html v @ rest) = Some (reify v, rest)"
    using assms by (cases n) simp_all
qed

lemma reads_back_all: "jwf v \<Longrightarrow> reads_back html v"
proof (induction v)
  case Null
  show ?case
    using plit_word [of "''null''" Null] by (intro reads_back_leafI) (simp add: skip_ws_Cons)
next
  case (Bool b)
  show ?case
    using plit_word [of "''true''" "Bool True"] plit_word [of "''false''" "Bool False"]
    by (intro reads_back_leafI) (simp add: skip_ws_Cons)
next
  case (Num lit)
  then obtain c r where c: "lit = c # r" "is_digit c \<or> c = CHR ''-''"
    by (auto elim: num_ok_start)
  then have nc: "\<not> json_ws c" "c \<noteq> CHR ''{''" "c \<noteq> CHR ''[''" "c \<noteq> CHR 0x22" "c \<noteq> CHR ''t''" "c \<noteq> CHR ''f''"
      "c \<noteq> CHR ''n''"
    by (auto simp: is_digit_def json_ws_def)
  have "pnum (c # r @ rest) = Some (c # r, rest)" if "value_stop rest" for rest
    using pnum_append [of lit rest] Num that c by (simp add: value_stop_def)
  with nc c show ?case by (intro reads_back_leafI) (simp add: skip_ws_Cons)
next
  case (Str s)
  then have v: "valid_utf8 s" by simp
  obtain q where "quote html s = CHR 0x22 # q" "\<And>rest. pstr (q @ rest) = Some (s, rest)"
    using pstr_quote(1) [OF v, of html "[]"] pstr_quote(2) [OF v, of html] by (simp add: that)
  then show ?case by (intro reads_back_leafI) (simp add: skip_ws_Cons)
next
  case (Raw s)
  then have v: "valid_utf8 s" by simp
  obtain q where "quote html s = CHR 0x22 # q" "\<And>rest. pstr (q @ rest) = Some (s, rest)"
    using pstr_quote(1) [OF v, of html "[]"] pstr_quote(2) [OF v, of html] by (simp add: that)
  then show ?case by (intro reads_back_leafI) (simp add: skip_ws_Cons)
next
  case (Arr vs)
  show ?case
    unfolding reads_back_def
  proof (intro allI impI)
    fix n d rest
    assume a: "jdepth (Arr vs) \<le> d" "value_stop rest" "length (marshal html (Arr vs)) < n"
    from a(1) obtain d' where d: "d = Suc d'" "\<forall>v \<in> set vs. jdepth v \<le> d'"
      by (cases d) (auto simp: fold_max_le)
    obtain m where n: "n = Suc m" using a(3) by (cases n) auto
    show "pval n d (marshal html (Arr vs) @ rest) = Some (reify (Arr vs), rest)"
    proof (cases vs)
      case Nil
      then show ?thesis by (simp add: n d skip_ws_Cons tok_Cons)
    next
      case (Cons v vs')
      have "jwf v" using Arr.prems Cons by simp
      then obtain c r where c: "marshal html v = c # r" "\<not> json_ws c" "c \<noteq> CHR '']''"
        by (rule marshal_start)
      then obtain r' where r': "Join '','' (map (marshal html) vs) = c # r'"
        using Cons by (cases vs') auto
      have "pelems m d' (Join '','' (map (marshal html) vs) @ CHR '']'' # rest) = Some (map reify vs, rest)"
        using Arr a(3) d n Cons by (intro pelems_reads_back) (auto simp: list_all_iff)
      then show ?thesis using c by (simp add: n d r' skip_ws_Cons tok_Cons)
    qed
  qed
next
  case (Obj kvs)
  let ?kvs = "sort_key fst kvs"
  have mtxt: "marshal html (Obj kvs) = CHR ''{'' # Join '',''
      (map (\<lambda>kv. member_text html (fst kv, marshal html (snd kv))) ?kvs) @ ''}''"
    by (simp add: sort_key_map comp_def)
  have re: "reify (Obj kvs) = Obj (obj_of (map (\<lambda>kv. (fst kv, reify (snd kv))) ?kvs))"
    by (simp add: sort_key_map comp_def)
  have wf: "\<forall>kv \<in> set ?kvs. valid_utf8 (fst kv) \<and> reads_back html (snd kv)"
    using Obj by (force simp: list_all_iff)
  show ?case
    unfolding reads_back_def
  proof (intro allI impI)
    fix n d rest
    assume a: "jdepth (Obj kvs) \<le> d" "value_stop rest" "length (marshal html (Obj kvs)) < n"
    from a(1) obtain d' where d: "d = Suc d'" "\<forall>kv \<in> set ?kvs. jdepth (snd kv) \<le> d'"
      by (cases d) (auto simp: fold_max_le)
    show "pval n d (marshal html (Obj kvs) @ rest) = Some (reify (Obj kvs), rest)"
      using pval_object [of ?kvs html d' n rest] wf d a(3) unfolding mtxt re by simp
  qed
next
  case (Struct kvs)
  have mtxt: "marshal html (Struct kvs) = CHR ''{'' # Join '',''
      (map (\<lambda>kv. member_text html (fst kv, marshal html (snd kv))) kvs) @ ''}''"
    by (simp add: comp_def)
  have wf: "\<forall>kv \<in> set kvs. valid_utf8 (fst kv) \<and> reads_back html (snd kv)"
    using Struct by (force simp: list_all_iff)
  show ?case
    unfolding reads_back_def
  proof (intro allI impI)
    fix n d rest
    assume a: "jdepth (Struct kvs) \<le> d" "value_stop rest" "length (marshal html (Struct kvs)) < n"
    from a(1) obtain d' where d: "d = Suc d'" "\<forall>kv \<in> set kvs. jdepth (snd kv) \<le> d'"
      by (cases d) (auto simp: fold_max_le)
    show "pval n d (marshal html (Struct kvs) @ rest) = Some (reify (Struct kvs), rest)"
      using pval_object [of kvs html d' n rest] wf d a(3) unfolding mtxt by simp
  qed
qed

theorem decode_marshal:
  assumes "jwf v" and "jdepth v \<le> max_depth" and "value_stop rest"
  shows "Decode (marshal html v @ rest) = Some (reify v, rest)"
  using reads_back_all [OF assms(1), of html] assms(2,3)
  unfolding Decode_def reads_back_def by (simp del: pval.simps)

end
