(* ===== verification/Json_Wf.thy ===== *)
theory Json_Wf
  imports Json_Roundtrip
begin

text \<open>
  What the decoder produces: well-formed values. Strings are valid UTF-8, numbers are number
  literals, the keys of an object are strictly increasing, and no value is nested deeper than the
  decoder's limit. For such values encoding and decoding are inverse.
\<close>

section \<open>Strings\<close>

lemma byte_char_of: "n < 256 \<Longrightarrow> byte (char_of n) = n"
  by simp

lemma utf8_head_1: "byte c0 < 128 \<Longrightarrow> utf8_head [c0] = 1"
  and utf8_head_2: "194 \<le> byte c0 \<Longrightarrow> byte c0 \<le> 223 \<Longrightarrow> cont c1 \<Longrightarrow> utf8_head [c0, c1] = 2"
  and utf8_head_3: "224 \<le> byte c0 \<Longrightarrow> byte c0 \<le> 239 \<Longrightarrow> second_lo (byte c0) \<le> byte c1 \<Longrightarrow>
    byte c1 \<le> second_hi (byte c0) \<Longrightarrow> cont c2 \<Longrightarrow> utf8_head [c0, c1, c2] = 3"
  and utf8_head_4: "240 \<le> byte c0 \<Longrightarrow> byte c0 \<le> 244 \<Longrightarrow> second_lo (byte c0) \<le> byte c1 \<Longrightarrow>
    byte c1 \<le> second_hi (byte c0) \<Longrightarrow> cont c2 \<Longrightarrow> cont c3 \<Longrightarrow> utf8_head [c0, c1, c2, c3] = 4"
  by simp_all

lemma cont_char_of: "(n::nat) < 64 \<Longrightarrow> cont (char_of (128 + n))"
  by (simp add: cont_def)

lemma valid_rune_utf8_encode: "valid_rune (utf8_encode r)"
proof -
  have c1: "cont (char_of (128 + n mod 64))" for n :: nat
    by (rule cont_char_of) simp
  consider (a) "r < 128" | (b) "128 \<le> r" "r < 2048"
    | (bad) "2048 \<le> r" "(55296 \<le> r \<and> r \<le> 57343) \<or> 1114112 \<le> r"
    | (c) "2048 \<le> r" "\<not> (55296 \<le> r \<and> r \<le> 57343)" "r < 65536"
    | (d) "65536 \<le> r" "r < 1114112"
    by linarith
  then show ?thesis
  proof cases
    case a
    then show ?thesis by (simp add: utf8_encode_def valid_rune_def)
  next
    case b
    then have "2 \<le> r div 64" "r div 64 < 32" by linarith+
    then have "utf8_head [char_of (192 + r div 64), char_of (128 + r mod 64)] = 2"
      by (intro utf8_head_2 c1) simp_all
    with b show ?thesis by (simp add: utf8_encode_def valid_rune_def del: utf8_head.simps)
  next
    case bad
    then show ?thesis
      by (simp add: utf8_encode_def valid_rune_def cont_def second_lo_def second_hi_def)
  next
    case c
    define x where "x = r div 4096"
    define y where "y = r div 64 mod 64"
    have r: "r div 64 = x * 64 + y"
      unfolding x_def y_def using div_mult_mod_eq [of "r div 64" 64] by (simp add: div_mult2_eq [symmetric])
    have y: "y < 64" by (simp add: y_def)
    have x: "x < 16" unfolding x_def using c by linarith
    have lo: "x = 0 \<Longrightarrow> 32 \<le> y" using r c by linarith
    have hi: "x = 13 \<Longrightarrow> y \<le> 31" using r c x y by linarith
    have "utf8_head [char_of (224 + x), char_of (128 + y), char_of (128 + r mod 64)] = 3"
      using x y lo hi by (intro utf8_head_3 c1) (simp_all add: second_lo_def second_hi_def)
    with c show ?thesis
      by (auto simp: utf8_encode_def valid_rune_def x_def y_def simp del: utf8_head.simps)
  next
    case d
    define x where "x = r div 262144"
    define y where "y = r div 4096 mod 64"
    have r: "r div 4096 = x * 64 + y"
      unfolding x_def y_def using div_mult_mod_eq [of "r div 4096" 64] by (simp add: div_mult2_eq [symmetric])
    have y: "y < 64" by (simp add: y_def)
    have x: "x < 5" unfolding x_def using d by linarith
    have lo: "x = 0 \<Longrightarrow> 16 \<le> y" using r d by linarith
    have hi: "x = 4 \<Longrightarrow> y \<le> 15" using r d by linarith
    have "utf8_head [char_of (240 + x), char_of (128 + y), char_of (128 + r div 64 mod 64),
        char_of (128 + r mod 64)] = 4"
      using x y lo hi by (intro utf8_head_4 c1) (simp_all add: second_lo_def second_hi_def)
    with d show ?thesis
      by (simp add: utf8_encode_def valid_rune_def x_def y_def del: utf8_head.simps)
  qed
qed

lemma utf8_head_take: "utf8_head s = n \<Longrightarrow> utf8_head (take n s) = n"
  by (cases s) (auto simp: Let_def take_Cons' split: list.splits if_splits)

lemma valid_rune_utf8: "valid_rune r \<Longrightarrow> valid_utf8 s \<Longrightarrow> valid_utf8 (r @ s)"
  by (simp add: valid_utf8_def runes_valid_append)

lemma escape_char_ascii: "escape_char e = Some d \<Longrightarrow> byte d < 128"
  by (auto simp: escape_char_def split: if_splits)

lemma pstr_valid: "pstr s = Some (t, rest) \<Longrightarrow> valid_utf8 t"
proof (induction s arbitrary: t rest rule: pstr.induct)
  case 1
  then show ?case by simp
next
  case (2 c s)
  let ?n = "utf8_head (c # s)"
  consider (close) "c = CHR 0x22"
    | (esc) e r where "c \<noteq> CHR 0x22" "\<not> byte c < 32" "c = CHR 0x5C" "s = e # r"
    | (bad) "c \<noteq> CHR 0x22" "\<not> byte c < 32" "c \<noteq> CHR 0x5C" "?n = 0"
    | (rune) "c \<noteq> CHR 0x22" "\<not> byte c < 32" "c \<noteq> CHR 0x5C" "?n \<noteq> 0"
    using "2.prems" by (cases s) (auto simp: pstr.simps split: if_splits)
  then show ?case
  proof cases
    case close
    with "2.prems" show ?thesis by (auto simp: pstr.simps)
  next
    case esc
    show ?thesis
    proof (cases "e = CHR ''u''")
      case True
      with esc "2.prems" obtain u cp k t' where u: "getu4 r = Some u"
          "unicode_escape u (drop 4 r) = (cp, k)" "pstr (drop (4 + k) r) = Some (t', rest)"
          "t = utf8_encode cp @ t'"
        by (auto simp: pstr.simps split: option.splits prod.splits)
      with "2.IH"(1) [OF esc(1-4) True u(1) u(2) [symmetric]] show ?thesis
        by (auto intro: valid_rune_utf8 valid_rune_utf8_encode)
    next
      case False
      with esc "2.prems" obtain d t' where d: "escape_char e = Some d" "pstr r = Some (t', rest)" "t = d # t'"
        by (auto simp: pstr.simps split: option.splits prod.splits)
      with "2.IH"(2) [OF esc(1-4) False d(1)] escape_char_ascii [OF d(1)] show ?thesis
        using valid_rune_utf8 [OF valid_rune_ascii] by auto
    qed
  next
    case bad
    with "2.prems" obtain t' where t': "pstr s = Some (t', rest)" "t = bytes [239, 191, 189] @ t'"
      by (auto simp: pstr.simps simp del: utf8_head.simps)
    have "valid_rune (bytes [239, 191, 189])"
      by (simp add: valid_rune_def cont_def second_lo_def second_hi_def)
    with t' "2.IH"(3) [OF bad(1,2,3) refl bad(4)] show ?thesis
      by (auto intro: valid_rune_utf8 simp del: list.map)
  next
    case rune
    with "2.prems" obtain t' where t': "pstr (drop (?n - 1) s) = Some (t', rest)" "t = take ?n (c # s) @ t'"
      by (auto simp: pstr.simps Let_def simp del: utf8_head.simps take_Suc_Cons)
    have "valid_rune (take ?n (c # s))"
      using rune(4) utf8_head_take [of "c # s"] utf8_head_le [of "c # s"]
      by (simp add: valid_rune_def min_absorb2 del: utf8_head.simps)
    with t' "2.IH"(4) [OF rune(1,2,3) refl rune(4)] show ?thesis
      by (auto intro: valid_rune_utf8 simp del: utf8_head.simps)
  qed
qed

section \<open>Numbers\<close>

lemma pdigits_idem:
  assumes "pdigits s = Some (ds, r)"
  shows "pdigits ds = Some (ds, [])" and "ds \<noteq> []" and "\<forall>c \<in> set ds. is_digit c"
proof -
  have t: "takeWhile is_digit s = ds" "ds \<noteq> []"
    using assms by (auto simp: pdigits_def split: list.splits)
  then show d: "\<forall>c \<in> set ds. is_digit c" by (auto dest: set_takeWhileD)
  then show "pdigits ds = Some (ds, [])" using t(2)
    by (simp add: pdigits_def takeWhile_eq_all_conv [THEN iffD2] split: list.split)
  show "ds \<noteq> []" by (rule t(2))
qed

lemma num_stop_exp: "pexp s = Some (e, r) \<Longrightarrow> e \<noteq> [] \<Longrightarrow> hd e = CHR ''e'' \<or> hd e = CHR ''E''"
  by (auto simp: pexp_def split: list.splits if_splits)

lemma pdigits_head:
  "pdigits s = Some (ds, r) \<Longrightarrow> \<exists>c ds'. ds = c # ds' \<and> c \<noteq> CHR ''+'' \<and> c \<noteq> CHR ''-''"
  using pdigits_idem(2,3) [of s ds r] by (cases ds) (auto simp: is_digit_def)

lemma pexp_idem: "pexp s = Some (e, r) \<Longrightarrow> pexp e = Some (e, [])"
  by (auto simp: pexp_def split: list.splits if_splits dest: pdigits_idem(1) pdigits_head)

lemma pdigits_then:
  assumes "pdigits s = Some (ds, r)" and "x = [] \<or> \<not> is_digit (hd x)"
  shows "pdigits (ds @ x) = Some (ds, x)"
proof -
  have d: "\<forall>c \<in> set ds. is_digit c" "ds \<noteq> []" using pdigits_idem [OF assms(1)] by auto
  have "takeWhile is_digit x = []" "dropWhile is_digit x = x" using assms(2) by (cases x; auto)+
  with d show ?thesis
    by (simp add: pdigits_def takeWhile_append2 dropWhile_append2 split: list.split)
qed

lemma pexp_head: "pexp s = Some (e, r) \<Longrightarrow> e = [] \<or> (\<not> is_digit (hd e) \<and> hd e \<noteq> CHR ''.'')"
  by (auto simp: pexp_def is_digit_def split: list.splits if_splits)

lemma pfrac_then:
  assumes "pfrac s = Some (f, r)" and "pexp s' = Some (e, r')"
  shows "pfrac (f @ e) = Some (f, e)"
proof (cases "f = []")
  case True
  then show ?thesis using pexp_head [OF assms(2)] by (cases e) (auto simp: pfrac_def)
next
  case False
  with assms(1) obtain ds q r0 where "f = CHR ''.'' # ds" "pdigits q = Some (ds, r0)"
    by (auto simp: pfrac_def split: list.splits if_splits)
  then show ?thesis
    using pdigits_then [of q ds r0 e] pexp_head [OF assms(2)] by (auto simp: pfrac_def)
qed

lemma pint_then:
  assumes "pint s = Some (i, r)" and "x = [] \<or> \<not> is_digit (hd x)"
  shows "pint (i @ x) = Some (i, x)"
proof (cases "i = ''0''")
  case True
  then show ?thesis by (simp add: pint_def)
next
  case False
  with assms(1) have p: "pdigits s = Some (i, r)" "s \<noteq> []" "hd s \<noteq> CHR ''0''"
    by (auto simp: pint_def split: list.splits if_splits)
  then obtain c i' where i: "i = c # i'" "c = hd s"
    by (cases s) (auto simp: pdigits_def split: list.splits if_splits)
  then show ?thesis using pdigits_then [OF p(1) assms(2)] p(3) by (simp add: pint_def)
qed

lemma pnum_ok: "pnum s = Some (lit, rest) \<Longrightarrow> num_ok lit"
proof -
  assume p: "pnum s = Some (lit, rest)"
  obtain sg s0 where sg: "psign s = (sg, s0)" by (cases "psign s")
  from p sg obtain i s1 f s2 e where
      parts: "pint s0 = Some (i, s1)" "pfrac s1 = Some (f, s2)" "pexp s2 = Some (e, rest)"
        "sg @ i @ f @ e = lit"
    by (auto simp: pnum_def bind_eq_Some_conv)
  have fe: "f @ e = [] \<or> \<not> is_digit (hd (f @ e))"
    using parts(2) pexp_head [OF parts(3)]
    by (auto simp: pfrac_def is_digit_def split: list.splits if_splits)
  have i: "pint (i @ f @ e) = Some (i, f @ e)" by (rule pint_then [OF parts(1) fe])
  have "i \<noteq> []" "hd i \<noteq> CHR ''-''"
    using parts(1) by (auto simp: pint_def pdigits_def is_digit_def split: list.splits if_splits)
  then have "psign (sg @ i @ f @ e) = (sg, i @ f @ e)"
    using sg by (cases i) (auto simp: psign_def split: list.splits if_splits)
  then show ?thesis
    using i pfrac_then [OF parts(2,3)] pexp_idem [OF parts(3)] parts(4)
    by (simp add: num_ok_def pnum_def)
qed

section \<open>Objects\<close>

lemma keys_obj_put: "fst ` set (obj_put k v kvs) = insert k (fst ` set kvs)"
  by (induction k v kvs rule: obj_put.induct) auto

lemma set_obj_put: "set (obj_put k v kvs) \<subseteq> insert (k, v) (set kvs)"
  by (induction kvs) (auto split: if_splits)

lemma sorted_keys_Nil [simp]: "sorted_keys []"
  by (simp add: sorted_keys_def)

lemma sorted_keys_Cons: "sorted_keys (kv # kvs) \<longleftrightarrow> (\<forall>k \<in> fst ` set kvs. fst kv < k) \<and> sorted_keys kvs"
  by (auto simp: sorted_keys_def)

lemma sorted_keys_obj_put: "sorted_keys kvs \<Longrightarrow> sorted_keys (obj_put k v kvs)"
proof (induction kvs)
  case Nil
  then show ?case by (simp add: sorted_keys_Cons)
next
  case (Cons kv kvs)
  obtain k' v' where kv: "kv = (k', v')" by (cases kv)
  from Cons.prems have s: "sorted_keys kvs" "\<forall>q \<in> fst ` set kvs. k' < q"
    by (simp_all add: sorted_keys_Cons kv)
  show ?case
  proof (cases k k' rule: linorder_cases)
    case less
    with s show ?thesis by (auto simp: kv sorted_keys_Cons)
  next
    case equal
    with s show ?thesis by (simp add: kv sorted_keys_Cons)
  next
    case greater
    with s Cons.IH show ?thesis by (auto simp: kv sorted_keys_Cons keys_obj_put simp del: image_iff)
  qed
qed

lemma foldl_obj_put:
  "sorted_keys acc \<Longrightarrow> sorted_keys (foldl (\<lambda>acc (k, v). obj_put k v acc) acc kvs) \<and>
    set (foldl (\<lambda>acc (k, v). obj_put k v acc) acc kvs) \<subseteq> set acc \<union> set kvs"
proof (induction kvs arbitrary: acc)
  case (Cons kv kvs)
  obtain k v where kv: "kv = (k, v)" by (cases kv)
  show ?case using Cons.IH [of "obj_put k v acc"] Cons.prems sorted_keys_obj_put [of acc k v]
    set_obj_put [of k v acc] by (auto simp: kv)
qed simp

lemma sorted_keys_obj_of: "sorted_keys (obj_of kvs)"
  and set_obj_of: "set (obj_of kvs) \<subseteq> set kvs"
  using foldl_obj_put [of "[]" kvs] by (simp_all add: obj_of_def)

lemma obj_put_last: "\<forall>k' \<in> fst ` set kvs. k' < k \<Longrightarrow> obj_put k v kvs = kvs @ [(k, v)]"
  by (induction kvs) (auto simp: not_less_iff_gr_or_eq)

lemma obj_of_sorted: "sorted_keys kvs \<Longrightarrow> obj_of kvs = kvs"
proof (induction kvs rule: rev_induct)
  case (snoc kv kvs)
  obtain k v where kv: "kv = (k, v)" by (cases kv)
  from snoc.prems have "sorted_keys kvs" "\<forall>k' \<in> fst ` set kvs. k' < k"
    by (auto simp: sorted_keys_def sorted_wrt_append kv)
  with snoc.IH show ?case by (simp add: obj_of_def kv obj_put_last)
qed (simp add: obj_of_def)

lemma sort_sorted_keys: "sorted_keys kvs \<Longrightarrow> sort_key fst kvs = kvs"
  by (rule sort_key_id_if_sorted) (auto simp: sorted_keys_def intro: strict_sorted_imp_sorted)

lemma sorted_keys_map_snd: "sorted_keys (map (\<lambda>kv. (fst kv, f (snd kv))) kvs) = sorted_keys kvs"
  by (simp add: sorted_keys_def comp_def)

lemma sorted_keys_filter: "sorted_keys kvs \<Longrightarrow> sorted_keys (filter P kvs)"
  by (induction kvs) (auto simp: sorted_keys_Cons)

section \<open>Values\<close>

text \<open>The dynamic values of the decoder: no structs, and objects as maps.\<close>

fun plain :: "gv \<Rightarrow> bool" where
  "plain (Arr vs) = list_all plain vs"
| "plain (Obj kvs) = (sorted_keys kvs \<and> list_all (\<lambda>kv. plain (snd kv)) kvs)"
| "plain (Struct _) = False"
| "plain (Raw _) = False"
| "plain _ = True"

lemma reify_plain: "plain v \<Longrightarrow> reify v = v"
proof (induction v)
  case (Arr vs)
  then show ?case by (simp add: list_all_iff map_idI)
next
  case (Obj kvs)
  have "map (\<lambda>kv. (fst kv, reify (snd kv))) kvs = kvs"
    using Obj by (intro map_idI) (force simp: list_all_iff)
  with Obj.prems show ?case by (simp add: sort_sorted_keys obj_of_sorted)
qed simp_all

definition wf_value :: "nat \<Rightarrow> gv \<Rightarrow> bool" where
  "wf_value d v \<longleftrightarrow> jwf v \<and> plain v \<and> jdepth v \<le> d"

lemma wf_value_Arr: "(\<forall>v \<in> set vs. wf_value d v) \<Longrightarrow> wf_value (Suc d) (Arr vs)"
  by (auto simp: wf_value_def list_all_iff fold_max_le)

lemma wf_value_Obj:
  "(\<forall>kv \<in> set kvs. valid_utf8 (fst kv) \<and> wf_value d (snd kv)) \<Longrightarrow> wf_value (Suc d) (Obj (obj_of kvs))"
  using set_obj_of [of kvs] by (auto simp: wf_value_def list_all_iff fold_max_le sorted_keys_obj_of)

lemma wf_value_leaf [simp]:
  "wf_value d Null" "wf_value d (Bool b)" "wf_value d (Num lit) = num_ok lit"
  "wf_value d (Str s) = valid_utf8 s"
  by (simp_all add: wf_value_def)

lemma parse_wf:
  "pval n d s = Some (v, rest) \<Longrightarrow> wf_value d v"
  "pelems n d s = Some (vs, rest) \<Longrightarrow> \<forall>v \<in> set vs. wf_value d v"
  "pmembers n d s = Some (kvs, rest) \<Longrightarrow> \<forall>kv \<in> set kvs. valid_utf8 (fst kv) \<and> wf_value d (snd kv)"
proof (induction n d s and n d s and n d s arbitrary: v rest and vs rest and kvs rest
    rule: pval_pelems_pmembers.induct)
  case (2 n d s)
  show ?case
  proof (cases "skip_ws s")
    case (Cons c r)
    show ?thesis
    proof (cases "c = CHR ''{''")
      case True
      then obtain d' where d: "d = Suc d'" using "2.prems" Cons by (cases d) auto
      show ?thesis
      proof (cases "tok (CHR ''}'') r")
        case None
        with "2.prems" Cons True d obtain kvs where "pmembers n d' r = Some (kvs, rest)" "v = Obj (obj_of kvs)"
          by auto
        with "2.IH"(1) [OF Cons True _ None] d show ?thesis by (auto intro!: wf_value_Obj)
      next
        case (Some r')
        with "2.prems" Cons True d have "v = Obj []" by simp
        then show ?thesis by (simp add: wf_value_def d)
      qed
    next
      case nobj: False
      show ?thesis
      proof (cases "c = CHR ''[''")
        case True
        then obtain d' where d: "d = Suc d'" using "2.prems" Cons by (cases d) auto
        show ?thesis
        proof (cases "tok (CHR '']'') r")
          case None
          with "2.prems" Cons True d obtain vs where "pelems n d' r = Some (vs, rest)" "v = Arr vs"
            by auto
          with "2.IH"(2) [OF Cons nobj True _ None] d show ?thesis by (auto intro!: wf_value_Arr)
        next
          case (Some r')
          with "2.prems" Cons True d have "v = Arr []" by simp
          then show ?thesis by (simp add: wf_value_def d)
        qed
      next
        case False
        with "2.prems" Cons nobj show ?thesis
          by (auto simp: plit_def dest: pstr_valid pnum_ok split: if_splits)
      qed
    qed
  next
    case Nil
    with "2.prems" show ?thesis by simp
  qed
next
  case (4 n d s)
  then obtain v r where v: "pval n d s = Some (v, r)" by (auto split: option.splits)
  show ?case
  proof (cases "tok (CHR '','') r")
    case None
    with "4.prems" v have "vs = [v]" by auto
    with "4.IH"(1) [OF v] show ?thesis by simp
  next
    case (Some r')
    with "4.prems" v obtain vs' where "pelems n d r' = Some (vs', rest)" "vs = v # vs'" by auto
    with "4.IH"(1) [OF v] "4.IH"(2) [OF v refl Some] show ?thesis by simp
  qed
next
  case (6 n d s)
  then obtain r0 k r1 r2 v r where a: "tok (CHR 0x22) s = Some r0" "pstr r0 = Some (k, r1)"
      "tok (CHR '':'') r1 = Some r2" "pval n d r2 = Some (v, r)"
    by (auto split: option.splits)
  have kv: "valid_utf8 k" "wf_value d v"
    using pstr_valid [OF a(2)] "6.IH"(1) [OF a(1,2) refl a(3,4)] by simp_all
  show ?case
  proof (cases "tok (CHR '','') r")
    case None
    with "6.prems" a have "kvs = [(k, v)]" by auto
    with kv show ?thesis by simp
  next
    case (Some r')
    with "6.prems" a obtain kvs' where "pmembers n d r' = Some (kvs', rest)" "kvs = (k, v) # kvs'" by auto
    with kv "6.IH"(2) [OF a(1,2) refl a(3,4) refl Some] show ?thesis by simp
  qed
qed simp_all

lemma Decode_wf: "Decode s = Some (v, rest) \<Longrightarrow> wf_value max_depth v"
  unfolding Decode_def by (rule parse_wf(1))

lemma Decode_Marshal: "wf_value max_depth v \<Longrightarrow> Decode (marshal html v) = Some (v, [])"
  using decode_marshal [of v "[]" html] by (simp add: wf_value_def reify_plain)

lemma Unmarshal_marshal:
  "jwf v \<Longrightarrow> jdepth v \<le> max_depth \<Longrightarrow> Unmarshal (marshal html v) = to_float (reify v)"
  using decode_marshal [of v "[]" html] by (simp add: Unmarshal_def skip_ws_def)

end
