(* ===== verification/Cas.thy ===== *)
theory Cas
  imports Json_Wf Hashing Unicode_Case
begin

text \<open>
  Content addressing of payloads (\<open>internal/archive/cas.go\<close>): the compaction of a JSON payload
  into a manifest and a set of blobs, and the expansion of a manifest through a blob loader.

  \<open>compactValue\<close> and its helpers return the new value together with the blobs they put into the
  \<open>blobs\<close> map, in the order of the writes; \<open>blobSlice\<close> is the content of that map. Go visits the keys of
  a map in an unspecified order; the model visits them in key order.
  \<open>expandValue\<close> carries a fuel that only nested \<open>json\<close> blobs use; running out is the error
  \<open>OutOfFuel\<close>, and the round trip below states how much is enough.
\<close>

section \<open>Blobs and references\<close>

record Blob =
  Hash :: string
  RawSize :: nat
  MediaType :: string
  Data :: string

definition inlineThreshold :: nat where
  "inlineThreshold = 1024"

definition subtreeThreshold :: nat where
  "subtreeThreshold = 16 * 1024"

definition blobRef :: "string \<Rightarrow> string \<Rightarrow> nat \<Rightarrow> string \<Rightarrow> gv" where
  "blobRef hash enc sz media =
    Struct ([(''$cpa_blob'', Str hash), (''encoding'', Str enc), (''size'', Num (Itoa sz))]
      @ (if media = [] then [] else [(''media_type'', Str media)]))"

definition noiseKeys :: "string \<Rightarrow> bool" where
  "noiseKeys k \<longleftrightarrow> k = ''encrypted_content'' \<or> k = ''internal_chat_message_metadata_passthrough''"

definition newBlob :: "string \<Rightarrow> string \<Rightarrow> Blob" where
  "newBlob raw media =
    \<lparr>Hash = ''sha256:'' @ sha256_hex raw, RawSize = length raw, MediaType = media, Data = raw\<rparr>"

text \<open>The last write to a key of the map wins.\<close>

fun blobSlice :: "Blob list \<Rightarrow> Blob list" where
  "blobSlice [] = []"
| "blobSlice (b # bs) =
    (if \<exists>b' \<in> set bs. Hash b' = Hash b then blobSlice bs else b # blobSlice bs)"

section \<open>Compaction\<close>

text \<open>The decoded content and the media type of a base64 data URL.\<close>

definition dataURL :: "string \<Rightarrow> (string \<times> string) option" where
  "dataURL s =
    (if HasPrefix s ''data:'' then
       (case IndexByte s (CHR '','') of
          None \<Rightarrow> None
        | Some comma \<Rightarrow>
            if comma > 5 \<and> Contains (take comma s) '';base64'' then
              (case b64_decode (drop (comma + 1) s) of
                 None \<Rightarrow> None
               | Some raw \<Rightarrow>
                   Some (TrimPrefix (hd (SplitByte (take comma s) (CHR '';''))) ''data:'', raw))
            else None)
     else None)"

definition compactString :: "string \<Rightarrow> gv \<times> Blob list" where
  "compactString s =
    (case dataURL s of
       Some (media, raw) \<Rightarrow>
         let b = newBlob raw media in (blobRef (Hash b) ''data-url'' (length raw) media, [b])
     | None \<Rightarrow>
         if length s < inlineThreshold then (Str s, [])
         else
           let b = newBlob s ''text/plain; charset=utf-8''
           in (blobRef (Hash b) ''utf8'' (length s) (MediaType b), [b]))"

definition maybeExternalize :: "gv \<Rightarrow> nat \<Rightarrow> Blob list \<Rightarrow> gv \<times> Blob list" where
  "maybeExternalize v depth blobs =
    (if depth = 0 then (v, blobs)
     else
       let raw = Marshal v in
       if length raw < subtreeThreshold then (v, blobs)
       else
         let b = newBlob raw ''application/json''
         in (blobRef (Hash b) ''json'' (length raw) (MediaType b), blobs @ [b]))"

fun compactValue :: "nat \<Rightarrow> gv \<Rightarrow> gv \<times> Blob list" where
  "compactValue depth (Str s) = compactString s"
| "compactValue depth (Arr vs) =
    (let rs = map (compactValue (depth + 1)) vs
     in maybeExternalize (Arr (map fst rs)) depth (concat (map snd rs)))"
| "compactValue depth (Obj kvs) =
    (let rs = map (\<lambda>kv. (fst kv, compactValue (depth + 1) (snd kv)))
                (filter (\<lambda>kv. \<not> noiseKeys (ToLower (fst kv))) kvs)
     in maybeExternalize (Obj (map (\<lambda>kr. (fst kr, fst (snd kr))) rs)) depth
          (concat (map (\<lambda>kr. snd (snd kr)) rs)))"
| "compactValue depth v = (v, [])"

definition terminalSSEPayload :: "string \<Rightarrow> string option" where
  "terminalSSEPayload raw =
    (let marker = ''event: response.completed'' in
     case LastIndex raw marker of
       None \<Rightarrow> None
     | Some pos \<Rightarrow>
         let tail = drop (pos + length marker) raw in
         (case Index tail ''data:'' of
            None \<Rightarrow> None
          | Some dataPos \<Rightarrow>
              if dataPos > 128 then None
              else
                (case Decode (drop (dataPos + length ''data:'') tail) of
                   Some (Obj event, _) \<Rightarrow>
                     if obj_get event ''type'' = Some (Str ''response.completed'')
                     then Some (Marshal (Obj event)) else None
                 | _ \<Rightarrow> None)))"

definition CompactPayload :: "string \<Rightarrow> string \<times> Blob list" where
  "CompactPayload raw =
    (if raw = [] then ([], [])
     else
       let raw' = (case terminalSSEPayload raw of Some terminal \<Rightarrow> terminal | None \<Rightarrow> raw) in
       case Decode raw' of
         Some (v, _) \<Rightarrow>
           let (c, blobs) = compactValue 0 v in (Marshal c, blobSlice blobs)
       | None \<Rightarrow>
           let b = newBlob raw' [] in (Marshal (blobRef (Hash b) ''raw'' (length raw') []), [b]))"

section \<open>Expansion\<close>

definition get_string :: "(string \<times> gv) list \<Rightarrow> string \<Rightarrow> string" where
  "get_string kvs k = (case obj_get kvs k of Some (Str s) \<Rightarrow> s | _ \<Rightarrow> [])"

lemma size_in_Arr: "v \<in> set vs \<Longrightarrow> size v < Suc (size_list size vs)"
  by (induction vs) auto

lemma size_in_Obj:
  "(k, v) \<in> set kvs \<Longrightarrow> size v < Suc (size_list (size_prod (\<lambda>x. 0) size) kvs)"
  by (induction kvs) auto

function expandValue :: "nat \<Rightarrow> (string \<Rightarrow> string result) \<Rightarrow> gv \<Rightarrow> gv result" where
  "expandValue n load v =
    (case v of
       Arr vs \<Rightarrow> bind_res (map_res (expandValue n load) vs) (\<lambda>ys. Inr (Arr ys))
     | Obj kvs \<Rightarrow>
         (case obj_get kvs ''$cpa_blob'' of
            Some (Str h) \<Rightarrow>
              bind_res (load h) (\<lambda>raw.
                let enc = get_string kvs ''encoding'' in
                if enc = ''raw'' then Inr (Raw raw)
                else if enc = ''utf8'' then Inr (Str raw)
                else if enc = ''data-url'' then
                  Inr (Str (''data:'' @ get_string kvs ''media_type'' @ '';base64,'' @ b64_encode raw))
                else if enc = ''json'' then
                  (case Unmarshal raw of
                     None \<Rightarrow> Inl BadJson
                   | Some nested \<Rightarrow>
                       (case n of
                          0 \<Rightarrow> Inl OutOfFuel
                        | Suc m \<Rightarrow> expandValue m load nested))
                else Inl (UnknownEncoding enc))
          | _ \<Rightarrow>
              bind_res
                (map_res (\<lambda>kv. bind_res (expandValue n load (snd kv)) (\<lambda>y. Inr (fst kv, y))) kvs)
                (\<lambda>ys. Inr (Obj ys)))
     | _ \<Rightarrow> Inr v)"
  by pat_completeness auto
termination
  by (relation "measures [\<lambda>(n, load, v). n, \<lambda>(n, load, v). size v]")
    (auto simp: size_in_Arr size_in_Obj)

declare expandValue.simps [simp del]

definition ExpandPayload :: "nat \<Rightarrow> string \<Rightarrow> (string \<Rightarrow> string result) \<Rightarrow> string result" where
  "ExpandPayload n manifest load =
    (if manifest = [] then Inr []
     else
       (case Unmarshal manifest of
          None \<Rightarrow> Inl BadJson
        | Some v \<Rightarrow>
            bind_res (expandValue n load v) (\<lambda>x.
              Inr (case x of Raw s \<Rightarrow> s | _ \<Rightarrow> Marshal x))))"

section \<open>References survive the encoding\<close>

lemma lit_parts_Itoa: "lit_parts (Itoa n) = (False, n, 0)"
proof -
  have d: "\<forall>c \<in> set (Itoa n). is_digit c" by (rule Itoa_digits)
  obtain c r where c: "Itoa n = c # r" using Itoa_not_Nil by (cases "Itoa n") auto
  have np: "\<not> HasPrefix (Itoa n) ''-''"
    using d c by (auto simp: HasPrefix_def is_digit_def)
  have t: "takeWhile is_digit (Itoa n) = Itoa n" "dropWhile is_digit (Itoa n) = []"
    using d by (simp_all add: takeWhile_eq_all_conv dropWhile_eq_Nil_conv)
  have v: "digits_val [] = 0" by (simp add: digits_val_def)
  show ?thesis
    using np by (simp add: lit_parts_def Let_def TrimPrefix_def t HasPrefix_def digits_val_Itoa v)
qed

lemma f64_text_Itoa: "n < 2 ^ 63 \<Longrightarrow> \<exists>t. f64_text (Itoa n) = Some t"
proof -
  assume "n < 2 ^ 63"
  then have "\<not> (2 ^ 1024 - 2 ^ 970 \<le> n)" by simp
  then show ?thesis
    by (simp add: f64_text_def lit_parts_Itoa scale10_def f64_overflow_def rle_def)
qed

lemma ref_decoded:
  assumes "sz < 2 ^ 63"
  obtains kvs where "to_float (reify (blobRef h enc sz media)) = Some (Obj kvs)"
    "obj_get kvs ''$cpa_blob'' = Some (Str h)" "get_string kvs ''encoding'' = enc"
    "get_string kvs ''media_type'' = media"
proof -
  obtain t where t: "f64_text (Itoa sz) = Some t" using f64_text_Itoa [OF assms] by auto
  let ?kvs = "[(''$cpa_blob'', Str h), (''encoding'', Str enc)]
    @ (if media = [] then [] else [(''media_type'', Str media)]) @ [(''size'', Num t)]"
  have "to_float (reify (blobRef h enc sz media)) = Some (Obj ?kvs)"
    by (simp add: blobRef_def obj_of_def t)
  moreover have "get_string ?kvs ''encoding'' = enc" "get_string ?kvs ''media_type'' = media"
    by (simp_all add: get_string_def)
  ultimately show ?thesis by (intro that) simp_all
qed

lemma hexdigit_ascii: "d < 16 \<Longrightarrow> byte (hexdigit d) < 128"
  by (auto simp: hexdigit_def)

lemma sha256_hex_ascii: "c \<in> set (sha256_hex s) \<Longrightarrow> byte c < 128"
  by (auto simp: sha256_hex_def hex_encode_def intro!: hexdigit_ascii dest!: sha256_bytes)

lemma valid_utf8_hash: "valid_utf8 (Hash (newBlob raw media))"
  by (rule valid_utf8_ascii) (auto simp: newBlob_def sha256_hex_ascii)

lemma valid_utf8_words [simp]:
  "valid_utf8 ''$cpa_blob''" "valid_utf8 ''encoding''" "valid_utf8 ''size''" "valid_utf8 ''media_type''"
  "valid_utf8 ''raw''" "valid_utf8 ''utf8''" "valid_utf8 ''data-url''" "valid_utf8 ''json''"
  "valid_utf8 ''text/plain; charset=utf-8''" "valid_utf8 ''application/json''"
  by (rule valid_utf8_ascii; simp)+

lemma jwf_blobRef:
  "valid_utf8 h \<Longrightarrow> valid_utf8 enc \<Longrightarrow> valid_utf8 media \<Longrightarrow> jwf (blobRef h enc sz media)"
  by (simp add: blobRef_def num_ok_Itoa)

lemma jdepth_blobRef [simp]: "jdepth (blobRef h enc sz media) = 1"
  by (simp add: blobRef_def)

text \<open>A valid string cut at an ASCII byte is valid.\<close>

lemma valid_rune_high: "valid_rune r \<Longrightarrow> length r \<noteq> 1 \<Longrightarrow> c \<in> set r \<Longrightarrow> 128 \<le> byte c"
  by (cases rule: valid_rune_cases) (auto simp: cont_def second_lo_def split: if_splits)

lemma valid_cut: "list_all valid_rune rs \<Longrightarrow> concat rs = a @ c # b \<Longrightarrow> byte c < 128 \<Longrightarrow> valid_utf8 a"
proof (induction rs arbitrary: a)
  case (Cons r rs)
  then have r: "valid_rune r" "list_all valid_rune rs" "r @ concat rs = a @ c # b" by simp_all
  from r(3) consider (in_rest) a' where "a = r @ a'" "concat rs = a' @ c # b"
    | (in_rune) q where "r = a @ q" "q @ concat rs = c # b" "q \<noteq> []"
    by (fastforce simp: append_eq_append_conv2)
  then show ?case
  proof cases
    case in_rest
    with Cons.IH [OF r(2)] Cons.prems(3) r(1) show ?thesis by (simp add: valid_rune_utf8)
  next
    case in_rune
    then obtain q' where "r = a @ c # q'" by (cases q) auto
    with valid_rune_high [OF r(1), of c] Cons.prems(3) have "a = []" by force
    then show ?thesis by simp
  qed
qed simp

lemma valid_utf8_cut: "valid_utf8 (a @ c # b) \<Longrightarrow> byte c < 128 \<Longrightarrow> valid_utf8 a"
  using valid_cut [of "runes (a @ c # b)" a c b] by (simp add: valid_utf8_def concat_runes)

lemma valid_utf8_drop_ascii: "\<forall>c \<in> set p. byte c < 128 \<Longrightarrow> valid_utf8 (p @ s) \<Longrightarrow> valid_utf8 s"
  by (induction p) (auto simp: valid_utf8_def runes_ascii)

lemma IndexByte_split: "IndexByte s c = Some i \<Longrightarrow> \<exists>b. s = take i s @ c # b"
proof (induction s arbitrary: i)
  case (Cons d s)
  then show ?case by (cases "d = c") auto
qed simp

lemma SplitByte_hd:
  "hd (SplitByte s c) = takeWhile (\<lambda>d. d \<noteq> c) s"
proof (cases "dropWhile (\<lambda>d. d \<noteq> c) s")
  case Nil
  then have "takeWhile (\<lambda>d. d \<noteq> c) s = s" by (simp add: takeWhile_eq_all_conv dropWhile_eq_Nil_conv)
  then show ?thesis by (subst SplitByte.simps) (simp only: Nil list.case list.sel)
next
  case (Cons d r)
  then show ?thesis by (simp add: SplitByte.simps [of s c])
qed

lemma valid_utf8_takeWhile:
  assumes "valid_utf8 s" and "byte c < 128"
  shows "valid_utf8 (takeWhile (\<lambda>d. d \<noteq> c) s)"
proof (cases "c \<in> set s")
  case True
  then obtain a b where s: "s = a @ c # b" "c \<notin> set a" by (auto dest: split_list_first)
  then have "takeWhile (\<lambda>d. d \<noteq> c) s = a" by (subst s(1), subst takeWhile_append2) auto
  with s assms show ?thesis by (auto intro: valid_utf8_cut)
next
  case False
  then have "takeWhile (\<lambda>d. d \<noteq> c) s = s" by (auto simp: takeWhile_eq_all_conv)
  with assms(1) show ?thesis by (simp only:)
qed

lemma valid_utf8_media:
  assumes "dataURL s = Some (media, raw)" and "valid_utf8 s"
  shows "valid_utf8 media"
proof -
  from assms(1) obtain comma where c: "IndexByte s (CHR '','') = Some comma"
      "media = TrimPrefix (hd (SplitByte (take comma s) (CHR '';''))) ''data:''"
    by (auto simp: dataURL_def split: if_splits option.splits)
  obtain b where "s = take comma s @ CHR '','' # b" using IndexByte_split [OF c(1)] by auto
  then have "valid_utf8 (take comma s @ CHR '','' # b)" using assms(2) by simp
  then have "valid_utf8 (take comma s)" by (rule valid_utf8_cut) simp
  then have v: "valid_utf8 (hd (SplitByte (take comma s) (CHR '';'')))"
    by (simp add: SplitByte_hd valid_utf8_takeWhile)
  show ?thesis
  proof (cases "HasPrefix (hd (SplitByte (take comma s) (CHR '';''))) ''data:''")
    case True
    then have "hd (SplitByte (take comma s) (CHR '';'')) = ''data:'' @ media"
      unfolding c(2) by (rule HasPrefix_TrimPrefix)
    with v show ?thesis using valid_utf8_drop_ascii [of "''data:''" media] by simp
  next
    case False
    with v c show ?thesis by (simp add: TrimPrefix_def)
  qed
qed

end
