(* ===== verification/User_Text.thy ===== *)
theory User_Text
  imports Identity Cas
begin

text \<open>
  Text taken out of requests and responses: \<open>html.UnescapeString\<close>, the cleaning of user text
  (\<open>meaningfulUserText\<close> and its helpers in \<open>internal/archive/plugin.go\<close>, \<open>cleanTurnText\<close> in
  \<open>internal/archive/turns.go\<close>) and the walks over a decoded body that collect it.

  The entity table of the \<open>html\<close> package is the parameter \<open>ent\<close>: the one or two code points of a name, or none.
  The program slices a string at offsets it found in the lower-cased string. A slice out of range panics,
  so these functions return a result with the error \<open>Panic\<close>.
\<close>

section \<open>Unescaping\<close>

definition int32 :: "int \<Rightarrow> int" where
  "int32 x = (x + 2 ^ 31) mod 2 ^ 32 - 2 ^ 31"

definition replacementTable :: "int list" where
  "replacementTable =
    [8364, 129, 8218, 402, 8222, 8230, 8224, 8225, 710, 8240, 352, 8249, 338, 141, 381, 143,
     144, 8216, 8217, 8220, 8221, 8226, 8211, 8212, 732, 8482, 353, 8250, 339, 157, 382, 376]"

definition is_alnum :: "char \<Rightarrow> bool" where
  "is_alnum c \<longleftrightarrow> 97 \<le> byte c \<and> byte c \<le> 122 \<or> 65 \<le> byte c \<and> byte c \<le> 90 \<or> is_digit c"

definition entity_rune :: "int \<Rightarrow> string" where
  "entity_rune x =
    (let y = (if 128 \<le> x \<and> x \<le> 159 then replacementTable ! nat (x - 128) else x)
     in if y \<le> 0 then utf8_encode 65533 else utf8_encode (nat y))"

text \<open>The characters of a reference after position \<open>i\<close> that satisfy \<open>p\<close>, with a closing semicolon.\<close>

definition reference_end :: "(char \<Rightarrow> bool) \<Rightarrow> nat \<Rightarrow> string \<Rightarrow> nat" where
  "reference_end p i s =
    (let n = i + length (takeWhile p (drop i s)) in
     case drop n s of c # _ \<Rightarrow> if c = CHR '';'' then Suc n else n | [] \<Rightarrow> n)"

definition unescape_number :: "string \<Rightarrow> string \<times> nat" where
  "unescape_number s =
    (if length s \<le> 3 then (''&'', 1)
     else
       let hex = s ! 2 \<in> {CHR ''x'', CHR ''X''};
           i = (if hex then 3 else 2);
           p = (if hex then (\<lambda>c. hexval c \<noteq> None) else is_digit);
           ds = takeWhile p (drop i s);
           x = foldl (\<lambda>x c. int32 ((if hex then 16 else 10) * x + int (the (hexval c)))) 0 ds;
           n = reference_end p i s
       in if n \<le> 3 then (''&'', 1) else (entity_rune x, n))"

definition longest_prefix :: "(string \<Rightarrow> nat list) \<Rightarrow> string \<Rightarrow> nat option" where
  "longest_prefix ent name =
    find (\<lambda>j. length (ent (take j name)) = 1) (rev [2..<Suc (min (length name - 1) 6)])"

definition unescape_name :: "(string \<Rightarrow> nat list) \<Rightarrow> string \<Rightarrow> string \<times> nat" where
  "unescape_name ent s =
    (let n = reference_end is_alnum 1 s; name = take (n - 1) (drop 1 s) in
     if name = [] then (take n s, n)
     else if ent name \<noteq> [] then (concat (map utf8_encode (ent name)), n)
     else case longest_prefix ent name of
            Some j \<Rightarrow> (concat (map utf8_encode (ent (take j name))), j + 1)
          | None \<Rightarrow> (take n s, n))"

definition unescapeEntity :: "(string \<Rightarrow> nat list) \<Rightarrow> string \<Rightarrow> string \<times> nat" where
  "unescapeEntity ent s =
    (if length s \<le> 1 then (''&'', 1)
     else if s ! 1 = CHR ''#'' then unescape_number s
     else unescape_name ent s)"

function UnescapeString :: "(string \<Rightarrow> nat list) \<Rightarrow> string \<Rightarrow> string" where
  "UnescapeString ent [] = []"
| "UnescapeString ent (c # s) =
    (if c \<noteq> CHR ''&'' then c # UnescapeString ent s
     else let (out, n) = unescapeEntity ent (c # s) in out @ UnescapeString ent (drop (n - 1) s))"
  by pat_completeness auto
termination
  by (relation "measure (\<lambda>(ent, s). length s)") auto

declare UnescapeString.simps(2) [simp del]

fun unescape_times :: "nat \<Rightarrow> (string \<Rightarrow> nat list) \<Rightarrow> string \<Rightarrow> string" where
  "unescape_times 0 ent v = v"
| "unescape_times (Suc n) ent v =
    (let nxt = UnescapeString ent v in if nxt = v then v else unescape_times n ent nxt)"

definition unescapeDisplayText :: "(string \<Rightarrow> nat list) \<Rightarrow> string \<Rightarrow> string" where
  "unescapeDisplayText ent v = unescape_times 4 ent v"

section \<open>Cleaning user text\<close>

text \<open>\<open>s[i:]\<close>, \<open>s[:len(s)-n]\<close>\<close>

definition slice_from :: "string \<Rightarrow> nat \<Rightarrow> string result" where
  "slice_from s i = (if i \<le> length s then Inr (drop i s) else Inl Panic)"

definition slice_off :: "string \<Rightarrow> nat \<Rightarrow> string result" where
  "slice_off s n = (if n \<le> length s then Inr (take (length s - n) s) else Inl Panic)"

abbreviation trimmed :: "string result \<Rightarrow> string result" where
  "trimmed m \<equiv> bind_res m (\<lambda>s. Inr (TrimSpace s))"

definition cleanTurnText :: "(string \<Rightarrow> nat list) \<Rightarrow> string \<Rightarrow> string result" where
  "cleanTurnText ent v =
    (let v0 = TrimSpace (unescapeDisplayText ent v) in
     bind_res
       (case find (HasPrefix (ToLower v0)) [''## my request for codex:'', ''# my request for codex:'', ''my request for codex:''] of
          None \<Rightarrow> Inr v0
        | Some p \<Rightarrow> trimmed (slice_from v0 (length p))) (\<lambda>v1.
     bind_res
       (if HasPrefix (ToLower v1) ''<userrequest>'' then trimmed (slice_from v1 (length ''<userRequest>''))
        else Inr v1) (\<lambda>v2.
     if HasSuffix (ToLower v2) ''</userrequest>'' then trimmed (slice_off v2 (length ''</userRequest>''))
     else Inr v2)))"

definition normalizeTurnSummary :: "(string \<Rightarrow> nat list) \<Rightarrow> string \<Rightarrow> string result" where
  "normalizeTurnSummary ent v = bind_res (cleanTurnText ent v) (\<lambda>t. Inr (Join '' '' (Fields (ToLower t))))"

definition prompt_markers :: "string list" where
  "prompt_markers =
    [CHR 0x0A # ''user prompt:'' @ [CHR 0x0A],
     [CHR 0x0D, CHR 0x0A] @ ''user prompt:'' @ [CHR 0x0D, CHR 0x0A]]"

definition context_tags :: "string list" where
  "context_tags = [''environment_context'', ''environment_info'', ''workspace_info'', ''in-app-browser-context'',
     ''app-context'', ''context'', ''editorcontext'', ''reminderinstructions'', ''codex_internal_context'']"

text \<open>The text after the last prompt marker.\<close>

definition after_prompt :: "string \<Rightarrow> string result" where
  "after_prompt v =
    (let lower = ToLower v in
     case find (\<lambda>m. LastIndex lower m \<noteq> None) prompt_markers of
       None \<Rightarrow> Inr v
     | Some m \<Rightarrow> trimmed (slice_from v (the (LastIndex lower m) + length m)))"

lemma TrimSpace_length: "length (TrimSpace s) \<le> length s"
proof -
  have part: "length (concat (dropWhile P xs)) \<le> length (concat xs)" for P and xs :: "string list"
    by (induction xs) auto
  have rv: "length (concat (rev xs)) = length (concat xs)" for xs :: "string list"
    by (induction xs) auto
  show ?thesis
    unfolding TrimSpace_def
    using part [of space_rune "rev (dropWhile space_rune (runes s))"] part [of space_rune "runes s"]
    by (simp add: rv concat_runes)
qed

text \<open>
  The loop that removes leading context blocks: \<open>None\<close> is the early \<open>return ""\<close> for a block that is not closed.
\<close>

function strip_context :: "string \<Rightarrow> string option result" where
  "strip_context v =
    (let lower = ToLower v in
     case find (\<lambda>tag. HasPrefix lower (CHR ''<'' # tag)) context_tags of
       None \<Rightarrow> Inr (Some v)
     | Some tag \<Rightarrow>
         let closing = ''</'' @ tag @ ''>'' in
         (case Index lower closing of
            None \<Rightarrow> Inr None
          | Some end \<Rightarrow>
              (case trimmed (slice_from v (end + length closing)) of
                 Inl e \<Rightarrow> Inl e
               | Inr v' \<Rightarrow> strip_context v')))"
  by pat_completeness auto
termination
proof (relation "measure length", goal_cases)
  case 1
  then show ?case by simp
next
  case (2 v lower tag closing i v')
  then have "v' = TrimSpace (drop (i + length closing) v)" and "length closing \<ge> 3" and "i + length closing \<le> length v"
    by (auto simp: slice_from_def split: if_splits)
  moreover have "length (TrimSpace (drop (i + length closing) v)) \<le> length v - (i + length closing)"
    using TrimSpace_length [of "drop (i + length closing) v"] by simp
  ultimately show ?case by simp
qed

declare strip_context.simps [simp del]

definition unwrapSummaryTag :: "string \<Rightarrow> string \<Rightarrow> string result" where
  "unwrapSummaryTag v tag =
    (let t = TrimSpace v; lower = ToLower t; opening = ''<'' @ tag @ ''>''; closing = ''</'' @ tag @ ''>'' in
     if HasPrefix lower opening \<and> HasSuffix lower closing
     then trimmed (bind_res (slice_off t (length closing)) (\<lambda>s. slice_from s (length opening)))
     else Inr t)"

text \<open>The text of the request after a list of mentioned files.\<close>

definition after_files :: "string \<Rightarrow> string option result" where
  "after_files v =
    (let lower = ToLower v; marker = ''## my request for codex:'' in
     if HasPrefix lower ''# files mentioned by the user:''
     then (case Index lower marker of
             None \<Rightarrow> Inr None
           | Some pos \<Rightarrow> bind_res (trimmed (slice_from v (pos + length marker))) (\<lambda>t. Inr (Some t)))
     else Inr (Some v))"

definition meaningfulUserText :: "(string \<Rightarrow> nat list) \<Rightarrow> string \<Rightarrow> string result" where
  "meaningfulUserText ent v =
    bind_res (after_prompt (TrimSpace (UnescapeString ent v))) (\<lambda>v1.
    bind_res (strip_context v1) (\<lambda>r.
    case r of
      None \<Rightarrow> Inr []
    | Some v2 \<Rightarrow>
        bind_res (unwrapSummaryTag v2 ''userrequest'') (\<lambda>v3.
        bind_res (after_files v3) (\<lambda>r.
        case r of None \<Rightarrow> Inr [] | Some v4 \<Rightarrow> cleanTurnText ent v4))))"

text \<open>\<open>string(runes[:limit]) + "..."\<close>, with the one-character ellipsis.\<close>

definition elide :: "nat \<Rightarrow> string \<Rightarrow> string" where
  "elide limit v =
    (if limit < length (runes v)
     then concat (map (\<lambda>r. utf8_encode (rune_of r)) (take limit (runes v))) @ bytes [226, 128, 166] else v)"

definition compactPreview :: "string \<Rightarrow> nat \<Rightarrow> string" where
  "compactPreview v limit = elide limit (Join '' '' (Fields v))"

definition compactSummary :: "string \<Rightarrow> string" where
  "compactSummary v = (let t = Join '' '' (Fields v) in if t = [] then [] else elide 160 t)"

definition meaningfulSummary :: "(string \<Rightarrow> nat list) \<Rightarrow> string \<Rightarrow> string result" where
  "meaningfulSummary ent v = bind_res (meaningfulUserText ent v) (\<lambda>t. Inr (compactSummary t))"

section \<open>Collecting text from a body\<close>

definition concat_res :: "('a \<Rightarrow> 'b list result) \<Rightarrow> 'a list \<Rightarrow> 'b list result" where
  "concat_res f xs = bind_res (map_res f xs) (\<lambda>yss. Inr (concat yss))"

lemma concat_res_cong [fundef_cong]:
  assumes "xs = ys" and "\<And>x. x \<in> set ys \<Longrightarrow> f x = g x"
  shows "concat_res f xs = concat_res g ys"
  using map_res_cong [OF assms] by (simp add: concat_res_def)

lemma concat_res_simps [simp]:
  "concat_res f [] = Inr []"
  "concat_res f (x # xs) = bind_res (f x) (\<lambda>y. bind_res (concat_res f xs) (\<lambda>ys. Inr (y @ ys)))"
  by (cases "f x"; cases "map_res f xs"; simp add: concat_res_def)+

lemma size_obj_get: "obj_get kvs k = Some v \<Longrightarrow> size v < Suc (size_list (size_prod (\<lambda>x. 0) size) kvs)"
  by (rule size_in_Obj) (rule map_of_SomeD)

definition string_of :: "gv option \<Rightarrow> string" where
  "string_of v = (case v of Some (Str s) \<Rightarrow> s | _ \<Rightarrow> [])"

text \<open>\<open>collectSummaryStrings\<close> and \<open>collectUserTextStrings\<close> differ only in the function applied to a string.\<close>

function collect_strings :: "(string \<Rightarrow> string result) \<Rightarrow> gv \<Rightarrow> string list result" where
  "collect_strings f v =
    (case v of
       Str s \<Rightarrow> bind_res (f s) (\<lambda>t. Inr (if t \<noteq> [] then [t] else []))
     | Arr vs \<Rightarrow> concat_res (collect_strings f) vs
     | Obj kvs \<Rightarrow>
         concat_res (\<lambda>k. case obj_get kvs k of None \<Rightarrow> Inr [] | Some child \<Rightarrow> collect_strings f child)
           [''text'', ''input_text'', ''content'']
     | _ \<Rightarrow> Inr [])"
  by pat_completeness auto
termination
  by (relation "measure (\<lambda>(f, v). size v)") (auto simp: size_in_Arr size_obj_get)

declare collect_strings.simps [simp del]

definition collectSummaryStrings :: "(string \<Rightarrow> nat list) \<Rightarrow> gv \<Rightarrow> string list result" where
  "collectSummaryStrings ent v = collect_strings (meaningfulSummary ent) v"

definition collectUserTextStrings :: "(string \<Rightarrow> nat list) \<Rightarrow> gv \<Rightarrow> string list result" where
  "collectUserTextStrings ent v = collect_strings (meaningfulUserText ent) v"

text \<open>The walk over the messages of a body, with the collector as a parameter.\<close>

function walk_user :: "(gv \<Rightarrow> string list result) \<Rightarrow> gv \<Rightarrow> string list result" where
  "walk_user col v =
    (case v of
       Obj kvs \<Rightarrow>
         bind_res
           (if EqualFold (string_of (obj_get kvs ''role'')) ''user''
            then concat_res (\<lambda>k. case obj_get kvs k of None \<Rightarrow> Inr [] | Some x \<Rightarrow> col x)
                   [''text'', ''prompt'', ''content'', ''input'']
            else Inr []) (\<lambda>own.
         bind_res
           (concat_res (\<lambda>k. case obj_get kvs k of None \<Rightarrow> Inr [] | Some x \<Rightarrow> walk_user col x) [''input'', ''messages''])
           (\<lambda>rest. Inr (own @ rest)))
     | Arr vs \<Rightarrow> concat_res (walk_user col) vs
     | _ \<Rightarrow> Inr [])"
  by pat_completeness auto
termination
  by (relation "measure (\<lambda>(f, v). size v)") (auto simp: size_in_Arr size_obj_get)

declare walk_user.simps [simp del]

text \<open>The candidates of a decoded body: the walk, or the plain \<open>input\<close> when it finds nothing.\<close>

definition user_candidates :: "(gv \<Rightarrow> string list result) \<Rightarrow> gv \<Rightarrow> string list result" where
  "user_candidates col root =
    bind_res (walk_user col root) (\<lambda>candidates.
      if candidates = []
      then (case root of
              Obj kvs \<Rightarrow> (case obj_get kvs ''input'' of None \<Rightarrow> Inr [] | Some x \<Rightarrow> col x)
            | _ \<Rightarrow> Inr [])
      else Inr candidates)"

definition last_or_empty :: "string list \<Rightarrow> string" where
  "last_or_empty xs = (if xs = [] then [] else last xs)"

definition first_or_empty :: "string list \<Rightarrow> string" where
  "first_or_empty xs = (case xs of [] \<Rightarrow> [] | x # _ \<Rightarrow> x)"

definition extractConversationUserText :: "(string \<Rightarrow> nat list) \<Rightarrow> string \<Rightarrow> string result" where
  "extractConversationUserText ent body =
    (case Unmarshal body of
       None \<Rightarrow> Inr []
     | Some root \<Rightarrow> bind_res (user_candidates (collectUserTextStrings ent) root) (\<lambda>cs. Inr (last_or_empty cs)))"

text \<open>\<open>gstr body path\<close> is \<open>gjson.GetBytes(body, path).String()\<close>.\<close>

definition title_paths :: "string list" where
  "title_paths = [''title'', ''conversation.title'', ''metadata.title'', ''client_metadata.title'']"

definition extractConversationSummaries ::
  "(string \<Rightarrow> nat list) \<Rightarrow> (string \<Rightarrow> string \<Rightarrow> string) \<Rightarrow> string \<Rightarrow> string list result" where
  "extractConversationSummaries ent gstr body =
    (case find (\<lambda>t. t \<noteq> []) (map (\<lambda>path. compactSummary (gstr body path)) title_paths) of
       Some title \<Rightarrow> Inr [title]
     | None \<Rightarrow>
         (case Unmarshal body of
            None \<Rightarrow> Inr []
          | Some root \<Rightarrow> user_candidates (collectSummaryStrings ent) root))"

definition extractConversationSummary ::
  "(string \<Rightarrow> nat list) \<Rightarrow> (string \<Rightarrow> string \<Rightarrow> string) \<Rightarrow> string \<Rightarrow> string result" where
  "extractConversationSummary ent gstr body =
    bind_res (extractConversationSummaries ent gstr body) (\<lambda>cs. Inr (last_or_empty cs))"

definition extractConversationSummaryFirst ::
  "(string \<Rightarrow> nat list) \<Rightarrow> (string \<Rightarrow> string \<Rightarrow> string) \<Rightarrow> string \<Rightarrow> string result" where
  "extractConversationSummaryFirst ent gstr body =
    bind_res (extractConversationSummaries ent gstr body) (\<lambda>cs. Inr (first_or_empty cs))"

section \<open>The preview of a response\<close>

function walkPreviewText :: "gv \<Rightarrow> string list" where
  "walkPreviewText v =
    (case v of
       Str s \<Rightarrow> let t = TrimSpace s in if t \<noteq> [] then [t] else []
     | Arr vs \<Rightarrow> concat (map walkPreviewText vs)
     | Obj kvs \<Rightarrow>
         concat (map (\<lambda>k. case obj_get kvs k of None \<Rightarrow> [] | Some x \<Rightarrow> walkPreviewText x) [''text'', ''output_text'', ''content''])
     | _ \<Rightarrow> [])"
  by pat_completeness auto
termination
  by (relation "measure size") (auto simp: size_in_Arr size_obj_get)

declare walkPreviewText.simps [simp del]

text \<open>The bytes of the label put before the name of a called tool.\<close>

definition tool_call_label :: string where
  "tool_call_label = bytes [229, 183, 165, 229, 133, 183, 232, 176, 131, 231, 148, 168, 239, 188, 154]"

abbreviation item_or_nil :: "(string \<times> gv) list \<Rightarrow> string \<Rightarrow> gv" where
  "item_or_nil kvs k \<equiv> (case obj_get kvs k of None \<Rightarrow> Null | Some x \<Rightarrow> x)"

definition own_preview :: "(gv \<Rightarrow> string) \<Rightarrow> (string \<times> gv) list \<Rightarrow> string list" where
  "own_preview sprint kvs =
    (let typeName = ToLower (Sprint sprint (item_or_nil kvs ''type''));
         name = TrimSpace (Sprint sprint (item_or_nil kvs ''name''));
         role = ToLower (Sprint sprint (item_or_nil kvs ''role''))
     in (if typeName \<in> {''function_call'', ''custom_tool_call''} \<and> name \<noteq> [] \<and> name \<noteq> ''<nil>''
         then [tool_call_label @ name] else [])
        @ (if role = ''assistant'' \<or> Contains typeName ''output_text''
           then concat (map (\<lambda>k. walkPreviewText (item_or_nil kvs k)) [''text'', ''output_text'', ''content'']) else []))"

function walk_preview :: "(gv \<Rightarrow> string) \<Rightarrow> gv \<Rightarrow> string list" where
  "walk_preview sprint v =
    (case v of
       Arr vs \<Rightarrow> concat (map (walk_preview sprint) vs)
     | Obj kvs \<Rightarrow>
         own_preview sprint kvs
         @ concat (map (\<lambda>k. case obj_get kvs k of None \<Rightarrow> [] | Some x \<Rightarrow> walk_preview sprint x) [''response'', ''output'', ''content''])
     | _ \<Rightarrow> [])"
  by pat_completeness auto
termination
  by (relation "measure (\<lambda>(f, v). size v)") (auto simp: size_in_Arr size_obj_get)

declare walk_preview.simps [simp del]

definition extractResponsePreview :: "(gv \<Rightarrow> string) \<Rightarrow> string \<Rightarrow> string" where
  "extractResponsePreview sprint body =
    (let body' = (case terminalSSEPayload body of Some t \<Rightarrow> t | None \<Rightarrow> body) in
     case Unmarshal body' of
       None \<Rightarrow> []
     | Some root \<Rightarrow>
         let cs = walk_preview sprint root in if cs = [] then [] else compactPreview (last cs) 240)"

definition preview_prefixes :: "string list" where
  "preview_prefixes = [tool_call_label, take 12 tool_call_label @ '':'', ''tool call:'', ''tool call'' @ drop 12 tool_call_label]"

definition readableFinalPreview :: "string \<Rightarrow> bool" where
  "readableFinalPreview v =
    (let t = TrimSpace v in t \<noteq> [] \<and> \<not> list_ex (HasPrefix (ToLower t)) preview_prefixes)"

end
