(* ===== verification/Times.thy ===== *)
theory Times
  imports Go_Strings "HOL-Library.Monad_Syntax"
begin

text \<open>
  \<open>time.Time\<close> as the program uses it: \<open>time.Parse(time.RFC3339Nano, s)\<close>, \<open>UTC()\<close>, \<open>Format\<close> with
  \<open>RFC3339Nano\<close>, and the canonical microsecond form of \<open>canonicalTimestamp\<close>
  (\<open>internal/archive/snapshot.go\<close>).

  A time is an instant, in nanoseconds from the Unix epoch, with the zone offset it is shown in. Days are numbered with the proleptic Gregorian
  calendar, as in Go.
\<close>

record go_time =
  inst :: int
  zone :: int

section \<open>The calendar\<close>

definition days_of_date :: "int \<Rightarrow> int \<Rightarrow> int \<Rightarrow> int" where
  "days_of_date y m d =
    (let y' = (if m \<le> 2 then y - 1 else y); era = y' div 400; yoe = y' mod 400;
         doy = (153 * (if m > 2 then m - 3 else m + 9) + 2) div 5 + d - 1
     in era * 146097 + (yoe * 365 + yoe div 4 - yoe div 100 + doy) - 719468)"

definition date_of_days :: "int \<Rightarrow> int \<times> int \<times> int" where
  "date_of_days z =
    (let z' = z + 719468; era = z' div 146097; doe = z' mod 146097;
         yoe = (doe - doe div 1460 + doe div 36524 - doe div 146096) div 365;
         doy = doe - (365 * yoe + yoe div 4 - yoe div 100);
         mp = (5 * doy + 2) div 153; d = doy - (153 * mp + 2) div 5 + 1;
         m = (if mp < 10 then mp + 3 else mp - 9)
     in (yoe + era * 400 + (if m \<le> 2 then 1 else 0), m, d))"

definition leap :: "int \<Rightarrow> bool" where
  "leap y \<longleftrightarrow> y mod 4 = 0 \<and> (y mod 100 \<noteq> 0 \<or> y mod 400 = 0)"

definition days_in :: "int \<Rightarrow> int \<Rightarrow> int" where
  "days_in m y =
    (if m = 2 then (if leap y then 29 else 28) else if m \<in> {4, 6, 9, 11} then 30 else 31)"

definition second :: int where
  "second = 1000000000"

section \<open>Parsing\<close>

text \<open>\<open>getnum\<close>: two digits, or one where the layout does not fix the width.\<close>

fun getnum :: "bool \<Rightarrow> string \<Rightarrow> (nat \<times> string) option" where
  "getnum fixed [] = None"
| "getnum fixed [a] = (if is_digit a \<and> \<not> fixed then Some (digits_val [a], []) else None)"
| "getnum fixed (a # b # s) =
    (if \<not> is_digit a then None
     else if is_digit b then Some (digits_val [a, b], s)
     else if fixed then None else Some (digits_val [a], b # s))"

definition getlit :: "char \<Rightarrow> string \<Rightarrow> string option" where
  "getlit c s = (case s of [] \<Rightarrow> None | x # xs \<Rightarrow> if x = c then Some xs else None)"

definition getyear :: "string \<Rightarrow> (nat \<times> string) option" where
  "getyear s =
    (if 4 \<le> length s \<and> list_all is_digit (take 4 s) then Some (digits_val (take 4 s), drop 4 s) else None)"

text \<open>The optional fraction: any number of digits after a point or a comma, of which nine count.\<close>

definition getfrac :: "string \<Rightarrow> nat \<times> string" where
  "getfrac s =
    (case s of
       p # d # _ \<Rightarrow>
         if (p = CHR ''.'' \<or> p = CHR '','') \<and> is_digit d
         then (let ds = takeWhile is_digit (tl s); k = take 9 ds
               in (digits_val k * 10 ^ (9 - length k), dropWhile is_digit (tl s)))
         else (0, s)
     | _ \<Rightarrow> (0, s))"

text \<open>The zone: \<open>Z\<close>, or a signed offset of hours and minutes (24 and 60 are accepted).\<close>

definition getzone :: "string \<Rightarrow> (int \<times> string) option" where
  "getzone s =
    (case s of
       [] \<Rightarrow> None
     | CHR ''Z'' # rest \<Rightarrow> Some (0, rest)
     | c # h1 # h2 # k # m1 # m2 # rest \<Rightarrow>
         (if k = CHR '':'' \<and> (c = CHR ''+'' \<or> c = CHR ''-'') \<and> list_all is_digit [h1, h2, m1, m2]
             \<and> digits_val [h1, h2] \<le> 24 \<and> digits_val [m1, m2] \<le> 60
          then Some ((if c = CHR ''-'' then -1 else 1) *
                     int (digits_val [h1, h2] * 3600 + digits_val [m1, m2] * 60), rest)
          else None)
     | _ \<Rightarrow> None)"

definition Parse_time :: "string \<Rightarrow> go_time option" where
  "Parse_time s0 =
    do {
      (y, s1) \<leftarrow> getyear s0; s2 \<leftarrow> getlit CHR ''-'' s1;
      (mo, s3) \<leftarrow> getnum True s2; s4 \<leftarrow> getlit CHR ''-'' s3;
      (d, s5) \<leftarrow> getnum True s4; s6 \<leftarrow> getlit CHR ''T'' s5;
      (h, s7) \<leftarrow> getnum False s6; s8 \<leftarrow> getlit CHR '':'' s7;
      (mi, s9) \<leftarrow> getnum True s8; s10 \<leftarrow> getlit CHR '':'' s9;
      (sec, s11) \<leftarrow> getnum True s10;
      let (ns, s12) = getfrac s11;
      (z, rest) \<leftarrow> getzone s12;
      (if rest = [] \<and> 1 \<le> mo \<and> mo \<le> 12 \<and> 1 \<le> d \<and> int d \<le> days_in (int mo) (int y)
          \<and> h < 24 \<and> mi < 60 \<and> sec < 60
       then Some \<lparr>inst = (days_of_date (int y) (int mo) (int d) * 86400
                    + int (h * 3600 + mi * 60 + sec) - z) * second + int ns,
                  zone = z\<rparr>
       else None)
    }"

text \<open>The zero \<open>time.Time\<close>, which a failed parse leaves behind.\<close>

definition zero_time :: go_time where
  "zero_time = \<lparr>inst = days_of_date 1 1 1 * 86400 * second, zone = 0\<rparr>"

definition parse_or_zero :: "string \<Rightarrow> go_time" where
  "parse_or_zero s = (case Parse_time s of Some t \<Rightarrow> t | None \<Rightarrow> zero_time)"

section \<open>Formatting\<close>

definition pad :: "nat \<Rightarrow> string \<Rightarrow> string" where
  "pad w s = replicate (w - length s) CHR ''0'' @ s"

text \<open>\<open>appendInt\<close>: the sign does not count for the width.\<close>

definition append_int :: "nat \<Rightarrow> int \<Rightarrow> string" where
  "append_int w x = (if x < 0 then ''-'' else []) @ pad w (Itoa (nat \<bar>x\<bar>))"

definition clock_text :: "int \<Rightarrow> string" where
  "clock_text secs =
    (let (y, m, d) = date_of_days (secs div 86400); r = secs mod 86400
     in append_int 4 y @ ''-'' @ append_int 2 m @ ''-'' @ append_int 2 d @ ''T'' @
        append_int 2 (r div 3600) @ '':'' @ append_int 2 (r div 60 mod 60) @ '':'' @ append_int 2 (r mod 60))"

definition trim_zeros :: "string \<Rightarrow> string" where
  "trim_zeros s = rev (dropWhile (\<lambda>c. c = CHR ''0'') (rev s))"

definition zone_text :: "int \<Rightarrow> string" where
  "zone_text z =
    (if z = 0 then ''Z''
     else let m = \<bar>z\<bar> div 60
          in (if z < 0 then ''-'' else ''+'') @ append_int 2 (m div 60) @ '':'' @ append_int 2 (m mod 60))"

definition FormatNano :: "go_time \<Rightarrow> string" where
  "FormatNano t =
    (let local = inst t + zone t * second; f = trim_zeros (pad 9 (Itoa (nat (local mod second))))
     in clock_text (local div second) @ (if f = [] then [] else ''.'' @ f) @ zone_text (zone t))"

definition UTC :: "go_time \<Rightarrow> go_time" where
  "UTC t = t\<lparr>zone := 0\<rparr>"

definition canonicalTimestamp :: "go_time \<Rightarrow> string" where
  "canonicalTimestamp t =
    clock_text (inst t div second) @ ''.'' @ pad 6 (Itoa (nat (inst t mod second div 1000))) @ ''Z''"

text \<open>What is left of a stored timestamp that is read into a \<open>time.Time\<close> and printed again.\<close>

definition retime :: "string \<Rightarrow> string" where
  "retime s = FormatNano (parse_or_zero s)"

text \<open>\<open>Time.MarshalJSON\<close> refuses a zone of 24 hours or more.\<close>

definition marshal_time_ok :: "string \<Rightarrow> bool" where
  "marshal_time_ok s \<longleftrightarrow> \<bar>zone (parse_or_zero s)\<bar> < 86400"

end
