(* ===== verification/Cas_Roundtrip.thy ===== *)
theory Cas_Roundtrip
  imports Cas
begin

text \<open>
  The round trip of compaction and expansion. \<open>strip\<close> says what of a payload is archived: the
  noise keys are dropped, and a base64 data URL keeps its media type and content but no other
  parameter. Everything else comes back, numbers as \<open>float64\<close>.
\<close>

section \<open>What is archived\<close>

definition strip_string :: "string \<Rightarrow> string" where
  "strip_string s =
    (case dataURL s of
       Some (media, raw) \<Rightarrow> ''data:'' @ media @ '';base64,'' @ b64_encode raw
     | None \<Rightarrow> s)"

fun strip :: "gv \<Rightarrow> gv" where
  "strip (Str s) = Str (strip_string s)"
| "strip (Arr vs) = Arr (map strip vs)"
| "strip (Obj kvs) =
    Obj (map (\<lambda>kv. (fst kv, strip (snd kv))) (filter (\<lambda>kv. \<not> noiseKeys (ToLower (fst kv))) kvs))"
| "strip v = v"

text \<open>No object of the payload uses the key that marks a reference.\<close>

fun no_ref :: "gv \<Rightarrow> bool" where
  "no_ref (Arr vs) = list_all no_ref vs"
| "no_ref (Obj kvs) = list_all (\<lambda>kv. fst kv \<noteq> ''$cpa_blob'' \<and> no_ref (snd kv)) kvs"
| "no_ref v = True"

text \<open>The loader returns the content of a blob, whose size is a Go \<open>int\<close>.\<close>

definition served :: "(string \<Rightarrow> string result) \<Rightarrow> Blob list \<Rightarrow> bool" where
  "served load blobs \<longleftrightarrow> (\<forall>b \<in> set blobs. load (Hash b) = Inr (Data b) \<and> length (Data b) < 2 ^ 63)"

lemma served_append [simp]: "served load (bs @ bs') \<longleftrightarrow> served load bs \<and> served load bs'"
  by (auto simp: served_def)

lemma served_concat [simp]: "served load (concat bss) \<longleftrightarrow> (\<forall>bs \<in> set bss. served load bs)"
  by (auto simp: served_def)

section \<open>Compaction keeps values well formed\<close>

lemma maybeExternalize_cases:
  obtains (inline) "maybeExternalize v d bs = (v, bs)"
  | (blob) b where "maybeExternalize v d bs = (blobRef (Hash b) ''json'' (length (Data b)) (MediaType b), bs @ [b])"
      "b = newBlob (Marshal v) ''application/json''" "subtreeThreshold \<le> length (Data b)" "d \<noteq> 0"
  by (cases "d = 0 \<or> length (Marshal v) < subtreeThreshold")
    (auto simp: maybeExternalize_def Let_def newBlob_def)

lemma compactString_cases:
  obtains (data_url) media raw b where "dataURL s = Some (media, raw)" "b = newBlob raw media"
      "compactString s = (blobRef (Hash b) ''data-url'' (length raw) media, [b])"
  | (inline) "dataURL s = None" "compactString s = (Str s, [])"
  | (utf8) b where "dataURL s = None" "b = newBlob s ''text/plain; charset=utf-8''"
      "compactString s = (blobRef (Hash b) ''utf8'' (length s) (MediaType b), [b])"
  by (cases "dataURL s"; cases "length s < inlineThreshold") (auto simp: compactString_def Let_def)

lemma newBlob_simps [simp]:
  "Data (newBlob raw media) = raw" "MediaType (newBlob raw media) = media"
  by (simp_all add: newBlob_def)

lemma compactString_wf:
  assumes "valid_utf8 s"
  shows "jwf (fst (compactString s)) \<and> jdepth (fst (compactString s)) \<le> 1"
  by (cases rule: compactString_cases [of s])
    (use assms in \<open>auto intro!: jwf_blobRef valid_utf8_hash dest: valid_utf8_media\<close>)

lemma maybeExternalize_wf:
  assumes "jwf v" and "jdepth v \<le> k" and "1 \<le> k"
  shows "jwf (fst (maybeExternalize v d bs)) \<and> jdepth (fst (maybeExternalize v d bs)) \<le> k"
  by (cases rule: maybeExternalize_cases [of v d bs])
    (use assms in \<open>auto intro!: jwf_blobRef valid_utf8_hash\<close>)

lemma compactValue_wf:
  "jwf v \<Longrightarrow> plain v \<Longrightarrow>
    jwf (fst (compactValue d v)) \<and> jdepth (fst (compactValue d v)) \<le> Suc (jdepth v)"
proof (induction d v rule: compactValue.induct)
  case (1 d s)
  then show ?case using compactString_wf [of s] by simp
next
  case (2 d vs)
  have IH: "jwf (fst (compactValue (d + 1) v)) \<and> jdepth (fst (compactValue (d + 1) v)) \<le> jdepth (Arr vs)"
    if "v \<in> set vs" for v
  proof -
    have "jdepth v < jdepth (Arr vs)"
      using that fold_max_le [of "map jdepth vs" 0 "fold max (map jdepth vs) 0"] by (auto simp: less_Suc_eq_le)
    with 2 that show ?thesis by (fastforce simp: list_all_iff)
  qed
  show ?case
    unfolding compactValue.simps Let_def
    by (rule maybeExternalize_wf) (use IH in \<open>auto simp: list_all_iff fold_max_le\<close>)
next
  case (3 d kvs)
  have IH: "jwf (fst (compactValue (d + 1) (snd kv))) \<and>
      jdepth (fst (compactValue (d + 1) (snd kv))) \<le> jdepth (Obj kvs)"
    if "kv \<in> set kvs" "\<not> noiseKeys (ToLower (fst kv))" for kv
  proof -
    have "jdepth (snd kv) < jdepth (Obj kvs)"
      using that fold_max_le [of "map (\<lambda>kv. jdepth (snd kv)) kvs" 0 "fold max (map (\<lambda>kv. jdepth (snd kv)) kvs) 0"]
      by (auto simp: less_Suc_eq_le)
    with 3 that show ?thesis by (fastforce simp: list_all_iff)
  qed
  show ?case
    unfolding compactValue.simps Let_def
    by (rule maybeExternalize_wf) (use IH "3.prems" in \<open>auto simp: list_all_iff fold_max_le\<close>)
qed simp_all

section \<open>Expansion undoes compaction\<close>

lemma opt_all_map: "opt_all (map f xs) = Some ys \<longleftrightarrow> list_all2 (\<lambda>x y. f x = Some y) xs ys"
  by (induction xs arbitrary: ys) (auto split: option.splits simp: list_all2_Cons1)

lemma map_res_all2: "list_all2 (\<lambda>x y. f x = Inr y) xs ys \<Longrightarrow> map_res f xs = Inr ys"
  by (induction rule: list_all2_induct) auto

lemma reify_Obj_sorted:
  "sorted_keys kvs \<Longrightarrow> reify (Obj kvs) = Obj (map (\<lambda>kv. (fst kv, reify (snd kv))) kvs)"
  by (simp add: sort_sorted_keys obj_of_sorted sorted_keys_map_snd)

lemma expand_ref:
  assumes "obj_get kvs ''$cpa_blob'' = Some (Str h)" and "load h = Inr raw"
  shows "get_string kvs ''encoding'' = ''raw'' \<Longrightarrow> expandValue n load (Obj kvs) = Inr (Raw raw)"
    and "get_string kvs ''encoding'' = ''utf8'' \<Longrightarrow> expandValue n load (Obj kvs) = Inr (Str raw)"
    and "get_string kvs ''encoding'' = ''data-url'' \<Longrightarrow> expandValue n load (Obj kvs) =
      Inr (Str (''data:'' @ get_string kvs ''media_type'' @ '';base64,'' @ b64_encode raw))"
    and "get_string kvs ''encoding'' = ''json'' \<Longrightarrow> Unmarshal raw = Some nested \<Longrightarrow>
      expandValue (Suc m) load (Obj kvs) = expandValue m load nested"
  using assms by (subst expandValue.simps; simp)+

text \<open>Two values of which one decodes and expands to the other, with enough fuel.\<close>

definition expands_to :: "(string \<Rightarrow> string result) \<Rightarrow> nat \<Rightarrow> gv \<Rightarrow> gv \<Rightarrow> bool" where
  "expands_to load k c w \<longleftrightarrow>
    (\<exists>c'. to_float (reify c) = Some c' \<and> (\<forall>n \<ge> k. expandValue n load c' = Inr w))"

lemma expands_to_leaf:
  assumes "to_float v = Some w" and "\<And>vs. v \<noteq> Arr vs" and "\<And>kvs. v \<noteq> Obj kvs" and "plain v"
  shows "expands_to load k v w"
proof -
  have "expandValue n load w = Inr w" for n
    using assms by (cases v; cases w) (auto simp: expandValue.simps)
  with assms(1,4) show ?thesis by (auto simp: expands_to_def reify_plain)
qed

lemma expands_to_ref:
  assumes "load h = Inr raw" and "sz < 2 ^ 63"
  shows "enc = ''utf8'' \<Longrightarrow> expands_to load k (blobRef h enc sz media) (Str raw)"
    and "enc = ''data-url'' \<Longrightarrow> expands_to load k (blobRef h enc sz media)
      (Str (''data:'' @ media @ '';base64,'' @ b64_encode raw))"
    and "enc = ''raw'' \<Longrightarrow> expands_to load k (blobRef h enc sz media) (Raw raw)"
proof -
  obtain kvs where kvs: "to_float (reify (blobRef h enc sz media)) = Some (Obj kvs)"
    "obj_get kvs ''$cpa_blob'' = Some (Str h)" "get_string kvs ''encoding'' = enc"
    "get_string kvs ''media_type'' = media"
    using ref_decoded [OF assms(2)] by metis
  note e = expand_ref [where load = load, OF kvs(2) assms(1), unfolded kvs(3,4)]
  show "enc = ''utf8'' \<Longrightarrow> expands_to load k (blobRef h enc sz media) (Str raw)"
    "enc = ''data-url'' \<Longrightarrow> expands_to load k (blobRef h enc sz media)
      (Str (''data:'' @ media @ '';base64,'' @ b64_encode raw))"
    "enc = ''raw'' \<Longrightarrow> expands_to load k (blobRef h enc sz media) (Raw raw)"
    unfolding expands_to_def using kvs(1) e(1-3) by blast+
qed

lemma expands_to_externalized:
  assumes v: "expands_to load k v w" and "jwf v" and "jdepth v \<le> max_depth"
    and s: "served load (snd (maybeExternalize v d bs))"
  shows "expands_to load (Suc k) (fst (maybeExternalize v d bs)) w"
proof (cases rule: maybeExternalize_cases [of v d bs])
  case inline
  with v show ?thesis by (auto simp: expands_to_def)
next
  case (blob b)
  from v obtain c where c: "to_float (reify v) = Some c" "\<forall>n \<ge> k. expandValue n load c = Inr w"
    by (auto simp: expands_to_def)
  have l: "load (Hash b) = Inr (Marshal v)" and sz: "length (Data b) < 2 ^ 63"
    using s blob by (auto simp: served_def)
  obtain kvs where kvs: "to_float (reify (blobRef (Hash b) ''json'' (length (Data b)) (MediaType b))) = Some (Obj kvs)"
    "obj_get kvs ''$cpa_blob'' = Some (Str (Hash b))" "get_string kvs ''encoding'' = ''json''"
    using ref_decoded [OF sz] by metis
  have "Unmarshal (Marshal v) = Some c" using Unmarshal_marshal assms(2,3) c(1) by simp
  then have "expandValue (Suc m) load (Obj kvs) = expandValue m load c" for m
    by (rule expand_ref(4) [where load = load, OF kvs(2) l kvs(3)])
  with c(2) have "expandValue n load (Obj kvs) = Inr w" if "n \<ge> Suc k" for n
    using that by (cases n) auto
  with kvs(1) blob(1) show ?thesis by (auto simp: expands_to_def)
qed

lemma expands_to_Arr:
  assumes "list_all2 (expands_to load k) cs ws"
  shows "expands_to load k (Arr cs) (Arr ws)"
proof -
  have "\<exists>ds. list_all2 (\<lambda>c d. to_float (reify c) = Some d) cs ds \<and>
      (\<forall>n \<ge> k. list_all2 (\<lambda>d w. expandValue n load d = Inr w) ds ws)"
    using assms
  proof (induction rule: list_all2_induct)
    case (Cons c cs w ws)
    then obtain d ds where "to_float (reify c) = Some d" "\<forall>n \<ge> k. expandValue n load d = Inr w"
      "list_all2 (\<lambda>c d. to_float (reify c) = Some d) cs ds"
      "\<forall>n \<ge> k. list_all2 (\<lambda>d w. expandValue n load d = Inr w) ds ws"
      by (auto simp: expands_to_def)
    then show ?case by (intro exI [of _ "d # ds"]) simp
  qed (intro exI [of _ "[]"], simp)
  then obtain ds where ds: "list_all2 (\<lambda>c d. to_float (reify c) = Some d) cs ds"
    "\<forall>n \<ge> k. list_all2 (\<lambda>d w. expandValue n load d = Inr w) ds ws" by blast
  have "to_float (reify (Arr cs)) = Some (Arr ds)"
    using ds(1) opt_all_map [of "\<lambda>c. to_float (reify c)" cs ds] by (simp add: comp_def)
  moreover have "expandValue n load (Arr ds) = Inr (Arr ws)" if "n \<ge> k" for n
    using map_res_all2 [of "expandValue n load" ds ws] ds(2) that by (simp add: expandValue.simps)
  ultimately show ?thesis by (auto simp: expands_to_def)
qed

lemma expands_to_Obj:
  assumes "list_all2 (\<lambda>kc kw. fst kc = fst kw \<and> expands_to load k (snd kc) (snd kw)) kcs kws"
    and "sorted_keys kcs" and "\<forall>kc \<in> set kcs. fst kc \<noteq> ''$cpa_blob''"
  shows "expands_to load k (Obj kcs) (Obj kws)"
proof -
  let ?fl = "\<lambda>kc. map_option (\<lambda>v. (fst kc, v)) (to_float (reify (snd kc)))"
  let ?ex = "\<lambda>n kd. bind_res (expandValue n load (snd kd)) (\<lambda>y. Inr (fst kd, y))"
  have "\<exists>kds. list_all2 (\<lambda>kc kd. ?fl kc = Some kd) kcs kds \<and>
      (\<forall>n \<ge> k. list_all2 (\<lambda>kd kw. ?ex n kd = Inr kw) kds kws)"
    using assms(1)
  proof (induction rule: list_all2_induct)
    case (Cons kc kcs kw kws)
    then obtain d kds where d: "to_float (reify (snd kc)) = Some d" "\<forall>n \<ge> k. expandValue n load d = Inr (snd kw)"
      "list_all2 (\<lambda>kc kd. ?fl kc = Some kd) kcs kds"
      "\<forall>n \<ge> k. list_all2 (\<lambda>kd kw. ?ex n kd = Inr kw) kds kws"
      by (auto simp: expands_to_def)
    with Cons.hyps(1) show ?case by (intro exI [of _ "(fst kc, d) # kds"]) simp
  qed (intro exI [of _ "[]"], simp)
  then obtain kds where kds: "list_all2 (\<lambda>kc kd. ?fl kc = Some kd) kcs kds"
    "\<forall>n \<ge> k. list_all2 (\<lambda>kd kw. ?ex n kd = Inr kw) kds kws" by blast
  have keys: "map fst kds = map fst kcs"
    using kds(1) by (induction rule: list_all2_induct) auto
  have "''$cpa_blob'' \<notin> fst ` set kds"
    using assms(3) arg_cong [OF keys, of set] by auto
  then have none: "obj_get kds ''$cpa_blob'' = None" by (simp add: map_of_eq_None_iff)
  have "to_float (reify (Obj kcs)) = Some (Obj kds)"
    using kds(1) opt_all_map [of ?fl kcs kds] assms(2) by (simp add: reify_Obj_sorted comp_def del: reify.simps)
  moreover have "expandValue n load (Obj kds) = Inr (Obj kws)" if "n \<ge> k" for n
    using map_res_all2 [of "?ex n" kds kws] kds(2) that none by (simp add: expandValue.simps [of n load "Obj kds"])
  ultimately show ?thesis by (auto simp: expands_to_def)
qed

text \<open>The invariant of the recursion.\<close>

lemma expand_compactString:
  assumes "served load (snd (compactString s))"
  shows "expands_to load k (fst (compactString s)) (Str (strip_string s))"
proof (cases rule: compactString_cases [of s])
  case (data_url media raw b)
  with assms have "load (Hash b) = Inr raw" "length raw < 2 ^ 63" by (auto simp: served_def)
  with data_url show ?thesis using expands_to_ref(2) [of load "Hash b" raw "length raw" "''data-url''" k media]
    by (simp add: strip_string_def)
next
  case inline
  then show ?thesis using expands_to_leaf [of "Str s" "Str s" load k] by (simp add: strip_string_def)
next
  case (utf8 b)
  with assms have "load (Hash b) = Inr s" "length s < 2 ^ 63" by (auto simp: served_def)
  with utf8 show ?thesis
    using expands_to_ref(1) [of load "Hash b" s "length s" "''utf8''" k "MediaType b"]
    by (simp add: strip_string_def)
qed

lemma served_maybeExternalize: "served load (snd (maybeExternalize v d bs)) \<Longrightarrow> served load bs"
  by (cases rule: maybeExternalize_cases [of v d bs]) auto

lemma expands_to_mono: "expands_to load k c w \<Longrightarrow> k \<le> k' \<Longrightarrow> expands_to load k' c w"
  by (fastforce simp: expands_to_def)

lemma jdepth_Arr: "v \<in> set vs \<Longrightarrow> Suc (jdepth v) \<le> jdepth (Arr vs)"
  using fold_max_le [of "map jdepth vs" 0 "fold max (map jdepth vs) 0"] by auto

lemma jdepth_Obj: "kv \<in> set kvs \<Longrightarrow> Suc (jdepth (snd kv)) \<le> jdepth (Obj kvs)"
  using fold_max_le [of "map (\<lambda>kv. jdepth (snd kv)) kvs" 0 "fold max (map (\<lambda>kv. jdepth (snd kv)) kvs) 0"]
  by auto

lemma jdepth_ArrI: "(\<And>v. v \<in> set vs \<Longrightarrow> jdepth v < k) \<Longrightarrow> 0 < k \<Longrightarrow> jdepth (Arr vs) \<le> k"
  by (cases k) (auto simp: fold_max_le less_Suc_eq_le)

lemma jdepth_ObjI: "(\<And>kv. kv \<in> set kvs \<Longrightarrow> jdepth (snd kv) < k) \<Longrightarrow> 0 < k \<Longrightarrow> jdepth (Obj kvs) \<le> k"
  by (cases k) (auto simp: fold_max_le less_Suc_eq_le)

lemma expand_compactValue:
  "jwf v \<Longrightarrow> plain v \<Longrightarrow> no_ref v \<Longrightarrow> jdepth v < max_depth \<Longrightarrow> to_float (strip v) = Some w \<Longrightarrow>
    served load (snd (compactValue d v)) \<Longrightarrow> expands_to load (jdepth v) (fst (compactValue d v)) w"
proof (induction d v arbitrary: w rule: compactValue.induct)
  case (1 d s)
  then show ?case using expand_compactString [of load s] by simp
next
  case (2 d vs)
  let ?cs = "map (\<lambda>v. fst (compactValue (d + 1) v)) vs"
  obtain k where k: "jdepth (Arr vs) = Suc k" by simp
  have served: "\<forall>v \<in> set vs. served load (snd (compactValue (d + 1) v))"
    using served_maybeExternalize [OF "2.prems"(6) [unfolded compactValue.simps Let_def]] by simp
  from "2.prems"(5) obtain ws where w: "w = Arr ws" "list_all2 (\<lambda>v w. to_float (strip v) = Some w) vs ws"
    by (auto simp: opt_all_map comp_def)
  have "list_all2 (\<lambda>v w. expands_to load k (fst (compactValue (d + 1) v)) w) vs ws"
  proof (rule list_all2_all_nthI)
    show "length vs = length ws" using w(2) by (rule list_all2_lengthD)
    fix i
    assume i: "i < length vs"
    then have v: "vs ! i \<in> set vs" "to_float (strip (vs ! i)) = Some (ws ! i)"
      using list_all2_nthD [OF w(2)] by auto
    show "expands_to load k (fst (compactValue (d + 1) (vs ! i))) (ws ! i)"
      using "2.IH" [OF v(1) _ _ _ _ v(2)] "2.prems"(1-4) v(1) served jdepth_Arr [OF v(1)] k
      by (auto simp: list_all_iff intro: expands_to_mono)
  qed
  then have a: "expands_to load k (Arr ?cs) w"
    unfolding w(1) by (intro expands_to_Arr) (simp add: list_all2_map1)
  have each: "jwf (fst (compactValue (d + 1) v)) \<and> jdepth (fst (compactValue (d + 1) v)) < max_depth"
    if "v \<in> set vs" for v
    using compactValue_wf [of v "d + 1"] "2.prems"(1,2,4) jdepth_Arr [OF that] that
    by (auto simp: list_all_iff)
  have wf: "jwf (Arr ?cs)" "jdepth (Arr ?cs) \<le> max_depth"
    using each by (auto simp: list_all_iff intro!: jdepth_ArrI simp del: jdepth.simps)
      (simp add: max_depth_def)
  show ?case
    using expands_to_externalized [OF a wf] "2.prems"(6) k by (simp add: comp_def Let_def)
next
  case (3 d kvs)
  let ?kvs = "filter (\<lambda>kv. \<not> noiseKeys (ToLower (fst kv))) kvs"
  let ?cs = "map (\<lambda>kv. (fst kv, fst (compactValue (d + 1) (snd kv)))) ?kvs"
  obtain k where k: "jdepth (Obj kvs) = Suc k" by simp
  have served: "\<forall>kv \<in> set ?kvs. served load (snd (compactValue (d + 1) (snd kv)))"
    using served_maybeExternalize [OF "3.prems"(6) [unfolded compactValue.simps Let_def]] by simp
  from "3.prems"(5) obtain ws where w: "w = Obj ws"
      "list_all2 (\<lambda>kv kw. map_option (Pair (fst kv)) (to_float (strip (snd kv))) = Some kw) ?kvs ws"
    by (auto simp: opt_all_map comp_def)
  have "list_all2 (\<lambda>kv kw. fst kv = fst kw \<and>
      expands_to load k (fst (compactValue (d + 1) (snd kv))) (snd kw)) ?kvs ws"
  proof (rule list_all2_all_nthI)
    show "length ?kvs = length ws" using w(2) by (rule list_all2_lengthD)
    fix i
    assume i: "i < length ?kvs"
    have e: "map_option (Pair (fst (?kvs ! i))) (to_float (strip (snd (?kvs ! i)))) = Some (ws ! i)"
      by (rule list_all2_nthD [OF w(2) i])
    have v: "?kvs ! i \<in> set ?kvs" "to_float (strip (snd (?kvs ! i))) = Some (snd (ws ! i))"
      "fst (?kvs ! i) = fst (ws ! i)"
      by (rule nth_mem [OF i]) (use e in \<open>auto simp: prod_eq_iff\<close>)
    have "?kvs ! i \<in> set kvs" using v(1) by simp
    then have p: "jwf (snd (?kvs ! i))" "plain (snd (?kvs ! i))" "no_ref (snd (?kvs ! i))"
      "Suc (jdepth (snd (?kvs ! i))) \<le> Suc k"
      using "3.prems"(1-3) jdepth_Obj [of "?kvs ! i" kvs] k by (simp_all add: list_all_iff)
    have "expands_to load (jdepth (snd (?kvs ! i))) (fst (compactValue (d + 1) (snd (?kvs ! i)))) (snd (ws ! i))"
      using "3.prems"(4) p(4) k by (intro "3.IH" [OF v(1) p(1-3) _ v(2) bspec [OF served v(1)]]) linarith
    then show "fst (?kvs ! i) = fst (ws ! i) \<and>
        expands_to load k (fst (compactValue (d + 1) (snd (?kvs ! i)))) (snd (ws ! i))"
      using v(3) p(4) by (auto elim: expands_to_mono)
  qed
  moreover have "sorted_keys ?cs"
    using sorted_keys_map_snd [of "\<lambda>v. fst (compactValue (d + 1) v)" ?kvs] "3.prems"(2)
    by (simp add: sorted_keys_filter)
  ultimately have a: "expands_to load k (Obj ?cs) w"
    unfolding w(1) by (intro expands_to_Obj) (use "3.prems"(3) in \<open>auto simp: list_all2_map1 list_all_iff\<close>)
  have each: "valid_utf8 (fst kv) \<and> jwf (fst (compactValue (d + 1) (snd kv))) \<and>
      jdepth (fst (compactValue (d + 1) (snd kv))) < max_depth" if "kv \<in> set ?kvs" for kv
    using compactValue_wf [of "snd kv" "d + 1"] "3.prems"(1,2,4) jdepth_Obj [of kv kvs] that
    by (auto simp: list_all_iff)
  have wf: "jwf (Obj ?cs)" "jdepth (Obj ?cs) \<le> max_depth"
    using each by (auto simp: list_all_iff intro!: jdepth_ObjI simp del: jdepth.simps)
      (simp add: max_depth_def)
  show ?case
    using expands_to_externalized [OF a wf] "3.prems"(6) k by (simp add: comp_def Let_def)
qed (auto intro!: expands_to_leaf)

section \<open>Payloads\<close>

lemma terminalSSEPayload_event:
  assumes "terminalSSEPayload raw = Some t"
  obtains event rest s where "Decode s = Some (Obj event, rest)" "t = Marshal (Obj event)"
    "obj_get event ''type'' = Some (Str ''response.completed'')"
  using assms
  by (auto simp: terminalSSEPayload_def Let_def simp del: marshal.simps
      split: option.splits if_splits prod.splits gv.splits)

text \<open>The text that is archived: the terminal event of a completed stream, else the payload.\<close>

definition effective :: "string \<Rightarrow> string" where
  "effective raw = (case terminalSSEPayload raw of Some terminal \<Rightarrow> terminal | None \<Rightarrow> raw)"

text \<open>No two of the contents have the same SHA-256 hash.\<close>

definition collision_free :: "string list \<Rightarrow> bool" where
  "collision_free ds \<longleftrightarrow> (\<forall>x \<in> set ds. \<forall>y \<in> set ds. sha256_hex x = sha256_hex y \<longrightarrow> x = y)"

definition is_new :: "Blob \<Rightarrow> bool" where
  "is_new b \<longleftrightarrow> (\<exists>raw media. b = newBlob raw media)"

lemma is_new_newBlob [simp]: "is_new (newBlob raw media)"
  by (auto simp: is_new_def)

lemma compactValue_new: "\<forall>b \<in> set (snd (compactValue d v)). is_new b"
proof (induction d v rule: compactValue.induct)
  case (1 d s)
  show ?case by (cases rule: compactString_cases [of s]) auto
next
  case (2 d vs)
  then show ?case
    by (cases rule: maybeExternalize_cases [of "Arr (map fst (map (compactValue (d + 1)) vs))" d
          "concat (map snd (map (compactValue (d + 1)) vs))"]) (auto simp: Let_def)
next
  case (3 d kvs)
  let ?rs = "map (\<lambda>kv. (fst kv, compactValue (d + 1) (snd kv))) (filter (\<lambda>kv. \<not> noiseKeys (ToLower (fst kv))) kvs)"
  from 3 show ?case
    by (cases rule: maybeExternalize_cases [of "Obj (map (\<lambda>kr. (fst kr, fst (snd kr))) ?rs)" d
          "concat (map (\<lambda>kr. snd (snd kr)) ?rs)"]) (auto simp: Let_def)
qed simp_all

lemma blobSlice_keeps: "b \<in> set bs \<Longrightarrow> \<exists>b' \<in> set (blobSlice bs). Hash b' = Hash b"
proof (induction bs arbitrary: b)
  case (Cons a bs)
  show ?case
  proof (cases "\<exists>b' \<in> set bs. Hash b' = Hash a")
    case True
    then have "b \<in> set bs \<or> (\<exists>b' \<in> set bs. Hash b' = Hash b)" using Cons.prems by auto
    with True Cons.IH show ?thesis by fastforce
  next
    case False
    with Cons show ?thesis by auto
  qed
qed simp

lemma blobSlice_subset: "set (blobSlice bs) \<subseteq> set bs"
  by (induction bs) auto

lemma blobSlice_distinct: "distinct (map Hash (blobSlice bs))"
  using blobSlice_subset by (induction bs) (auto, fastforce)

lemma is_new_Hash: "is_new b \<Longrightarrow> Hash b = ''sha256:'' @ sha256_hex (Data b)"
  by (auto simp: is_new_def newBlob_def)

lemma served_blobSlice:
  assumes "served load (blobSlice bs)" and "\<forall>b \<in> set bs. is_new b" and "collision_free (map Data bs)"
  shows "served load bs"
  unfolding served_def
proof
  fix b
  assume b: "b \<in> set bs"
  then obtain b' where b': "b' \<in> set (blobSlice bs)" "Hash b' = Hash b" using blobSlice_keeps by blast
  then have "b' \<in> set bs" using blobSlice_subset by blast
  with b b'(2) assms(2,3) have "Data b' = Data b"
    by (auto simp: collision_free_def is_new_Hash)
  with assms(1) b' show "load (Hash b) = Inr (Data b) \<and> length (Data b) < 2 ^ 63"
    by (force simp: served_def)
qed

lemma marshal_not_Nil: "jwf v \<Longrightarrow> marshal html v \<noteq> []"
  by (metis list.distinct(1) marshal_start)

lemma CompactPayload_json:
  assumes "raw \<noteq> []" and "Decode (effective raw) = Some (v, rest)"
  shows "CompactPayload raw = (Marshal (fst (compactValue 0 v)), blobSlice (snd (compactValue 0 v)))"
  using assms by (simp add: CompactPayload_def effective_def Let_def split_beta)

lemma CompactPayload_raw:
  assumes "raw \<noteq> []" and "Decode (effective raw) = None"
  shows "CompactPayload raw =
    (Marshal (blobRef (Hash (newBlob (effective raw) [])) ''raw'' (length (effective raw)) []),
     [newBlob (effective raw) []])"
  using assms by (simp add: CompactPayload_def effective_def Let_def)

lemma ExpandPayload_marshal:
  assumes "jwf c" and "jdepth c \<le> max_depth" and "expands_to load k c w" and "n \<ge> k"
  shows "ExpandPayload n (Marshal c) load = Inr (case w of Raw s \<Rightarrow> s | _ \<Rightarrow> Marshal w)"
  using assms
  by (auto simp: ExpandPayload_def Unmarshal_marshal marshal_not_Nil expands_to_def)

text \<open>
  Expanding the manifest of a JSON payload through a loader that serves its blobs returns the encoding of the
  stripped value, with fuel for one unit per nesting level.
\<close>

lemma expand_compact_json:
  assumes "raw \<noteq> []" and "Decode (effective raw) = Some (v, rest)"
    and "no_ref v" and "jdepth v < max_depth" and "to_float (strip v) = Some w"
    and "collision_free (map Data (snd (compactValue 0 v)))"
    and "served load (snd (CompactPayload raw))" and "n \<ge> jdepth v"
  shows "ExpandPayload n (fst (CompactPayload raw)) load = Inr (Marshal w)"
proof -
  have v: "jwf v" "plain v" using Decode_wf [OF assms(2)] by (simp_all add: wf_value_def)
  have "served load (blobSlice (snd (compactValue 0 v)))"
    using assms(7) unfolding CompactPayload_json [OF assms(1,2)] by (simp only: snd_conv)
  then have "served load (snd (compactValue 0 v))"
    by (rule served_blobSlice [OF _ compactValue_new assms(6)])
  then have e: "expands_to load (jdepth v) (fst (compactValue 0 v)) w"
    by (rule expand_compactValue [OF v assms(3,4,5)])
  have "\<And>s. w \<noteq> Raw s"
  proof
    fix s
    assume "w = Raw s"
    with assms(5) have "strip v = Raw s" by (cases "strip v") (simp_all add: map_option_case split: option.splits)
    with v(2) show False by (cases v) simp_all
  qed
  then have "(case w of Raw s \<Rightarrow> s | _ \<Rightarrow> Marshal w) = Marshal w" by (cases w) auto
  moreover have "jwf (fst (compactValue 0 v))" "jdepth (fst (compactValue 0 v)) \<le> max_depth"
    using compactValue_wf [OF v, of 0] assms(4) by auto
  ultimately show ?thesis
    using ExpandPayload_marshal [OF _ _ e assms(8)] CompactPayload_json [OF assms(1,2)]
    by (simp del: marshal.simps)
qed


text \<open>A payload that is not JSON comes back byte for byte.\<close>

theorem expand_compact_raw:
  assumes "raw \<noteq> []" and "Decode (effective raw) = None"
    and "served load (snd (CompactPayload raw))"
  shows "effective raw = raw \<and> ExpandPayload n (fst (CompactPayload raw)) load = Inr raw"
proof -
  have same: "effective raw = raw"
  proof (cases "terminalSSEPayload raw")
    case (Some t)
    then obtain event rest s where "Decode s = Some (Obj event, rest)" "t = Marshal (Obj event)"
      by (rule terminalSSEPayload_event)
    then have "Decode t = Some (Obj event, [])" using Decode_Marshal [OF Decode_wf] by (simp only:)
    with Some assms(2) show ?thesis by (simp add: effective_def)
  qed (simp add: effective_def)
  let ?b = "newBlob raw []"
  have "load (Hash ?b) = Inr raw" "length raw < 2 ^ 63"
    using assms(3) CompactPayload_raw [OF assms(1,2)] same by (simp_all add: served_def)
  then have "expands_to load 0 (blobRef (Hash ?b) ''raw'' (length raw) []) (Raw raw)"
    by (intro expands_to_ref(3)) simp_all
  moreover have "jwf (blobRef (Hash ?b) ''raw'' (length raw) [])"
    by (intro jwf_blobRef valid_utf8_hash) simp_all
  ultimately have "ExpandPayload n (fst (CompactPayload raw)) load = Inr raw"
    using ExpandPayload_marshal [of "blobRef (Hash ?b) ''raw'' (length raw) []" load 0 "Raw raw" n]
      CompactPayload_raw [OF assms(1,2)] same by (simp add: max_depth_def)
  with same show ?thesis by simp
qed

section \<open>Examples\<close>

definition sample_payload :: string where
  \<open>sample_payload = ''{"u":"data:a;base64,QQ=="}''\<close>


lemmas text_eval = pstr.simps runes.simps utf8_head.simps skip_ws_def json_ws_def tok_def
  escape_char_def plit_def HasPrefix_def char_of_eq_iff

lemma sample_Decode: "Decode sample_payload = Some (Obj [(''u'', Str ''data:a;base64,QQ=='')], [])"
  by (simp add: Decode_def sample_payload_def max_depth_def text_eval obj_of_def)

lemma sample_effective: "effective sample_payload = sample_payload"
  by (simp add: effective_def terminalSSEPayload_def sample_payload_def HasPrefix_def)

lemma sample_dataURL: "dataURL ''data:a;base64,QQ=='' = Some (''a'', ''A'')"
  by (simp_all add: dataURL_def text_eval Contains_def TrimPrefix_def SplitByte.simps b64_decode_def b64val_def)

lemma sample_lower: "ToLower ''u'' = ''u''"
  by (simp_all add: ToLower_ascii lower_rune_def char_of_eq_iff)

lemma sample_compact:
  "compactValue 0 (Obj [(''u'', Str ''data:a;base64,QQ=='')]) =
    (Obj [(''u'', blobRef (Hash (newBlob ''A'' ''a'')) ''data-url'' 1 ''a'')], [newBlob ''A'' ''a''])"
  by (simp add: sample_lower noiseKeys_def compactString_def sample_dataURL maybeExternalize_def Let_def)


theorem expand_compact_raw_witness:
  "ExpandPayload 0 (fst (CompactPayload ''hi'')) (\<lambda>h. Inr ''hi'') = Inr ''hi''"
proof -
  have e: "effective ''hi'' = ''hi''"
    by (simp add: effective_def terminalSSEPayload_def HasPrefix_def)
  have d: "Decode (effective ''hi'') = None"
    by (simp add: e Decode_def text_eval pnum_def psign_def pint_def pdigits_def is_digit_def)
  have "served (\<lambda>h. Inr ''hi'') (snd (CompactPayload ''hi''))"
    using CompactPayload_raw [OF _ d] by (simp add: served_def e)
  with d show ?thesis using expand_compact_raw [of "''hi''" "\<lambda>h. Inr ''hi''" 0] by simp
qed

end
