(* ===== verification/Blob_Store.thy ===== *)
theory Blob_Store
  imports Schema Cas_Roundtrip
begin

text \<open>
  The blob table of the store (\<open>internal/archive/store.go\<close>): writing a payload as a manifest blob with the
  blobs it refers to, reading it back, and the garbage collector that deletes unreachable blobs.

  The content-addressed contract is the locale \<open>content_store\<close>; it is interpreted on \<open>putBlob\<close> and
  \<open>loadBlob\<close>. Its invariant names a universe of contents without SHA-256 collisions.
\<close>

section \<open>Operations\<close>

definition gzipBytes :: "string \<Rightarrow> gz" where
  "gzipBytes b = (if b = [] then NoData else Stream b)"

definition gunzipBytesChecked :: "gz \<Rightarrow> string result" where
  "gunzipBytesChecked b = (case b of NoData \<Rightarrow> Inr [] | Stream s \<Rightarrow> Inr s | Corrupt _ \<Rightarrow> Inl BadGzip)"

definition gunzipBytes :: "gz \<Rightarrow> string" where
  "gunzipBytes b = (case gunzipBytesChecked b of Inr s \<Rightarrow> s | Inl _ \<Rightarrow> [])"

text \<open>
  \<open>INSERT OR IGNORE\<close> on the primary key. A nil slice is bound as \<open>NULL\<close>, and a row that violates the
  \<open>NOT NULL\<close> constraint of \<open>data\<close> is ignored as well: empty content is not stored.
\<close>

definition putBlob :: "Blob \<Rightarrow> db \<Rightarrow> db" where
  "putBlob b d =
    (case gzipBytes (Data b) of
       NoData \<Rightarrow> d
     | z \<Rightarrow>
         d\<lparr>blobs := insert_ignore bl_hash
             \<lparr>bl_hash = Hash b, bl_media = MediaType b, bl_raw_size = int (RawSize b), bl_data = GzipCodec z\<rparr>
             (blobs d)\<rparr>)"

definition manifest_media :: string where
  "manifest_media = ''application/vnd.cpa.archive-manifest+json''"

definition putPayload :: "string \<Rightarrow> db \<Rightarrow> string \<times> db" where
  "putPayload raw d =
    (if raw = [] then ([], d)
     else
       let (manifest, bs) = CompactPayload raw;
           d' = fold putBlob bs d;
           mb = newBlob manifest manifest_media
       in (Hash mb, putBlob mb d'))"

definition find_blob :: "db \<Rightarrow> string \<Rightarrow> blob_row option" where
  "find_blob d h = find (\<lambda>b. bl_hash b = h) (blobs d)"

definition blob_bytes :: "blob_data \<Rightarrow> string result" where
  "blob_bytes c = (case c of GzipCodec z \<Rightarrow> gunzipBytesChecked z | OtherCodec s \<Rightarrow> Inr s)"

definition loadBlob :: "db \<Rightarrow> string \<Rightarrow> string result" where
  "loadBlob d h =
    (if h = [] then Inr []
     else (case find_blob d h of None \<Rightarrow> Inl NoRows | Some b \<Rightarrow> blob_bytes (bl_data b)))"

definition LoadPayload :: "nat \<Rightarrow> db \<Rightarrow> string \<Rightarrow> string result" where
  "LoadPayload n d h = bind_res (loadBlob d h) (\<lambda>m. ExpandPayload n m (loadBlob d))"

section \<open>Garbage collection\<close>

text \<open>All references of a decoded value, outermost first: a reference is not searched further.\<close>

fun walk_refs :: "gv \<Rightarrow> string list" where
  "walk_refs (Arr vs) = concat (map walk_refs vs)"
| "walk_refs (Obj kvs) =
    (case obj_get kvs ''$cpa_blob'' of
       Some (Str h) \<Rightarrow> if h \<noteq> [] then [h] else concat (map (\<lambda>kv. walk_refs (snd kv)) kvs)
     | _ \<Rightarrow> concat (map (\<lambda>kv. walk_refs (snd kv)) kvs))"
| "walk_refs v = []"

definition nestedBlobRefs :: "string \<Rightarrow> string list" where
  "nestedBlobRefs raw = (case Unmarshal raw of None \<Rightarrow> [] | Some root \<Rightarrow> walk_refs root)"

definition gc_bytes :: "blob_data \<Rightarrow> string" where
  "gc_bytes c = (case c of GzipCodec z \<Rightarrow> gunzipBytes z | OtherCodec s \<Rightarrow> s)"

text \<open>The roots: every reference held by a record.\<close>

definition gc_roots :: "db \<Rightarrow> string list" where
  "gc_roots d =
    remdups (filter (\<lambda>h. h \<noteq> []) (map original_ref (records d) @ map upstream_ref (records d)
      @ map response_ref (records d)))"

text \<open>
  The work list: the last element is taken first. A reference to a missing blob ends the collection with an
  error. Every reached hash is the key of a blob row, so the loop ends.
\<close>

function gc_mark :: "db \<Rightarrow> string list \<Rightarrow> string list \<Rightarrow> (string list) result" where
  "gc_mark d queue reachable =
    (if queue = [] then Inr reachable
     else
       let h = last queue; queue' = butlast queue in
       if h \<in> set reachable then gc_mark d queue' reachable
       else
         (case find_blob d h of
            None \<Rightarrow> Inl NoRows
          | Some b \<Rightarrow> gc_mark d (queue' @ nestedBlobRefs (gc_bytes (bl_data b))) (h # reachable)))"
  by pat_completeness auto

definition unreached :: "db \<Rightarrow> string list \<Rightarrow> nat" where
  "unreached d reachable = card (bl_hash ` set (blobs d) - set reachable)"

lemma find_blob_key: "find_blob d h = Some b \<Longrightarrow> h \<in> bl_hash ` set (blobs d)"
  by (auto simp: find_blob_def find_Some_iff)

lemma find_blob_None: "find_blob d h = None \<longleftrightarrow> h \<notin> bl_hash ` set (blobs d)"
  by (auto simp: find_blob_def find_None_iff)

lemma unreached_decreases:
  assumes "find_blob d h = Some b" and "h \<notin> set reachable"
  shows "unreached d (h # reachable) < unreached d reachable"
  unfolding unreached_def
  by (rule psubset_card_mono) (use assms find_blob_key in \<open>auto simp del: image_iff\<close>)

termination gc_mark
  by (relation "measures [\<lambda>(d, q, r). unreached d r, \<lambda>(d, q, r). length q]")
    (auto simp: unreached_decreases)

declare gc_mark.simps [simp del]

definition GC :: "db \<Rightarrow> (nat \<times> db) result" where
  "GC d =
    bind_res (gc_mark d (gc_roots d) []) (\<lambda>reachable.
      let stale = filter (\<lambda>h. h \<notin> set reachable) (map bl_hash (blobs d))
      in Inr (length stale, d\<lparr>blobs := filter (\<lambda>b. bl_hash b \<notin> set stale) (blobs d)\<rparr>))"

section \<open>The content-addressed contract\<close>

text \<open>
  A store of contents: what was put is loaded under its hash, and a put never changes what is loaded. \<open>U\<close> is the
  universe of contents in play.
\<close>

locale content_store =
  fixes put :: "Blob \<Rightarrow> 's \<Rightarrow> 's"
    and load :: "'s \<Rightarrow> string \<Rightarrow> string result"
    and inv :: "'s \<Rightarrow> bool"
    and U :: "string set"
  assumes put_inv: "inv s \<Longrightarrow> is_new b \<Longrightarrow> Data b \<in> U \<Longrightarrow> inv (put b s)"
    and load_put: "inv s \<Longrightarrow> is_new b \<Longrightarrow> Data b \<in> U \<Longrightarrow> Data b \<noteq> [] \<Longrightarrow>
      load (put b s) (Hash b) = Inr (Data b)"
    and load_mono: "load s h = Inr x \<Longrightarrow> load (put b s) h = Inr x"
begin

definition storable :: "Blob list \<Rightarrow> bool" where
  "storable bs \<longleftrightarrow> (\<forall>b \<in> set bs. is_new b \<and> Data b \<in> U \<and> Data b \<noteq> [])"

lemma fold_put_inv: "inv s \<Longrightarrow> storable bs \<Longrightarrow> inv (fold put bs s)"
  by (induction bs arbitrary: s) (auto simp: storable_def put_inv)

lemma fold_put_mono: "load s h = Inr x \<Longrightarrow> load (fold put bs s) h = Inr x"
  by (induction bs arbitrary: s) (auto simp: load_mono)

lemma fold_put_loads:
  "inv s \<Longrightarrow> storable bs \<Longrightarrow> b \<in> set bs \<Longrightarrow> load (fold put bs s) (Hash b) = Inr (Data b)"
proof (induction bs arbitrary: s)
  case (Cons a bs)
  have a: "is_new a" "Data a \<in> U" "Data a \<noteq> []" and bs: "storable bs"
    using Cons.prems(2) by (auto simp: storable_def)
  show ?case
  proof (cases "b \<in> set bs")
    case True
    with Cons.IH [OF put_inv [OF Cons.prems(1) a(1,2)] bs] show ?thesis by simp
  next
    case False
    with Cons.prems(3) have "b = a" by simp
    with fold_put_mono [OF load_put [OF Cons.prems(1) a]] show ?thesis by simp
  qed
qed simp

text \<open>A manifest put after its blobs is loaded and its blobs are served.\<close>

lemma put_manifest:
  assumes "inv s" and "storable (bs @ [m])"
  shows "load (put m (fold put bs s)) (Hash m) = Inr (Data m)"
    and "\<forall>b \<in> set bs. load (put m (fold put bs s)) (Hash b) = Inr (Data b)"
    and "inv (put m (fold put bs s))"
    and "load s h = Inr x \<Longrightarrow> load (put m (fold put bs s)) h = Inr x"
  using fold_put_loads [OF assms] fold_put_inv [OF assms] fold_put_mono [of s h x "bs @ [m]"] by auto

end

text \<open>
  The invariant of the blob table: every row is the gzip stream of non-empty content of the universe, under the
  hash of that content, and the universe is free of collisions.
\<close>

definition content_ok :: "string set \<Rightarrow> db \<Rightarrow> bool" where
  "content_ok U d \<longleftrightarrow>
    inj_on sha256_hex U \<and> distinct (map bl_hash (blobs d)) \<and>
    (\<forall>r \<in> set (blobs d). \<exists>s \<in> U. s \<noteq> [] \<and> bl_data r = GzipCodec (Stream s) \<and>
       bl_hash r = ''sha256:'' @ sha256_hex s)"

lemma putBlob_eq:
  "putBlob b d =
    (if Data b = [] then d
     else d\<lparr>blobs := insert_ignore bl_hash
       \<lparr>bl_hash = Hash b, bl_media = MediaType b, bl_raw_size = int (RawSize b),
        bl_data = GzipCodec (Stream (Data b))\<rparr> (blobs d)\<rparr>)"
  by (simp add: putBlob_def gzipBytes_def)

lemma find_blob_putBlob:
  "find_blob (putBlob b d) h =
    (case find_blob d h of
       Some r \<Rightarrow> Some r
     | None \<Rightarrow>
         if Hash b = h \<and> Data b \<noteq> []
         then Some \<lparr>bl_hash = Hash b, bl_media = MediaType b, bl_raw_size = int (RawSize b),
                    bl_data = GzipCodec (Stream (Data b))\<rparr>
         else None)"
  by (simp add: putBlob_eq find_blob_def find_insert_ignore split: option.split)

lemma putBlob_keeps [simp]:
  "records (putBlob b d) = records d" "ingest_clock (putBlob b d) = ingest_clock d"
  by (simp_all add: putBlob_eq)

lemma content_ok_putBlob:
  assumes "content_ok U d" and "is_new b" and "Data b \<in> U"
  shows "content_ok U (putBlob b d)"
proof (cases "Data b = []")
  case True
  with assms show ?thesis by (simp add: putBlob_eq)
next
  case False
  have "set (insert_ignore key new rows) \<subseteq> insert new (set rows)" for key and new :: blob_row and rows
    by (auto simp: insert_ignore_def)
  then show ?thesis
    using assms False insert_ignore_distinct [of bl_hash "blobs d"]
    unfolding content_ok_def putBlob_eq by (fastforce simp: is_new_Hash)
qed

lemma loadBlob_putBlob:
  assumes "content_ok U d" and "is_new b" and "Data b \<in> U" and "Data b \<noteq> []"
  shows "loadBlob (putBlob b d) (Hash b) = Inr (Data b)"
proof (cases "find_blob d (Hash b)")
  case None
  with assms show ?thesis
    by (simp add: loadBlob_def find_blob_putBlob blob_bytes_def gunzipBytesChecked_def is_new_Hash)
next
  case (Some r)
  then have "r \<in> set (blobs d)" "bl_hash r = Hash b"
    by (auto simp: find_blob_def find_Some_iff)
  with assms obtain s where s: "s \<in> U" "bl_data r = GzipCodec (Stream s)" "sha256_hex s = sha256_hex (Data b)"
    by (fastforce simp: content_ok_def is_new_Hash)
  with assms have "s = Data b" by (auto simp: content_ok_def inj_on_def)
  with Some s assms show ?thesis
    by (simp add: loadBlob_def find_blob_putBlob blob_bytes_def gunzipBytesChecked_def is_new_Hash)
qed

lemma loadBlob_mono: "loadBlob d h = Inr x \<Longrightarrow> loadBlob (putBlob b d) h = Inr x"
  by (auto simp: loadBlob_def find_blob_putBlob split: option.splits if_splits)

interpretation cs: content_store putBlob loadBlob "content_ok U" U for U
  by unfold_locales (auto intro: content_ok_putBlob loadBlob_putBlob loadBlob_mono)

section \<open>Payloads in the store\<close>

definition manifest_blob :: "string \<Rightarrow> Blob" where
  "manifest_blob raw = newBlob (fst (CompactPayload raw)) manifest_media"

lemma putPayload_eq:
  "raw \<noteq> [] \<Longrightarrow> putPayload raw d =
    (Hash (manifest_blob raw), putBlob (manifest_blob raw) (fold putBlob (snd (CompactPayload raw)) d))"
  by (simp add: putPayload_def manifest_blob_def Let_def split_beta)

lemma CompactPayload_new: "\<forall>b \<in> set (snd (CompactPayload raw)). is_new b"
proof (cases "raw = []")
  case True
  then show ?thesis by (simp add: CompactPayload_def)
next
  case False
  show ?thesis
  proof (cases "Decode (effective raw)")
    case None
    with False show ?thesis by (simp add: CompactPayload_raw)
  next
    case (Some vr)
    then show ?thesis
      using CompactPayload_json [OF False, of "fst vr" "snd vr"] compactValue_new blobSlice_subset by fastforce
  qed
qed

text \<open>Everything that can be expanded stays expandable when the loader serves more.\<close>

lemma map_res_mono:
  "(\<And>x y. x \<in> set xs \<Longrightarrow> f x = Inr y \<Longrightarrow> g x = Inr y) \<Longrightarrow> map_res f xs = Inr ys \<Longrightarrow> map_res g xs = Inr ys"
  by (induction xs arbitrary: ys) (auto simp: bind_res_Inr_iff)

lemma gv_fuel_induct [case_names Arr Obj leaf]:
  assumes "\<And>n vs. (\<And>v. v \<in> set vs \<Longrightarrow> P n v) \<Longrightarrow> P n (Arr vs)"
    and "\<And>n kvs. (\<And>kv. kv \<in> set kvs \<Longrightarrow> P n (snd kv)) \<Longrightarrow> (\<And>m v. m < n \<Longrightarrow> P m v) \<Longrightarrow> P n (Obj kvs)"
    and "\<And>n v. (\<And>vs. v \<noteq> Arr vs) \<Longrightarrow> (\<And>kvs. v \<noteq> Obj kvs) \<Longrightarrow> P n v"
  shows "P (n::nat) v"
proof (induction n arbitrary: v rule: less_induct)
  case (less n)
  show ?case
  proof (induction v)
    case (Arr vs)
    then show ?case by (rule assms(1))
  next
    case (Obj kvs)
    have "P n (snd kv)" if "kv \<in> set kvs" for kv
      using Obj [of kv "snd kv"] that by (cases kv) auto
    then show ?case using less by (rule assms(2))
  qed (rule assms(3); simp)+
qed

definition ref_hash :: "(string \<times> gv) list \<Rightarrow> string option" where
  "ref_hash kvs = (case obj_get kvs ''$cpa_blob'' of Some (Str h) \<Rightarrow> Some h | _ \<Rightarrow> None)"

definition expand_blob :: "nat \<Rightarrow> (string \<Rightarrow> string result) \<Rightarrow> (string \<times> gv) list \<Rightarrow> string \<Rightarrow> gv result" where
  "expand_blob n load kvs raw =
    (let enc = get_string kvs ''encoding'' in
     if enc = ''raw'' then Inr (Raw raw)
     else if enc = ''utf8'' then Inr (Str raw)
     else if enc = ''data-url'' then
       Inr (Str (''data:'' @ get_string kvs ''media_type'' @ '';base64,'' @ b64_encode raw))
     else if enc = ''json'' then
       (case Unmarshal raw of
          None \<Rightarrow> Inl BadJson
        | Some nested \<Rightarrow> (case n of 0 \<Rightarrow> Inl OutOfFuel | Suc m \<Rightarrow> expandValue m load nested))
     else Inl (UnknownEncoding enc))"

lemma expand_Arr: "expandValue n load (Arr vs) = bind_res (map_res (expandValue n load) vs) (\<lambda>ys. Inr (Arr ys))"
  by (subst expandValue.simps) simp

lemma expand_Obj:
  "expandValue n load (Obj kvs) =
    (case ref_hash kvs of
       Some h \<Rightarrow> bind_res (load h) (expand_blob n load kvs)
     | None \<Rightarrow>
         bind_res
           (map_res (\<lambda>kv. bind_res (expandValue n load (snd kv)) (\<lambda>y. Inr (fst kv, y))) kvs)
           (\<lambda>ys. Inr (Obj ys)))"
  by (subst expandValue.simps)
    (simp add: ref_hash_def expand_blob_def [abs_def] split: option.split gv.split)

lemma expand_leaf: "(\<And>vs. v \<noteq> Arr vs) \<Longrightarrow> (\<And>kvs. v \<noteq> Obj kvs) \<Longrightarrow> expandValue n load v = Inr v"
  by (subst expandValue.simps) (simp split: gv.split)

lemma expandValue_mono:
  assumes more: "\<And>h x. load h = Inr x \<Longrightarrow> load' h = Inr x"
  shows "expandValue n load v = Inr w \<Longrightarrow> expandValue n load' v = Inr w"
proof (induction n v arbitrary: w rule: gv_fuel_induct)
  case (Arr n vs)
  then show ?case
    by (auto simp: expand_Arr bind_res_Inr_iff intro: map_res_mono [where f = "expandValue n load"])
next
  case (Obj n kvs)
  show ?case
  proof (cases "ref_hash kvs")
    case None
    with Obj show ?thesis
      by (auto simp: expand_Obj bind_res_Inr_iff
          intro!: map_res_mono [where f = "\<lambda>kv. bind_res (expandValue n load (snd kv)) (\<lambda>y. Inr (fst kv, y))"])
  next
    case (Some h)
    with Obj.prems obtain raw where raw: "load h = Inr raw" "expand_blob n load kvs raw = Inr w"
      by (auto simp: expand_Obj bind_res_Inr_iff)
    have "expand_blob n load' kvs raw = Inr w"
      using raw(2) Obj.IH(2) by (auto simp: expand_blob_def Let_def split: if_splits option.splits nat.splits)
    with Some more [OF raw(1)] show ?thesis by (simp add: expand_Obj)
  qed
qed (simp add: expand_leaf)

lemma ExpandPayload_mono:
  assumes "\<And>h x. load h = Inr x \<Longrightarrow> load' h = Inr x" and "ExpandPayload n m load = Inr y"
  shows "ExpandPayload n m load' = Inr y"
  using assms expandValue_mono [of load load']
  by (auto simp: ExpandPayload_def bind_res_Inr_iff split: if_splits option.splits)

lemma LoadPayload_mono:
  assumes "\<And>h x. loadBlob d h = Inr x \<Longrightarrow> loadBlob d' h = Inr x" and "LoadPayload n d h = Inr y"
  shows "LoadPayload n d' h = Inr y"
  using assms(2) assms(1) ExpandPayload_mono [of "loadBlob d" "loadBlob d'"]
  by (auto simp: LoadPayload_def bind_res_Inr_iff)

definition archivable :: "string set \<Rightarrow> string \<Rightarrow> bool" where
  "archivable U raw \<longleftrightarrow>
    (\<forall>b \<in> set (snd (CompactPayload raw)) \<union> {manifest_blob raw}.
       Data b \<in> U \<and> Data b \<noteq> [] \<and> length (Data b) < 2 ^ 63)"

lemma putPayload_stored:
  assumes "content_ok U d" and "raw \<noteq> []" and "archivable U raw"
    and "putPayload raw d = (h, d')"
  shows "LoadPayload n d' h = ExpandPayload n (fst (CompactPayload raw)) (loadBlob d')"
    and "served (loadBlob d') (snd (CompactPayload raw))"
    and "content_ok U d'"
    and "loadBlob d k = Inr x \<Longrightarrow> loadBlob d' k = Inr x"
proof -
  have "cs.storable U (snd (CompactPayload raw) @ [manifest_blob raw])"
    using assms(3) CompactPayload_new [of raw]
    by (auto simp: cs.storable_def archivable_def manifest_blob_def)
  note stored = cs.put_manifest [OF assms(1) this]
  have eq: "h = Hash (manifest_blob raw)" "d' = putBlob (manifest_blob raw) (fold putBlob (snd (CompactPayload raw)) d)"
    using assms(4) putPayload_eq [OF assms(2), of d] by simp_all
  show "LoadPayload n d' h = ExpandPayload n (fst (CompactPayload raw)) (loadBlob d')"
    using stored(1) by (simp add: LoadPayload_def eq) (simp add: manifest_blob_def)
  show "served (loadBlob d') (snd (CompactPayload raw))"
    using stored(2) assms(3) by (auto simp: served_def eq archivable_def)
  show "content_ok U d'" using stored(3) by (simp add: eq)
  show "loadBlob d k = Inr x \<Longrightarrow> loadBlob d' k = Inr x"
    using stored(4) by (simp add: eq)
qed

lemma fold_putBlob_mono: "loadBlob d h = Inr x \<Longrightarrow> loadBlob (fold putBlob bs d) h = Inr x"
  by (rule cs.fold_put_mono)

lemma putPayload_mono: "loadBlob d h = Inr x \<Longrightarrow> loadBlob (snd (putPayload raw d)) h = Inr x"
  by (cases "raw = []") (auto simp: putPayload_eq putPayload_def [of "[]"] intro!: loadBlob_mono fold_putBlob_mono)

text \<open>
  The archive returns what it stored: a JSON payload written by \<open>putPayload\<close> is read back by \<open>LoadPayload\<close>
  as the encoding of its stripped value, the blob table stays content addressed, and every blob that could be read
  before still reads the same.
\<close>

theorem store_load_payload:
  assumes "content_ok U d" and "raw \<noteq> []" and "Decode (effective raw) = Some (v, rest)"
    and "no_ref v" and "jdepth v < max_depth" and "to_float (strip v) = Some w"
    and "Data ` set (snd (compactValue 0 v)) \<subseteq> U" and "archivable U raw"
    and "putPayload raw d = (h, d')" and "n \<ge> jdepth v"
  shows "LoadPayload n d' h = Inr (Marshal w) \<and> content_ok U d'
    \<and> (\<forall>k x. loadBlob d k = Inr x \<longrightarrow> loadBlob d' k = Inr x)"
proof -
  note stored = putPayload_stored [OF assms(1,2,8,9)]
  have "collision_free (map Data (snd (compactValue 0 v)))"
    unfolding collision_free_def using assms(1,7) inj_onD [of sha256_hex U]
    by (auto simp: content_ok_def image_subset_iff)
  then have "ExpandPayload n (fst (CompactPayload raw)) (loadBlob d') = Inr (Marshal w)"
    using assms(2-6,10) stored(2) by (intro expand_compact_json)
  with stored show ?thesis by (simp del: marshal.simps)
qed

text \<open>Archiving another payload never changes what an archived payload reads as.\<close>

theorem payload_stays:
  assumes "LoadPayload n d h = Inr x"
  shows "LoadPayload n (snd (putPayload raw d)) h = Inr x"
  using assms by (rule LoadPayload_mono [rotated]) (rule putPayload_mono)

section \<open>The collector keeps what records need\<close>

text \<open>Reachability: the references of the records, and the references inside a reachable blob.\<close>

inductive gc_reach :: "db \<Rightarrow> string \<Rightarrow> bool" for d where
  root: "h \<in> set (gc_roots d) \<Longrightarrow> gc_reach d h"
| nested: "gc_reach d h \<Longrightarrow> find_blob d h = Some b \<Longrightarrow> h' \<in> set (nestedBlobRefs (gc_bytes (bl_data b))) \<Longrightarrow>
    gc_reach d h'"

definition refs_of :: "db \<Rightarrow> string \<Rightarrow> string set" where
  "refs_of d h = (case find_blob d h of None \<Rightarrow> {} | Some b \<Rightarrow> set (nestedBlobRefs (gc_bytes (bl_data b))))"

text \<open>What every step of the work list keeps holds at its end.\<close>

lemma gc_mark_invariant:
  assumes "gc_mark d queue reachable = Inr R" and "I queue reachable"
    and "\<And>q h r. I (q @ [h]) r \<Longrightarrow> h \<in> set r \<Longrightarrow> I q r"
    and "\<And>q h r b. I (q @ [h]) r \<Longrightarrow> h \<notin> set r \<Longrightarrow> find_blob d h = Some b \<Longrightarrow>
      I (q @ nestedBlobRefs (gc_bytes (bl_data b))) (h # r)"
  shows "I [] R"
  using assms
proof (induction d queue reachable rule: gc_mark.induct)
  case (1 d queue reachable)
  note seen = "1.prems"(3) and fresh = "1.prems"(4)
  show ?case
  proof (cases "queue = []")
    case True
    with "1.prems" show ?thesis by (simp add: gc_mark.simps)
  next
    case False
    define h q where "h = last queue" and "q = butlast queue"
    have queue: "queue = q @ [h]" using False by (simp add: h_def q_def)
    have step: "gc_mark d queue reachable =
      (if h \<in> set reachable then gc_mark d q reachable
       else case find_blob d h of
           None \<Rightarrow> Inl NoRows
         | Some b \<Rightarrow> gc_mark d (q @ nestedBlobRefs (gc_bytes (bl_data b))) (h # reachable))"
      unfolding h_def q_def using False by (subst gc_mark.simps) (simp only: Let_def if_False)
    show ?thesis
    proof (cases "h \<in> set reachable")
      case True
      have "I q reachable" using "1.prems"(2) True unfolding queue by (rule seen)
      moreover have "gc_mark d q reachable = Inr R" using "1.prems"(1) True by (simp add: step)
      ultimately show ?thesis
        by (intro "1.IH"(1) [OF False h_def q_def True]) (assumption+, erule (1) seen, erule (2) fresh)
    next
      case new: False
      with "1.prems"(1) obtain b where b: "find_blob d h = Some b" by (auto simp: step split: option.splits)
      have "I (q @ nestedBlobRefs (gc_bytes (bl_data b))) (h # reachable)"
        using "1.prems"(2) new b unfolding queue by (rule fresh)
      moreover have "gc_mark d (q @ nestedBlobRefs (gc_bytes (bl_data b))) (h # reachable) = Inr R"
        using "1.prems"(1) new b by (simp add: step)
      ultimately show ?thesis
        by (intro "1.IH"(2) [OF False h_def q_def new b]) (assumption+, erule (1) seen, erule (2) fresh)
    qed
  qed
qed

lemma gc_mark_exact:
  assumes "gc_mark d (gc_roots d) [] = Inr R"
  shows "h \<in> set R \<longleftrightarrow> gc_reach d h"
proof
  have "\<forall>x \<in> set [] \<union> set R. gc_reach d x"
    by (rule gc_mark_invariant [OF assms, where I = "\<lambda>q r. \<forall>x \<in> set q \<union> set r. gc_reach d x"])
      (auto intro: gc_reach.intros)
  then show "h \<in> set R \<Longrightarrow> gc_reach d h" by simp
  have "(\<forall>x \<in> set R. refs_of d x \<subseteq> set R \<union> set []) \<and> set (gc_roots d) \<subseteq> set R \<union> set []"
    by (rule gc_mark_invariant [OF assms, where I = "\<lambda>q r. (\<forall>x \<in> set r. refs_of d x \<subseteq> set r \<union> set q)
        \<and> set (gc_roots d) \<subseteq> set r \<union> set q"]) (auto simp: refs_of_def)
  then have R: "set (gc_roots d) \<subseteq> set R" "\<forall>x \<in> set R. refs_of d x \<subseteq> set R" by simp_all
  show "gc_reach d h \<Longrightarrow> h \<in> set R"
  proof (induction rule: gc_reach.induct)
    case (nested h b h')
    with R(2) show ?case by (fastforce simp: refs_of_def)
  qed (use R(1) in blast)
qed

lemma GC_blobs:
  assumes "GC d = Inr (n, d')"
  shows "blobs d' = filter (\<lambda>b. gc_reach d (bl_hash b)) (blobs d)" and "records d' = records d"
    and "n = length (filter (\<lambda>b. \<not> gc_reach d (bl_hash b)) (blobs d))"
proof -
  from assms obtain R where R: "gc_mark d (gc_roots d) [] = Inr R"
    by (auto simp: GC_def bind_res_Inr_iff)
  note exact = gc_mark_exact [OF R]
  have "n = length (filter (\<lambda>h. h \<notin> set R) (map bl_hash (blobs d)))"
    and d': "d' = d\<lparr>blobs := filter (\<lambda>b. bl_hash b \<notin> set (filter (\<lambda>h. h \<notin> set R) (map bl_hash (blobs d)))) (blobs d)\<rparr>"
    using assms R by (simp_all add: GC_def Let_def)
  then show "blobs d' = filter (\<lambda>b. gc_reach d (bl_hash b)) (blobs d)" "records d' = records d"
    "n = length (filter (\<lambda>b. \<not> gc_reach d (bl_hash b)) (blobs d))"
    by (auto simp: exact filter_map comp_def intro!: filter_cong)
qed

lemma find_filter_key: "(\<And>x. Q x \<Longrightarrow> P x) \<Longrightarrow> find Q (filter P xs) = find Q xs"
  by (induction xs) auto

lemma Unmarshal_Nil [simp]: "Unmarshal [] = None"
  by (simp add: Unmarshal_def Decode_def skip_ws_def)

lemma walk_refs_Obj:
  "ref_hash kvs = Some h \<Longrightarrow> h \<noteq> [] \<Longrightarrow> walk_refs (Obj kvs) = [h]"
  "ref_hash kvs = None \<Longrightarrow> walk_refs (Obj kvs) = concat (map (\<lambda>kv. walk_refs (snd kv)) kvs)"
  by (auto simp: ref_hash_def split: option.splits gv.splits)

text \<open>Two loaders that agree on a set closed under references expand alike.\<close>

lemma expandValue_agree:
  assumes agree: "\<And>h. h \<in> R \<Longrightarrow> load h = load' h" and nil: "load [] = Inr []" "load' [] = Inr []"
    and closed: "\<And>h raw. h \<in> R \<Longrightarrow> load h = Inr raw \<Longrightarrow> set (nestedBlobRefs raw) \<subseteq> R"
  shows "set (walk_refs v) \<subseteq> R \<Longrightarrow> expandValue n load v = expandValue n load' v"
proof (induction n v rule: gv_fuel_induct)
  case (Arr n vs)
  then have "map_res (expandValue n load) vs = map_res (expandValue n load') vs"
    by (intro map_res_cong) auto
  then show ?case by (simp add: expand_Arr)
next
  case (Obj n kvs)
  show ?case
  proof (cases "ref_hash kvs")
    case None
    then have "set (walk_refs (snd kv)) \<subseteq> R" if "kv \<in> set kvs" for kv
      using Obj.prems that by (auto simp: walk_refs_Obj(2) simp del: walk_refs.simps)
    with Obj.IH(1) have "map_res (\<lambda>kv. bind_res (expandValue n load (snd kv)) (\<lambda>y. Inr (fst kv, y))) kvs =
        map_res (\<lambda>kv. bind_res (expandValue n load' (snd kv)) (\<lambda>y. Inr (fst kv, y))) kvs"
      by (intro map_res_cong) simp_all
    with None show ?thesis by (simp add: expand_Obj)
  next
    case (Some h)
    show ?thesis
    proof (cases "h = []")
      case True
      with Some nil show ?thesis by (simp add: expand_Obj expand_blob_def Let_def)
    next
      case False
      with Some Obj.prems have h: "h \<in> R" by (simp add: walk_refs_Obj(1) del: walk_refs.simps)
      have "expand_blob n load kvs raw = expand_blob n load' kvs raw" if "load h = Inr raw" for raw
        using closed [OF h that] Obj.IH(2)
        by (auto simp: expand_blob_def Let_def nestedBlobRefs_def split: option.split nat.split)
      then have "bind_res (load h) (expand_blob n load kvs) = bind_res (load h) (expand_blob n load' kvs)"
        by (cases "load h") simp_all
      with Some agree [OF h] show ?thesis by (simp add: expand_Obj)
    qed
  qed
qed (simp add: expand_leaf)

lemma gc_bytes_loaded: "blob_bytes c = Inr s \<Longrightarrow> gc_bytes c = s"
  by (auto simp: blob_bytes_def gc_bytes_def gunzipBytes_def split: blob_data.splits)

lemma LoadPayload_agree:
  assumes "\<And>h. gc_reach d h \<Longrightarrow> find_blob d' h = find_blob d h" and "gc_reach d h"
  shows "LoadPayload n d' h = LoadPayload n d h"
proof -
  have agree: "loadBlob d k = loadBlob d' k" if "gc_reach d k" for k
    using assms(1) [OF that] by (simp add: loadBlob_def)
  have closed: "gc_reach d k'" if "gc_reach d k" "loadBlob d k = Inr raw" "k' \<in> set (nestedBlobRefs raw)" for k raw k'
  proof (cases "k = []")
    case True
    with that show ?thesis by (simp add: loadBlob_def nestedBlobRefs_def)
  next
    case False
    with that(2) obtain b where "find_blob d k = Some b" "blob_bytes (bl_data b) = Inr raw"
      by (auto simp: loadBlob_def split: option.splits)
    with that show ?thesis by (auto intro: gc_reach.nested simp: gc_bytes_loaded)
  qed
  have "ExpandPayload n m (loadBlob d') = ExpandPayload n m (loadBlob d)" if m: "loadBlob d h = Inr m" for m
  proof (cases "Unmarshal m")
    case (Some v)
    have "set (walk_refs v) \<subseteq> Collect (gc_reach d)"
      using closed [OF assms(2) m] Some by (auto simp: nestedBlobRefs_def)
    then have "expandValue n (loadBlob d) v = expandValue n (loadBlob d') v"
      by (rule expandValue_agree [rotated -1])
        (use agree closed in \<open>auto simp: loadBlob_def [of _ "[]"]\<close>)
    with Some show ?thesis by (simp add: ExpandPayload_def)
  qed (simp add: ExpandPayload_def)
  with agree [OF assms(2), symmetric] show ?thesis
    by (cases "loadBlob d h") (simp_all add: LoadPayload_def)
qed

text \<open>C3. Garbage collection is safe: every payload a record refers to loads exactly as before.\<close>

theorem GC_safe:
  assumes "GC d = Inr (n, d')" and "r \<in> set (records d)"
    and "h \<in> {original_ref r, upstream_ref r, response_ref r}" and "h \<noteq> []"
  shows "LoadPayload k d' h = LoadPayload k d h"
proof (rule LoadPayload_agree)
  show "gc_reach d h" using assms(2-4) by (intro gc_reach.root) (auto simp: gc_roots_def)
  show "find_blob d' x = find_blob d x" if "gc_reach d x" for x
    using GC_blobs(1) [OF assms(1)] that by (auto simp: find_blob_def intro: find_filter_key)
qed

text \<open>C4. The collector deletes exactly the blobs that no record reaches, and reports their number.\<close>

theorem GC_exact:
  assumes "GC d = Inr (n, d')"
  shows "blobs d' = filter (\<lambda>b. gc_reach d (bl_hash b)) (blobs d) \<and> records d' = records d
    \<and> n = length (filter (\<lambda>b. \<not> gc_reach d (bl_hash b)) (blobs d))"
  using GC_blobs [OF assms] by simp

lemma gc_mark_total:
  assumes "\<forall>h. gc_reach d h \<longrightarrow> find_blob d h \<noteq> None" and "\<forall>h \<in> set queue. gc_reach d h"
  shows "\<exists>R. gc_mark d queue reachable = Inr R"
  using assms
proof (induction d queue reachable rule: gc_mark.induct)
  case (1 d queue reachable)
  show ?case
  proof (cases "queue = []")
    case False
    define h q where "h = last queue" and "q = butlast queue"
    have queue: "queue = q @ [h]" using False by (simp add: h_def q_def)
    then have h: "gc_reach d h" "\<forall>x \<in> set q. gc_reach d x" using "1.prems"(2) by auto
    then obtain b where b: "find_blob d h = Some b" using "1.prems"(1) by auto
    have new: "\<forall>x \<in> set (q @ nestedBlobRefs (gc_bytes (bl_data b))). gc_reach d x"
      using h b by (auto intro: gc_reach.nested)
    have "\<exists>R. gc_mark d q reachable = Inr R" if "h \<in> set reachable"
      by (rule "1.IH"(1) [OF False h_def q_def that "1.prems"(1) h(2)])
    moreover have "\<exists>R. gc_mark d (q @ nestedBlobRefs (gc_bytes (bl_data b))) (h # reachable) = Inr R"
      if "h \<notin> set reachable"
      by (rule "1.IH"(2) [OF False h_def q_def that b "1.prems"(1) new])
    ultimately show ?thesis
      using b False by (subst gc_mark.simps) (simp add: Let_def flip: h_def q_def)
  qed (simp add: gc_mark.simps)
qed

text \<open>
  The collector runs to the end exactly when every blob a record reaches is stored; one missing blob makes it
  fail and delete nothing.
\<close>

theorem GC_succeeds_iff:
  "(\<exists>n d'. GC d = Inr (n, d')) \<longleftrightarrow> Collect (gc_reach d) \<subseteq> bl_hash ` set (blobs d)"
proof
  assume "\<exists>n d'. GC d = Inr (n, d')"
  then obtain R where R: "gc_mark d (gc_roots d) [] = Inr R" by (auto simp: GC_def bind_res_Inr_iff)
  have "\<forall>h \<in> set R. h \<in> bl_hash ` set (blobs d)"
    by (rule gc_mark_invariant [OF R, where I = "\<lambda>q r. \<forall>h \<in> set r. h \<in> bl_hash ` set (blobs d)"])
      (auto dest: find_blob_key simp del: image_iff)
  then show "Collect (gc_reach d) \<subseteq> bl_hash ` set (blobs d)" by (auto simp: gc_mark_exact [OF R] simp del: image_iff)
next
  assume "Collect (gc_reach d) \<subseteq> bl_hash ` set (blobs d)"
  then have "\<forall>h. gc_reach d h \<longrightarrow> find_blob d h \<noteq> None"
    by (auto simp: find_blob_None simp del: image_iff)
  then have "\<exists>R. gc_mark d (gc_roots d) [] = Inr R" by (rule gc_mark_total) (simp add: gc_reach.root)
  then show "\<exists>n d'. GC d = Inr (n, d')" by (auto simp: GC_def Let_def)
qed

text \<open>Empty content is never stored, so a reference to it stays without a row.\<close>

lemma empty_blob_not_stored: "Data b = [] \<Longrightarrow> putBlob b d = d"
  by (simp add: putBlob_eq)

section \<open>Examples\<close>

definition noisy_payload :: string where
  \<open>noisy_payload = ''{"Encrypted_Content":"x","u":"y"}''\<close>

definition text_blob :: "string \<Rightarrow> string \<Rightarrow> blob_row" where
  "text_blob h s = \<lparr>bl_hash = h, bl_media = [], bl_raw_size = int (length s), bl_data = GzipCodec (Stream s)\<rparr>"

definition gc_sample :: db where
  \<open>gc_sample = empty_db\<lparr>records := [blank_row\<lparr>original_ref := ''a''\<rparr>],
     blobs := [text_blob ''a'' ''"x"'', text_blob ''b'' ''"y"'']\<rparr>\<close>

lemma noisy_facts:
  "noisy_payload \<noteq> []"
  "Decode (effective noisy_payload) = Some (Obj [(''Encrypted_Content'', Str ''x''), (''u'', Str ''y'')], [])"
  "ToLower ''Encrypted_Content'' = ''encrypted_content''" "ToLower ''u'' = ''u''"
  "dataURL ''x'' = None" "dataURL ''y'' = None"
proof -
  have "effective noisy_payload = noisy_payload"
    by (simp add: effective_def terminalSSEPayload_def noisy_payload_def HasPrefix_def)
  then show "Decode (effective noisy_payload) = Some (Obj [(''Encrypted_Content'', Str ''x''), (''u'', Str ''y'')], [])"
    by (simp add: Decode_def noisy_payload_def max_depth_def text_eval obj_of_def)
qed (simp_all add: noisy_payload_def ToLower_ascii lower_rune_def dataURL_def text_eval)

lemma noisy_compact:
  "compactValue 0 (Obj [(''Encrypted_Content'', Str ''x''), (''u'', Str ''y'')]) = (Obj [(''u'', Str ''y'')], [])"
  by (simp add: noisy_facts noiseKeys_def compactString_def maybeExternalize_def inlineThreshold_def)

theorem store_load_payload_witness:
  \<open>LoadPayload 1 (snd (putPayload noisy_payload empty_db)) (fst (putPayload noisy_payload empty_db)) =
    Inr ''{"u":"y"}''\<close>
proof -
  let ?w = "Obj [(''u'', Str ''y'')]"
  let ?U = "{Marshal ?w}"
  have "LoadPayload 1 (snd (putPayload noisy_payload empty_db)) (fst (putPayload noisy_payload empty_db)) =
      Inr (Marshal ?w)
    \<and> content_ok ?U (snd (putPayload noisy_payload empty_db))
    \<and> (\<forall>k x. loadBlob empty_db k = Inr x \<longrightarrow> loadBlob (snd (putPayload noisy_payload empty_db)) k = Inr x)"
  proof (rule store_load_payload [OF _ noisy_facts(1,2)])
    show "content_ok ?U empty_db" by (simp add: content_ok_def empty_db_def)
    have "Marshal ?w \<noteq> []" "length (Marshal ?w) < 2 ^ 63"
      by (simp_all add: member_text_def quote_def quote_rune_def text_eval)
    then show "archivable ?U noisy_payload"
      using CompactPayload_json [OF noisy_facts(1,2)] noisy_compact
      by (simp add: archivable_def manifest_blob_def del: compactValue.simps marshal.simps)
    show "to_float (strip (Obj [(''Encrypted_Content'', Str ''x''), (''u'', Str ''y'')])) = Some ?w"
      by (simp add: noisy_facts noiseKeys_def strip_string_def)
  qed (simp_all add: noisy_compact max_depth_def del: compactValue.simps)
  moreover have \<open>Marshal ?w = ''{"u":"y"}''\<close>
    by (simp add: member_text_def quote_def quote_rune_def text_eval)
  ultimately show ?thesis by (simp only:)
qed

lemma gc_sample_refs: \<open>nestedBlobRefs ''"x"'' = []\<close>
  by (simp add: nestedBlobRefs_def Unmarshal_def Decode_def text_eval)

lemma gc_sample_GC:
  "GC gc_sample = Inr (1, gc_sample\<lparr>blobs := [hd (blobs gc_sample)]\<rparr>)"
  by (simp add: GC_def gc_sample_def gc_roots_def empty_db_def blank_row_def gc_mark.simps find_blob_def
      text_blob_def gc_bytes_def gunzipBytes_def gunzipBytesChecked_def gc_sample_refs)

theorem GC_safe_witness:
  "LoadPayload 0 (gc_sample\<lparr>blobs := [hd (blobs gc_sample)]\<rparr>) ''a'' = LoadPayload 0 gc_sample ''a''"
  by (rule GC_safe [OF gc_sample_GC, of "blank_row\<lparr>original_ref := ''a''\<rparr>"]) (simp_all add: gc_sample_def)

theorem GC_exact_witness:
  "blobs (gc_sample\<lparr>blobs := [hd (blobs gc_sample)]\<rparr>) =
    filter (\<lambda>b. gc_reach gc_sample (bl_hash b)) (blobs gc_sample)"
  using GC_exact [OF gc_sample_GC] by (rule conjunct1)

theorem payload_stays_witness:
  \<open>LoadPayload 0 (snd (putPayload noisy_payload gc_sample)) ''a'' = Inr ''"x"''\<close>
  by (rule payload_stays) (simp add: LoadPayload_def loadBlob_def find_blob_def gc_sample_def text_blob_def
      blob_bytes_def gunzipBytesChecked_def ExpandPayload_def Unmarshal_def Decode_def text_eval
      expandValue.simps quote_def quote_rune_def)

end
