(* ===== verification/Records.thy ===== *)
theory Records
  imports Times Identity Blob_Store
begin

text \<open>
  Archiving records (\<open>PutBatch\<close> in \<open>internal/archive/store.go\<close>) and the session projection kept beside them
  (\<open>internal/archive/session_index.go\<close>): one row per session with the number of its requests, fed by a table of
  already indexed requests.

  A transaction is a function on the database that may fail; a failure leaves the database as it was.
\<close>

section \<open>The session projection\<close>

definition merge_summary :: "summary_row \<Rightarrow> summary_row \<Rightarrow> summary_row" where
  "merge_summary new old =
    (let better = (ss_summary new \<noteq> [] \<and> (ss_summary old = [] \<or> ss_summary_at new < ss_summary_at old)) in
     old\<lparr>ss_requests := ss_requests old + 1,
         ss_first_at := min (ss_first_at old) (ss_first_at new),
         ss_last_at := max (ss_last_at old) (ss_last_at new),
         ss_key_id := (if ss_key_id old = [] then ss_key_id new else ss_key_id old),
         ss_principal_id := (if ss_principal_id old = [] then ss_principal_id new else ss_principal_id old),
         ss_model := (if ss_last_at old \<le> ss_last_at new \<and> ss_model new \<noteq> [] then ss_model new else ss_model old),
         ss_project := (if ss_project old = [] then ss_project new else ss_project old),
         ss_summary := (if better then ss_summary new else ss_summary old),
         ss_summary_at := (if better then ss_summary_at new else ss_summary_at old)\<rparr>)"

definition new_summary :: "Record \<Rightarrow> summary_row" where
  "new_summary r =
    \<lparr>ss_session_id = SessionID r, ss_requests = 1, ss_first_at = StartedAt r, ss_last_at = CompletedAt r,
     ss_key_id = firstNonEmpty [KeyID r, firstFacet (Facets r) ''caller.scope''],
     ss_principal_id = PrincipalID r, ss_model = RequestedModel r,
     ss_project = firstNonEmpty [ProjectName r, firstFacet (Facets r) ''project.name'', firstFacet (Facets r) ''workspace.name''],
     ss_summary = Summary r, ss_summary_at = StartedAt r\<rparr>"

definition facet_pairs :: "facets \<Rightarrow> (string \<times> string) list" where
  "facet_pairs fs = concat (map (\<lambda>(name, vs). map (\<lambda>v. (name, v)) vs) fs)"

definition indexSessionRecord :: "Record \<Rightarrow> db \<Rightarrow> db" where
  "indexSessionRecord r d =
    (if RequestID r = [] \<or> SessionID r = [] then d
     else if RequestID r \<in> fst ` set (session_indexed_requests d) then d
     else
       d\<lparr>session_indexed_requests := session_indexed_requests d @ [(RequestID r, SessionID r)],
         session_summaries :=
           upsert ss_session_id (merge_summary (new_summary r)) (new_summary r) (session_summaries d),
         session_facets :=
           fold (\<lambda>(name, v). insert_ignore id (SessionID r, name, v))
             (filter (\<lambda>nv. snd nv \<noteq> []) (facet_pairs (Facets r))) (session_facets d)\<rparr>)"

section \<open>Writing records\<close>

definition compactTurnFacets :: "facets \<Rightarrow> string \<times> string \<times> string" where
  "compactTurnFacets fs =
    (TrimSpace (firstFacet fs ''turn.id''),
     Marshal (Arr (map Str (facet fs ''tool.name''))),
     Marshal (Arr (map Str (facet fs ''request.kind''))))"

definition row_of :: "Record \<Rightarrow> string \<Rightarrow> string \<Rightarrow> string \<Rightarrow> rec_row" where
  "row_of r orig up resp =
    \<lparr>r_id = 0, request_id = RequestID r, trace_id = TraceID r, session_id = SessionID r, key_id = KeyID r,
     summary = Summary r, response_preview = ResponsePreview r, source_format = SourceFormat r,
     requested_model = RequestedModel r, model = Model r, streaming = Streaming r, outcome = Outcome r,
     status_code = StatusCode r, error_text = Error r, started_at = StartedAt r, completed_at = CompletedAt r,
     parent_response_id = ParentResponseID r, response_id = ResponseID r, original_ref = orig,
     upstream_ref = up, response_ref = resp, truncated = Truncated r, metadata_json = Marshal (Metadata r),
     facets_json = facetsJSON (Facets r), principal_id = PrincipalID r, credential_hash = CredentialHash r,
     original_request_gz = NoData, upstream_request_gz = NoData, response_gz = NoData\<rparr>"

text \<open>The \<open>ON CONFLICT(request_id) DO UPDATE\<close> clause.\<close>

definition merge_record :: "rec_row \<Rightarrow> rec_row \<Rightarrow> rec_row" where
  "merge_record new old =
    old\<lparr>outcome := outcome new, status_code := status_code new, error_text := error_text new,
        completed_at := completed_at new, response_id := response_id new, response_ref := response_ref new,
        truncated := truncated new,
        principal_id := (if principal_id new \<noteq> [] then principal_id new else principal_id old),
        credential_hash := (if credential_hash new \<noteq> [] then credential_hash new else credential_hash old),
        summary := (if summary old = [] then summary new else summary old),
        response_preview := (if response_preview old = [] then response_preview new else response_preview old)\<rparr>"

definition turn_of :: "rec_row \<Rightarrow> string \<times> string \<times> string \<Rightarrow> turn_row" where
  "turn_of r tf =
    \<lparr>t_id = r_id r, t_request_id = request_id r, t_session_id = session_id r, t_key_id = key_id r,
     t_summary = summary r, t_response_preview = response_preview r, t_requested_model = requested_model r,
     t_model = model r, t_outcome = outcome r, t_status_code = status_code r, t_started_at = started_at r,
     t_completed_at = completed_at r, t_facets_json = facets_json r, t_principal_id = principal_id r,
     t_credential_hash = credential_hash r, t_turn_id = fst tf, t_tool_names_json = fst (snd tf),
     t_request_kinds_json = snd (snd tf)\<rparr>"

text \<open>
  \<open>INSERT INTO turn_records ... SELECT ... FROM records WHERE request_id=?\<close> with the update on conflict: the row keeps
  its id. A row of another request under the same id violates the primary key.
\<close>

definition put_turn :: "string \<Rightarrow> string \<times> string \<times> string \<Rightarrow> db \<Rightarrow> db result" where
  "put_turn rq tf d =
    (case find (\<lambda>r. request_id r = rq) (records d) of
       None \<Rightarrow> Inr d
     | Some r \<Rightarrow>
         if \<exists>t \<in> set (turn_records d). t_id t = r_id r \<and> t_request_id t \<noteq> rq then Inl Fatal
         else Inr (d\<lparr>turn_records :=
           upsert t_request_id (\<lambda>t. (turn_of r tf)\<lparr>t_id := t_id t\<rparr>) (turn_of r tf) (turn_records d)\<rparr>))"

definition put_record_facets :: "string \<Rightarrow> facets \<Rightarrow> db \<Rightarrow> db" where
  "put_record_facets rq fs d =
    d\<lparr>record_facets :=
        fold (\<lambda>(name, v). insert_ignore id (rq, name, v)) (facet_pairs fs)
          (filter (\<lambda>(q, _, _). q \<noteq> rq) (record_facets d))\<rparr>"

text \<open>The body of the loop over the batch.\<close>

definition put_record ::
  "(gv \<Rightarrow> string) \<Rightarrow> bool \<Rightarrow> (string \<rightharpoonup> string \<times> string) \<Rightarrow> Record \<Rightarrow> db \<Rightarrow> db result" where
  "put_record sprint storeUpstream idx r0 d =
    (let r = resolveIdentity sprint idx r0;
         (orig, d1) = putPayload (OriginalRequest r) d;
         (up, d2) = (if storeUpstream then putPayload (UpstreamRequest r) d1 else ([], d1));
         (resp, d3) = putPayload (Response r) d2;
         row = row_of r orig up resp;
         d4 = upsert_record (merge_record row) row d3
     in bind_res (put_turn (RequestID r) (compactTurnFacets (Facets r)) d4) (\<lambda>d5.
          Inr (indexSessionRecord r (put_record_facets (RequestID r) (Facets r) d5))))"

definition PutBatch :: "(gv \<Rightarrow> string) \<Rightarrow> bool \<Rightarrow> Record list \<Rightarrow> db \<Rightarrow> db result" where
  "PutBatch sprint storeUpstream batch d =
    foldM_res (put_record sprint storeUpstream (credentialPrincipalIndex d)) batch d"

section \<open>Statistics\<close>

record Stats =
  Records :: nat
  Sessions :: nat

text \<open>The two counts of \<open>Stats\<close> that come from the projection; the others are file sizes and a rowid.\<close>

definition Stats_of :: "db \<Rightarrow> Stats" where
  "Stats_of d =
    \<lparr>Records = sum_list (map ss_requests (session_summaries d)), Sessions = length (session_summaries d)\<rparr>"

section \<open>Backfill\<close>

definition record_of_row :: "rec_row \<Rightarrow> Record" where
  "record_of_row r =
    \<lparr>RequestID = request_id r, TraceID = [], SessionID = session_id r, ParentResponseID = [], ResponseID = [],
     KeyID = key_id r, PrincipalID = principal_id r, CredentialHash = credential_hash r, PrincipalAlias = [],
     Summary = summary r, ResponsePreview = [], ProjectPath = [], ProjectName = [], GitRemote = [], ThreadID = [],
     TurnID = [], WindowID = [], RequestKind = [], ThreadSource = [], Client = [], SourceFormat = [],
     RequestedModel = requested_model r, Model = [], Streaming = False, Outcome = [], StatusCode = 0,
     Error = [], StartedAt = retime (started_at r), CompletedAt = retime (completed_at r),
     OriginalRequest = [],
     UpstreamRequest = [], Response = [], Truncated = False, Metadata = Null, Facets = decode_facets (facets_json r)\<rparr>"

definition unindexed :: "db \<Rightarrow> string list" where
  "unindexed d =
    filter (\<lambda>q. q \<notin> fst ` set (session_indexed_requests d)) (map request_id (records d))"

text \<open>One request of the work list; a record deleted meanwhile is an error.\<close>

definition backfill_one :: "string \<Rightarrow> db \<Rightarrow> db result" where
  "backfill_one rq d =
    (case find (\<lambda>r. request_id r = rq) (records d) of
       None \<Rightarrow> Inl NoRows
     | Some r \<Rightarrow> Inr (indexSessionRecord (record_of_row r) d))"

function chunks :: "nat \<Rightarrow> 'a list \<Rightarrow> 'a list list" where
  "chunks n xs = (if n = 0 \<or> xs = [] then [] else take n xs # chunks n (drop n xs))"
  by pat_completeness auto
termination
  by (relation "measure (\<lambda>(n, xs). length xs)") auto

declare chunks.simps [simp del]

text \<open>Transactions of eight requests: a failing transaction leaves the earlier ones committed.\<close>

fun run_batches :: "('a list \<Rightarrow> db \<Rightarrow> db result) \<Rightarrow> 'a list list \<Rightarrow> db \<Rightarrow> err option \<times> db" where
  "run_batches tx [] d = (None, d)"
| "run_batches tx (b # bs) d =
    (case tx b d of Inl e \<Rightarrow> (Some e, d) | Inr d' \<Rightarrow> run_batches tx bs d')"

definition BackfillSessionIndex :: "db \<Rightarrow> err option \<times> db" where
  "BackfillSessionIndex d = run_batches (foldM_res backfill_one) (chunks 8 (unindexed d)) d"

section \<open>The projection counts exactly\<close>

definition index_ok :: "db \<Rightarrow> bool" where
  "index_ok d \<longleftrightarrow>
    distinct (map fst (session_indexed_requests d)) \<and>
    distinct (map ss_session_id (session_summaries d)) \<and>
    (\<forall>s \<in> set (session_summaries d).
       ss_requests s = length (filter (\<lambda>p. snd p = ss_session_id s) (session_indexed_requests d))) \<and>
    snd ` set (session_indexed_requests d) \<subseteq> ss_session_id ` set (session_summaries d)"

lemma sum_list_one:
  "distinct (map key xs) \<Longrightarrow> k \<in> key ` set xs \<Longrightarrow> sum_list (map (\<lambda>x. if k = key x then 1 else 0 :: nat) xs) = 1"
proof (induction xs)
  case (Cons x xs)
  have "k \<notin> key ` set xs \<Longrightarrow> sum_list (map (\<lambda>x. if k = key x then 1 else 0 :: nat) xs) = 0"
    by (induction xs) auto
  with Cons show ?case by (cases "k = key x") auto
qed simp

lemma sum_counts:
  assumes "distinct (map key ss)" and "g ` set ps \<subseteq> key ` set ss"
  shows "sum_list (map (\<lambda>s. length (filter (\<lambda>p. g p = key s) ps)) ss) = length ps"
  using assms(2)
proof (induction ps)
  case (Cons p ps)
  have "(\<lambda>s. length (filter (\<lambda>p. g p = key s) (p # ps))) =
      (\<lambda>s. (if g p = key s then 1 else 0) + length (filter (\<lambda>p. g p = key s) ps))"
    by auto
  then have "sum_list (map (\<lambda>s. length (filter (\<lambda>p. g p = key s) (p # ps))) ss) =
      sum_list (map (\<lambda>s. if g p = key s then 1 else 0) ss) + length ps"
    using Cons by (simp add: sum_list_addf del: filter.simps)
  also have "sum_list (map (\<lambda>s. if g p = key s then 1 else 0 :: nat) ss) = 1"
    using Cons.prems assms(1) by (intro sum_list_one) auto
  finally show ?case by simp
qed simp

lemma index_ok_Stats: "index_ok d \<Longrightarrow> Records (Stats_of d) = length (session_indexed_requests d)"
proof -
  assume a: "index_ok d"
  have "map ss_requests (session_summaries d) =
      map (\<lambda>s. length (filter (\<lambda>p. snd p = ss_session_id s) (session_indexed_requests d))) (session_summaries d)"
    using a by (simp add: index_ok_def)
  moreover have "sum_list (map (\<lambda>s. length (filter (\<lambda>p. snd p = ss_session_id s) (session_indexed_requests d)))
      (session_summaries d)) = length (session_indexed_requests d)"
    using a by (intro sum_counts) (simp_all add: index_ok_def)
  ultimately show ?thesis unfolding Stats_of_def by (simp only: Stats.select_convs)
qed

lemma merge_summary_simps [simp]:
  "ss_session_id (merge_summary new old) = ss_session_id old"
  "ss_requests (merge_summary new old) = ss_requests old + 1"
  by (simp_all add: merge_summary_def Let_def)

lemma new_summary_simps [simp]: "ss_session_id (new_summary r) = SessionID r" "ss_requests (new_summary r) = 1"
  by (simp_all add: new_summary_def)

lemma indexSessionRecord_index_ok:
  assumes ok: "index_ok d"
  shows "index_ok (indexSessionRecord r d)"
proof (cases "RequestID r = [] \<or> SessionID r = [] \<or> RequestID r \<in> fst ` set (session_indexed_requests d)")
  case True
  with ok show ?thesis by (auto simp: indexSessionRecord_def)
next
  case False
  let ?I = "session_indexed_requests d" and ?S = "session_summaries d" and ?n = "new_summary r"
  let ?S' = "upsert ss_session_id (merge_summary ?n) ?n ?S"
  have keys: "map ss_session_id ?S' =
      (if SessionID r \<in> set (map ss_session_id ?S) then map ss_session_id ?S else map ss_session_id ?S @ [SessionID r])"
    using upsert_keys [of ss_session_id ?n "merge_summary ?n" ?S] by simp
  have count: "ss_requests s = length (filter (\<lambda>p. snd p = ss_session_id s) (?I @ [(RequestID r, SessionID r)]))"
    if s: "s \<in> set ?S'" for s
  proof (cases "SessionID r \<in> ss_session_id ` set ?S")
    case True
    then obtain s0 where "s0 \<in> set ?S" "s = (if ss_session_id s0 = SessionID r then merge_summary ?n s0 else s0)"
      using s by (auto simp: upsert_def split: if_splits)
    with ok show ?thesis by (auto simp: index_ok_def)
  next
    case nokey: False
    have cover: "snd ` set ?I \<subseteq> ss_session_id ` set ?S" using ok by (simp add: index_ok_def)
    have "\<forall>p \<in> set ?I. snd p \<noteq> SessionID r"
    proof
      fix p
      assume "p \<in> set ?I"
      then have m: "snd p \<in> ss_session_id ` set ?S" by (rule subsetD [OF cover, OF imageI])
      show "snd p \<noteq> SessionID r"
      proof
        assume "snd p = SessionID r"
        with m have "SessionID r \<in> ss_session_id ` set ?S" by (simp only:)
        with nokey show False by (rule notE)
      qed
    qed
    then have "filter (\<lambda>p. snd p = SessionID r) ?I = []" by (simp add: filter_empty_conv)
    moreover have "s \<in> set ?S \<or> s = ?n"
      using s nokey by (auto simp: upsert_def image_iff split: if_splits)
    ultimately show ?thesis
    proof (elim disjE)
      assume "s \<in> set ?S"
      then have "ss_session_id s \<in> ss_session_id ` set ?S" by (rule imageI)
      with nokey have "ss_session_id s \<noteq> SessionID r" by (auto simp del: image_iff)
      with ok \<open>s \<in> set ?S\<close> show ?thesis by (simp add: index_ok_def)
    qed simp
  qed
  have "set (map ss_session_id ?S') = insert (SessionID r) (set (map ss_session_id ?S))"
    unfolding keys by auto
  moreover have "distinct (map ss_session_id ?S')" unfolding keys using ok by (simp add: index_ok_def)
  moreover have "snd ` set (?I @ [(RequestID r, SessionID r)]) \<subseteq> insert (SessionID r) (set (map ss_session_id ?S))"
    using ok by (auto simp: index_ok_def)
  moreover have "distinct (map fst (?I @ [(RequestID r, SessionID r)]))"
    using ok False by (simp add: index_ok_def)
  ultimately show ?thesis
    using False count unfolding index_ok_def indexSessionRecord_def by simp
qed

section \<open>The invariant of the archive\<close>

definition rec_keys :: "db \<Rightarrow> (nat \<times> string \<times> string) list" where
  "rec_keys d = map (\<lambda>r. (r_id r, request_id r, session_id r)) (records d)"

definition turn_ok :: "db \<Rightarrow> bool" where
  "turn_ok d \<longleftrightarrow> distinct (map t_request_id (turn_records d)) \<and>
    (\<forall>t \<in> set (turn_records d). \<exists>s. (t_id t, t_request_id t, s) \<in> set (rec_keys d))"

definition archive_ok :: "db \<Rightarrow> bool" where
  "archive_ok d \<longleftrightarrow>
    index_ok d \<and> turn_ok d \<and> log_ok d \<and>
    distinct (map fst (rec_keys d)) \<and> distinct (map (\<lambda>k. fst (snd k)) (rec_keys d)) \<and>
    fst ` set (session_indexed_requests d) \<subseteq> (\<lambda>k. fst (snd k)) ` set (rec_keys d)"

text \<open>Every record that has a request and a session id is counted by the projection.\<close>

definition fully_indexed :: "db \<Rightarrow> bool" where
  "fully_indexed d \<longleftrightarrow>
    (\<forall>(i, q, s) \<in> set (rec_keys d). q \<noteq> [] \<and> s \<noteq> [] \<longrightarrow> q \<in> fst ` set (session_indexed_requests d))"

lemma archive_ok_empty: "archive_ok empty_db" "fully_indexed empty_db"
  by (simp_all add: archive_ok_def index_ok_def turn_ok_def log_ok_def rec_keys_def fully_indexed_def empty_db_def)

lemma fold_putBlob_only_blobs: "\<exists>bs'. fold putBlob bs d = d\<lparr>blobs := bs'\<rparr>"
proof (induction bs arbitrary: d)
  case Nil
  then show ?case by (intro exI [of _ "blobs d"]) simp
next
  case (Cons b bs)
  obtain bs' where "fold putBlob bs (putBlob b d) = (putBlob b d)\<lparr>blobs := bs'\<rparr>" using Cons by blast
  moreover have "(putBlob b d)\<lparr>blobs := bs'\<rparr> = d\<lparr>blobs := bs'\<rparr>" by (simp add: putBlob_eq)
  ultimately show ?case by (intro exI [of _ bs']) simp
qed

lemma putPayload_only_blobs: "\<exists>bs. snd (putPayload raw d) = d\<lparr>blobs := bs\<rparr>"
proof (cases "raw = []")
  case True
  then show ?thesis by (intro exI [of _ "blobs d"]) (simp add: putPayload_def)
next
  case False
  then show ?thesis
    using fold_putBlob_only_blobs [of "snd (CompactPayload raw) @ [manifest_blob raw]" d] by (simp add: putPayload_eq)
qed

lemma rec_keys_fires [row_simps]: "rec_keys (fires xs d) = rec_keys d"
  by (simp add: rec_keys_def row_simps)

lemma rec_keys_update:
  assumes "\<And>r. r_id (f r) = r_id r \<and> request_id (f r) = request_id r \<and> session_id (f r) = session_id r"
  shows "rec_keys (update_records P f d) = rec_keys d"
  using assms by (simp add: update_records_fires row_simps) (simp add: rec_keys_def)

lemma next_id_fresh: "r \<in> set rs \<Longrightarrow> r_id r < next_id rs"
  using fold_max_le [of "map r_id rs" 0 "fold max (map r_id rs) 0"] by (auto simp: next_id_def le_imp_less_Suc)

lemma rec_keys_upsert:
  assumes "\<And>r. r_id (m r) = r_id r \<and> request_id (m r) = request_id r \<and> session_id (m r) = session_id r"
  shows "rec_keys (upsert_record m row d) =
    (if request_id row \<in> (\<lambda>k. fst (snd k)) ` set (rec_keys d) then rec_keys d
     else rec_keys d @ [(next_id (records d), request_id row, session_id row)])"
proof -
  have in_iff: "request_id row \<in> request_id ` set (records d) \<longleftrightarrow>
      request_id row \<in> (\<lambda>k. fst (snd k)) ` set (rec_keys d)"
    by (simp add: rec_keys_def image_image)
  show ?thesis
    unfolding upsert_record_def in_iff
    by (simp add: rec_keys_update [OF assms] insert_record_fires row_simps del: fires_simps)
      (simp add: rec_keys_def)
qed

lemma upsert_record_keeps [row_simps]:
  "turn_records (upsert_record m row d) = turn_records d"
  "session_indexed_requests (upsert_record m row d) = session_indexed_requests d"
  "session_summaries (upsert_record m row d) = session_summaries d"
  "blobs (upsert_record m row d) = blobs d"
  by (simp_all add: upsert_record_def update_records_fires insert_record_fires row_simps del: fires_simps)

lemma index_ok_cong:
  "session_indexed_requests d' = session_indexed_requests d \<Longrightarrow> session_summaries d' = session_summaries d \<Longrightarrow>
    index_ok d' = index_ok d"
  by (simp add: index_ok_def)

text \<open>The core of the archive state that the record loop changes, step by step.\<close>

lemma archive_ok_upsert:
  assumes ok: "archive_ok d"
    and m: "\<And>r. r_id (m r) = r_id r \<and> request_id (m r) = request_id r \<and> session_id (m r) = session_id r"
  shows "archive_ok (upsert_record m row d)"
proof -
  let ?d = "upsert_record m row d"
  note keys = rec_keys_upsert [of m row d, OF m]
  have sub: "set (rec_keys d) \<subseteq> set (rec_keys ?d)" unfolding keys by auto
  have "distinct (map fst (rec_keys ?d)) \<and> distinct (map (\<lambda>k. fst (snd k)) (rec_keys ?d))"
  proof -
    have "next_id (records d) \<notin> fst ` set (rec_keys d)"
      using next_id_fresh [of _ "records d"] by (fastforce simp: rec_keys_def)
    then show ?thesis using ok unfolding keys archive_ok_def by auto
  qed
  moreover have "turn_ok ?d" using ok sub unfolding archive_ok_def turn_ok_def row_simps by blast
  moreover have "log_ok ?d"
    using logged_upsert [of m d row] m ok by (simp add: logged_def archive_ok_def)
  moreover have "index_ok ?d" using ok by (simp add: archive_ok_def index_ok_def row_simps)
  moreover have "fst ` set (session_indexed_requests ?d) \<subseteq> (\<lambda>k. fst (snd k)) ` set (rec_keys ?d)"
    using ok sub unfolding archive_ok_def row_simps by blast
  ultimately show ?thesis by (simp add: archive_ok_def)
qed

lemma put_turn_ok:
  assumes ok: "archive_ok d"
  shows "\<exists>ts. put_turn rq tf d = Inr (d\<lparr>turn_records := ts\<rparr>) \<and> archive_ok (d\<lparr>turn_records := ts\<rparr>)"
proof (cases "find (\<lambda>r. request_id r = rq) (records d)")
  case None
  with ok show ?thesis by (intro exI [of _ "turn_records d"]) (simp add: put_turn_def)
next
  case (Some r)
  then have r: "r \<in> set (records d)" "request_id r = rq" by (auto simp: find_Some_iff)
  then have key: "(r_id r, rq, session_id r) \<in> set (rec_keys d)" by (auto simp: rec_keys_def)
  have ids: "distinct (map fst (rec_keys d))" and t: "turn_ok d" using ok by (simp_all add: archive_ok_def)
  have no_clash: "\<not> (\<exists>t \<in> set (turn_records d). t_id t = r_id r \<and> t_request_id t \<noteq> rq)"
  proof
    assume "\<exists>t \<in> set (turn_records d). t_id t = r_id r \<and> t_request_id t \<noteq> rq"
    then obtain u where u: "u \<in> set (turn_records d)" "t_id u = r_id r" "t_request_id u \<noteq> rq" by blast
    with t obtain s where "(t_id u, t_request_id u, s) \<in> set (rec_keys d)" unfolding turn_ok_def by blast
    then have "(t_request_id u, s) = (rq, session_id r)" using key unfolding u(2) by (rule eq_key_imp_eq_value [OF ids])
    with u(3) show False by simp
  qed
  let ?new = "turn_of r tf"
  let ?ts = "upsert t_request_id (\<lambda>t. ?new\<lparr>t_id := t_id t\<rparr>) ?new (turn_records d)"
  have new: "t_request_id ?new = rq" "t_id ?new = r_id r" using r by (simp_all add: turn_of_def)
  have "distinct (map t_request_id ?ts)"
    by (rule upsert_distinct) (use t in \<open>simp_all add: turn_ok_def\<close>)
  moreover have "\<exists>s. (t_id u, t_request_id u, s) \<in> set (rec_keys d)" if "u \<in> set ?ts" for u
  proof -
    from that consider (old) x where "x \<in> set (turn_records d)" "t_id u = t_id x" "t_request_id u = t_request_id x"
      | (fresh) "u = ?new"
      using new(1) by (auto simp: upsert_def split: if_splits)
    then show ?thesis
    proof cases
      case old
      with t show ?thesis by (simp add: turn_ok_def)
    next
      case fresh
      with key new show ?thesis by auto
    qed
  qed
  ultimately have "turn_ok (d\<lparr>turn_records := ?ts\<rparr>)" by (auto simp: turn_ok_def rec_keys_def)
  with ok have "archive_ok (d\<lparr>turn_records := ?ts\<rparr>)"
    by (simp add: archive_ok_def index_ok_def log_ok_def rec_keys_def)
  with Some no_clash show ?thesis by (auto simp: put_turn_def)
qed

lemma archive_ok_cong:
  assumes "archive_ok d" and "records d' = records d" and "turn_records d' = turn_records d"
    and "session_indexed_requests d' = session_indexed_requests d" and "session_summaries d' = session_summaries d"
    and "ingest_clock d' = ingest_clock d" and "ingest_events d' = ingest_events d"
  shows "archive_ok d'"
  using assms by (simp add: archive_ok_def index_ok_def turn_ok_def log_ok_def rec_keys_def)

lemma indexSessionRecord_keeps [row_simps]:
  "records (indexSessionRecord r d) = records d" "turn_records (indexSessionRecord r d) = turn_records d"
  "ingest_clock (indexSessionRecord r d) = ingest_clock d"
  "ingest_events (indexSessionRecord r d) = ingest_events d" "blobs (indexSessionRecord r d) = blobs d"
  "rec_keys (indexSessionRecord r d) = rec_keys d"
  by (simp_all add: indexSessionRecord_def rec_keys_def)

lemma indexed_after:
  "fst ` set (session_indexed_requests (indexSessionRecord r d)) =
    (if RequestID r = [] \<or> SessionID r = [] then fst ` set (session_indexed_requests d)
     else insert (RequestID r) (fst ` set (session_indexed_requests d)))"
  by (auto simp: indexSessionRecord_def)

lemma archive_ok_index:
  assumes "archive_ok d" and "RequestID r \<in> request_id ` set (records d)"
  shows "archive_ok (indexSessionRecord r d)"
proof -
  have "RequestID r \<in> (\<lambda>k. fst (snd k)) ` set (rec_keys d)"
    using assms(2) by (simp add: rec_keys_def image_image)
  with assms(1) show ?thesis
    unfolding archive_ok_def row_simps indexed_after
    by (simp add: indexSessionRecord_index_ok turn_ok_def log_ok_def row_simps)
qed

section \<open>Archiving a batch\<close>

lemma merge_record_keys:
  "r_id (merge_record new old) = r_id old \<and> request_id (merge_record new old) = request_id old
    \<and> session_id (merge_record new old) = session_id old"
  by (simp add: merge_record_def)

lemma put_record_parts:
  obtains r bs row where "r = resolveIdentity sprint idx r0" "request_id row = RequestID r" "session_id row = SessionID r"
    "put_record sprint up idx r0 d =
      bind_res (put_turn (RequestID r) (compactTurnFacets (Facets r))
        (upsert_record (merge_record row) row (d\<lparr>blobs := bs\<rparr>)))
        (\<lambda>d5. Inr (indexSessionRecord r (put_record_facets (RequestID r) (Facets r) d5)))"
    "\<forall>h x. loadBlob d h = Inr x \<longrightarrow> loadBlob (d\<lparr>blobs := bs\<rparr>) h = Inr x"
proof -
  let ?r = "resolveIdentity sprint idx r0"
  define p1 where "p1 = putPayload (OriginalRequest ?r) d"
  define p2 where "p2 = (if up then putPayload (UpstreamRequest ?r) (snd p1) else ([], snd p1))"
  define p3 where "p3 = putPayload (Response ?r) (snd p2)"
  let ?row = "row_of ?r (fst p1) (fst p2) (fst p3)"
  obtain b1 where b1: "snd p1 = d\<lparr>blobs := b1\<rparr>" unfolding p1_def using putPayload_only_blobs by blast
  obtain b2 where b2: "snd p2 = d\<lparr>blobs := b2\<rparr>"
    using putPayload_only_blobs [of "UpstreamRequest ?r" "snd p1"] b1 by (cases up) (auto simp: p2_def)
  obtain b3 where b3: "snd p3 = d\<lparr>blobs := b3\<rparr>"
    using putPayload_only_blobs [of "Response ?r" "snd p2"] b2 by (auto simp: p3_def)
  have "put_record sprint up idx r0 d =
      bind_res (put_turn (RequestID ?r) (compactTurnFacets (Facets ?r)) (upsert_record (merge_record ?row) ?row (snd p3)))
        (\<lambda>d5. Inr (indexSessionRecord ?r (put_record_facets (RequestID ?r) (Facets ?r) d5)))"
    by (simp add: put_record_def Let_def split_beta p1_def p2_def p3_def)
  moreover have "loadBlob (snd p3) h = Inr x" if "loadBlob d h = Inr x" for h x
    using that unfolding p3_def p2_def p1_def by (auto intro!: putPayload_mono)
  ultimately show thesis
    using that [of ?r ?row b3] by (simp add: b3 row_of_def)
qed

lemma put_record_ok:
  assumes ok: "archive_ok d"
  shows "\<exists>d'. put_record sprint up idx r0 d = Inr d' \<and> archive_ok d' \<and> logged d d'
    \<and> insert (RequestID r0) (request_id ` set (records d)) \<subseteq> request_id ` set (records d')
    \<and> (fully_indexed d \<longrightarrow> fully_indexed d')
    \<and> (\<forall>h x. loadBlob d h = Inr x \<longrightarrow> loadBlob d' h = Inr x)"
proof -
  obtain r bs row where p: "r = resolveIdentity sprint idx r0" "request_id row = RequestID r" "session_id row = SessionID r"
    "put_record sprint up idx r0 d =
      bind_res (put_turn (RequestID r) (compactTurnFacets (Facets r))
        (upsert_record (merge_record row) row (d\<lparr>blobs := bs\<rparr>)))
        (\<lambda>d5. Inr (indexSessionRecord r (put_record_facets (RequestID r) (Facets r) d5)))"
    "\<forall>h x. loadBlob d h = Inr x \<longrightarrow> loadBlob (d\<lparr>blobs := bs\<rparr>) h = Inr x"
    by (rule put_record_parts [of sprint idx r0 up d])
  let ?d1 = "d\<lparr>blobs := bs\<rparr>" and ?d4 = "upsert_record (merge_record row) row (d\<lparr>blobs := bs\<rparr>)"
  have same: "RequestID r = RequestID r0" "SessionID r = SessionID r0"
    using p(1) by (simp_all add: resolveIdentity_keeps)
  have "archive_ok ?d1" using ok by (rule archive_ok_cong) simp_all
  then have ok4: "archive_ok ?d4" by (rule archive_ok_upsert) (rule merge_record_keys)
  then obtain ts where ts: "put_turn (RequestID r) (compactTurnFacets (Facets r)) ?d4 = Inr (?d4\<lparr>turn_records := ts\<rparr>)"
      "archive_ok (?d4\<lparr>turn_records := ts\<rparr>)"
    using put_turn_ok by blast
  let ?d6 = "put_record_facets (RequestID r) (Facets r) (?d4\<lparr>turn_records := ts\<rparr>)"
  have ok6: "archive_ok ?d6" using ts(2) by (rule archive_ok_cong) (simp_all add: put_record_facets_def)
  have keys: "rec_keys ?d4 = (if RequestID r \<in> (\<lambda>k. fst (snd k)) ` set (rec_keys d) then rec_keys d
     else rec_keys d @ [(next_id (records d), RequestID r, SessionID r)])"
    using rec_keys_upsert [of "merge_record row" row ?d1, OF merge_record_keys] p(2,3) by (simp add: rec_keys_def)
  have "RequestID r \<in> (\<lambda>k. fst (snd k)) ` set (rec_keys ?d4)" unfolding keys by auto
  then have present: "RequestID r \<in> request_id ` set (records ?d6)"
    by (simp add: rec_keys_def image_image put_record_facets_def)
  let ?d' = "indexSessionRecord r ?d6"
  have "put_record sprint up idx r0 d = Inr ?d'" by (simp add: p(4) ts(1))
  moreover have "archive_ok ?d'" using ok6 present by (rule archive_ok_index)
  moreover have "logged d ?d'"
  proof -
    have "logged d ?d1" by (rule logged_same) simp_all
    moreover have "logged ?d1 ?d4" by (rule logged_upsert) (simp add: merge_record_def)
    moreover have "logged ?d4 ?d'" by (rule logged_same) (simp_all add: row_simps put_record_facets_def)
    ultimately show ?thesis by (blast intro: logged_trans)
  qed
  moreover have "insert (RequestID r0) (request_id ` set (records d)) \<subseteq> request_id ` set (records ?d')"
  proof -
    have "(\<lambda>k. fst (snd k)) ` set (rec_keys d) \<subseteq> (\<lambda>k. fst (snd k)) ` set (rec_keys ?d4)" unfolding keys by auto
    then have "request_id ` set (records d) \<subseteq> request_id ` set (records ?d4)"
      by (simp add: rec_keys_def image_image)
    with present same show ?thesis by (simp add: row_simps put_record_facets_def)
  qed
  moreover have "fully_indexed d \<longrightarrow> fully_indexed ?d'"
  proof -
    have "rec_keys ?d' = rec_keys ?d4" by (simp add: rec_keys_def row_simps put_record_facets_def)
    moreover have "session_indexed_requests ?d6 = session_indexed_requests d"
      by (simp add: put_record_facets_def row_simps)
    ultimately show ?thesis
      unfolding fully_indexed_def indexed_after by (auto simp: keys split: if_splits)
  qed
  moreover have "\<forall>h x. loadBlob d h = Inr x \<longrightarrow> loadBlob ?d' h = Inr x"
  proof -
    have "loadBlob ?d' h = loadBlob ?d1 h" for h
      by (simp add: loadBlob_def find_blob_def row_simps put_record_facets_def)
    with p(5) show ?thesis by simp
  qed
  ultimately show ?thesis by blast
qed

text \<open>The record loop is a logged operation, whatever the state of the archive.\<close>

lemma put_turn_only_turns: "put_turn rq tf d = Inr d' \<Longrightarrow> \<exists>ts. d' = d\<lparr>turn_records := ts\<rparr>"
  by (auto simp: put_turn_def split: option.splits if_splits intro: exI [of _ "turn_records d"])

lemma put_record_logged: "put_record sprint up idx r0 d = Inr d' \<Longrightarrow> logged d d'"
proof -
  assume run: "put_record sprint up idx r0 d = Inr d'"
  obtain r bs row where p: "r = resolveIdentity sprint idx r0" "request_id row = RequestID r" "session_id row = SessionID r"
    "put_record sprint up idx r0 d =
      bind_res (put_turn (RequestID r) (compactTurnFacets (Facets r))
        (upsert_record (merge_record row) row (d\<lparr>blobs := bs\<rparr>)))
        (\<lambda>d5. Inr (indexSessionRecord r (put_record_facets (RequestID r) (Facets r) d5)))"
    "\<forall>h x. loadBlob d h = Inr x \<longrightarrow> loadBlob (d\<lparr>blobs := bs\<rparr>) h = Inr x"
    by (rule put_record_parts [of sprint idx r0 up d])
  let ?d1 = "d\<lparr>blobs := bs\<rparr>" and ?d4 = "upsert_record (merge_record row) row (d\<lparr>blobs := bs\<rparr>)"
  from run p(4) obtain d5 where d5: "put_turn (RequestID r) (compactTurnFacets (Facets r)) ?d4 = Inr d5"
    "d' = indexSessionRecord r (put_record_facets (RequestID r) (Facets r) d5)"
    by (auto simp: bind_res_Inr_iff)
  obtain ts where ts: "d5 = ?d4\<lparr>turn_records := ts\<rparr>" using put_turn_only_turns [OF d5(1)] by blast
  have "logged d ?d1" by (rule logged_same) simp_all
  moreover have "logged ?d1 ?d4" by (rule logged_upsert) (simp add: merge_record_def)
  moreover have "logged ?d4 d'" unfolding d5(2) ts by (rule logged_same) (simp_all add: row_simps put_record_facets_def)
  ultimately show ?thesis by (blast intro: logged_trans)
qed

interpretation batch: logged_op "put_record sprint up idx" for sprint up idx
  by unfold_locales (rule put_record_logged)

lemma put_batch_ok:
  assumes "archive_ok d"
  shows "\<exists>d'. foldM_res (put_record sprint up idx) rs d = Inr d' \<and> archive_ok d'
    \<and> RequestID ` set rs \<union> request_id ` set (records d) \<subseteq> request_id ` set (records d')
    \<and> (fully_indexed d \<longrightarrow> fully_indexed d')
    \<and> (\<forall>h x. loadBlob d h = Inr x \<longrightarrow> loadBlob d' h = Inr x)"
  using assms
proof (induction rs arbitrary: d)
  case (Cons r rs)
  from put_record_ok [OF Cons.prems, of sprint up idx r] obtain d1 where d1:
    "put_record sprint up idx r d = Inr d1" "archive_ok d1"
    "insert (RequestID r) (request_id ` set (records d)) \<subseteq> request_id ` set (records d1)"
    "fully_indexed d \<longrightarrow> fully_indexed d1"
    "\<forall>h x. loadBlob d h = Inr x \<longrightarrow> loadBlob d1 h = Inr x"
    by blast
  from Cons.IH [OF d1(2)] obtain d' where d': "foldM_res (put_record sprint up idx) rs d1 = Inr d'" "archive_ok d'"
    "RequestID ` set rs \<union> request_id ` set (records d1) \<subseteq> request_id ` set (records d')"
    "fully_indexed d1 \<longrightarrow> fully_indexed d'" "\<forall>h x. loadBlob d1 h = Inr x \<longrightarrow> loadBlob d' h = Inr x"
    by blast
  have "RequestID ` set (r # rs) \<union> request_id ` set (records d) \<subseteq> request_id ` set (records d')"
  proof -
    have a: "RequestID r \<in> request_id ` set (records d1)" and b: "request_id ` set (records d) \<subseteq> request_id ` set (records d1)"
      using d1(3) by simp_all
    have c: "RequestID ` set rs \<subseteq> request_id ` set (records d')"
      and e: "request_id ` set (records d1) \<subseteq> request_id ` set (records d')"
      using d'(3) by simp_all
    show ?thesis using subsetD [OF e a] c subset_trans [OF b e] by (simp del: image_subset_iff)
  qed
  with d1 d' show ?case by (intro exI [of _ d']) simp
qed simp

text \<open>
  C6. Archiving a batch never fails on a well-formed archive and keeps it well formed: request ids and row ids stay
  unique, the session projection counts exactly, every turn row belongs to its record, and every record of the batch
  is in the archive afterwards, beside all that were there.
\<close>

theorem PutBatch_ok:
  assumes "archive_ok d"
  shows "\<exists>d'. PutBatch sprint up batch d = Inr d' \<and> archive_ok d'
    \<and> RequestID ` set batch \<union> request_id ` set (records d) \<subseteq> request_id ` set (records d')
    \<and> (fully_indexed d \<longrightarrow> fully_indexed d')"
  using put_batch_ok [OF assms, of sprint up "credentialPrincipalIndex d" batch] by (auto simp: PutBatch_def)

text \<open>
  C7. Archiving a batch never makes an archived payload unreadable or different, and every row it adds or changes is
  announced by a new event of the ingest log.
\<close>

theorem PutBatch_keeps_payloads:
  assumes "archive_ok d" and "PutBatch sprint up batch d = Inr d'"
  shows "logged d d' \<and> (\<forall>n h x. LoadPayload n d h = Inr x \<longrightarrow> LoadPayload n d' h = Inr x)"
proof -
  have run: "foldM_res (put_record sprint up (credentialPrincipalIndex d)) batch d = Inr d'"
    using assms(2) by (simp add: PutBatch_def)
  then have "\<forall>h x. loadBlob d h = Inr x \<longrightarrow> loadBlob d' h = Inr x"
    using put_batch_ok [OF assms(1), of sprint up "credentialPrincipalIndex d" batch] by auto
  then have "\<forall>n h x. LoadPayload n d h = Inr x \<longrightarrow> LoadPayload n d' h = Inr x"
    using LoadPayload_mono [of d d'] by blast
  with batch.loop_logged [OF run] show ?thesis by blast
qed

text \<open>
  The number of records the statistics report is exact on a fully indexed archive whose records all have a
  request and a session id.
\<close>

theorem Stats_exact:
  assumes "archive_ok d" and "fully_indexed d" and "\<forall>r \<in> set (records d). request_id r \<noteq> [] \<and> session_id r \<noteq> []"
  shows "Records (Stats_of d) = length (records d)"
proof -
  let ?I = "session_indexed_requests d"
  have dI: "distinct (map fst ?I)" and dR: "distinct (map request_id (records d))"
    and sub: "fst ` set ?I \<subseteq> request_id ` set (records d)"
    using assms(1) by (simp_all add: archive_ok_def index_ok_def rec_keys_def image_image comp_def)
  have "request_id ` set (records d) \<subseteq> fst ` set ?I"
    using assms(2,3) by (auto simp: fully_indexed_def rec_keys_def)
  with sub have "set (map fst ?I) = set (map request_id (records d))" by auto
  then have "length (map fst ?I) = length (map request_id (records d))"
    using dI dR distinct_card by metis
  with assms(1) show ?thesis by (simp add: index_ok_Stats archive_ok_def)
qed

section \<open>Backfill\<close>

lemma concat_chunks: "n \<noteq> 0 \<Longrightarrow> concat (chunks n xs) = xs"
proof (induction n xs rule: chunks.induct)
  case (1 n xs)
  then show ?case by (cases "xs = []") (simp_all add: chunks.simps [of n xs] chunks.simps [of n "[]"])
qed

lemma foldM_res_append: "foldM_res f (xs @ ys) s = bind_res (foldM_res f xs s) (foldM_res f ys)"
  by (induction xs arbitrary: s) (auto simp: bind_res_def split: sum.splits)

lemma run_batches_all:
  assumes "foldM_res f (concat bs) d = Inr d'"
  shows "run_batches (foldM_res f) bs d = (None, d')"
  using assms
proof (induction bs arbitrary: d)
  case (Cons b bs)
  then show ?case by (auto simp: foldM_res_append bind_res_Inr_iff)
qed simp

lemma record_of_row_simps [simp]:
  "RequestID (record_of_row r) = request_id r" "SessionID (record_of_row r) = session_id r"
  by (simp_all add: record_of_row_def)

lemma backfill_loop:
  assumes "archive_ok d" and "set qs \<subseteq> request_id ` set (records d)"
  shows "\<exists>d'. foldM_res backfill_one qs d = Inr d' \<and> archive_ok d' \<and> records d' = records d
    \<and> fst ` set (session_indexed_requests d) \<subseteq> fst ` set (session_indexed_requests d')
    \<and> (\<forall>r \<in> set (records d). request_id r \<in> set qs \<and> request_id r \<noteq> [] \<and> session_id r \<noteq> [] \<longrightarrow>
         request_id r \<in> fst ` set (session_indexed_requests d'))"
  using assms
proof (induction qs arbitrary: d)
  case (Cons q qs)
  then obtain r where r: "find (\<lambda>r. request_id r = q) (records d) = Some r" "r \<in> set (records d)" "request_id r = q"
    by (cases "find (\<lambda>r. request_id r = q) (records d)") (auto simp: find_None_iff find_Some_iff)
  let ?d1 = "indexSessionRecord (record_of_row r) d"
  have ok1: "archive_ok ?d1" using Cons.prems(1) r by (intro archive_ok_index) auto
  from Cons.IH [OF ok1] Cons.prems(2) obtain d' where d': "foldM_res backfill_one qs ?d1 = Inr d'" "archive_ok d'"
    "records d' = records d"
    "fst ` set (session_indexed_requests ?d1) \<subseteq> fst ` set (session_indexed_requests d')"
    "\<forall>x \<in> set (records d). request_id x \<in> set qs \<and> request_id x \<noteq> [] \<and> session_id x \<noteq> [] \<longrightarrow>
       request_id x \<in> fst ` set (session_indexed_requests d')"
    by (auto simp: row_simps)
  have inj: "x = r" if "x \<in> set (records d)" "request_id x = q" for x
  proof -
    have "inj_on request_id (set (records d))"
      using Cons.prems(1) by (simp add: archive_ok_def rec_keys_def comp_def distinct_map)
    with that r show ?thesis by (auto dest: inj_onD)
  qed
  have "request_id x \<in> fst ` set (session_indexed_requests d')"
    if x: "x \<in> set (records d)" "request_id x \<in> set (q # qs)" "request_id x \<noteq> []" "session_id x \<noteq> []" for x
  proof (cases "request_id x \<in> set qs")
    case True
    with d'(5) x show ?thesis by blast
  next
    case False
    with x have "x = r" by (intro inj) auto
    then have "request_id x \<in> fst ` set (session_indexed_requests ?d1)"
      using x unfolding indexed_after by simp
    then show ?thesis by (rule subsetD [OF d'(4)])
  qed
  moreover have "fst ` set (session_indexed_requests d) \<subseteq> fst ` set (session_indexed_requests ?d1)"
    unfolding indexed_after by auto
  moreover have "foldM_res backfill_one (q # qs) d = Inr d'"
    using d'(1) r(1) by (simp add: backfill_one_def [of q])
  ultimately show ?case
    using d'(2,3) subset_trans [OF _ d'(4)] by (intro exI [of _ d'] conjI) blast+
qed simp

lemma session_backfill_run:
  assumes "archive_ok d"
  shows "\<exists>d'. BackfillSessionIndex d = (None, d') \<and> archive_ok d' \<and> fully_indexed d' \<and> records d' = records d"
proof -
  have sub: "set (unindexed d) \<subseteq> request_id ` set (records d)" by (auto simp: unindexed_def)
  from backfill_loop [OF assms sub] obtain d' where d': "foldM_res backfill_one (unindexed d) d = Inr d'" "archive_ok d'"
    "records d' = records d" "fst ` set (session_indexed_requests d) \<subseteq> fst ` set (session_indexed_requests d')"
    "\<forall>r \<in> set (records d). request_id r \<in> set (unindexed d) \<and> request_id r \<noteq> [] \<and> session_id r \<noteq> [] \<longrightarrow>
       request_id r \<in> fst ` set (session_indexed_requests d')"
    by blast
  have "BackfillSessionIndex d = (None, d')"
    unfolding BackfillSessionIndex_def using d'(1) by (intro run_batches_all) (simp add: concat_chunks)
  moreover have "request_id r \<in> fst ` set (session_indexed_requests d')"
    if r: "r \<in> set (records d)" "request_id r \<noteq> []" "session_id r \<noteq> []" for r
  proof (cases "request_id r \<in> fst ` set (session_indexed_requests d)")
    case True
    then show ?thesis by (rule subsetD [OF d'(4)])
  next
    case False
    with r d'(5) show ?thesis by (simp add: unindexed_def)
  qed
  then have "fully_indexed d'" using d'(3) by (auto simp: fully_indexed_def rec_keys_def simp del: image_iff)
  ultimately show ?thesis using d' by blast
qed

text \<open>
  The backfill completes: on a well-formed archive it returns without error, in transactions of eight, and
  afterwards every record with a request and a session id is counted, while no record changed.
\<close>

theorem BackfillSessionIndex_complete:
  assumes "archive_ok d"
  shows "\<exists>d'. BackfillSessionIndex d = (None, d') \<and> archive_ok d' \<and> fully_indexed d' \<and> records d' = records d"
  using assms by (rule session_backfill_run)

section \<open>Examples\<close>

definition sample_record :: Record where
  "sample_record = blank_record\<lparr>RequestID := ''q'', SessionID := ''s''\<rparr>"

definition indexed_sample :: db where
  "indexed_sample = empty_db\<lparr>records := [blank_row\<lparr>r_id := 1, request_id := ''q'', session_id := ''s''\<rparr>],
     session_indexed_requests := [(''q'', ''s'')], session_summaries := [new_summary sample_record]\<rparr>"

theorem PutBatch_ok_witness:
  "\<exists>d'. PutBatch (\<lambda>_. []) True [sample_record] empty_db = Inr d' \<and> archive_ok d' \<and> ''q'' \<in> request_id ` set (records d')"
  using PutBatch_ok [OF archive_ok_empty(1), of "\<lambda>_. []" True "[sample_record]"] by (auto simp: sample_record_def)

theorem PutBatch_keeps_payloads_witness:
  "\<exists>d'. PutBatch (\<lambda>_. []) True [sample_record] empty_db = Inr d' \<and> logged empty_db d'"
proof -
  obtain d' where "PutBatch (\<lambda>_. []) True [sample_record] empty_db = Inr d'"
    using put_batch_ok [OF archive_ok_empty(1)] unfolding PutBatch_def by blast
  with PutBatch_keeps_payloads [OF archive_ok_empty(1) this] show ?thesis by blast
qed

lemma indexed_sample_ok: "archive_ok indexed_sample" "fully_indexed indexed_sample"
  by (simp_all add: archive_ok_def index_ok_def turn_ok_def log_ok_def rec_keys_def fully_indexed_def
      indexed_sample_def empty_db_def sample_record_def blank_row_def)

theorem Stats_exact_witness: "Records (Stats_of indexed_sample) = 1"
  using Stats_exact [OF indexed_sample_ok] by (simp add: indexed_sample_def blank_row_def)

theorem BackfillSessionIndex_complete_witness:
  "\<exists>d'. BackfillSessionIndex indexed_sample = (None, d') \<and> fully_indexed d'"
  using BackfillSessionIndex_complete [OF indexed_sample_ok(1)] by blast

end
