(* ===== verification/Payload_Cache.thy ===== *)
theory Payload_Cache
  imports Blob_Store Ingest "HOL-Library.AList"
begin

text \<open>
  The bounded payload cache of the session export (\<open>loadPayloadWithCache\<close>, \<open>prefetchPayloadBlobClosure\<close>,
  \<open>prefetchSmallBlobValues\<close> and their helpers in \<open>internal/archive/store.go\<close>), and the proof that it is
  invisible: with the cache a payload loads exactly as without it, and the cached bytes stay under their bound.

  The closure that \<open>loadPayloadWithCache\<close> hands to \<open>ExpandPayload\<close> changes the cache while it runs, so the
  expansion is given here a second time with a state threaded through its loads (\<open>expand_st\<close>); it visits the value in
  the order of \<open>expandValue\<close>.
\<close>

section \<open>Expansion with a stateful loader\<close>

type_synonym ('s, 'a) st = "'s \<Rightarrow> 'a result \<times> 's"

definition bind_st :: "('s, 'a) st \<Rightarrow> ('a \<Rightarrow> ('s, 'b) st) \<Rightarrow> ('s, 'b) st" where
  "bind_st m f s = (case m s of (Inl e, s') \<Rightarrow> (Inl e, s') | (Inr x, s') \<Rightarrow> f x s')"

definition pure_st :: "'a result \<Rightarrow> ('s, 'a) st" where
  "pure_st r s = (r, s)"

lemma bind_st_cong [fundef_cong]:
  assumes "m s = m' s'" and "\<And>x t. m' s' = (Inr x, t) \<Longrightarrow> f x t = f' x t" and "s = s'"
  shows "bind_st m f s = bind_st m' f' s'"
  using assms by (auto simp: bind_st_def split: prod.splits sum.splits)

fun map_st :: "('a \<Rightarrow> ('s, 'b) st) \<Rightarrow> 'a list \<Rightarrow> ('s, 'b list) st" where
  "map_st f [] s = (Inr [], s)"
| "map_st f (x # xs) s = bind_st (f x) (\<lambda>y. bind_st (map_st f xs) (\<lambda>ys. pure_st (Inr (y # ys)))) s"

lemma map_st_cong [fundef_cong]:
  assumes "xs = ys" and "s = t" and "\<And>x u. x \<in> set ys \<Longrightarrow> f x u = g x u"
  shows "map_st f xs s = map_st g ys t"
  using assms(3) unfolding assms(1,2)
  by (induction ys arbitrary: t) (auto intro!: bind_st_cong simp: pure_st_def)

type_synonym 's loader = "string \<Rightarrow> ('s, string) st"

function expand_st :: "nat \<Rightarrow> 's loader \<Rightarrow> gv \<Rightarrow> ('s, gv) st" where
  "expand_st n load v s =
    (case v of
       Arr vs \<Rightarrow> bind_st (map_st (expand_st n load) vs) (\<lambda>ys. pure_st (Inr (Arr ys))) s
     | Obj kvs \<Rightarrow>
         (case obj_get kvs ''$cpa_blob'' of
            Some (Str h) \<Rightarrow>
              bind_st (load h) (\<lambda>raw t.
                let enc = get_string kvs ''encoding'' in
                if enc = ''raw'' then (Inr (Raw raw), t)
                else if enc = ''utf8'' then (Inr (Str raw), t)
                else if enc = ''data-url'' then
                  (Inr (Str (''data:'' @ get_string kvs ''media_type'' @ '';base64,'' @ b64_encode raw)), t)
                else if enc = ''json'' then
                  (case Unmarshal raw of
                     None \<Rightarrow> (Inl BadJson, t)
                   | Some nested \<Rightarrow>
                       (case n of
                          0 \<Rightarrow> (Inl OutOfFuel, t)
                        | Suc m \<Rightarrow> expand_st m load nested t))
                else (Inl (UnknownEncoding enc), t)) s
          | _ \<Rightarrow>
              bind_st
                (map_st (\<lambda>kv. bind_st (expand_st n load (snd kv)) (\<lambda>y. pure_st (Inr (fst kv, y)))) kvs)
                (\<lambda>ys. pure_st (Inr (Obj ys))) s)
     | _ \<Rightarrow> (Inr v, s))"
  by pat_completeness auto
termination
  by (relation "measures [\<lambda>(n, load, v, s). n, \<lambda>(n, load, v, s). size v]")
    (auto simp: size_in_Arr size_in_Obj)

declare expand_st.simps [simp del]

section \<open>The cache\<close>

definition archiveExportBatchSize :: nat where
  "archiveExportBatchSize = 128"

definition archiveExportCacheBytes :: nat where
  "archiveExportCacheBytes = 16777216"

definition archiveExportCacheEntryBytes :: nat where
  "archiveExportCacheEntryBytes = 1048576"

record archivePayloadCache =
  pc_values :: "(string \<times> string) list"
  pc_bytes :: nat

definition empty_cache :: archivePayloadCache where
  "empty_cache = \<lparr>pc_values = [], pc_bytes = 0\<rparr>"

definition archivePayloadCacheCanStore :: "nat \<Rightarrow> nat \<Rightarrow> bool" where
  "archivePayloadCacheCanStore cacheBytes entryBytes \<longleftrightarrow>
    entryBytes \<le> archiveExportCacheEntryBytes \<and> cacheBytes + entryBytes \<le> archiveExportCacheBytes"

text \<open>\<open>cache.values[ref] = value; cache.bytes += len(value)\<close>, when the value may be kept.\<close>

definition cache_put :: "string \<Rightarrow> string \<Rightarrow> archivePayloadCache \<Rightarrow> archivePayloadCache" where
  "cache_put ref v c =
    (if archivePayloadCacheCanStore (pc_bytes c) (length v)
     then \<lparr>pc_values = AList.update ref v (pc_values c), pc_bytes = pc_bytes c + length v\<rparr>
     else c)"

definition cached_load :: "db \<Rightarrow> archivePayloadCache loader" where
  "cached_load d ref c =
    (case map_of (pc_values c) ref of
       Some v \<Rightarrow> (Inr v, c)
     | None \<Rightarrow>
         (case loadBlob d ref of
            Inr v \<Rightarrow> (Inr v, cache_put ref v c)
          | Inl e \<Rightarrow> (Inl e, c)))"

definition loadPayloadWithCache :: "nat \<Rightarrow> db \<Rightarrow> string \<Rightarrow> (archivePayloadCache, string) st" where
  "loadPayloadWithCache n d hash =
    bind_st (cached_load d hash) (\<lambda>manifest c.
      if manifest = [] then (Inr [], c)
      else
        (case Unmarshal manifest of
           None \<Rightarrow> (Inl BadJson, c)
         | Some v \<Rightarrow>
             bind_st (expand_st n (cached_load d) v) (\<lambda>x.
               pure_st (Inr (case x of Raw s \<Rightarrow> s | _ \<Rightarrow> Marshal x))) c))"

section \<open>Prefetching\<close>

text \<open>All references of a manifest, and those whose content is a manifest again.\<close>

fun visit_refs :: "gv \<Rightarrow> (string \<times> bool) list" where
  "visit_refs (Arr vs) = concat (map visit_refs vs)"
| "visit_refs (Obj kvs) =
    (case obj_get kvs ''$cpa_blob'' of
       Some (Str h) \<Rightarrow>
         if h \<noteq> [] then [(h, get_string kvs ''encoding'' = ''json'')]
         else concat (map (\<lambda>kv. visit_refs (snd kv)) kvs)
     | _ \<Rightarrow> concat (map (\<lambda>kv. visit_refs (snd kv)) kvs))"
| "visit_refs v = []"

definition payloadBlobReferences :: "string \<Rightarrow> (string list \<times> string list) option" where
  "payloadBlobReferences raw =
    map_option (\<lambda>v. (map fst (visit_refs v), map fst (filter snd (visit_refs v)))) (Unmarshal raw)"

definition uniqueBlobHashes :: "string list \<Rightarrow> string list" where
  "uniqueBlobHashes hashes = rev (remdups (rev (filter (\<lambda>h. h \<noteq> []) hashes)))"

text \<open>The rows of an \<open>IN\<close> query come in table order.\<close>

definition blobs_in :: "db \<Rightarrow> string list \<Rightarrow> blob_row list" where
  "blobs_in d hashes = filter (\<lambda>b. bl_hash b \<in> set hashes) (blobs d)"

text \<open>The hashes admitted by their recorded size, with the bytes reserved for them.\<close>

definition admit :: "blob_row \<Rightarrow> string list \<times> nat \<Rightarrow> string list \<times> nat" where
  "admit b er =
    (let (eligible, reserved) = er in
     if 0 \<le> bl_raw_size b \<and> bl_raw_size b \<le> int archiveExportCacheEntryBytes
        \<and> archivePayloadCacheCanStore reserved (nat (bl_raw_size b))
     then (eligible @ [bl_hash b], reserved + nat (bl_raw_size b)) else (eligible, reserved))"

definition prefetch_row :: "blob_row \<Rightarrow> archivePayloadCache \<Rightarrow> archivePayloadCache result" where
  "prefetch_row b c = bind_res (blob_bytes (bl_data b)) (\<lambda>v. Inr (cache_put (bl_hash b) v c))"

function prefetchSmallBlobValues :: "db \<Rightarrow> string list \<Rightarrow> archivePayloadCache \<Rightarrow> archivePayloadCache result" where
  "prefetchSmallBlobValues d hashes c =
    (if hashes = [] \<or> \<not> pc_bytes c < archiveExportCacheBytes then Inr c
     else
       let chunk = uniqueBlobHashes (take archiveExportBatchSize hashes);
           rest = drop archiveExportBatchSize hashes;
           eligible = fst (fold admit (blobs_in d chunk) ([], pc_bytes c))
       in bind_res (foldM_res prefetch_row (blobs_in d eligible) c) (prefetchSmallBlobValues d rest))"
  by pat_completeness auto
termination
  by (relation "measure (\<lambda>(d, h, c). length h)") (auto simp: archiveExportBatchSize_def)

declare prefetchSmallBlobValues.simps [simp del]

text \<open>The hashes of a work list that were not seen before, and all that are seen afterwards.\<close>

fun fresh :: "string list \<Rightarrow> string list \<Rightarrow> string list \<times> string list" where
  "fresh seen [] = ([], seen)"
| "fresh seen (h # hs) =
    (if h = [] \<or> h \<in> set seen then fresh seen hs
     else let (xs, seen') = fresh (h # seen) hs in (h # xs, seen'))"

lemma fresh_seen: "set (snd (fresh seen hs)) = set seen \<union> set (fst (fresh seen hs))"
  by (induction seen hs rule: fresh.induct) (auto simp: split_beta Let_def)

lemma fresh_new: "h \<in> set (fst (fresh seen hs)) \<Longrightarrow> h \<notin> set seen \<and> h \<in> set hs \<and> h \<noteq> []"
  by (induction seen hs rule: fresh.induct) (auto simp: split_beta Let_def split: if_splits)

definition keys_of :: "archivePayloadCache \<Rightarrow> string set" where
  "keys_of c = fst ` set (pc_values c)"

definition blob_keys :: "db \<Rightarrow> string set" where
  "blob_keys d = bl_hash ` set (blobs d)"

lemma keys_cache_put: "keys_of (cache_put h v c) \<subseteq> insert h (keys_of c)"
  by (auto simp: keys_of_def cache_put_def dom_update)

lemma prefetch_rows_keys:
  "foldM_res prefetch_row bs c = Inr c' \<Longrightarrow> keys_of c' \<subseteq> bl_hash ` set bs \<union> keys_of c"
proof (induction bs arbitrary: c)
  case (Cons b bs)
  then obtain v where "foldM_res prefetch_row bs (cache_put (bl_hash b) v c) = Inr c'"
    by (auto simp: bind_res_Inr_iff prefetch_row_def [of b])
  with Cons.IH keys_cache_put [of "bl_hash b" v c] show ?case by fastforce
qed simp

lemma prefetchSmall_keys:
  "prefetchSmallBlobValues d hs c = Inr c' \<Longrightarrow> keys_of c' \<subseteq> blob_keys d \<union> keys_of c"
proof (induction d hs c arbitrary: c' rule: prefetchSmallBlobValues.induct)
  case (1 d hs c)
  show ?case
  proof (cases "hs = [] \<or> \<not> pc_bytes c < archiveExportCacheBytes")
    case True
    with "1.prems" show ?thesis by (auto simp: prefetchSmallBlobValues.simps [of d hs c])
  next
    case False
    define el where "el = fst (fold admit (blobs_in d (uniqueBlobHashes (take archiveExportBatchSize hs))) ([], pc_bytes c))"
    from False "1.prems" obtain c1 where c1: "foldM_res prefetch_row (blobs_in d el) c = Inr c1"
      "prefetchSmallBlobValues d (drop archiveExportBatchSize hs) c1 = Inr c'"
      by (auto simp: prefetchSmallBlobValues.simps [of d hs c] bind_res_Inr_iff Let_def el_def)
    have "keys_of c' \<subseteq> blob_keys d \<union> keys_of c1"
      by (rule "1.IH" [OF False refl refl refl c1(1) [unfolded el_def] c1(2)])
    moreover have "bl_hash ` set (blobs_in d el) \<subseteq> blob_keys d"
      by (auto simp: blobs_in_def blob_keys_def)
    ultimately show ?thesis using prefetch_rows_keys [OF c1(1)] by blast
  qed
qed

definition cache_refs :: "archivePayloadCache \<Rightarrow> string \<Rightarrow> (string list \<times> string list) option" where
  "cache_refs c h = (case map_of (pc_values c) h of None \<Rightarrow> None | Some m \<Rightarrow> payloadBlobReferences m)"

lemma cache_refs_key: "cache_refs c h \<noteq> None \<Longrightarrow> h \<in> keys_of c"
  by (auto simp: cache_refs_def keys_of_def dest: map_of_SomeD split: option.splits intro: rev_image_eqI)

text \<open>The loop of \<open>prefetchPayloadBlobClosure\<close>.\<close>

function (sequential) prefetch_loop ::
  "db \<Rightarrow> string list \<Rightarrow> string list \<Rightarrow> string list \<Rightarrow> string list \<Rightarrow> archivePayloadCache \<Rightarrow> archivePayloadCache result"
  where
  "prefetch_loop d pending inspect loaded inspected c =
    (if pending = [] \<and> inspect = [] then Inr c
     else
       let (new, loaded') = fresh loaded pending;
           need = filter (\<lambda>h. map_of (pc_values c) h = None) new
       in bind_res (prefetchSmallBlobValues d need c) (\<lambda>c'.
            let (current, inspected') = fresh inspected inspect;
                found = List.map_filter (cache_refs c') current
            in prefetch_loop d (concat (map fst found)) (concat (map snd found)) loaded' inspected' c'))"
  by pat_completeness auto

definition uninspected :: "db \<Rightarrow> archivePayloadCache \<Rightarrow> string list \<Rightarrow> nat" where
  "uninspected d c inspected = card ((blob_keys d \<union> keys_of c) - set inspected)"

lemma finite_keys: "finite (blob_keys d \<union> keys_of c)"
  by (simp add: blob_keys_def keys_of_def)

lemma uninspected_mono:
  assumes "keys_of c' \<subseteq> blob_keys d \<union> keys_of c" and "set i \<subseteq> set i'"
  shows "uninspected d c' i' \<le> uninspected d c i"
  unfolding uninspected_def using assms finite_keys [of d c] by (intro card_mono) auto

lemma uninspected_less:
  assumes "keys_of c' \<subseteq> blob_keys d \<union> keys_of c" and "set i \<subseteq> set i'" and "h \<in> keys_of c'" and "h \<in> set i'"
    and "h \<notin> set i"
  shows "uninspected d c' i' < uninspected d c i"
  unfolding uninspected_def using assms finite_keys [of d c] by (intro psubset_card_mono) auto

lemma map_filter_found: "List.map_filter f xs \<noteq> [] \<Longrightarrow> \<exists>x \<in> set xs. f x \<noteq> None"
  by (induction xs) (auto simp: List.map_filter_def split: if_splits)

termination prefetch_loop
proof (relation "measures [\<lambda>(d, p, i, l, s, c). uninspected d c s, \<lambda>(d, p, i, l, s, c). if p = [] \<and> i = [] then 0 else 1]",
    goal_cases)
  case (2 d p i l s c x new l' need c' y cur s')
  let ?found = "List.map_filter (cache_refs c') cur"
  have k: "keys_of c' \<subseteq> blob_keys d \<union> keys_of c" by (rule prefetchSmall_keys) (use 2(5) in simp)
  have s: "set s \<subseteq> set s'" using fresh_seen [of s i] 2(6,7) by (cases "fresh s i") auto
  show ?case
  proof (cases "?found = []")
    case True
    with 2(1) uninspected_mono [OF k s] show ?thesis using 2(8) by auto
  next
    case False
    then obtain h where h: "h \<in> set cur" "cache_refs c' h \<noteq> None" using map_filter_found by blast
    from 2(6,7) have f: "fresh s i = (cur, s')" by simp
    have "h \<notin> set s" "h \<in> set s'" using h(1) fresh_new [of h s i] fresh_seen [of s i] by (auto simp: f)
    with uninspected_less [OF k s] cache_refs_key [OF h(2)] show ?thesis by auto
  qed
qed simp

declare prefetch_loop.simps [simp del]

definition prefetchPayloadBlobClosure :: "db \<Rightarrow> string list \<Rightarrow> archivePayloadCache \<Rightarrow> archivePayloadCache result" where
  "prefetchPayloadBlobClosure d roots c = prefetch_loop d roots roots [] [] c"

section \<open>The cache is invisible\<close>

text \<open>
  A stateful loader that answers as a plain one, whatever state it is in, as long as its state satisfies an invariant
  that it keeps: the contract under which expansion does not notice the state.
\<close>

locale transparent_loader =
  fixes load :: "'s loader" and plain :: "string \<Rightarrow> string result" and inv :: "'s \<Rightarrow> bool"
  assumes answers: "inv s \<Longrightarrow> fst (load h s) = plain h"
    and keeps: "inv s \<Longrightarrow> inv (snd (load h s))"
begin

definition agrees :: "('s, 'a) st \<Rightarrow> 'a result \<Rightarrow> bool" where
  "agrees m r \<longleftrightarrow> (\<forall>s. inv s \<longrightarrow> fst (m s) = r \<and> inv (snd (m s)))"

lemma agrees_load: "agrees (load h) (plain h)"
  by (simp add: agrees_def answers keeps)

lemma agrees_pure: "agrees (pure_st r) r"
  by (simp add: agrees_def pure_st_def)

lemma agrees_bind:
  assumes "agrees m r" and "\<And>x. r = Inr x \<Longrightarrow> agrees (f x) (g x)"
  shows "agrees (bind_st m f) (bind_res r g)"
  unfolding agrees_def
proof (intro allI impI)
  fix s assume "inv s"
  with assms(1) have m: "fst (m s) = r" "inv (snd (m s))" by (auto simp: agrees_def)
  show "fst (bind_st m f s) = bind_res r g \<and> inv (snd (bind_st m f s))"
    using m assms(2) by (cases "m s"; cases r) (auto simp: bind_st_def agrees_def)
qed

lemma agrees_map:
  "(\<And>x. x \<in> set xs \<Longrightarrow> agrees (f x) (g x)) \<Longrightarrow> agrees (map_st f xs) (map_res g xs)"
proof (induction xs)
  case Nil
  then show ?case by (simp add: agrees_def)
next
  case (Cons x xs)
  have "agrees (bind_st (f x) (\<lambda>y. bind_st (map_st f xs) (\<lambda>ys. pure_st (Inr (y # ys))))) (map_res g (x # xs))"
    using Cons by (auto intro!: agrees_bind agrees_pure)
  then show ?case by (simp add: agrees_def)
qed

lemma agrees_expand: "agrees (expand_st n load v) (expandValue n plain v)"
proof (induction n v rule: gv_fuel_induct)
  case (Arr n vs)
  have "agrees (bind_st (map_st (expand_st n load) vs) (\<lambda>ys. pure_st (Inr (Arr ys)))) (expandValue n plain (Arr vs))"
    using Arr by (auto simp: expandValue.simps [of n plain "Arr vs"] intro!: agrees_bind agrees_map agrees_pure)
  then show ?case by (simp add: agrees_def expand_st.simps [of n load "Arr vs"])
next
  case (Obj n kvs)
  have plain_obj: "agrees
      (bind_st (map_st (\<lambda>kv. bind_st (expand_st n load (snd kv)) (\<lambda>y. pure_st (Inr (fst kv, y)))) kvs)
        (\<lambda>ys. pure_st (Inr (Obj ys))))
      (bind_res (map_res (\<lambda>kv. bind_res (expandValue n plain (snd kv)) (\<lambda>y. Inr (fst kv, y))) kvs)
        (\<lambda>ys. Inr (Obj ys)))"
    using Obj(1) by (intro agrees_bind agrees_map agrees_pure) auto
  show ?case
  proof (cases "\<exists>h. obj_get kvs ''$cpa_blob'' = Some (Str h)")
    case True
    then obtain h where h: "obj_get kvs ''$cpa_blob'' = Some (Str h)" by blast
    let ?enc = "get_string kvs ''encoding''"
    have nested: "agrees (\<lambda>t. case n of 0 \<Rightarrow> (Inl OutOfFuel, t) | Suc m \<Rightarrow> expand_st m load v t)
        (case n of 0 \<Rightarrow> Inl OutOfFuel | Suc m \<Rightarrow> expandValue m plain v)" for v
      using Obj(2) by (cases n) (auto simp: agrees_def)
    have "agrees (expand_st n load (Obj kvs)) (bind_res (plain h) (\<lambda>raw.
        if ?enc = ''raw'' then Inr (Raw raw) else if ?enc = ''utf8'' then Inr (Str raw)
        else if ?enc = ''data-url'' then
          Inr (Str (''data:'' @ get_string kvs ''media_type'' @ '';base64,'' @ b64_encode raw))
        else if ?enc = ''json'' then
          (case Unmarshal raw of None \<Rightarrow> Inl BadJson
           | Some v \<Rightarrow> (case n of 0 \<Rightarrow> Inl OutOfFuel | Suc m \<Rightarrow> expandValue m plain v))
        else Inl (UnknownEncoding ?enc)))"
      unfolding expand_st.simps [of n load "Obj kvs", abs_def] gv.case h option.case Let_def
      by (rule agrees_bind [OF agrees_load]) (use nested in \<open>auto simp: agrees_def split: option.split\<close>)
    then show ?thesis by (simp add: expandValue.simps [of n plain "Obj kvs"] h Let_def)
  next
    case False
    then have "expand_st n load (Obj kvs) =
      bind_st (map_st (\<lambda>kv. bind_st (expand_st n load (snd kv)) (\<lambda>y. pure_st (Inr (fst kv, y)))) kvs)
        (\<lambda>ys. pure_st (Inr (Obj ys)))"
      by (intro ext) (simp add: expand_st.simps [of n load "Obj kvs"] split: option.split gv.split)
    moreover have "expandValue n plain (Obj kvs) =
      bind_res (map_res (\<lambda>kv. bind_res (expandValue n plain (snd kv)) (\<lambda>y. Inr (fst kv, y))) kvs)
        (\<lambda>ys. Inr (Obj ys))"
      using False by (simp add: expandValue.simps [of n plain "Obj kvs"] split: option.split gv.split)
    ultimately show ?thesis using plain_obj by simp
  qed
next
  case (leaf n v)
  then show ?case
    by (cases v) (auto simp: agrees_def expand_st.simps expandValue.simps)
qed

end

text \<open>
  The invariant of the cache: it holds what the blob table holds, under distinct keys, its byte count covers the
  cached values and does not pass the bound.
\<close>

definition cache_ok :: "db \<Rightarrow> archivePayloadCache \<Rightarrow> bool" where
  "cache_ok d c \<longleftrightarrow>
    distinct (map fst (pc_values c)) \<and> (\<forall>h v. map_of (pc_values c) h = Some v \<longrightarrow> loadBlob d h = Inr v)
    \<and> sum_list (map (\<lambda>kv. length (snd kv)) (pc_values c)) \<le> pc_bytes c \<and> pc_bytes c \<le> archiveExportCacheBytes"

lemma cache_ok_empty: "cache_ok d empty_cache"
  by (simp add: cache_ok_def empty_cache_def)

lemma sum_update_le:
  "sum_list (map (\<lambda>kv. length (snd kv)) (AList.update h v al)) \<le>
    sum_list (map (\<lambda>kv. length (snd kv)) al) + length v"
  by (induction al) auto

lemma cache_ok_put: "cache_ok d c \<Longrightarrow> loadBlob d h = Inr v \<Longrightarrow> cache_ok d (cache_put h v c)"
  using sum_update_le [of h v "pc_values c"]
  by (auto simp: cache_ok_def cache_put_def archivePayloadCacheCanStore_def distinct_update update_conv
      simp del: map_of_eq_Some_iff split: if_splits)

lemma cached_load_answers: "cache_ok d c \<Longrightarrow> fst (cached_load d h c) = loadBlob d h"
  by (cases "map_of (pc_values c) h")
    (auto simp: cached_load_def cache_ok_def simp del: map_of_eq_Some_iff split: sum.splits)

lemma cached_load_keeps: "cache_ok d c \<Longrightarrow> cache_ok d (snd (cached_load d h c))"
  by (auto simp: cached_load_def cache_ok_put split: option.splits sum.splits)

interpretation pcache: transparent_loader "cached_load d" "loadBlob d" "cache_ok d" for d
  by unfold_locales (rule cached_load_answers cached_load_keeps; assumption)+

lemma loadPayloadWithCache_agrees: "pcache.agrees d (loadPayloadWithCache n d h) (LoadPayload n d h)"
  unfolding loadPayloadWithCache_def LoadPayload_def ExpandPayload_def
proof (rule pcache.agrees_bind [OF pcache.agrees_load], goal_cases)
  case (1 m)
  show ?case
  proof (cases "m = [] \<or> Unmarshal m = None")
    case True
    then show ?thesis by (auto simp: pcache.agrees_def)
  next
    case False
    then obtain v where v: "m \<noteq> []" "Unmarshal m = Some v" by auto
    have "pcache.agrees d
      (bind_st (expand_st n (cached_load d) v) (\<lambda>x. pure_st (Inr (case x of Raw s \<Rightarrow> s | _ \<Rightarrow> Marshal x))))
      (bind_res (expandValue n (loadBlob d) v) (\<lambda>x. Inr (case x of Raw s \<Rightarrow> s | _ \<Rightarrow> Marshal x)))"
      by (intro pcache.agrees_bind pcache.agrees_expand pcache.agrees_pure)
    then show ?thesis by (simp add: v pcache.agrees_def)
  qed
qed

section \<open>Prefetching keeps the cache sound\<close>

definition all_readable :: "db \<Rightarrow> bool" where
  "all_readable d \<longleftrightarrow> (\<forall>b \<in> set (blobs d). \<exists>v. blob_bytes (bl_data b) = Inr v)"

lemma find_blob_row: "distinct (map bl_hash (blobs d)) \<Longrightarrow> b \<in> set (blobs d) \<Longrightarrow> find_blob d (bl_hash b) = Some b"
proof -
  have "distinct (map bl_hash bs) \<Longrightarrow> b \<in> set bs \<Longrightarrow> find (\<lambda>r. bl_hash r = bl_hash b) bs = Some b" for bs
    by (induction bs) (auto intro: rev_image_eqI)
  then show "distinct (map bl_hash (blobs d)) \<Longrightarrow> b \<in> set (blobs d) \<Longrightarrow> ?thesis" by (simp add: find_blob_def)
qed

lemma prefetch_rows_ok:
  assumes "distinct (map bl_hash (blobs d))"
  shows "cache_ok d c \<Longrightarrow> set bs \<subseteq> set (blobs d) \<Longrightarrow> [] \<notin> bl_hash ` set bs \<Longrightarrow>
    foldM_res prefetch_row bs c = Inr c' \<Longrightarrow> cache_ok d c'"
proof (induction bs arbitrary: c)
  case (Cons b bs)
  then obtain v where v: "blob_bytes (bl_data b) = Inr v"
    "foldM_res prefetch_row bs (cache_put (bl_hash b) v c) = Inr c'"
    by (auto simp: bind_res_Inr_iff prefetch_row_def [of b])
  have "loadBlob d (bl_hash b) = Inr v"
    using find_blob_row [OF assms, of b] Cons.prems(2,3) v(1) by (auto simp: loadBlob_def)
  with Cons.IH [OF _ _ _ v(2)] Cons.prems(1-3) show ?case by (simp add: cache_ok_put)
qed simp

lemma prefetch_rows_total:
  "all_readable d \<Longrightarrow> set bs \<subseteq> set (blobs d) \<Longrightarrow> \<exists>c'. foldM_res prefetch_row bs c = Inr c'"
proof (induction bs arbitrary: c)
  case (Cons b bs)
  then obtain v where "blob_bytes (bl_data b) = Inr v" by (auto simp: all_readable_def)
  with Cons show ?case by (auto simp: prefetch_row_def)
qed simp

lemma admitted: "set (fst (fold admit bs er)) \<subseteq> bl_hash ` set bs \<union> set (fst er)"
  by (induction bs arbitrary: er) (fastforce simp: admit_def Let_def split_beta split: if_splits)+

lemma prefetchSmall_ok:
  assumes "distinct (map bl_hash (blobs d))" and "cache_ok d c"
  shows "(\<forall>c'. prefetchSmallBlobValues d hs c = Inr c' \<longrightarrow> cache_ok d c')
    \<and> (all_readable d \<longrightarrow> (\<exists>c'. prefetchSmallBlobValues d hs c = Inr c'))"
  using assms
proof (induction d hs c rule: prefetchSmallBlobValues.induct)
  case (1 d hs c)
  show ?case
  proof (cases "hs = [] \<or> \<not> pc_bytes c < archiveExportCacheBytes")
    case True
    with "1.prems" show ?thesis by (auto simp: prefetchSmallBlobValues.simps [of d hs c])
  next
    case False
    define el where "el = fst (fold admit (blobs_in d (uniqueBlobHashes (take archiveExportBatchSize hs))) ([], pc_bytes c))"
    have eq: "prefetchSmallBlobValues d hs c =
      bind_res (foldM_res prefetch_row (blobs_in d el) c) (prefetchSmallBlobValues d (drop archiveExportBatchSize hs))"
      using False by (simp add: prefetchSmallBlobValues.simps [of d hs c] Let_def el_def)
    have sub: "set (blobs_in d el) \<subseteq> set (blobs d)" by (auto simp: blobs_in_def)
    have "[] \<notin> set el"
      using admitted [of "blobs_in d (uniqueBlobHashes (take archiveExportBatchSize hs))" "([], pc_bytes c)"]
      by (auto simp: el_def blobs_in_def uniqueBlobHashes_def)
    then have ne: "[] \<notin> bl_hash ` set (blobs_in d el)" by (auto simp: blobs_in_def)
    note IH = "1.IH" [OF False refl refl refl _ "1.prems"(1), folded el_def]
    show ?thesis
    proof (cases "foldM_res prefetch_row (blobs_in d el) c")
      case (Inl e)
      with prefetch_rows_total [OF _ sub, of c] show ?thesis by (auto simp: eq)
    next
      case (Inr c1)
      with IH [OF Inr prefetch_rows_ok [OF "1.prems" sub ne Inr]] show ?thesis by (simp add: eq)
    qed
  qed
qed

lemma prefetch_loop_ok:
  assumes "distinct (map bl_hash (blobs d))" and "cache_ok d c"
  shows "(\<forall>c'. prefetch_loop d p i l s c = Inr c' \<longrightarrow> cache_ok d c')
    \<and> (all_readable d \<longrightarrow> (\<exists>c'. prefetch_loop d p i l s c = Inr c'))"
  using assms
proof (induction d p i l s c rule: prefetch_loop.induct)
  case (1 d p i l s c)
  show ?case
  proof (cases "p = [] \<and> i = []")
    case True
    with "1.prems" show ?thesis by (simp add: prefetch_loop.simps [of d "[]" "[]" l s c])
  next
    case False
    define need where "need = filter (\<lambda>h. map_of (pc_values c) h = None) (fst (fresh l p))"
    define next_step where "next_step c' =
      (let found = List.map_filter (cache_refs c') (fst (fresh s i))
       in prefetch_loop d (concat (map fst found)) (concat (map snd found)) (snd (fresh l p)) (snd (fresh s i)) c')" for c'
    have eq: "prefetch_loop d p i l s c = bind_res (prefetchSmallBlobValues d need c) next_step"
      unfolding prefetch_loop.simps [of d p i l s c] if_not_P [OF False]
      by (simp add: Let_def split_beta need_def next_step_def [abs_def])
    note small = prefetchSmall_ok [OF "1.prems", of need]
    show ?thesis
    proof (cases "prefetchSmallBlobValues d need c")
      case (Inl e)
      with small show ?thesis by (auto simp: eq)
    next
      case (Inr c1)
      with small have "cache_ok d c1" by blast
      with "1.IH" [OF False refl prod.collapse refl Inr [unfolded need_def] refl prod.collapse refl "1.prems"(1)]
      show ?thesis by (simp add: eq Inr next_step_def Let_def)
    qed
  qed
qed

lemma cached_payload:
  assumes "cache_ok d c" and "loadPayloadWithCache n d h c = (r, c')"
  shows "r = LoadPayload n d h" and "cache_ok d c'"
  using loadPayloadWithCache_agrees [of d n h] assms by (auto simp: pcache.agrees_def)

lemma prefetch_closure_ok:
  assumes "distinct (map bl_hash (blobs d))" and "cache_ok d c"
  shows "prefetchPayloadBlobClosure d roots c = Inr c' \<Longrightarrow> cache_ok d c'"
    and "all_readable d \<Longrightarrow> \<exists>c'. prefetchPayloadBlobClosure d roots c = Inr c'"
  using prefetch_loop_ok [OF assms] by (auto simp: prefetchPayloadBlobClosure_def)

text \<open>
  C9. The export cache is invisible and bounded: after prefetching the payloads of any batch into an empty cache, every
  payload loads through the cache with exactly the result of a direct load, error or value, and the values held
  in memory never exceed \<open>archiveExportCacheBytes\<close>.
\<close>

theorem cached_payload_transparent:
  assumes "distinct (map bl_hash (blobs d))" and "prefetchPayloadBlobClosure d roots empty_cache = Inr c"
    and "loadPayloadWithCache n d h c = (r, c')"
  shows "r = LoadPayload n d h
    \<and> sum_list (map (\<lambda>kv. length (snd kv)) (pc_values c')) \<le> archiveExportCacheBytes"
proof -
  have "cache_ok d c" by (rule prefetch_closure_ok(1) [OF assms(1) cache_ok_empty assms(2)])
  from cached_payload [OF this assms(3)] show ?thesis by (auto simp: cache_ok_def)
qed

definition warm_cache :: archivePayloadCache where
  \<open>warm_cache = \<lparr>pc_values = [(''a'', ''"x"'')], pc_bytes = 3\<rparr>\<close>

lemma sample_unmarshal: \<open>Unmarshal ''"x"'' = Some (Str ''x'')\<close>
  by (simp add: Unmarshal_def Decode_def text_eval)

lemma sample_prefetch: "prefetchPayloadBlobClosure gc_sample [''a''] empty_cache = Inr warm_cache"
  by (simp add: prefetchPayloadBlobClosure_def prefetch_loop.simps prefetchSmallBlobValues.simps empty_cache_def
      archiveExportCacheBytes_def archiveExportBatchSize_def uniqueBlobHashes_def blobs_in_def gc_sample_def text_blob_def
      admit_def archiveExportCacheEntryBytes_def archivePayloadCacheCanStore_def prefetch_row_def blob_bytes_def
      gunzipBytesChecked_def cache_put_def List.map_filter_def cache_refs_def payloadBlobReferences_def
      sample_unmarshal warm_cache_def)

theorem cached_payload_transparent_witness:
  \<open>LoadPayload 0 gc_sample ''a'' = Inr ''"x"'' \<and> length ''"x"'' \<le> archiveExportCacheBytes\<close>
proof -
  have run: \<open>loadPayloadWithCache 0 gc_sample ''a'' warm_cache = (Inr ''"x"'', warm_cache)\<close>
    by (simp add: loadPayloadWithCache_def cached_load_def bind_st_def pure_st_def warm_cache_def sample_unmarshal
        expand_st.simps quote_def quote_rune_def text_eval)
  have "distinct (map bl_hash (blobs gc_sample))" by (simp add: gc_sample_def text_blob_def)
  from cached_payload_transparent [OF this sample_prefetch run] show ?thesis by (auto simp: warm_cache_def)
qed

end
