(* ===== verification/Read_Side.thy ===== *)
theory Read_Side
  imports Records Payload_Cache "HOL-Library.Product_Lexorder"
begin

text \<open>
  The read side of \<open>internal/archive/store.go\<close>: a record with its payloads (\<open>requestWithQuery\<close>), pages of a session,
  the context of a request, and the JSONL exports of a session (seek batches with the payload cache) and of the
  whole archive.

  Contexts are never cancelled here and queries do not fail: the errors are those of the data. The compressed size of a
  legacy gzip column, which only steers the size of export batches, is the parameter \<open>glen\<close>. What a writer
  receives is returned as text, also when an error ends the export.
\<close>

section \<open>A record of the database\<close>

text \<open>The newest alias of a principal.\<close>

definition newer :: "principal_row \<Rightarrow> principal_row option \<Rightarrow> principal_row option" where
  "newer p best =
    (case best of None \<Rightarrow> Some p | Some b \<Rightarrow> if cp_updated_at b < cp_updated_at p then Some p else Some b)"

definition alias_of :: "db \<Rightarrow> string \<Rightarrow> string" where
  "alias_of d pid =
    (case fold newer (filter (\<lambda>p. cp_principal p = pid \<and> cp_alias p \<noteq> []) (credential_principals d)) None of
       None \<Rightarrow> [] | Some p \<Rightarrow> cp_alias p)"

text \<open>
  \<open>json.Unmarshal\<close> into a \<open>map[string]any\<close>: anything but an object leaves the map nil, a number out of range
  leaves nil under its key.
\<close>

fun lossy_float :: "gv \<Rightarrow> gv" where
  "lossy_float (Num lit) = (case f64_text lit of None \<Rightarrow> Null | Some t \<Rightarrow> Num t)"
| "lossy_float (Arr vs) = Arr (map lossy_float vs)"
| "lossy_float (Obj kvs) = Obj (map (\<lambda>kv. (fst kv, lossy_float (snd kv))) kvs)"
| "lossy_float v = v"

definition decode_metadata :: "string \<Rightarrow> gv" where
  "decode_metadata s =
    (case Decode s of
       Some (Obj kvs, rest) \<Rightarrow> if skip_ws rest = [] then lossy_float (Obj kvs) else Null
     | _ \<Rightarrow> Null)"

text \<open>The \<open>map[string][]string\<close> decoded from the facets column, as it is encoded again; \<open>Null\<close> is the nil map.\<close>

definition facets_value :: "string \<Rightarrow> gv" where
  "facets_value s =
    (case Decode s of
       Some (Obj kvs, rest) \<Rightarrow>
         if skip_ws rest = []
         then Obj (map (\<lambda>kv. (fst kv, case snd kv of Arr _ \<Rightarrow> Arr (map Str (facet_values (snd kv))) | _ \<Rightarrow> Null)) kvs)
         else Null
     | _ \<Rightarrow> Null)"

text \<open>The columns of a row, before any payload is loaded.\<close>

definition scan_row :: "db \<Rightarrow> rec_row \<Rightarrow> Record" where
  "scan_row d r =
    \<lparr>RequestID = request_id r, TraceID = trace_id r, SessionID = session_id r,
     ParentResponseID = parent_response_id r, ResponseID = response_id r, KeyID = key_id r,
     PrincipalID = principal_id r, CredentialHash = credential_hash r, PrincipalAlias = alias_of d (principal_id r),
     Summary = summary r, ResponsePreview = response_preview r, ProjectPath = [], ProjectName = [], GitRemote = [], ThreadID = [],
     TurnID = [], WindowID = [], RequestKind = [], ThreadSource = [], Client = [], SourceFormat = source_format r,
     RequestedModel = requested_model r, Model = model r, Streaming = streaming r, Outcome = outcome r,
     StatusCode = status_code r, Error = error_text r, StartedAt = retime (started_at r),
     CompletedAt = retime (completed_at r), OriginalRequest = [], UpstreamRequest = [], Response = [],
     Truncated = truncated r, Metadata = decode_metadata (metadata_json r), Facets = decode_facets (facets_json r)\<rparr>"

definition find_record :: "db \<Rightarrow> string \<Rightarrow> rec_row option" where
  "find_record d rq = find (\<lambda>r. request_id r = rq) (records d)"

definition column_payload :: "nat \<Rightarrow> db \<Rightarrow> string \<Rightarrow> gz \<Rightarrow> string result" where
  "column_payload n d ref old = (if ref \<noteq> [] then LoadPayload n d ref else Inr (gunzipBytes old))"

text \<open>The loaded record, with its facets as they are encoded.\<close>

definition load_row :: "nat \<Rightarrow> bool \<Rightarrow> db \<Rightarrow> rec_row \<Rightarrow> (Record \<times> gv) result" where
  "load_row n storeUpstream d r =
    bind_res (column_payload n d (original_ref r) (original_request_gz r)) (\<lambda>original.
    bind_res
      (if upstream_ref r \<noteq> [] then LoadPayload n d (upstream_ref r)
       else Inr (if storeUpstream then gunzipBytes (upstream_request_gz r) else [])) (\<lambda>upstream.
    bind_res (column_payload n d (response_ref r) (response_gz r)) (\<lambda>response.
      Inr ((scan_row d r)\<lparr>OriginalRequest := original, UpstreamRequest := upstream, Response := response\<rparr>,
           facets_value (facets_json r)))))"

definition requestWithQuery :: "nat \<Rightarrow> bool \<Rightarrow> db \<Rightarrow> string \<Rightarrow> (Record \<times> gv) result" where
  "requestWithQuery n storeUpstream d rq =
    (case find_record d rq of None \<Rightarrow> Inl NoRows | Some r \<Rightarrow> load_row n storeUpstream d r)"

section \<open>Pages of a session\<close>

record SessionPage =
  sp_records :: "Record list"
  sp_total :: nat
  sp_limit :: int
  sp_offset :: int

text \<open>\<open>LIMIT\<close> and \<open>OFFSET\<close>: a negative limit is no limit, a negative offset is none.\<close>

definition limit_offset :: "int \<Rightarrow> int \<Rightarrow> 'a list \<Rightarrow> 'a list" where
  "limit_offset limit offset xs =
    (let ys = drop (nat offset) xs in if limit < 0 then ys else take (nat limit) ys)"

text \<open>A payload whose load fails is left out of a page.\<close>

definition payload_or_none :: "string result \<Rightarrow> string" where
  "payload_or_none r = (case r of Inl _ \<Rightarrow> [] | Inr s \<Rightarrow> s)"

definition cut :: "nat \<Rightarrow> string \<Rightarrow> string" where
  "cut n s = (if n < length s then take n s else s)"

definition page_record :: "nat \<Rightarrow> bool \<Rightarrow> db \<Rightarrow> nat \<Rightarrow> rec_row \<Rightarrow> Record" where
  "page_record n storeUpstream d previewBytes r =
    (let original = payload_or_none (column_payload n d (original_ref r) (original_request_gz r));
         upstream = (if upstream_ref r \<noteq> [] then payload_or_none (LoadPayload n d (upstream_ref r))
                     else if storeUpstream then gunzipBytes (upstream_request_gz r) else []);
         response = payload_or_none (column_payload n d (response_ref r) (response_gz r));
         x = (scan_row d r)\<lparr>OriginalRequest := original, UpstreamRequest := upstream, Response := response\<rparr>
     in if 0 < previewBytes
        then x\<lparr>OriginalRequest := cut previewBytes original, UpstreamRequest := [], Response := cut previewBytes response,
               Truncated := (Truncated x \<or> previewBytes < length original \<or> previewBytes < length response)\<rparr>
        else x)"

definition SessionRange :: "nat \<Rightarrow> bool \<Rightarrow> db \<Rightarrow> string \<Rightarrow> int \<Rightarrow> int \<Rightarrow> nat \<Rightarrow> SessionPage" where
  "SessionRange n storeUpstream d sid limit offset previewBytes =
    (let rows = filter (\<lambda>r. session_id r = sid) (records d)
     in \<lparr>sp_records = map (page_record n storeUpstream d previewBytes)
           (limit_offset limit offset (sort_key started_at rows)),
         sp_total = length rows, sp_limit = limit, sp_offset = offset\<rparr>)"

definition Session :: "nat \<Rightarrow> bool \<Rightarrow> db \<Rightarrow> string \<Rightarrow> Record list" where
  "Session n storeUpstream d sid = sp_records (SessionRange n storeUpstream d sid 1000000 0 0)"

text \<open>\<open>EXISTS (SELECT 1 FROM record_facets ...)\<close> for every filter.\<close>

definition facets_match :: "db \<Rightarrow> (string \<times> string) list \<Rightarrow> string \<Rightarrow> bool" where
  "facets_match d filters rq \<longleftrightarrow> list_all (\<lambda>(name, v). (rq, name, v) \<in> set (record_facets d)) filters"

definition row_key :: "rec_row \<Rightarrow> string \<times> nat" where
  "row_key r = (started_at r, r_id r)"

text \<open>\<open>strings.EqualFold(order, "desc")\<close>: beside letter case, U+017F folds to \<open>s\<close>.\<close>

definition folds_to_desc :: "string \<Rightarrow> bool" where
  "folds_to_desc order \<longleftrightarrow>
    concat (map (\<lambda>r. if r = bytes [197, 191] then ''s'' else r) (runes (ToLower order))) = ''desc''"

definition SessionMetadataRange ::
  "db \<Rightarrow> string \<Rightarrow> int \<Rightarrow> int \<Rightarrow> string \<Rightarrow> (string \<times> string) list \<Rightarrow> SessionPage" where
  "SessionMetadataRange d sid limit offset order filters =
    (let rows = filter (\<lambda>r. session_id r = sid \<and> facets_match d filters (request_id r)) (records d);
         asc = sort_key row_key rows;
         ordered = (if folds_to_desc order then rev asc else asc)
     in \<lparr>sp_records = map (scan_row d) (limit_offset limit offset ordered),
         sp_total = length rows, sp_limit = limit, sp_offset = offset\<rparr>)"

section \<open>The context of a request\<close>

definition clamp :: "int \<Rightarrow> int \<Rightarrow> int \<Rightarrow> int" where
  "clamp lo hi x = (if x < lo then lo else if hi < x then hi else x)"

definition RequestContext :: "nat \<Rightarrow> bool \<Rightarrow> db \<Rightarrow> string \<Rightarrow> int \<Rightarrow> int \<Rightarrow> ((Record \<times> gv) list) result" where
  "RequestContext n storeUpstream d rq before limit =
    (let limit' = nat (if limit < 1 then 8 else if 32 < limit then 32 else limit);
         before' = nat (clamp 0 4 before)
     in case find_record d rq of
          None \<Rightarrow> Inl NoRows
        | Some r \<Rightarrow>
            let session = sort_key r_id (filter (\<lambda>x. session_id x = session_id r) (records d));
                previous = take before' (rev (filter (\<lambda>x. r_id x < r_id r) session));
                following = take limit' (filter (\<lambda>x. r_id r \<le> r_id x) session)
            in map_res (requestWithQuery n storeUpstream d) (map request_id (rev previous @ following)))"

section \<open>Training records\<close>

definition decodedPayload :: "string \<Rightarrow> gv" where
  "decodedPayload raw =
    (if raw = [] then Null else case Unmarshal raw of Some v \<Rightarrow> v | None \<Rightarrow> Str raw)"

definition int_text :: "int \<Rightarrow> string" where
  "int_text i = (if i < 0 then ''-'' @ Itoa (nat (- i)) else Itoa (nat i))"

definition omit_str :: "string \<Rightarrow> string \<Rightarrow> (string \<times> gv) list" where
  "omit_str k s = (if s = [] then [] else [(k, Str s)])"

definition omit_nil :: "string \<Rightarrow> gv \<Rightarrow> (string \<times> gv) list" where
  "omit_nil k v = (if v = Null then [] else [(k, v)])"

definition omit_map :: "string \<Rightarrow> gv \<Rightarrow> (string \<times> gv) list" where
  "omit_map k v = (if v = Null \<or> v = Obj [] then [] else [(k, v)])"

definition TrainingRecord :: "Record \<Rightarrow> gv \<Rightarrow> gv" where
  "TrainingRecord x facets =
    Struct ([(''schema_version'', Num ''2''), (''session_id'', Str (SessionID x)), (''request_id'', Str (RequestID x)),
       (''started_at'', Str (StartedAt x)), (''completed_at'', Str (CompletedAt x))]
      @ omit_str ''key_id'' (KeyID x) @ omit_str ''principal_id'' (PrincipalID x)
      @ omit_str ''credential_hash'' (CredentialHash x) @ omit_str ''principal_alias'' (PrincipalAlias x)
      @ omit_str ''requested_model'' (RequestedModel x) @ omit_str ''model'' (Model x)
      @ omit_str ''outcome'' (Outcome x)
      @ (if StatusCode x = 0 then [] else [(''status_code'', Num (int_text (StatusCode x)))])
      @ omit_map ''metadata'' (Metadata x) @ omit_map ''facets'' facets
      @ omit_nil ''request'' (decodedPayload (OriginalRequest x))
      @ omit_nil ''response'' (decodedPayload (Response x)))"

text \<open>\<open>enc.Encode(training)\<close>: only a timestamp can make it fail.\<close>

definition encode_training :: "Record \<Rightarrow> gv \<Rightarrow> string result" where
  "encode_training x facets =
    (if marshal_time_ok (StartedAt x) \<and> marshal_time_ok (CompletedAt x)
     then Inr (Encode (TrainingRecord x facets)) else Inl Fatal)"

section \<open>Export of a session in seek batches\<close>

definition archiveExportBatchBytes :: nat where
  "archiveExportBatchBytes = 16777216"

definition archiveExportBatchShouldStop :: "nat \<Rightarrow> bool" where
  "archiveExportBatchShouldStop n \<longleftrightarrow> archiveExportBatchBytes \<le> n"

definition residentBytes :: "(gz \<Rightarrow> nat) \<Rightarrow> db \<Rightarrow> rec_row \<Rightarrow> nat" where
  "residentBytes glen d r =
    sum_list (map length [session_id r, request_id r, trace_id r, key_id r, principal_id r, credential_hash r,
      alias_of d (principal_id r), summary r, response_preview r, source_format r, requested_model r, model r,
      outcome r, error_text r, parent_response_id r, response_id r, started_at r, original_ref r, upstream_ref r,
      response_ref r, metadata_json r, facets_json r])
    + glen (original_request_gz r) + glen (upstream_request_gz r) + glen (response_gz r)"

text \<open>The query behind the seek cursor.\<close>

definition rows_after :: "db \<Rightarrow> string \<Rightarrow> string \<times> nat \<Rightarrow> rec_row list" where
  "rows_after d sid cursor =
    (let (afterStarted, afterID) = cursor in
     sort_key row_key
       (filter (\<lambda>r. session_id r = sid \<and>
          (afterStarted < started_at r \<or> started_at r = afterStarted \<and> afterID < r_id r)) (records d)))"

text \<open>Rows are kept until the batch holds enough bytes.\<close>

fun fill_batch :: "(rec_row \<Rightarrow> nat) \<Rightarrow> nat \<Rightarrow> rec_row list \<Rightarrow> rec_row list \<times> bool" where
  "fill_batch weight batchBytes [] = ([], False)"
| "fill_batch weight batchBytes (r # rs) =
    (if archiveExportBatchShouldStop (batchBytes + weight r) then ([r], True)
     else let (batch, limited) = fill_batch weight (batchBytes + weight r) rs in (r # batch, limited))"

definition prefetchArchivePayloads :: "db \<Rightarrow> rec_row list \<Rightarrow> archivePayloadCache \<Rightarrow> archivePayloadCache result" where
  "prefetchArchivePayloads d batch c =
    prefetchPayloadBlobClosure d
      (concat (map (\<lambda>r. (if original_ref r \<noteq> [] then [original_ref r] else [])
                       @ (if response_ref r \<noteq> [] then [response_ref r] else [])) batch)) c"

definition cached_column :: "nat \<Rightarrow> db \<Rightarrow> string \<Rightarrow> gz \<Rightarrow> (archivePayloadCache, string) st" where
  "cached_column n d ref old =
    (if ref \<noteq> [] then loadPayloadWithCache n d ref else pure_st (Inr (gunzipBytes old)))"

definition encodeArchiveExportRow :: "nat \<Rightarrow> db \<Rightarrow> rec_row \<Rightarrow> (archivePayloadCache, string) st" where
  "encodeArchiveExportRow n d r =
    bind_st (cached_column n d (original_ref r) (original_request_gz r)) (\<lambda>original.
    bind_st (cached_column n d (response_ref r) (response_gz r)) (\<lambda>response.
      pure_st (encode_training ((scan_row d r)\<lparr>OriginalRequest := original, Response := response\<rparr>)
        (facets_value (facets_json r)))))"

fun emit_rows :: "nat \<Rightarrow> db \<Rightarrow> rec_row list \<Rightarrow> archivePayloadCache \<Rightarrow> string \<Rightarrow> string \<times> err option" where
  "emit_rows n d [] c out = (out, None)"
| "emit_rows n d (r # rs) c out =
    (case encodeArchiveExportRow n d r c of
       (Inl e, c') \<Rightarrow> (out, Some e)
     | (Inr line, c') \<Rightarrow> emit_rows n d rs c' (out @ line))"

lemma rows_after_shrinks:
  assumes "r \<in> set (rows_after d sid cur)"
  shows "length (rows_after d sid (row_key r)) < length (rows_after d sid cur)"
proof -
  let ?P = "\<lambda>c x. session_id x = sid \<and> (fst c < started_at x \<or> started_at x = fst c \<and> snd c < r_id x)"
  have eq: "length (rows_after d sid c) = length (filter (?P c) (records d))" for c
    by (simp add: rows_after_def split_beta)
  have r: "r \<in> set (records d)" "?P cur r" using assms by (auto simp: rows_after_def split_beta)
  have "?P (row_key r) x \<Longrightarrow> ?P cur x" for x using r(2) by (auto simp: row_key_def)
  then have "filter (?P (row_key r)) (records d) = filter (?P (row_key r)) (filter (?P cur) (records d))"
    by (auto simp: filter_filter intro: filter_cong)
  moreover have "length (filter (?P (row_key r)) (filter (?P cur) (records d))) < length (filter (?P cur) (records d))"
    using r by (intro length_filter_less [of r]) (auto simp: row_key_def)
  ultimately show ?thesis by (simp add: eq)
qed

lemma fill_batch_prefix: "\<exists>k. fst (fill_batch w b rs) = take k rs"
proof (induction w b rs rule: fill_batch.induct)
  case (2 w b r rs)
  show ?case
  proof (cases "archiveExportBatchShouldStop (b + w r)")
    case True
    then show ?thesis by (intro exI [of _ 1]) simp
  next
    case False
    with 2 obtain k where "fst (fill_batch w (b + w r) rs) = take k rs" by blast
    with False show ?thesis by (intro exI [of _ "Suc k"]) (simp add: split_beta)
  qed
qed simp

lemma fill_batch_limited: "snd (fill_batch w b rs) \<Longrightarrow> fst (fill_batch w b rs) \<noteq> []"
  by (cases rs) (auto simp: split_beta)

function exportSessionArchiveBatches ::
  "(gz \<Rightarrow> nat) \<Rightarrow> nat \<Rightarrow> db \<Rightarrow> string \<Rightarrow> string \<times> nat \<Rightarrow> string \<Rightarrow> string \<times> err option" where
  "exportSessionArchiveBatches glen n d sid cursor out =
    (let rows = take archiveExportBatchSize (rows_after d sid cursor);
         (batch, limitedByBytes) = fill_batch (residentBytes glen d) 0 rows
     in case prefetchArchivePayloads d batch empty_cache of
          Inl e \<Rightarrow> (out, Some e)
        | Inr payloadCache \<Rightarrow>
            (case emit_rows n d batch payloadCache out of
               (out', Some e) \<Rightarrow> (out', Some e)
             | (out', None) \<Rightarrow>
                 if length batch < archiveExportBatchSize \<and> \<not> limitedByBytes then (out', None)
                 else exportSessionArchiveBatches glen n d sid (row_key (last batch)) out'))"
  by pat_completeness auto
termination
proof (relation "measure (\<lambda>(glen, n, d, sid, cur, out). length (rows_after d sid cur))", goal_cases)
  case (2 glen n d sid cur out rows p batch limited c out' o')
  have b: "batch = fst (fill_batch (residentBytes glen d) 0 rows)" and l: "limited = snd (fill_batch (residentBytes glen d) 0 rows)"
    using 2(2,3) by (metis fst_conv, metis snd_conv)
  have "batch \<noteq> []" using 2(7) fill_batch_limited [of "residentBytes glen d" 0 rows]
    by (auto simp: b l archiveExportBatchSize_def)
  moreover have "set batch \<subseteq> set (rows_after d sid cur)"
    using fill_batch_prefix [of "residentBytes glen d" 0 rows] 2(1)
    by (auto simp: b dest!: in_set_takeD)
  ultimately show ?case by (auto intro!: rows_after_shrinks)
qed simp

declare exportSessionArchiveBatches.simps [simp del]

text \<open>Full archives: the ids are collected first, then every record is read with \<open>Request\<close>.\<close>

fun emit_requests :: "nat \<Rightarrow> bool \<Rightarrow> db \<Rightarrow> string list \<Rightarrow> string \<Rightarrow> string \<times> err option" where
  "emit_requests n up d [] out = (out, None)"
| "emit_requests n up d (rq # rqs) out =
    (case bind_res (requestWithQuery n up d rq) (\<lambda>(x, facets). encode_training x facets) of
       Inl e \<Rightarrow> (out, Some e)
     | Inr line \<Rightarrow> emit_requests n up d rqs (out @ line))"

definition exportFullArchiveLegacy :: "nat \<Rightarrow> bool \<Rightarrow> db \<Rightarrow> string \<times> err option" where
  "exportFullArchiveLegacy n up d =
    emit_requests n up d (map request_id (sort_key (\<lambda>r. (session_id r, started_at r, r_id r)) (records d))) []"

definition ExportArchiveJSONL :: "(gz \<Rightarrow> nat) \<Rightarrow> nat \<Rightarrow> bool \<Rightarrow> db \<Rightarrow> string \<Rightarrow> string \<times> err option" where
  "ExportArchiveJSONL glen n up d sid =
    (if sid = [] then exportFullArchiveLegacy n up d
     else exportSessionArchiveBatches glen n d sid ([], 0) [])"

end
