(* ===== verification/Capture.thy ===== *)
theory Capture
  imports User_Text Read_Side
begin

text \<open>
  The capture side of the proxy plugin (\<open>internal/archive/plugin.go\<close>): the requests in flight, the five hooks that
  fill them, the record a completed request becomes, and the queue to the sender.

  Code from outside the repository is the parameter \<open>lib\<close>: the \<open>gjson\<close> lookups, the YAML decoder, the HTML entity table,
  \<open>fmt.Sprint\<close> of numbers and composite values, \<open>time.ParseDuration\<close>, and the order in which Go iterates over
  a map. A hook receives its decoded message; a slice out of range in the text extraction is the error \<open>Panic\<close>,
  which ends the process.
\<close>

section \<open>Parameters\<close>

record pluginConfig =
  cfg_Enabled :: bool
  cfg_Endpoint :: string
  cfg_QueueSize :: int
  cfg_MaxBodyBytes :: int
  cfg_Timeout :: string
  cfg_StoreUpstreamRequest :: bool

text \<open>A lookup gives the text of the value and, for an array, its elements.\<close>

datatype gresult = GResult string "gresult list option"

primrec gtext :: "gresult \<Rightarrow> string" where
  "gtext (GResult s xs) = s"

record library =
  lib_gjson :: "string \<Rightarrow> string \<Rightarrow> gresult"
  lib_entities :: "string \<Rightarrow> nat list"
  lib_sprint :: "gv \<Rightarrow> string"
  lib_order :: "bool \<Rightarrow> (string \<times> gv) list \<Rightarrow> (string \<times> gv) list"
  lib_yaml :: "string \<Rightarrow> pluginConfig \<Rightarrow> pluginConfig"
  lib_duration :: "string \<Rightarrow> int option"

abbreviation gstr :: "library \<Rightarrow> string \<Rightarrow> string \<Rightarrow> string" where
  "gstr lib b path \<equiv> gtext (lib_gjson lib b path)"

section \<open>Headers and metadata\<close>

type_synonym http_header = "(string \<times> string list) list"

text \<open>\<open>textproto.CanonicalMIMEHeaderKey\<close> of a name of letters, digits and hyphens.\<close>

definition upper_ascii :: "char \<Rightarrow> char" where
  "upper_ascii c = (if 97 \<le> byte c \<and> byte c \<le> 122 then char_of (byte c - 32) else c)"

definition lower_ascii :: "char \<Rightarrow> char" where
  "lower_ascii c = (if 65 \<le> byte c \<and> byte c \<le> 90 then char_of (byte c + 32) else c)"

fun canonical_from :: "bool \<Rightarrow> string \<Rightarrow> string" where
  "canonical_from up [] = []"
| "canonical_from up (c # s) = (if up then upper_ascii c else lower_ascii c) # canonical_from (c = CHR ''-'') s"

definition header_get :: "http_header \<Rightarrow> string \<Rightarrow> string" where
  "header_get h name = (case map_of h (canonical_from True name) of Some (v # _) \<Rightarrow> v | _ \<Rightarrow> [])"

text \<open>The first non-empty string under a wanted key, breadth first at each level, through maps only.\<close>

lemma size_snd_in_Obj: "kv \<in> set kvs \<Longrightarrow> size (snd kv) < Suc (size_list (size_prod (\<lambda>x. 0) size) kvs)"
  using size_in_Obj [of "fst kv" "snd kv" kvs] by simp

definition own_string :: "string list \<Rightarrow> (string \<times> gv) list \<Rightarrow> string" where
  "own_string keys kvs =
    (case find (\<lambda>kv. ToLower (fst kv) \<in> set keys \<and> string_of (Some (snd kv)) \<noteq> []) kvs of
       Some kv \<Rightarrow> string_of (Some (snd kv)) | None \<Rightarrow> [])"

text \<open>The iteration order only rearranges the entries.\<close>

definition ordered :: "library \<Rightarrow> bool \<Rightarrow> (string \<times> gv) list \<Rightarrow> (string \<times> gv) list" where
  "ordered lib second_loop kvs = filter (\<lambda>kv. kv \<in> set kvs) (lib_order lib second_loop kvs)"

function findString :: "library \<Rightarrow> string list \<Rightarrow> gv \<Rightarrow> string" where
  "findString lib keys v =
    (case v of
       Obj kvs \<Rightarrow>
         let own = own_string keys (ordered lib False kvs) in
         if own \<noteq> [] then own
         else case find (\<lambda>s. s \<noteq> []) (map (\<lambda>kv. findString lib keys (snd kv)) (ordered lib True kvs)) of
                Some s \<Rightarrow> s | None \<Rightarrow> []
     | _ \<Rightarrow> [])"
  by pat_completeness auto
termination
  by (relation "measure (\<lambda>(lib, keys, v). size v)") (auto simp: ordered_def dest: size_snd_in_Obj)

declare findString.simps [simp del]

definition meta_whitelist :: "string list" where
  "meta_whitelist = [''key_id'', ''key_hash'', ''requested_model'', ''target_provider'', ''target_model'', ''group'',
     ''execution_session_id'', ''derived_session_id'', ''caller_scope'', ''request_path'', ''selected_auth_id'']"

definition sanitizeMeta :: "library \<Rightarrow> gv \<Rightarrow> gv" where
  "sanitizeMeta lib m =
    Obj (foldl (\<lambda>out k. let v = findString lib [k] m in if v \<noteq> [] then obj_put k (Str v) out else out) [] meta_whitelist)"

definition archiveKeyID :: "library \<Rightarrow> gv \<Rightarrow> string" where
  "archiveKeyID lib m =
    firstNonEmpty [findString lib [''key_name'', ''key_alias'', ''principal_name'', ''key_id''] m,
      findString lib [''key_hash''] m, findString lib [''principal''] m, findString lib [''caller_scope''] m]"

definition nativeKeyHash :: "http_header \<Rightarrow> string" where
  "nativeKeyHash h =
    (let raw0 = TrimSpace (header_get h ''Authorization'');
         raw1 = (if HasPrefix (ToLower raw0) ''bearer '' then TrimSpace (drop 7 raw0) else raw0);
         raw2 = (if raw1 = [] then TrimSpace (header_get h ''X-API-Key'') else raw1)
     in if raw2 = [] then [] else sha256_hex raw2)"

section \<open>The session of a request\<close>

definition stableWindowID :: "string \<Rightarrow> string" where
  "stableWindowID v =
    (let t = TrimSpace v in
     case IndexByte t CHR '':'' of Some i \<Rightarrow> if 0 < i then take i t else t | None \<Rightarrow> t)"

definition session_paths :: "string list" where
  "session_paths = [''thread_id'', ''session_id'', ''client_metadata.thread_id'', ''client_metadata.session_id'',
     ''prompt_cache_key'', ''client_metadata.x-codex-window-id'']"

definition body_session :: "library \<Rightarrow> string \<Rightarrow> string option" where
  "body_session lib b =
    (case find (\<lambda>v. v \<noteq> []) (map (gstr lib b) session_paths) of
       Some v \<Rightarrow> Some (firstNonEmpty [stableWindowID v, v])
     | None \<Rightarrow>
         let u = gstr lib b ''metadata.user_id'' in
         if HasPrefix u ''{'' \<and> gstr lib u ''session_id'' \<noteq> [] then Some (gstr lib u ''session_id'') else None)"

definition sessionID :: "library \<Rightarrow> Record \<Rightarrow> gv \<Rightarrow> string list \<Rightarrow> string" where
  "sessionID lib r m bs =
    (let v = firstNonEmpty [ThreadID r, stableWindowID (WindowID r)] in
     if v \<noteq> [] then v
     else case find (\<lambda>x. x \<noteq> None) (map (body_session lib) bs) of
            Some x \<Rightarrow> the x
          | None \<Rightarrow>
              let a = findString lib [''thread_id'', ''session_id''] m;
                  b = findString lib [''execution_session_id'', ''derived_session_id''] m
              in if a \<noteq> [] then a else if b \<noteq> [] then b else ''request:'' @ findString lib [''request_id''] m)"

definition firstJSON :: "library \<Rightarrow> string list \<Rightarrow> string \<Rightarrow> string" where
  "firstJSON lib bs key = (case find (\<lambda>v. v \<noteq> []) (map (\<lambda>b. gstr lib b key) bs) of Some v \<Rightarrow> v | None \<Rightarrow> [])"

definition line_response_id :: "library \<Rightarrow> string \<Rightarrow> string option" where
  "line_response_id lib line0 =
    (let line = TrimSpace (TrimPrefix line0 ''data:''); v = gstr lib line ''response.id''; w = gstr lib line ''id'' in
     if v \<noteq> [] then Some v else if HasPrefix w ''resp_'' then Some w else None)"

definition responseID :: "library \<Rightarrow> string \<Rightarrow> string" where
  "responseID lib b =
    (case find (\<lambda>x. x \<noteq> None) (map (line_response_id lib) (SplitByte b CHR 0x0A)) of Some x \<Rightarrow> the x | None \<Rightarrow> [])"

section \<open>Desktop metadata\<close>

text \<open>
  \<open>json.Unmarshal\<close> into a struct: a key matches a field exactly or else in any letter case, \<open>null\<close> leaves the zero value, and a
  value of another type is an error.
\<close>

definition parse_json :: "string \<Rightarrow> gv option" where
  "parse_json s = (case Decode s of Some (v, rest) \<Rightarrow> if skip_ws rest = [] then Some v else None | None \<Rightarrow> None)"

definition field_value :: "(string \<times> gv) list \<Rightarrow> string \<Rightarrow> gv" where
  "field_value kvs name =
    (case obj_get kvs name of
       Some v \<Rightarrow> v
     | None \<Rightarrow> (case find (\<lambda>kv. EqualFold (fst kv) name) kvs of Some kv \<Rightarrow> snd kv | None \<Rightarrow> Null))"

definition string_field :: "gv \<Rightarrow> string option" where
  "string_field v = (case v of Null \<Rightarrow> Some [] | Str s \<Rightarrow> Some s | _ \<Rightarrow> None)"

definition object_field :: "gv \<Rightarrow> (string \<times> gv) list option" where
  "object_field v = (case v of Null \<Rightarrow> Some [] | Obj kvs \<Rightarrow> Some kvs | _ \<Rightarrow> None)"

text \<open>A map with values decoded one by one.\<close>

definition map_field :: "(gv \<Rightarrow> 'a option) \<Rightarrow> gv \<Rightarrow> (string \<times> 'a) list option" where
  "map_field f v =
    (case object_field v of
       None \<Rightarrow> None
     | Some kvs \<Rightarrow> opt_all (map (\<lambda>(k, x). map_option (Pair k) (f x)) kvs))"

record turn_metadata =
  tm_SessionID :: string
  tm_ThreadID :: string
  tm_TurnID :: string
  tm_WindowID :: string
  tm_RequestKind :: string
  tm_ThreadSource :: string
  tm_Workspaces :: "(string \<times> (string \<times> string) list) list"

definition workspace_field :: "gv \<Rightarrow> (string \<times> string) list option" where
  "workspace_field v =
    (case object_field v of
       None \<Rightarrow> None
     | Some kvs \<Rightarrow> map_field string_field (field_value kvs ''associated_remote_urls''))"

definition decode_turn_metadata :: "string \<Rightarrow> turn_metadata option" where
  "decode_turn_metadata raw =
    (case parse_json raw of
       None \<Rightarrow> None
     | Some v \<Rightarrow>
         (case object_field v of
            None \<Rightarrow> None
          | Some kvs \<Rightarrow>
              (case (opt_all (map (\<lambda>k. string_field (field_value kvs k))
                       [''session_id'', ''thread_id'', ''turn_id'', ''window_id'', ''request_kind'', ''thread_source'']),
                     map_field workspace_field (field_value kvs ''workspaces'')) of
                 (Some [sid, thr, trn, win, kind, src], Some ws) \<Rightarrow>
                   Some \<lparr>tm_SessionID = sid, tm_ThreadID = thr, tm_TurnID = trn, tm_WindowID = win,
                         tm_RequestKind = kind, tm_ThreadSource = src, tm_Workspaces = ws\<rparr>
               | _ \<Rightarrow> None)))"

text \<open>\<open>filepath.Base\<close> on a system with \<open>/\<close> as its separator.\<close>

definition path_base :: "string \<Rightarrow> string" where
  "path_base p =
    (if p = [] then ''.''
     else let t = TrimRightByte p CHR ''/'' in
          if t = [] then ''/'' else rev (takeWhile (\<lambda>c. c \<noteq> CHR ''/'') (rev t)))"

definition workspace_project :: "(string \<times> (string \<times> string) list) list \<Rightarrow> Record \<Rightarrow> Record" where
  "workspace_project ws r =
    (case sort (map fst ws) of
       [] \<Rightarrow> r
     | path # _ \<Rightarrow>
         let rem = (case map_of ws path of Some m \<Rightarrow> m | None \<Rightarrow> []);
             remotes = map (\<lambda>k. case map_of rem k of Some u \<Rightarrow> u | None \<Rightarrow> []) [''origin'', ''forgejo'', ''github'', ''llm'']
         in r\<lparr>ProjectPath := path,
              ProjectName := path_base (map (\<lambda>c. if c = CHR 0x5C then CHR ''/'' else c) path),
              GitRemote := (case find (\<lambda>u. u \<noteq> []) remotes of Some u \<Rightarrow> u | None \<Rightarrow> GitRemote r)\<rparr>)"

definition enrichDesktopMetadata :: "http_header \<Rightarrow> Record \<Rightarrow> Record" where
  "enrichDesktopMetadata h r0 =
    (let r = r0\<lparr>Client := firstNonEmpty [header_get h ''Originator'', header_get h ''User-Agent''],
                ThreadID := firstNonEmpty [header_get h ''Thread-Id'', header_get h ''X-Thread-Id''],
                WindowID := header_get h ''X-Codex-Window-Id''\<rparr>;
         raw = header_get h ''X-Codex-Turn-Metadata''
     in if raw = [] then r
        else case decode_turn_metadata raw of
               None \<Rightarrow> r
             | Some meta \<Rightarrow>
                 workspace_project (tm_Workspaces meta)
                   (r\<lparr>ThreadID := firstNonEmpty [tm_ThreadID meta, tm_SessionID meta, ThreadID r],
                      TurnID := tm_TurnID meta,
                      WindowID := firstNonEmpty [tm_WindowID meta, WindowID r],
                      RequestKind := tm_RequestKind meta,
                      ThreadSource := ToLower (TrimSpace (tm_ThreadSource meta))\<rparr>))"

section \<open>Facets\<close>

definition extractThreadSource :: "library \<Rightarrow> string \<Rightarrow> string" where
  "extractThreadSource lib body =
    (let direct = TrimSpace (gstr lib body ''client_metadata.thread_source'');
         raw = gstr lib body ''client_metadata.x-codex-turn-metadata''
     in if direct \<noteq> [] then ToLower direct
        else if raw = [] then []
        else case Option.bind (parse_json raw) object_field of
               None \<Rightarrow> []
             | Some kvs \<Rightarrow>
                 (case string_field (field_value kvs ''thread_source'') of
                    None \<Rightarrow> [] | Some s \<Rightarrow> ToLower (TrimSpace s)))"

definition addFacet :: "string \<Rightarrow> string \<Rightarrow> facets \<Rightarrow> facets" where
  "addFacet k v fs =
    (let t = TrimSpace v in
     if t = [] \<or> 2048 < length t \<or> t \<in> set (facet fs k) then fs else obj_put k (facet fs k @ [t]) fs)"

fun addResult :: "string \<Rightarrow> gresult \<Rightarrow> facets \<Rightarrow> facets" where
  "addResult name (GResult s None) fs = addFacet name s fs"
| "addResult name (GResult s (Some xs)) fs = fold (addResult name) xs fs"

definition header_facets :: "http_header \<Rightarrow> Record \<Rightarrow> (string \<times> string) list" where
  "header_facets h r =
    [(''client'', Client r), (''client.user_agent'', header_get h ''User-Agent''),
     (''project.name'', ProjectName r), (''project.path'', ProjectPath r), (''git.remote'', GitRemote r),
     (''session.id'', SessionID r), (''thread.id'', ThreadID r), (''turn.id'', TurnID r), (''window.id'', WindowID r),
     (''request.kind'', RequestKind r), (''thread.source'', ThreadSource r),
     (''client.request_id'', header_get h ''X-Client-Request-Id''), (''request.id'', header_get h ''X-Request-Id''),
     (''originator'', header_get h ''Originator''), (''sdk.language'', header_get h ''X-Stainless-Lang''),
     (''sdk.package_version'', header_get h ''X-Stainless-Package-Version''),
     (''client.os'', header_get h ''X-Stainless-OS''), (''client.arch'', header_get h ''X-Stainless-Arch''),
     (''runtime.name'', header_get h ''X-Stainless-Runtime''), (''runtime.version'', header_get h ''X-Stainless-Runtime-Version''),
     (''anthropic.version'', header_get h ''Anthropic-Version''), (''openai.organization'', header_get h ''OpenAI-Organization''),
     (''openai.project'', header_get h ''OpenAI-Project'')]
    @ map (\<lambda>name. (''header.'' @ ToLower name, header_get h name))
       [''X-Claude-Code-Session-Id'', ''X-Session-Id'', ''Session-Id'', ''Thread-Id'', ''X-Thread-Id'',
        ''X-Conversation-Id'', ''X-Project-Id'', ''X-Workspace-Id'']"

definition path_facets :: "(string \<times> string) list" where
  "path_facets =
    [(''session.id'', ''session_id''), (''conversation.id'', ''conversation_id''), (''thread.id'', ''thread_id''),
     (''project.name'', ''project.name''), (''project.name'', ''project''), (''project.id'', ''project_id''),
     (''workspace.name'', ''workspace.name''), (''workspace.id'', ''workspace_id''),
     (''project.path'', ''project.path''), (''project.path'', ''workspace.path''), (''project.path'', ''cwd''),
     (''git.remote'', ''repository''), (''git.remote'', ''repo''), (''git.branch'', ''branch''),
     (''client.name'', ''metadata.client''), (''client.name'', ''metadata.client_name''),
     (''client.version'', ''metadata.client_version''), (''client.ide'', ''metadata.ide''),
     (''client.ide_version'', ''metadata.ide_version''), (''client.os'', ''metadata.os''), (''client.arch'', ''metadata.arch''),
     (''project.name'', ''metadata.project''), (''workspace.name'', ''metadata.workspace''), (''project.path'', ''metadata.cwd''),
     (''project.name'', ''client_metadata.project''), (''workspace.name'', ''client_metadata.workspace''),
     (''reasoning.effort'', ''reasoning.effort''), (''service.tier'', ''service_tier''), (''tool.choice'', ''tool_choice''),
     (''tool.type'', ''tools.#.type''), (''tool.name'', ''tools.#.name''), (''tool.name'', ''tools.#.function.name''),
     (''input.type'', ''input.#.type''), (''content.type'', ''input.#.content.#.type''),
     (''message.role'', ''messages.#.role''), (''content.type'', ''messages.#.content.#.type'')]"

definition enrichGenericFacets :: "library \<Rightarrow> http_header \<Rightarrow> string \<Rightarrow> Record \<Rightarrow> Record" where
  "enrichGenericFacets lib h body r0 =
    (let r1 = (if ThreadSource r0 = [] then r0\<lparr>ThreadSource := extractThreadSource lib body\<rparr> else r0);
         f1 = fold (\<lambda>(k, v). addFacet k v) (header_facets h r1) (Facets r1);
         f2 = fold (\<lambda>(name, query). addResult name (lib_gjson lib body query)) path_facets f1
     in r1\<lparr>Facets := f2,
          ProjectName := (if ProjectName r1 = [] then firstNonEmpty [firstFacet f2 ''project.name'', firstFacet f2 ''workspace.name''] else ProjectName r1),
          ProjectPath := (if ProjectPath r1 = [] then firstFacet f2 ''project.path'' else ProjectPath r1),
          GitRemote := (if GitRemote r1 = [] then firstFacet f2 ''git.remote'' else GitRemote r1)\<rparr>)"

definition completion_facets :: "library \<Rightarrow> Record \<Rightarrow> (string \<times> string) list" where
  "completion_facets lib r =
    [(''session.id'', SessionID r), (''model.requested'', RequestedModel r), (''model.resolved'', Model r),
     (''source.format'', SourceFormat r), (''outcome'', Outcome r), (''key.id'', KeyID r),
     (''principal.id'', PrincipalID r), (''credential.hash'', CredentialHash r)]
    @ (if Metadata r = Null then []
       else
         let md = (\<lambda>k. findString lib [k] (Metadata r)) in
         [(''provider.target'', md ''target_provider''), (''model.target'', md ''target_model''),
          (''auth.group'', md ''group''), (''auth.id'', md ''selected_auth_id'')]
         @ (if md ''caller_scope'' = KeyID r then [(''caller.scope'', md ''caller_scope'')] else [])
         @ [(''request.path'', md ''request_path'')])"

definition addCompletionFacets :: "library \<Rightarrow> Record \<Rightarrow> Record" where
  "addCompletionFacets lib r =
    (let f1 = fold (\<lambda>(k, v) fs. if TrimSpace v \<noteq> [] then obj_put k [v] fs else fs) (completion_facets lib r) (Facets r);
         f2 = obj_put ''stream'' [if Streaming r then ''true'' else ''false''] f1
     in r\<lparr>Facets := (if 0 < StatusCode r then obj_put ''status.code'' [int_text (StatusCode r)] f2 else f2)\<rparr>)"

end
