(* ===== verification/Hooks.thy ===== *)
theory Hooks
  imports Capture
begin

text \<open>
  The state of the plugin and its operations (\<open>internal/archive/plugin.go\<close>): configuration, the hooks before and after
  authentication, the response and the chunks of a stream, the completion that hands the record to the
  queue, and the sender. Each hook runs under the mutex of the plugin.
\<close>

section \<open>State\<close>

record intercept =
  ic_RequestID :: string
  ic_TraceID :: string
  ic_SourceFormat :: string
  ic_Model :: string
  ic_RequestedModel :: string
  ic_Stream :: bool
  ic_Headers :: http_header
  ic_Body :: string
  ic_StatusCode :: int
  ic_Metadata :: gv
  ic_ChunkIndex :: int

record completion =
  cp_RequestID :: string
  cp_TraceID :: string
  cp_SourceFormat :: string
  cp_Model :: string
  cp_RequestedModel :: string
  cp_Outcome :: string
  cp_Error :: string
  cp_Stream :: bool
  cp_StatusCode :: int
  cp_StartedAt :: string
  cp_CompletedAt :: string
  cp_Metadata :: gv

record state =
  st_rec :: Record
  st_chunks :: string

text \<open>The channel to the sender is \<open>None\<close> until the first configuration makes it.\<close>

record Plugin =
  pl_active :: "string \<rightharpoonup> state"
  pl_q :: "Record list option"
  pl_capacity :: nat
  pl_stopped :: bool
  pl_timeout :: int
  pl_endpoint :: string
  pl_max :: nat
  pl_storeUpstream :: bool

definition NewPlugin :: Plugin where
  "NewPlugin =
    \<lparr>pl_active = Map.empty, pl_q = None, pl_capacity = 0, pl_stopped = False, pl_timeout = 5 * second, pl_endpoint = [],
     pl_max = 64 * 2 ^ 20, pl_storeUpstream = False\<rparr>"

definition default_config :: pluginConfig where
  "default_config = \<lparr>cfg_Enabled = True, cfg_Endpoint = [], cfg_QueueSize = 2048, cfg_MaxBodyBytes = 64 * 2 ^ 20,
     cfg_Timeout = ''5s'', cfg_StoreUpstreamRequest = False\<rparr>"

definition configure :: "library \<Rightarrow> string \<Rightarrow> Plugin \<Rightarrow> Plugin" where
  "configure lib yaml p =
    (let c = lib_yaml lib yaml default_config;
         queueSize = (if cfg_QueueSize c < 64 then 64 else cfg_QueueSize c);
         trimmed_endpoint = TrimRightByte (TrimSpace (cfg_Endpoint c)) CHR ''/'';
         endpoint = (if trimmed_endpoint = [] then ''http://127.0.0.1:8080'' else trimmed_endpoint);
         p1 = p\<lparr>pl_max := (if 0 < cfg_MaxBodyBytes c then nat (cfg_MaxBodyBytes c) else pl_max p),
                pl_timeout := (case lib_duration lib (cfg_Timeout c) of Some d \<Rightarrow> d | None \<Rightarrow> pl_timeout p),
                pl_endpoint := endpoint @ ''/ingest'',
                pl_storeUpstream := cfg_StoreUpstreamRequest c\<rparr>
     in if pl_q p = None then p1\<lparr>pl_q := Some [], pl_capacity := nat queueSize\<rparr> else p1)"

section \<open>Hooks\<close>

text \<open>\<open>limit\<close>: the bytes kept and the truncation flag.\<close>

definition limit_bytes :: "string \<Rightarrow> nat \<Rightarrow> bool \<Rightarrow> string \<times> bool" where
  "limit_bytes b n t = (if n < length b then (take n b, True) else (b, t))"

definition new_state :: "string \<Rightarrow> state" where
  "new_state rid = \<lparr>st_rec = blank_record\<lparr>RequestID := rid\<rparr>, st_chunks = []\<rparr>"

definition describe :: "library \<Rightarrow> intercept \<Rightarrow> Record \<Rightarrow> Record" where
  "describe lib r s =
    s\<lparr>TraceID := ic_TraceID r, SourceFormat := ic_SourceFormat r, Model := ic_Model r, RequestedModel := ic_RequestedModel r,
      Streaming := ic_Stream r, Metadata := sanitizeMeta lib (ic_Metadata r)\<rparr>"

definition before_auth :: "library \<Rightarrow> nat \<Rightarrow> intercept \<Rightarrow> Record \<Rightarrow> Record result" where
  "before_auth lib maxBytes r s0 =
    (let s1 = enrichDesktopMetadata (ic_Headers r) s0;
         s2 = (if ic_Body r \<noteq> []
               then let (b, t) = limit_bytes (ic_Body r) maxBytes (Truncated s1) in s1\<lparr>OriginalRequest := b, Truncated := t\<rparr>
               else s1);
         s3 = enrichGenericFacets lib (ic_Headers r) (ic_Body r) s2
     in if Summary s3 \<noteq> [] then Inr s3
        else bind_res (extractConversationSummary (lib_entities lib) (gstr lib) (ic_Body r)) (\<lambda>t. Inr (s3\<lparr>Summary := t\<rparr>)))"

definition after_auth :: "bool \<Rightarrow> nat \<Rightarrow> intercept \<Rightarrow> Record \<Rightarrow> Record" where
  "after_auth storeUpstream maxBytes r s =
    (if storeUpstream \<and> ic_Body r \<noteq> []
     then let (b, t) = limit_bytes (ic_Body r) maxBytes (Truncated s) in s\<lparr>UpstreamRequest := b, Truncated := t\<rparr>
     else s)"

definition attribute_caller :: "library \<Rightarrow> intercept \<Rightarrow> Record \<Rightarrow> Record" where
  "attribute_caller lib r s0 =
    (let md = ic_Metadata r; native = nativeKeyHash (ic_Headers r);
         keyID = (if native \<noteq> [] then native else archiveKeyID lib md);
         principalID = findString lib [''principal_id''] md;
         declared = firstNonEmpty [findString lib [''credential_hash''] md, findString lib [''key_hash''] md, findString lib [''api_key_hash''] md];
         credentialHash = (if native \<noteq> [] \<and> declared = [] then native else declared);
         s1 = (if KeyID s0 = [] \<or> keyID \<noteq> findString lib [''caller_scope''] md then s0\<lparr>KeyID := keyID\<rparr> else s0);
         s2 = (if principalID \<noteq> [] then s1\<lparr>PrincipalID := principalID\<rparr> else s1)
     in if credentialHash \<noteq> [] then s2\<lparr>CredentialHash := credentialHash\<rparr> else s2)"

definition capture_record :: "library \<Rightarrow> bool \<Rightarrow> nat \<Rightarrow> intercept \<Rightarrow> bool \<Rightarrow> Record \<Rightarrow> Record result" where
  "capture_record lib storeUpstream maxBytes r afterAuth s0 =
    bind_res
      (if afterAuth then Inr (after_auth storeUpstream maxBytes r (describe lib r s0))
       else before_auth lib maxBytes r (describe lib r s0)) (\<lambda>s1.
    let s2 = s1\<lparr>SessionID := sessionID lib s1 (ic_Metadata r) [OriginalRequest s1, UpstreamRequest s1],
                ParentResponseID := firstJSON lib [OriginalRequest s1, UpstreamRequest s1] ''previous_response_id''\<rparr>
    in Inr (attribute_caller lib r s2))"

definition captureRequest :: "library \<Rightarrow> intercept \<Rightarrow> bool \<Rightarrow> Plugin \<Rightarrow> Plugin result" where
  "captureRequest lib r afterAuth p =
    (if ic_RequestID r = [] then Inr p
     else
       let s = (case pl_active p (ic_RequestID r) of Some s \<Rightarrow> s | None \<Rightarrow> new_state (ic_RequestID r)) in
       bind_res (capture_record lib (pl_storeUpstream p) (pl_max p) r afterAuth (st_rec s)) (\<lambda>rec.
         Inr (p\<lparr>pl_active := (pl_active p)(ic_RequestID r \<mapsto> s\<lparr>st_rec := rec\<rparr>)\<rparr>)))"

text \<open>\<open>if s := p.active[id]; s != nil { ... }\<close>\<close>

definition on_active :: "string \<Rightarrow> (state \<Rightarrow> state) \<Rightarrow> Plugin \<Rightarrow> Plugin" where
  "on_active rid f p =
    (case pl_active p rid of None \<Rightarrow> p | Some s \<Rightarrow> p\<lparr>pl_active := (pl_active p)(rid \<mapsto> f s)\<rparr>)"

definition set_response :: "library \<Rightarrow> nat \<Rightarrow> intercept \<Rightarrow> state \<Rightarrow> state" where
  "set_response lib maxBytes r s =
    (let (b, t) = limit_bytes (ic_Body r) maxBytes (Truncated (st_rec s)) in
     s\<lparr>st_rec := (st_rec s)\<lparr>StatusCode := ic_StatusCode r, Response := b, Truncated := t,
                           ResponseID := firstJSON lib [ic_Body r] ''id''\<rparr>\<rparr>)"

definition captureResponse :: "library \<Rightarrow> intercept \<Rightarrow> Plugin \<Rightarrow> Plugin" where
  "captureResponse lib r p = on_active (ic_RequestID r) (set_response lib (pl_max p) r) p"

definition add_chunk :: "nat \<Rightarrow> string \<Rightarrow> state \<Rightarrow> state" where
  "add_chunk maxBytes body s =
    (let remaining = maxBytes - length (st_chunks s) in
     if remaining = 0 then s\<lparr>st_rec := (st_rec s)\<lparr>Truncated := True\<rparr>\<rparr>
     else if remaining < length body
     then s\<lparr>st_rec := (st_rec s)\<lparr>Truncated := True\<rparr>, st_chunks := st_chunks s @ take remaining body\<rparr>
     else s\<lparr>st_chunks := st_chunks s @ body\<rparr>)"

definition captureChunk :: "intercept \<Rightarrow> Plugin \<Rightarrow> Plugin" where
  "captureChunk r p =
    (if ic_ChunkIndex r < 0 then p else on_active (ic_RequestID r) (add_chunk (pl_max p) (ic_Body r)) p)"

section \<open>Completion\<close>

definition unset_session :: "string \<Rightarrow> bool" where
  "unset_session sid \<longleftrightarrow> sid = [] \<or> sid = ''request:''"

text \<open>The record a completion makes of the state of its request.\<close>

definition complete_record :: "library \<Rightarrow> completion \<Rightarrow> state option \<Rightarrow> Record" where
  "complete_record lib r active =
    (let s = (case active of Some s \<Rightarrow> s | None \<Rightarrow> new_state (cp_RequestID r));
         r1 = (st_rec s)\<lparr>TraceID := cp_TraceID r, SourceFormat := cp_SourceFormat r, Model := cp_Model r,
                RequestedModel := cp_RequestedModel r, Streaming := cp_Stream r, Outcome := cp_Outcome r,
                StatusCode := cp_StatusCode r, Error := cp_Error r, StartedAt := cp_StartedAt r, CompletedAt := cp_CompletedAt r\<rparr>;
         sid1 = (if unset_session (SessionID r1)
                 then sessionID lib r1 (cp_Metadata r) [OriginalRequest r1, UpstreamRequest r1] else SessionID r1);
         sid2 = (if unset_session sid1 then ''request:'' @ cp_RequestID r else sid1);
         resp = (if Response r1 = [] \<and> st_chunks s \<noteq> [] then st_chunks s else Response r1);
         respID = (if ResponseID r1 = [] then responseID lib resp else ResponseID r1);
         preview = (if ResponsePreview r1 = [] then extractResponsePreview (lib_sprint lib) resp else ResponsePreview r1)
     in addCompletionFacets lib (r1\<lparr>SessionID := sid2, Response := resp, ResponseID := respID, ResponsePreview := preview\<rparr>))"

text \<open>\<open>select { case p.q <- rec: default: }\<close>\<close>

definition enqueue :: "Record \<Rightarrow> Plugin \<Rightarrow> Plugin" where
  "enqueue rec p =
    (case pl_q p of
       None \<Rightarrow> p
     | Some qs \<Rightarrow> if length qs < pl_capacity p then p\<lparr>pl_q := Some (qs @ [rec])\<rparr> else p)"

definition complete :: "library \<Rightarrow> completion \<Rightarrow> Plugin \<Rightarrow> Plugin" where
  "complete lib r p =
    enqueue (complete_record lib r (pl_active p (cp_RequestID r)))
      (p\<lparr>pl_active := (pl_active p)(cp_RequestID r := None)\<rparr>)"

section \<open>Dispatch and delivery\<close>

datatype hook =
    Before intercept
  | After intercept
  | Respond intercept
  | Chunk intercept
  | Complete completion

fun hook_id :: "hook \<Rightarrow> string" where
  "hook_id (Before r) = ic_RequestID r"
| "hook_id (After r) = ic_RequestID r"
| "hook_id (Respond r) = ic_RequestID r"
| "hook_id (Chunk r) = ic_RequestID r"
| "hook_id (Complete r) = cp_RequestID r"

fun run_hook :: "library \<Rightarrow> hook \<Rightarrow> Plugin \<Rightarrow> Plugin result" where
  "run_hook lib (Before r) p = captureRequest lib r False p"
| "run_hook lib (After r) p = captureRequest lib r True p"
| "run_hook lib (Respond r) p = Inr (captureResponse lib r p)"
| "run_hook lib (Chunk r) p = Inr (captureChunk r p)"
| "run_hook lib (Complete r) p = Inr (complete lib r p)"

text \<open>The payload of a call after decoding; \<open>Malformed\<close> when \<open>json.Unmarshal\<close> fails.\<close>

datatype payload = Lifecycle string | Intercept intercept | Completion completion | Malformed

definition hook_of :: "string \<Rightarrow> payload \<Rightarrow> hook option" where
  "hook_of name pl =
    (case pl of
       Intercept r \<Rightarrow>
         if name = ''request.intercept_before'' then Some (Before r)
         else if name = ''request.intercept_after'' then Some (After r)
         else if name = ''response.intercept_after'' then Some (Respond r)
         else if name = ''response.intercept_stream_chunk'' then Some (Chunk r) else None
     | Completion r \<Rightarrow> if name = ''request.complete'' then Some (Complete r) else None
     | _ \<Rightarrow> None)"

text \<open>
  The error of a call, if any, and the plugin afterwards. \<open>manage\<close> is the outcome of the management page, which does not touch the
  captured state.
\<close>

definition Handle :: "library \<Rightarrow> (payload \<Rightarrow> err option) \<Rightarrow> string \<Rightarrow> payload \<Rightarrow> Plugin \<Rightarrow> (err option \<times> Plugin) result" where
  "Handle lib manage name pl p =
    (if name = ''plugin.register'' \<or> name = ''plugin.reconfigure''
     then Inr (None, configure lib (case pl of Lifecycle yaml \<Rightarrow> yaml | _ \<Rightarrow> []) p)
     else if name = ''management.register'' then Inr (None, p)
     else if name = ''management.handle'' then Inr (manage pl, p)
     else case hook_of name pl of
            Some h \<Rightarrow> bind_res (run_hook lib h p) (\<lambda>p'. Inr (None, p'))
          | None \<Rightarrow> Inr (Some Fatal, p))"

definition initial_backoff :: int where
  "initial_backoff = 250 * (second div 1000)"

definition next_backoff :: "int \<Rightarrow> int" where
  "next_backoff b =
    (if b < 30 * second then (let d = 2 * b in if 30 * second < d then 30 * second else d) else b)"

text \<open>
  The delivery of one record: the status of each attempt (\<open>None\<close> when the request fails) and whether the plugin is stopped during
  the wait that follows it. The result is the list of waits and whether the record was accepted; \<open>None\<close> when the
  attempts given do not settle it.
\<close>

fun sendWithRetry :: "int \<Rightarrow> (int option \<times> bool) list \<Rightarrow> (int list \<times> bool) option" where
  "sendWithRetry backoff [] = None"
| "sendWithRetry backoff ((status, stopped) # attempts) =
    (case status of
       Some c \<Rightarrow>
         if 200 \<le> c \<and> c < 300 then Some ([], True)
         else if stopped then Some ([backoff], False)
         else map_option (\<lambda>(ws, ok). (backoff # ws, ok)) (sendWithRetry (next_backoff backoff) attempts)
     | None \<Rightarrow>
         if stopped then Some ([backoff], False)
         else map_option (\<lambda>(ws, ok). (backoff # ws, ok)) (sendWithRetry (next_backoff backoff) attempts))"

text \<open>The sender takes the next record from the channel.\<close>

definition sender_take :: "Plugin \<Rightarrow> (Record \<times> Plugin) option" where
  "sender_take p =
    (case pl_q p of Some (rec # rest) \<Rightarrow> Some (rec, p\<lparr>pl_q := Some rest\<rparr>) | _ \<Rightarrow> None)"

definition Shutdown :: "Plugin \<Rightarrow> Plugin" where
  "Shutdown p = p\<lparr>pl_stopped := True\<rparr>"

end
