(* ===== verification/Text_Safety.thy ===== *)
theory Text_Safety
  imports User_Text
begin

text \<open>
  When the slicing of user text is in range: the lower-cased copy and the text have equal positions as long as every
  character keeps the width of its encoding, and a prefix or a suffix in ASCII is always shorter than the text.
\<close>

section \<open>Encodings are ASCII characters or blocks of high bytes\<close>

definition unit_code :: "string \<Rightarrow> bool" where
  "unit_code x \<longleftrightarrow> (\<exists>c. x = [c] \<and> byte c < 128) \<or> x \<noteq> [] \<and> list_all (\<lambda>c. 128 \<le> byte c) x"

abbreviation ascii :: "string \<Rightarrow> bool" where
  "ascii \<equiv> list_all (\<lambda>c. byte c < 128)"

abbreviation lower_code :: "string \<Rightarrow> string" where
  "lower_code r \<equiv> utf8_encode (lower_rune (rune_of r))"

lemma unit_code_encode: "unit_code (utf8_encode n)"
proof -
  have "n < 2048 \<Longrightarrow> 192 + n div 64 < 256" by auto
  moreover have "n < 65536 \<Longrightarrow> 224 + n div 4096 < 256" by auto
  moreover have "n < 1114112 \<Longrightarrow> 240 + n div 262144 < 256" by auto
  moreover have "128 + k mod 64 < 256" for k :: nat using mod_less_divisor [of 64 k] by linarith
  ultimately show ?thesis by (auto simp: unit_code_def utf8_encode_def)
qed

lemma ToLower_units: "list_all unit_code (map lower_code (runes s))"
  by (simp add: list_all_length unit_code_encode)

text \<open>An encoding holds at most one ASCII character, so ASCII characters count encodings.\<close>

lemma unit_code_ascii: "unit_code x \<Longrightarrow> length (filter (\<lambda>c. byte c < 128) x) \<le> 1"
proof (unfold unit_code_def, elim disjE exE conjE)
  assume "list_all (\<lambda>c. 128 \<le> byte c) x"
  then have "filter (\<lambda>c. byte c < 128) x = []" by (auto simp: filter_empty_conv list_all_iff)
  then show ?thesis by simp
qed simp

lemma units_ascii: "list_all unit_code xs \<Longrightarrow> length (filter (\<lambda>c. byte c < 128) (concat xs)) \<le> length xs"
proof (induction xs)
  case (Cons x xs)
  with unit_code_ascii [of x] show ?case by simp
qed simp

lemma length_runes: "length (runes s) \<le> length s"
proof (induction s rule: runes.induct)
  case (2 c s)
  then show ?case by (cases "utf8_head (c # s) \<le> 1") (auto simp: runes.simps Let_def)
qed simp

lemma lower_ascii_count:
  assumes "ToLower s = p @ m @ q" and "ascii p" and "ascii q"
  shows "length p + length q \<le> length s"
proof -
  have "filter (\<lambda>c. byte c < 128) p = p" "filter (\<lambda>c. byte c < 128) q = q"
    using assms(2,3) by (simp_all add: list_all_iff)
  then have "length p + length q \<le> length (filter (\<lambda>c. byte c < 128) (ToLower s))"
    by (simp add: assms(1))
  also have "\<dots> \<le> length (map lower_code (runes s))"
    unfolding ToLower_def by (rule units_ascii [OF ToLower_units])
  finally show ?thesis using length_runes [of s] by simp
qed

lemma HasPrefixE: "HasPrefix s p \<Longrightarrow> (\<And>r. s = p @ r \<Longrightarrow> thesis) \<Longrightarrow> thesis"
  unfolding HasPrefix_def by (metis append_take_drop_id)

lemma HasSuffixE: "HasSuffix s p \<Longrightarrow> (\<And>r. s = r @ p \<Longrightarrow> thesis) \<Longrightarrow> thesis"
  unfolding HasSuffix_def by (metis append_take_drop_id)

lemma lower_prefix_fits: "HasPrefix (ToLower s) p \<Longrightarrow> ascii p \<Longrightarrow> length p \<le> length s"
  using lower_ascii_count [of s p _ "[]"] by (auto elim: HasPrefixE)

lemma lower_suffix_fits: "HasSuffix (ToLower s) p \<Longrightarrow> ascii p \<Longrightarrow> length p \<le> length s"
  using lower_ascii_count [of s "[]" _ p] by (auto elim: HasSuffixE)

section \<open>The slices at a prefix or a suffix\<close>

lemma find_sound: "find P xs = Some x \<Longrightarrow> P x \<and> x \<in> set xs"
  by (auto simp: find_Some_iff)

lemma slice_from_ok: "i \<le> length s \<Longrightarrow> slice_from s i = Inr (drop i s)"
  by (simp add: slice_from_def)

lemma slice_off_ok: "n \<le> length s \<Longrightarrow> slice_off s n = Inr (take (length s - n) s)"
  by (simp add: slice_off_def)

text \<open>A sequence of steps returns when each of them does.\<close>

lemma bind_total: "\<exists>x. m = Inr x \<Longrightarrow> (\<And>x. m = Inr x \<Longrightarrow> \<exists>y. f x = Inr y) \<Longrightarrow> \<exists>y. bind_res m f = Inr y"
  by auto

lemma cut_prefix_total:
  assumes "ascii p" and "length p = n"
  shows "\<exists>t. (if HasPrefix (ToLower x) p then trimmed (slice_from x n) else Inr x) = Inr t"
  using lower_prefix_fits [of x p] assms by (auto simp: slice_from_ok)

lemma cut_suffix_total:
  assumes "ascii p" and "length p = n"
  shows "\<exists>t. (if HasSuffix (ToLower x) p then trimmed (slice_off x n) else Inr x) = Inr t"
  using lower_suffix_fits [of x p] assms by (auto simp: slice_off_ok)

lemma cut_first_total:
  assumes "list_all ascii ps"
  shows "\<exists>t. (case find (HasPrefix (ToLower v)) ps of None \<Rightarrow> Inr v | Some p \<Rightarrow> trimmed (slice_from v (length p))) = Inr t"
proof (cases "find (HasPrefix (ToLower v)) ps")
  case (Some p)
  note p = find_sound [OF Some]
  with assms have "length p \<le> length v" by (intro lower_prefix_fits) (auto simp: list_all_iff)
  with Some show ?thesis by (simp add: slice_from_ok)
qed simp

lemma cleanTurnText_total: "\<exists>t. cleanTurnText ent v = Inr t"
  unfolding cleanTurnText_def Let_def
  by (intro bind_total cut_first_total cut_prefix_total cut_suffix_total) simp_all

lemma tags_disjoint:
  assumes "HasPrefix s ''<userrequest>''" and "HasSuffix s ''</userrequest>''"
  obtains m where "s = ''<userrequest>'' @ m @ ''</userrequest>''"
proof -
  define u where "u = ''<userrequest>''"
  then have u: "length u = 13" "CHR ''/'' \<notin> set u" "u ! 12 = CHR ''>''" by simp_all
  from assms(1) obtain r where r: "s = u @ r" unfolding u_def by (rule HasPrefixE)
  from assms(2) obtain l where l: "s = l @ ''</userrequest>''" by (rule HasSuffixE)
  have "13 \<le> length l"
  proof (rule ccontr)
    assume "\<not> 13 \<le> length l"
    then consider "length l = 12" | "Suc (length l) < 13" by linarith
    then show False
    proof cases
      case 1
      then have "s ! 12 = CHR ''<''" by (simp add: l nth_append)
      moreover have "s ! 12 = u ! 12" by (simp add: r u nth_append)
      ultimately show False using u by simp
    next
      case 2
      have "s ! Suc (length l) = CHR ''/''" by (simp add: l nth_append)
      moreover have "s ! Suc (length l) = u ! Suc (length l)" using 2 u(1) by (simp add: r nth_append)
      moreover have "u ! Suc (length l) \<in> set u" using 2 u(1) by (intro nth_mem) simp
      ultimately show False using u(2) by simp
    qed
  qed
  then have "take 13 l = take 13 s" by (simp add: l)
  moreover have "take 13 s = u" by (simp add: r u)
  ultimately have "l = u @ drop 13 l" by (metis append_take_drop_id)
  with l have "s = u @ drop 13 l @ ''</userrequest>''" by (metis append.assoc)
  with that show thesis unfolding u_def by blast
qed

lemma unwrap_total: "\<exists>t. unwrapSummaryTag v ''userrequest'' = Inr t"
proof (cases "HasPrefix (ToLower (TrimSpace v)) ''<userrequest>'' \<and> HasSuffix (ToLower (TrimSpace v)) ''</userrequest>''")
  case True
  then obtain m where "ToLower (TrimSpace v) = ''<userrequest>'' @ m @ ''</userrequest>''" by (auto elim: tags_disjoint)
  then have "27 \<le> length (TrimSpace v)"
    using lower_ascii_count [of "TrimSpace v" "''<userrequest>''" m "''</userrequest>''"] by simp
  with True show ?thesis by (simp add: unwrapSummaryTag_def Let_def slice_from_def slice_off_def)
next
  case False
  then show ?thesis by (auto simp: unwrapSummaryTag_def Let_def)
qed

section \<open>Text whose characters keep their width\<close>

definition keeps_width :: "string \<Rightarrow> bool" where
  "keeps_width v \<longleftrightarrow> (\<exists>rs. v = concat rs \<and> list_all valid_rune rs \<and> map (length \<circ> lower_code) rs = map length rs)"

lemma keeps_widthD:
  assumes "keeps_width v"
  shows "list_all valid_rune (runes v)" "map (length \<circ> lower_code) (runes v) = map length (runes v)"
  using assms by (auto simp: keeps_width_def runes_valid_concat)

lemma keeps_widthI: "list_all valid_rune rs \<Longrightarrow> map (length \<circ> lower_code) rs = map length rs \<Longrightarrow> keeps_width (concat rs)"
  unfolding keeps_width_def by blast

lemma keeps_width_part:
  assumes "list_all valid_rune rs" "map (length \<circ> lower_code) rs = map length rs" and "set xs \<subseteq> set rs"
  shows "keeps_width (concat xs)"
proof (rule keeps_widthI)
  show "list_all valid_rune xs" using assms(1,3) by (auto simp: list_all_iff)
  show "map (length \<circ> lower_code) xs = map length xs" using assms(2,3) by (auto simp: map_eq_conv)
qed

lemma keeps_width_TrimSpace: "keeps_width v \<Longrightarrow> keeps_width (TrimSpace v)"
  unfolding TrimSpace_def
  by (rule keeps_width_part [OF keeps_widthD]) (auto dest!: set_dropWhileD)

lemma keeps_width_length: "keeps_width v \<Longrightarrow> length (ToLower v) = length v"
proof -
  assume "keeps_width v"
  then have "map (length \<circ> lower_code) (runes v) = map length (runes v)" by (rule keeps_widthD)
  then have "sum_list (map (length \<circ> lower_code) (runes v)) = sum_list (map length (runes v))" by (simp only:)
  then have "length (concat (map lower_code (runes v))) = length (concat (runes v))"
    by (simp add: length_concat comp_def)
  then show ?thesis by (simp add: ToLower_def concat_runes)
qed

text \<open>An ASCII character of the lower-cased text ends a character of the text.\<close>

lemma ascii_boundary:
  assumes "list_all unit_code ys" and "map length ys = map length xs"
    and "concat ys = a @ c # b" and "byte c < 128"
  shows "\<exists>k. take (length a) (concat xs) = concat (take k xs) \<and> drop (Suc (length a)) (concat xs) = concat (drop (Suc k) xs)"
  using assms
proof (induction ys arbitrary: xs a)
  case Nil
  then show ?case by simp
next
  case (Cons y ys)
  then obtain x xs' where xs: "xs = x # xs'" "length x = length y" "map length ys = map length xs'"
    by (cases xs) auto
  from Cons.prems have u: "unit_code y" "list_all unit_code ys" by auto
  show ?case
  proof (cases "length y \<le> length a")
    case True
    with Cons.prems(3) have "concat ys = drop (length y) a @ c # b" by (auto simp: append_eq_append_conv_if)
    with Cons.IH [OF u(2) xs(3) _ Cons.prems(4)] obtain k where
      "take (length (drop (length y) a)) (concat xs') = concat (take k xs')"
      "drop (Suc (length (drop (length y) a))) (concat xs') = concat (drop (Suc k) xs')" by blast
    moreover have "Suc (length a) - length y = Suc (length (drop (length y) a))" using True by simp
    ultimately have "take (length a) (concat xs) = concat (take (Suc k) xs)
      \<and> drop (Suc (length a)) (concat xs) = concat (drop (Suc (Suc k)) xs)" using xs True by simp
    then show ?thesis by blast
  next
    case False
    with Cons.prems(3) have "y ! length a = c" by (metis concat.simps(2) not_le nth_append nth_append_length)
    with False have "c \<in> set y" by (metis not_le nth_mem)
    with u(1) Cons.prems(4) have "y = [c]" by (auto simp: unit_code_def list_all_iff)
    with False have "a = []" by (cases a) auto
    with \<open>y = [c]\<close> xs have "take (length a) (concat xs) = concat (take 0 xs)
      \<and> drop (Suc (length a)) (concat xs) = concat (drop (Suc 0) xs)" by simp
    then show ?thesis by blast
  qed
qed

lemma keeps_width_cut:
  assumes "keeps_width v" and "ToLower v = a @ m @ b" and "ascii m" and "m \<noteq> []"
  shows "\<exists>t. trimmed (slice_from v (length a + length m)) = Inr t \<and> keeps_width t"
proof -
  let ?i = "length a + length m"
  have "?i \<le> length v" using keeps_width_length [OF assms(1)] assms(2) by simp
  moreover have "keeps_width (drop ?i v)"
  proof -
    have m: "m = butlast m @ [last m]" using assms(4) by simp
    have c: "byte (last m) < 128" using assms(3,4) by (simp add: list_all_iff)
    have "concat (map lower_code (runes v)) = (a @ butlast m) @ last m # b"
      using assms(2) m by (simp add: ToLower_def)
    from ascii_boundary [OF ToLower_units _ this c, of "runes v"] keeps_widthD(2) [OF assms(1)]
    obtain k where "drop (Suc (length (a @ butlast m))) (concat (runes v)) = concat (drop (Suc k) (runes v))" by auto
    moreover have i: "Suc (length (a @ butlast m)) = ?i" using assms(4) by (cases m rule: rev_cases) auto
    ultimately have "drop ?i v = concat (drop (Suc k) (runes v))" unfolding i by (simp add: concat_runes)
    moreover have "keeps_width (concat (drop (Suc k) (runes v)))"
      by (rule keeps_width_part [OF keeps_widthD [OF assms(1)]]) (rule set_drop_subset)
    ultimately show ?thesis by simp
  qed
  ultimately show ?thesis by (simp add: slice_from_ok keeps_width_TrimSpace)
qed

lemma Index_split: "Index s m = Some i \<Longrightarrow> \<exists>b. s = take i s @ m @ b \<and> i \<le> length s"
proof (induction s arbitrary: i)
  case Nil
  then show ?case by (auto split: if_splits)
next
  case (Cons c s)
  show ?case
  proof (cases "HasPrefix (c # s) m")
    case True
    with Cons.prems show ?thesis by (auto elim: HasPrefixE)
  next
    case False
    with Cons.prems obtain j where j: "Index s m = Some j" "i = Suc j" by auto
    with Cons.IH [OF j(1)] show ?thesis by simp
  qed
qed

lemma LastIndex_split: "LastIndex s m = Some i \<Longrightarrow> \<exists>b. s = take i s @ m @ b \<and> i \<le> length s"
proof (induction s arbitrary: i)
  case Nil
  then show ?case by (auto split: if_splits)
next
  case (Cons c s)
  show ?case
  proof (cases "LastIndex s m")
    case None
    with Cons.prems show ?thesis by (auto split: if_splits elim: HasPrefixE)
  next
    case (Some j)
    with Cons.prems Cons.IH [OF Some] show ?thesis by auto
  qed
qed

lemma cut_at:
  assumes "keeps_width v" and "ToLower v = take i (ToLower v) @ m @ b" and "i \<le> length (ToLower v)" and "ascii m" and "m \<noteq> []"
  obtains t where "trimmed (slice_from v (i + length m)) = Inr t" "keeps_width t"
  using keeps_width_cut [OF assms(1,2,4,5)] assms(3) by (auto simp: min_absorb2)

lemma after_prompt_total:
  assumes "keeps_width v"
  shows "\<exists>t. after_prompt v = Inr t \<and> keeps_width t"
proof (cases "find (\<lambda>m. LastIndex (ToLower v) m \<noteq> None) prompt_markers")
  case None
  with assms show ?thesis by (simp add: after_prompt_def Let_def)
next
  case (Some m)
  from find_sound [OF Some] obtain i where i: "LastIndex (ToLower v) m = Some i" and "m \<in> set prompt_markers" by auto
  then have m: "ascii m" "m \<noteq> []" by (auto simp: prompt_markers_def)
  from LastIndex_split [OF i] obtain b where "ToLower v = take i (ToLower v) @ m @ b" "i \<le> length (ToLower v)" by blast
  from cut_at [OF assms this m] Some i show ?thesis by (auto simp: after_prompt_def Let_def)
qed

lemma strip_context_total:
  "keeps_width v \<Longrightarrow> \<exists>r. strip_context v = Inr r \<and> (\<forall>t. r = Some t \<longrightarrow> keeps_width t)"
proof (induction v rule: strip_context.induct)
  case (1 v)
  show ?case
  proof (cases "find (\<lambda>tag. HasPrefix (ToLower v) (CHR ''<'' # tag)) context_tags")
    case None
    with "1.prems" show ?thesis by (simp add: strip_context.simps [of v] Let_def)
  next
    case (Some tag)
    let ?m = "''</'' @ tag @ ''>''"
    from find_sound [OF Some] have "tag \<in> set context_tags" by blast
    then have m: "ascii ?m" "?m \<noteq> []" by (auto simp: context_tags_def)
    show ?thesis
    proof (cases "Index (ToLower v) ?m")
      case None
      with Some show ?thesis by (simp add: strip_context.simps [of v] Let_def)
    next
      case i: (Some i)
      from Index_split [OF i] obtain b where "ToLower v = take i (ToLower v) @ ?m @ b" "i \<le> length (ToLower v)" by blast
      from cut_at [OF "1.prems" this m] obtain t where t: "trimmed (slice_from v (i + length ?m)) = Inr t" "keeps_width t" .
      from "1.IH" [OF refl Some refl i t(1) t(2)] show ?thesis
        using Some i t(1) by (simp add: strip_context.simps [of v] Let_def)
    qed
  qed
qed

lemma after_files_total: "keeps_width v \<Longrightarrow> \<exists>r. after_files v = Inr r"
proof (cases "HasPrefix (ToLower v) ''# files mentioned by the user:''")
  assume v: "keeps_width v"
  case True
  let ?m = "''## my request for codex:''"
  show ?thesis
  proof (cases "Index (ToLower v) ?m")
    case (Some i)
    from Index_split [OF Some] obtain b where s: "ToLower v = take i (ToLower v) @ ?m @ b" "i \<le> length (ToLower v)" by blast
    have m: "ascii ?m" "?m \<noteq> []" by simp_all
    from cut_at [OF v s m] obtain t where "trimmed (slice_from v (i + length ?m)) = Inr t" .
    with True Some show ?thesis by (simp add: after_files_def Let_def)
  qed (use True in \<open>simp add: after_files_def\<close>)
qed (simp add: after_files_def)

lemma keeps_width_before:
  assumes "keeps_width v" and "ToLower v = a @ c # b" and "byte c < 128"
  shows "keeps_width (take (length a) v)" and "ToLower (take (length a) v) = a"
proof -
  have "concat (map lower_code (runes v)) = a @ c # b" using assms(2) by (simp add: ToLower_def)
  from ascii_boundary [OF ToLower_units _ this assms(3), of "runes v"] keeps_widthD(2) [OF assms(1)]
  obtain k where k: "take (length a) v = concat (take k (runes v))" by (auto simp: concat_runes)
  show w: "keeps_width (take (length a) v)"
    unfolding k by (rule keeps_width_part [OF keeps_widthD [OF assms(1)]]) (rule set_take_subset)
  have "list_all valid_rune (take k (runes v))"
    using keeps_widthD(1) [OF assms(1)] by (auto simp: list_all_iff dest: in_set_takeD)
  then have "ToLower (take (length a) v) = concat (take k (map lower_code (runes v)))"
    by (simp add: k ToLower_def runes_valid_concat take_map)
  moreover have "concat (map lower_code (runes v)) = concat (take k (map lower_code (runes v))) @ concat (drop k (map lower_code (runes v)))"
    by (metis append_take_drop_id concat_append)
  ultimately have pre: "a @ c # b = ToLower (take (length a) v) @ concat (drop k (map lower_code (runes v)))"
    using assms(2) by (simp add: ToLower_def)
  have "length (ToLower (take (length a) v)) = length a"
    using keeps_width_length [OF w] keeps_width_length [OF assms(1)] assms(2) by simp
  with pre show "ToLower (take (length a) v) = a" by simp
qed

lemma unwrap_keeps:
  assumes "keeps_width v" and "unwrapSummaryTag v ''userrequest'' = Inr t"
  shows "keeps_width t"
proof (cases "HasPrefix (ToLower (TrimSpace v)) ''<userrequest>'' \<and> HasSuffix (ToLower (TrimSpace v)) ''</userrequest>''")
  case False
  then have "t = TrimSpace v" using assms(2) by (auto simp: unwrapSummaryTag_def Let_def)
  then show ?thesis using assms(1) by (simp add: keeps_width_TrimSpace)
next
  case True
  let ?t = "TrimSpace v" and ?u = "''<userrequest>''"
  have w: "keeps_width ?t" by (rule keeps_width_TrimSpace [OF assms(1)])
  from True obtain m where m: "ToLower ?t = ?u @ m @ ''</userrequest>''" by (auto elim: tags_disjoint)
  let ?s = "take (length (?u @ m)) ?t"
  have "ToLower ?t = (?u @ m) @ CHR ''<'' # ''/userrequest>''" by (simp add: m)
  note s = keeps_width_before [OF w this]
  have len: "length ?t = length (?u @ m) + 14" using keeps_width_length [OF w] by (simp add: m)
  have "slice_off ?t 14 = Inr ?s" unfolding slice_off_def len by (simp only: diff_add_inverse2 le_add2 if_True)
  moreover have "length ''</userrequest>'' = 14" by simp
  ultimately have off: "slice_off ?t (length ''</userrequest>'') = Inr ?s" by (simp only:)
  have "ToLower ?s = [] @ ?u @ m" using s(2) by simp
  from keeps_width_cut [OF s(1) this] obtain t' where t': "trimmed (slice_from ?s (length ?u)) = Inr t'" "keeps_width t'"
    by auto
  have "unwrapSummaryTag v ''userrequest'' = trimmed (bind_res (slice_off ?t (length ''</userrequest>'')) (\<lambda>s. slice_from s (length ?u)))"
    using True by (simp add: unwrapSummaryTag_def Let_def)
  also have "\<dots> = Inr t'" unfolding off using t'(1) by simp
  finally show ?thesis using assms(2) t'(2) by simp
qed

text \<open>
  C19. Extracting the text a user wrote never panics on text whose characters keep the width of their encoding
  under lower-casing, such as any ASCII or CJK text: the offsets found in the lower-cased copy are then
  in range. The loop over leading context blocks always ends.
\<close>

theorem meaningfulUserText_total:
  assumes "keeps_width (TrimSpace (UnescapeString ent v))"
  shows "\<exists>t. meaningfulUserText ent v = Inr t"
proof -
  from after_prompt_total [OF assms] obtain v1 where v1: "after_prompt (TrimSpace (UnescapeString ent v)) = Inr v1" "keeps_width v1"
    by blast
  from strip_context_total [OF v1(2)] obtain r where r: "strip_context v1 = Inr r" "\<And>t. r = Some t \<Longrightarrow> keeps_width t" by blast
  show ?thesis
  proof (cases r)
    case (Some v2)
    obtain v3 where v3: "unwrapSummaryTag v2 ''userrequest'' = Inr v3" using unwrap_total by blast
    with r(2) [OF Some] have "keeps_width v3" by (rule unwrap_keeps)
    from after_files_total [OF this] obtain r' where "after_files v3 = Inr r'" by blast
    then show ?thesis using v1 r Some v3 cleanTurnText_total [of ent] by (cases r') (simp_all add: meaningfulUserText_def)
  qed (use v1 r in \<open>simp add: meaningfulUserText_def\<close>)
qed

lemma keeps_width_ascii: "ascii v \<Longrightarrow> keeps_width v"
proof -
  assume "ascii v"
  then have "list_all valid_rune (map (\<lambda>c. [c]) v)" "map (length \<circ> lower_code) (map (\<lambda>c. [c]) v) = map length (map (\<lambda>c. [c]) v)"
    by (auto simp: list_all_iff valid_rune_ascii rune_of_ascii utf8_encode_ascii lower_rune_ascii)
  from keeps_widthI [OF this] show ?thesis by simp
qed

theorem meaningfulUserText_total_witness:
  "\<exists>t. meaningfulUserText (\<lambda>_. []) ''<context>cwd</context> fix the bug'' = Inr t"
proof (rule meaningfulUserText_total, rule keeps_width_TrimSpace, rule keeps_width_ascii)
  show "ascii (UnescapeString (\<lambda>_. []) ''<context>cwd</context> fix the bug'')"
    by (simp add: UnescapeString.simps)
qed

lemma runes_ascii_append: "ascii s \<Longrightarrow> runes (s @ t) = map (\<lambda>c. [c]) s @ runes t"
  by (induction s) (simp_all add: runes_ascii)

definition wide_sample :: string where
  "wide_sample = ''<context>'' @ bytes [200, 186] @ ''</context>''"

lemma wide_sample_runes:
  "runes wide_sample = map (\<lambda>c. [c]) ''<context>'' @ [bytes [200, 186]] @ map (\<lambda>c. [c]) ''</context>''"
proof -
  have "valid_rune (bytes [200, 186])" by (simp add: valid_rune_def cont_def)
  then have "runes (bytes [200, 186] @ ''</context>'') = [bytes [200, 186]] @ map (\<lambda>c. [c]) ''</context>''"
    using runes_ascii_append [of "''</context>''" "[]"] by (simp only: runes_valid_append append_Nil2 runes.simps) simp
  then show ?thesis unfolding wide_sample_def by (subst runes_ascii_append) simp_all
qed

lemma wide_sample_lower: "ToLower wide_sample = ''<context>'' @ bytes [226, 177, 165] @ ''</context>''"
proof -
  have "lower_rune 570 = 11365" by (simp add: lower_rune_def lower_table_def)
  moreover have "rune_of (bytes [200, 186]) = 570" by (simp add: rune_of_def cont_def)
  moreover have "utf8_encode 11365 = bytes [226, 177, 165]" by (simp add: utf8_encode_def)
  ultimately show ?thesis
    by (simp add: ToLower_def wide_sample_runes rune_of_ascii utf8_encode_ascii lower_rune_def) (simp add: char_of_def bit_0)
qed

lemma UnescapeString_plain: "CHR ''&'' \<notin> set s \<Longrightarrow> UnescapeString ent s = s"
  by (induction s) (auto simp: UnescapeString.simps)

lemma wide_sample_trim: "TrimSpace wide_sample = wide_sample"
  by (simp add: TrimSpace_def wide_sample_runes rune_of_ascii is_space_def) (simp add: wide_sample_def)

lemma wide_sample_prompt: "after_prompt wide_sample = Inr wide_sample"
  by (simp add: after_prompt_def wide_sample_lower prompt_markers_def HasPrefix_def)

lemma wide_sample_strip: "strip_context wide_sample = Inl Panic"
proof -
  have "find (\<lambda>tag. HasPrefix (ToLower wide_sample) (CHR ''<'' # tag)) context_tags = Some ''context''"
    by (simp add: wide_sample_lower context_tags_def HasPrefix_def)
  moreover have "Index (ToLower wide_sample) ''</context>'' = Some 12"
    by (simp add: wide_sample_lower HasPrefix_def)
  moreover have "length wide_sample = 21" by (simp add: wide_sample_def)
  ultimately show ?thesis by (simp add: strip_context.simps [of wide_sample] slice_from_def)
qed

text \<open>
  A context block with a single character whose lower case is wider, here U+023A, makes the extraction panic: the end
  of the block is found at an offset of the lower-cased copy that lies beyond the text.
\<close>

theorem meaningfulUserText_panics:
  "meaningfulUserText ent (''<context>'' @ bytes [200, 186] @ ''</context>'') = Inl Panic"
proof -
  have "UnescapeString ent wide_sample = wide_sample"
    by (rule UnescapeString_plain) (simp add: wide_sample_def char_of_def)
  then have "meaningfulUserText ent wide_sample = Inl Panic"
    by (simp add: meaningfulUserText_def wide_sample_trim wide_sample_prompt wide_sample_strip)
  then show ?thesis by (simp add: wide_sample_def)
qed

end
