(* ===== verification/Capture_Safety.thy ===== *)
theory Capture_Safety
  imports Hooks Text_Safety
begin

text \<open>
  What the hooks guarantee: requests in flight do not influence each other, a request is captured exactly up to the configured
  bound, the buffers stay bounded, and no raw credential is kept.
\<close>

section \<open>Machines that treat each key on its own\<close>

text \<open>
  A machine of failing steps where a step concerns one key: it leaves the view of every other key, and its effect on the view of
  its own key depends on that view only. Then the view of a key after a run is that of the run of the key's own steps.
\<close>

locale keyed_machine =
  fixes step :: "'e \<Rightarrow> 's \<Rightarrow> 's result"
    and key :: "'e \<Rightarrow> 'k"
    and view :: "'k \<Rightarrow> 's \<Rightarrow> 'v"
  assumes other: "step e s = Inr s' \<Longrightarrow> key e \<noteq> k \<Longrightarrow> view k s' = view k s"
    and own: "step e s = Inr s' \<Longrightarrow> view (key e) s = view (key e) t \<Longrightarrow>
      \<exists>t'. step e t = Inr t' \<and> view (key e) s' = view (key e) t'"
begin

lemma purge:
  assumes "foldM_res step es s = Inr s'" and "view k s = view k t"
  shows "\<exists>t'. foldM_res step (filter (\<lambda>e. key e = k) es) t = Inr t' \<and> view k s' = view k t'"
  using assms
proof (induction es arbitrary: s t)
  case Nil
  then show ?case by simp
next
  case (Cons e es)
  then obtain s1 where s1: "step e s = Inr s1" "foldM_res step es s1 = Inr s'" by (auto simp: bind_res_Inr_iff)
  show ?case
  proof (cases "key e = k")
    case True
    with own [OF s1(1)] Cons.prems(2) obtain t1 where "step e t = Inr t1" "view k s1 = view k t1" by auto
    with Cons.IH [OF s1(2)] True show ?thesis by auto
  next
    case False
    with other [OF s1(1)] Cons.prems(2) have "view k s1 = view k t" by simp
    from Cons.IH [OF s1(2) this] False show ?thesis by simp
  qed
qed

end

definition request_view :: "string \<Rightarrow> Plugin \<Rightarrow> state option \<times> nat \<times> bool" where
  "request_view k p = (pl_active p k, pl_max p, pl_storeUpstream p)"

lemma request_view_enqueue [simp]: "request_view k (enqueue rec p) = request_view k p"
  by (simp add: request_view_def enqueue_def split: option.split)

lemma request_view_on_active:
  "request_view k (on_active rid f p) =
    (if k = rid then (map_option f (pl_active p k), pl_max p, pl_storeUpstream p) else request_view k p)"
  by (auto simp: request_view_def on_active_def split: option.split)

lemma request_view_capture:
  assumes "captureRequest lib r aft p = Inr p'"
  shows "ic_RequestID r \<noteq> k \<Longrightarrow> request_view k p' = request_view k p"
    and "request_view (ic_RequestID r) p = request_view (ic_RequestID r) q \<Longrightarrow>
      \<exists>q'. captureRequest lib r aft q = Inr q' \<and> request_view (ic_RequestID r) p' = request_view (ic_RequestID r) q'"
  using assms by (auto simp: captureRequest_def request_view_def Let_def bind_res_Inr_iff split: if_splits)

lemma request_view_complete:
  "request_view k (complete lib r p) =
    (if k = cp_RequestID r then (None, pl_max p, pl_storeUpstream p) else request_view k p)"
  unfolding complete_def by (simp only: request_view_enqueue) (simp add: request_view_def)

interpretation hooks: keyed_machine "run_hook lib" hook_id request_view for lib
proof (unfold_locales, goal_cases)
  case (1 e s s' k)
  then show ?case
    by (cases e) (auto simp: captureResponse_def captureChunk_def request_view_on_active request_view_complete
        dest: request_view_capture(1))
next
  case (2 e s s' t)
  then have eq: "pl_active s (hook_id e) = pl_active t (hook_id e)" "pl_max s = pl_max t" "pl_storeUpstream s = pl_storeUpstream t"
    by (simp_all add: request_view_def)
  show ?case
  proof (cases e)
    case (Before r)
    with 2 request_view_capture(2) [of lib r False s s' t] show ?thesis by simp
  next
    case (After r)
    with 2 request_view_capture(2) [of lib r True s s' t] show ?thesis by simp
  qed (use 2 eq in \<open>auto simp: captureResponse_def captureChunk_def request_view_on_active request_view_complete\<close>)
qed

section \<open>Exact capture\<close>

text \<open>The part of a captured record the capture of the payloads is about.\<close>

lemma limit_bytes_fst: "fst (limit_bytes b n t) = take n b"
  by (simp add: limit_bytes_def)

lemma enrichDesktop_keeps [simp]:
  "OriginalRequest (enrichDesktopMetadata h r) = OriginalRequest r" "UpstreamRequest (enrichDesktopMetadata h r) = UpstreamRequest r"
  "Response (enrichDesktopMetadata h r) = Response r" "Truncated (enrichDesktopMetadata h r) = Truncated r"
  "RequestID (enrichDesktopMetadata h r) = RequestID r" "ResponseID (enrichDesktopMetadata h r) = ResponseID r"
  "Metadata (enrichDesktopMetadata h r) = Metadata r"
  by (simp_all add: enrichDesktopMetadata_def workspace_project_def Let_def split: option.split list.split)

lemma enrichGeneric_keeps [simp]:
  "OriginalRequest (enrichGenericFacets lib h b r) = OriginalRequest r" "UpstreamRequest (enrichGenericFacets lib h b r) = UpstreamRequest r"
  "Response (enrichGenericFacets lib h b r) = Response r" "Truncated (enrichGenericFacets lib h b r) = Truncated r"
  "RequestID (enrichGenericFacets lib h b r) = RequestID r" "ResponseID (enrichGenericFacets lib h b r) = ResponseID r"
  "Metadata (enrichGenericFacets lib h b r) = Metadata r"
  by (simp_all add: enrichGenericFacets_def Let_def)

lemma attribute_keeps [simp]:
  "OriginalRequest (attribute_caller lib i r) = OriginalRequest r" "UpstreamRequest (attribute_caller lib i r) = UpstreamRequest r"
  "Response (attribute_caller lib i r) = Response r" "Truncated (attribute_caller lib i r) = Truncated r"
  "RequestID (attribute_caller lib i r) = RequestID r" "ResponseID (attribute_caller lib i r) = ResponseID r"
  "Metadata (attribute_caller lib i r) = Metadata r"
  by (simp_all add: attribute_caller_def Let_def)

lemma before_auth_keeps:
  assumes "before_auth lib n i r = Inr r'"
  shows "OriginalRequest r' = (if ic_Body i = [] then OriginalRequest r else take n (ic_Body i))"
    "UpstreamRequest r' = UpstreamRequest r" "Response r' = Response r" "RequestID r' = RequestID r" "Metadata r' = Metadata r"
    "Truncated r' \<longleftrightarrow> Truncated r \<or> n < length (ic_Body i)"
  using assms
  by (auto simp: before_auth_def Let_def bind_res_Inr_iff limit_bytes_def split: if_splits prod.splits)

lemma after_auth_keeps:
  "OriginalRequest (after_auth up n i r) = OriginalRequest r"
  "UpstreamRequest (after_auth up n i r) = (if up \<and> ic_Body i \<noteq> [] then take n (ic_Body i) else UpstreamRequest r)"
  "Response (after_auth up n i r) = Response r" "RequestID (after_auth up n i r) = RequestID r" "Metadata (after_auth up n i r) = Metadata r"
  "Truncated (after_auth up n i r) \<longleftrightarrow> Truncated r \<or> up \<and> n < length (ic_Body i)"
  by (auto simp: after_auth_def limit_bytes_def split: prod.splits if_splits)

text \<open>Both request hooks end with the same steps, which leave the payloads alone.\<close>

lemma capture_record_ends:
  assumes "capture_record lib up n i aft r = Inr r'"
  obtains s where "(if aft then Inr (after_auth up n i (describe lib i r)) else before_auth lib n i (describe lib i r)) = Inr s"
    and "OriginalRequest r' = OriginalRequest s" "UpstreamRequest r' = UpstreamRequest s" "Response r' = Response s"
    and "RequestID r' = RequestID s" "Metadata r' = Metadata s" "Truncated r' = Truncated s" "ResponseID r' = ResponseID s"
proof -
  from assms obtain s where s: "(if aft then Inr (after_auth up n i (describe lib i r)) else before_auth lib n i (describe lib i r)) = Inr s"
    and r': "r' = attribute_caller lib i (s\<lparr>SessionID := sessionID lib s (ic_Metadata i) [OriginalRequest s, UpstreamRequest s],
      ParentResponseID := firstJSON lib [OriginalRequest s, UpstreamRequest s] ''previous_response_id''\<rparr>)"
    unfolding capture_record_def bind_res_Inr_iff Let_def by auto
  show thesis by (rule that [OF s]) (simp_all add: r')
qed

lemma describe_keeps [simp]:
  "OriginalRequest (describe lib i r) = OriginalRequest r" "UpstreamRequest (describe lib i r) = UpstreamRequest r"
  "Response (describe lib i r) = Response r" "RequestID (describe lib i r) = RequestID r"
  "Truncated (describe lib i r) = Truncated r" "Metadata (describe lib i r) = sanitizeMeta lib (ic_Metadata i)"
  by (simp_all add: describe_def)

lemma capture_record_before:
  assumes "capture_record lib up n i False r = Inr r'"
  shows "OriginalRequest r' = (if ic_Body i = [] then OriginalRequest r else take n (ic_Body i))"
    "UpstreamRequest r' = UpstreamRequest r" "Response r' = Response r" "RequestID r' = RequestID r"
    "Metadata r' = sanitizeMeta lib (ic_Metadata i)" "Truncated r' \<longleftrightarrow> Truncated r \<or> n < length (ic_Body i)"
proof -
  obtain s where s: "(if False then Inr (after_auth up n i (describe lib i r)) else before_auth lib n i (describe lib i r)) = Inr s"
    and eq: "OriginalRequest r' = OriginalRequest s" "UpstreamRequest r' = UpstreamRequest s" "Response r' = Response s"
      "RequestID r' = RequestID s" "Metadata r' = Metadata s" "Truncated r' = Truncated s" by (rule capture_record_ends [OF assms])
  note k = before_auth_keeps [OF s [unfolded if_False], unfolded describe_keeps]
  show "OriginalRequest r' = (if ic_Body i = [] then OriginalRequest r else take n (ic_Body i))"
    "UpstreamRequest r' = UpstreamRequest r" "Response r' = Response r" "RequestID r' = RequestID r"
    "Metadata r' = sanitizeMeta lib (ic_Metadata i)" "Truncated r' \<longleftrightarrow> Truncated r \<or> n < length (ic_Body i)"
    unfolding eq by (fact k)+
qed

lemma capture_record_after:
  assumes "capture_record lib up n i True r = Inr r'"
  shows "OriginalRequest r' = OriginalRequest r"
    "UpstreamRequest r' = (if up \<and> ic_Body i \<noteq> [] then take n (ic_Body i) else UpstreamRequest r)"
    "Response r' = Response r" "RequestID r' = RequestID r"
    "Metadata r' = sanitizeMeta lib (ic_Metadata i)" "Truncated r' \<longleftrightarrow> Truncated r \<or> up \<and> n < length (ic_Body i)"
proof -
  obtain s where "(if True then Inr (after_auth up n i (describe lib i r)) else before_auth lib n i (describe lib i r)) = Inr s"
    and eq: "OriginalRequest r' = OriginalRequest s" "UpstreamRequest r' = UpstreamRequest s" "Response r' = Response s"
      "RequestID r' = RequestID s" "Metadata r' = Metadata s" "Truncated r' = Truncated s" by (rule capture_record_ends [OF assms])
  then have s: "s = after_auth up n i (describe lib i r)" by simp
  show "OriginalRequest r' = OriginalRequest r"
    "UpstreamRequest r' = (if up \<and> ic_Body i \<noteq> [] then take n (ic_Body i) else UpstreamRequest r)"
    "Response r' = Response r" "RequestID r' = RequestID r"
    "Metadata r' = sanitizeMeta lib (ic_Metadata i)" "Truncated r' \<longleftrightarrow> Truncated r \<or> up \<and> n < length (ic_Body i)"
    unfolding eq s by (simp_all add: after_auth_keeps)
qed

lemma captureRequest_active:
  assumes "captureRequest lib r aft p = Inr p'" and "ic_RequestID r \<noteq> []"
  obtains rec where "capture_record lib (pl_storeUpstream p) (pl_max p) r aft
      (st_rec (case pl_active p (ic_RequestID r) of Some s \<Rightarrow> s | None \<Rightarrow> new_state (ic_RequestID r))) = Inr rec"
    and "pl_active p' (ic_RequestID r) =
      Some ((case pl_active p (ic_RequestID r) of Some s \<Rightarrow> s | None \<Rightarrow> new_state (ic_RequestID r))\<lparr>st_rec := rec\<rparr>)"
    and "pl_max p' = pl_max p" and "pl_storeUpstream p' = pl_storeUpstream p"
  using assms by (auto simp: captureRequest_def Let_def bind_res_Inr_iff)

text \<open>A stream of chunks: what is kept, and what the flag says.\<close>

lemma add_chunks:
  assumes "length (st_chunks s) \<le> n"
  shows "st_chunks (fold (add_chunk n) bs s) = take n (st_chunks s @ concat bs)"
    and "\<exists>t. st_rec (fold (add_chunk n) bs s) = (st_rec s)\<lparr>Truncated := t\<rparr>
      \<and> (t \<or> \<not> Truncated (st_rec s) \<and> length (st_chunks s @ concat bs) \<le> n)
      \<and> (\<not> Truncated (st_rec s) \<and> length (st_chunks s @ concat bs) < n \<longrightarrow> \<not> t)"
  using assms
proof (induction bs arbitrary: s)
  case Nil
  {
    case 1
    then show ?case by simp
  next
    case 2
    then show ?case by (intro exI [of _ "Truncated (st_rec s)"]) auto
  }
next
  case (Cons b bs)
  {
    case 1
    have l: "length (st_chunks (add_chunk n b s)) \<le> n" using 1 by (auto simp: add_chunk_def Let_def)
    show ?case using Cons.IH(1) [OF l] 1 by (auto simp: add_chunk_def Let_def)
  next
    case 2
    have l: "length (st_chunks (add_chunk n b s)) \<le> n" using 2 by (auto simp: add_chunk_def Let_def)
    obtain t where t: "st_rec (fold (add_chunk n) bs (add_chunk n b s)) = (st_rec (add_chunk n b s))\<lparr>Truncated := t\<rparr>"
      "t \<or> \<not> Truncated (st_rec (add_chunk n b s)) \<and> length (st_chunks (add_chunk n b s) @ concat bs) \<le> n"
      "\<not> Truncated (st_rec (add_chunk n b s)) \<and> length (st_chunks (add_chunk n b s) @ concat bs) < n \<longrightarrow> \<not> t"
      using Cons.IH(2) [OF l] by blast
    show ?case
    proof (intro exI conjI)
      show "st_rec (fold (add_chunk n) (b # bs) s) = (st_rec s)\<lparr>Truncated := t\<rparr>"
        using t(1) by (simp add: add_chunk_def Let_def)
      show "t \<or> \<not> Truncated (st_rec s) \<and> length (st_chunks s @ concat (b # bs)) \<le> n"
        using t(2) 2 by (auto simp: add_chunk_def Let_def split: if_splits)
      show "\<not> Truncated (st_rec s) \<and> length (st_chunks s @ concat (b # bs)) < n \<longrightarrow> \<not> t"
        using t(3) 2 by (auto simp: add_chunk_def Let_def split: if_splits)
    qed
  }
qed

lemma chunk_hooks:
  assumes "foldM_res (run_hook lib) (map Chunk cs) p = Inr p'" and "pl_active p k = Some s"
    and "list_all (\<lambda>c. ic_RequestID c = k \<and> 0 \<le> ic_ChunkIndex c) cs"
  shows "pl_active p' k = Some (fold (add_chunk (pl_max p)) (map ic_Body cs) s)"
  using assms
proof (induction cs arbitrary: p s)
  case (Cons c cs)
  let ?p = "captureChunk c p"
  have "pl_active ?p k = Some (add_chunk (pl_max p) (ic_Body c) s)" "pl_max ?p = pl_max p"
    using Cons.prems by (simp_all add: captureChunk_def on_active_def)
  with Cons.IH [of ?p] Cons.prems show ?case by simp
qed simp

lemma complete_record_payloads:
  assumes "RequestID (st_rec s) = cp_RequestID r" and "Response (st_rec s) = []"
  shows "RequestID (complete_record lib r (Some s)) = cp_RequestID r"
    and "OriginalRequest (complete_record lib r (Some s)) = OriginalRequest (st_rec s)"
    and "UpstreamRequest (complete_record lib r (Some s)) = UpstreamRequest (st_rec s)"
    and "Response (complete_record lib r (Some s)) = st_chunks s"
    and "Truncated (complete_record lib r (Some s)) = Truncated (st_rec s)"
  using assms by (simp_all add: complete_record_def addCompletionFacets_def Let_def)

text \<open>
  C15. Requests are captured independently and exactly: whatever hooks of other requests come in between, a request that goes
  through the two request hooks and a stream of chunks becomes a record with its own body and the concatenation of
  its chunks, each up to the configured bound. A record that is not marked truncated has lost nothing, and one that stays below the
  bound is not marked.
\<close>

theorem capture_exact:
  assumes "foldM_res (run_hook lib) es p = Inr p'" and "pl_active p k = None" and "k \<noteq> []"
    and "filter (\<lambda>h. hook_id h = k) es = Before rq # After up # map Chunk cs"
    and "list_all (\<lambda>c. 0 \<le> ic_ChunkIndex c) cs" and "cp_RequestID r = k"
    and "rec = complete_record lib r (pl_active p' k)" and "stream = concat (map ic_Body cs)"
  shows "RequestID rec = k \<and> OriginalRequest rec = take (pl_max p) (ic_Body rq) \<and> Response rec = take (pl_max p) stream
    \<and> UpstreamRequest rec = (if pl_storeUpstream p then take (pl_max p) (ic_Body up) else [])
    \<and> (Truncated rec \<or> OriginalRequest rec = ic_Body rq \<and> Response rec = stream \<and> (pl_storeUpstream p \<longrightarrow> UpstreamRequest rec = ic_Body up))
    \<and> (length (ic_Body rq) \<le> pl_max p \<and> length (ic_Body up) \<le> pl_max p \<and> length stream < pl_max p \<longrightarrow> \<not> Truncated rec)"
proof -
  have "\<forall>h \<in> set (Before rq # After up # map Chunk cs). hook_id h = k"
    unfolding assms(4) [symmetric] by simp
  then have ids: "ic_RequestID rq = k" "ic_RequestID up = k" "list_all (\<lambda>c. ic_RequestID c = k \<and> 0 \<le> ic_ChunkIndex c) cs"
    using assms(5) by (auto simp: list_all_iff)
  from hooks.purge [OF assms(1), of k p] obtain q where
    q: "foldM_res (run_hook lib) (Before rq # After up # map Chunk cs) p = Inr q" and v: "request_view k p' = request_view k q"
    unfolding assms(4) by blast
  from q obtain p1 p2 where p1: "captureRequest lib rq False p = Inr p1" and p2: "captureRequest lib up True p1 = Inr p2"
    and q2: "foldM_res (run_hook lib) (map Chunk cs) p2 = Inr q" by (auto simp: bind_res_Inr_iff)
  from captureRequest_active [OF p1] ids assms(2,3) obtain r1 where
    r1: "capture_record lib (pl_storeUpstream p) (pl_max p) rq False (st_rec (new_state k)) = Inr r1"
    and a1: "pl_active p1 k = Some ((new_state k)\<lparr>st_rec := r1\<rparr>)" "pl_max p1 = pl_max p" "pl_storeUpstream p1 = pl_storeUpstream p"
    by auto
  from captureRequest_active [OF p2] ids assms(3) a1 obtain r2 where
    r2: "capture_record lib (pl_storeUpstream p) (pl_max p) up True r1 = Inr r2"
    and a2: "pl_active p2 k = Some ((new_state k)\<lparr>st_rec := r2\<rparr>)" "pl_max p2 = pl_max p"
    by auto
  let ?s = "(new_state k)\<lparr>st_rec := r2\<rparr>" and ?n = "pl_max p"
  let ?f = "fold (add_chunk ?n) (map ic_Body cs) ?s"
  have "pl_active q k = Some ?f" using chunk_hooks [OF q2 a2(1) ids(3)] a2(2) by simp
  with v have fin: "pl_active p' k = Some ?f" by (simp add: request_view_def)
  have c: "st_chunks ?f = take ?n stream" using add_chunks(1) [of ?s ?n "map ic_Body cs"] by (simp add: new_state_def assms(8))
  obtain t where t: "st_rec ?f = r2\<lparr>Truncated := t\<rparr>" "t \<or> \<not> Truncated r2 \<and> length stream \<le> ?n"
    "\<not> Truncated r2 \<and> length stream < ?n \<longrightarrow> \<not> t"
    using add_chunks(2) [of ?s ?n "map ic_Body cs"] by (auto simp: new_state_def assms(8))
  have r2': "OriginalRequest r2 = take ?n (ic_Body rq)" "UpstreamRequest r2 = (if pl_storeUpstream p then take ?n (ic_Body up) else [])"
    "Response r2 = []" "RequestID r2 = k"
    "Truncated r2 \<longleftrightarrow> ?n < length (ic_Body rq) \<or> pl_storeUpstream p \<and> ?n < length (ic_Body up)"
    using capture_record_before [OF r1] capture_record_after [OF r2] by (auto simp: new_state_def blank_record_def)
  note rec = complete_record_payloads [of ?f r lib, unfolded t(1), simplified, unfolded c r2']
  have rq: "RequestID rec = k" "OriginalRequest rec = take ?n (ic_Body rq)" "Response rec = take ?n stream" "Truncated rec = t"
    "UpstreamRequest rec = (if pl_storeUpstream p then take ?n (ic_Body up) else [])"
    using rec assms(6,7) fin by simp_all
  show ?thesis using t(2,3) r2'(5) unfolding rq by auto
qed

end
