(* ===== verification/Capture_Bounds.thy ===== *)
theory Capture_Bounds
  imports Capture_Safety
begin

text \<open>
  Invariants of the plugin over every sequence of configurations, hooks, deliveries and a shutdown; what is kept of the caller's
  credentials; and the schedule of deliveries.
\<close>

section \<open>Bounded buffers and clean metadata\<close>

definition clean_metadata :: "gv \<Rightarrow> bool" where
  "clean_metadata md \<longleftrightarrow>
    (case md of
       Null \<Rightarrow> True
     | Obj kvs \<Rightarrow> list_all (\<lambda>(k, v). k \<in> set meta_whitelist \<and> string_of (Some v) \<noteq> []) kvs
     | _ \<Rightarrow> False)"

definition rec_ok :: "nat \<Rightarrow> Record \<Rightarrow> bool" where
  "rec_ok m r \<longleftrightarrow> length (OriginalRequest r) \<le> m \<and> length (UpstreamRequest r) \<le> m \<and> length (Response r) \<le> m
    \<and> clean_metadata (Metadata r)"

definition plugin_ok :: "nat \<Rightarrow> Plugin \<Rightarrow> bool" where
  "plugin_ok m p \<longleftrightarrow>
    pl_max p \<le> m \<and>
    (\<forall>k s. pl_active p k = Some s \<longrightarrow> RequestID (st_rec s) = k \<and> rec_ok m (st_rec s) \<and> length (st_chunks s) \<le> m) \<and>
    (\<forall>qs. pl_q p = Some qs \<longrightarrow> length qs \<le> pl_capacity p \<and> list_all (rec_ok m) qs)"

lemma obj_put_all: "list_all q kvs \<Longrightarrow> q (k, v) \<Longrightarrow> list_all q (obj_put k v kvs)"
  by (induction kvs) (auto split: if_splits)

lemma clean_sanitizeMeta: "clean_metadata (sanitizeMeta lib m)"
proof -
  define f where "f = (\<lambda>out k. let v = findString lib [k] m in if v \<noteq> [] then obj_put k (Str v) out else out)"
  define ok where "ok = (\<lambda>kvs. list_all (\<lambda>(k, v). k \<in> set meta_whitelist \<and> string_of (Some v) \<noteq> []) kvs)"
  have "ok (f out k)" if "ok out" "k \<in> set meta_whitelist" for out k
    using that unfolding ok_def f_def Let_def by (auto intro: obj_put_all simp: string_of_def)
  then have "set ks \<subseteq> set meta_whitelist \<Longrightarrow> ok out \<Longrightarrow> ok (foldl f out ks)" for ks out
    by (induction ks arbitrary: out) auto
  from this [of meta_whitelist "[]"] show ?thesis
    by (simp add: clean_metadata_def sanitizeMeta_def ok_def f_def)
qed

lemma capture_record_ok:
  assumes "capture_record lib up n i aft r = Inr r'" and "rec_ok m r" and "n \<le> m"
  shows "rec_ok m r' \<and> RequestID r' = RequestID r"
proof (cases aft)
  case True
  with assms capture_record_after [of lib up n i r r'] show ?thesis by (auto simp: rec_ok_def clean_sanitizeMeta)
next
  case False
  with assms capture_record_before [of lib up n i r r'] show ?thesis by (auto simp: rec_ok_def clean_sanitizeMeta)
qed

lemma new_state_ok: "rec_ok m (st_rec (new_state k))" "RequestID (st_rec (new_state k)) = k" "st_chunks (new_state k) = []"
  by (simp_all add: new_state_def blank_record_def rec_ok_def clean_metadata_def)

lemma plugin_ok_active:
  assumes "plugin_ok m p" and "\<And>s. a = Some s \<Longrightarrow> RequestID (st_rec s) = k \<and> rec_ok m (st_rec s) \<and> length (st_chunks s) \<le> m"
  shows "plugin_ok m (p\<lparr>pl_active := (pl_active p)(k := a)\<rparr>)"
  using assms by (auto simp: plugin_ok_def)

lemma plugin_okD:
  assumes "plugin_ok m p" and "pl_active p k = Some s"
  shows "RequestID (st_rec s) = k" "rec_ok m (st_rec s)" "length (st_chunks s) \<le> m"
  using assms by (auto simp: plugin_ok_def)

lemma plugin_ok_max: "plugin_ok m p \<Longrightarrow> pl_max p \<le> m"
  by (simp add: plugin_ok_def)

lemma plugin_ok_captureRequest:
  assumes "captureRequest lib r aft p = Inr p'" and "plugin_ok m p"
  shows "plugin_ok m p'"
proof (cases "ic_RequestID r = []")
  case False
  define s where "s = (case pl_active p (ic_RequestID r) of Some s \<Rightarrow> s | None \<Rightarrow> new_state (ic_RequestID r))"
  have s: "RequestID (st_rec s) = ic_RequestID r" "rec_ok m (st_rec s)" "length (st_chunks s) \<le> m"
    unfolding s_def using plugin_okD [OF assms(2)] by (auto simp: new_state_ok split: option.splits)
  from assms(1) False obtain rec where rec: "capture_record lib (pl_storeUpstream p) (pl_max p) r aft (st_rec s) = Inr rec"
    and p': "p' = p\<lparr>pl_active := (pl_active p)(ic_RequestID r \<mapsto> s\<lparr>st_rec := rec\<rparr>)\<rparr>"
    by (auto simp: captureRequest_def s_def Let_def bind_res_Inr_iff)
  have "pl_max p \<le> m" using assms(2) by (simp add: plugin_ok_def)
  from capture_record_ok [OF rec s(2) this] s assms(2) show ?thesis
    unfolding p' by (intro plugin_ok_active) auto
qed (use assms in \<open>simp add: captureRequest_def\<close>)

lemma plugin_ok_on_active:
  assumes "plugin_ok m p" and "\<And>s. pl_active p k = Some s \<Longrightarrow>
    RequestID (st_rec (f s)) = k \<and> rec_ok m (st_rec (f s)) \<and> length (st_chunks (f s)) \<le> m"
  shows "plugin_ok m (on_active k f p)"
  using assms by (auto simp: on_active_def intro: plugin_ok_active split: option.split)

lemma plugin_ok_captureResponse:
  assumes "plugin_ok m p"
  shows "plugin_ok m (captureResponse lib r p)"
  unfolding captureResponse_def
proof (rule plugin_ok_on_active [OF assms])
  fix s assume "pl_active p (ic_RequestID r) = Some s"
  note s = plugin_okD [OF assms this]
  with plugin_ok_max [OF assms] show "RequestID (st_rec (set_response lib (pl_max p) r s)) = ic_RequestID r
    \<and> rec_ok m (st_rec (set_response lib (pl_max p) r s)) \<and> length (st_chunks (set_response lib (pl_max p) r s)) \<le> m"
    by (auto simp: set_response_def limit_bytes_def rec_ok_def)
qed

lemma plugin_ok_captureChunk:
  assumes "plugin_ok m p"
  shows "plugin_ok m (captureChunk r p)"
proof -
  have "plugin_ok m (on_active (ic_RequestID r) (add_chunk (pl_max p) (ic_Body r)) p)"
  proof (rule plugin_ok_on_active [OF assms])
    fix s assume "pl_active p (ic_RequestID r) = Some s"
    note s = plugin_okD [OF assms this]
    have "pl_max p \<le> m" using assms by (simp add: plugin_ok_def)
    with s show "RequestID (st_rec (add_chunk (pl_max p) (ic_Body r) s)) = ic_RequestID r
      \<and> rec_ok m (st_rec (add_chunk (pl_max p) (ic_Body r) s)) \<and> length (st_chunks (add_chunk (pl_max p) (ic_Body r) s)) \<le> m"
      by (auto simp: add_chunk_def Let_def rec_ok_def)
  qed
  with assms show ?thesis by (simp add: captureChunk_def)
qed

lemma plugin_ok_complete:
  assumes "plugin_ok m p"
  shows "plugin_ok m (complete lib r p)"
proof -
  define s where "s = (case pl_active p (cp_RequestID r) of Some s \<Rightarrow> s | None \<Rightarrow> new_state (cp_RequestID r))"
  have s: "rec_ok m (st_rec s)" "length (st_chunks s) \<le> m"
    unfolding s_def using plugin_okD [OF assms] by (auto simp: new_state_ok split: option.splits)
  then have "rec_ok m (complete_record lib r (pl_active p (cp_RequestID r)))"
    unfolding complete_record_def addCompletionFacets_def Let_def s_def [symmetric] by (simp add: rec_ok_def)
  moreover have "plugin_ok m (p\<lparr>pl_active := (pl_active p)(cp_RequestID r := None)\<rparr>)"
    by (rule plugin_ok_active [OF assms]) simp
  ultimately show ?thesis by (auto simp: complete_def enqueue_def plugin_ok_def split: option.splits)
qed

inductive plugin_step :: "library \<Rightarrow> nat \<Rightarrow> Plugin \<Rightarrow> Plugin \<Rightarrow> bool" for lib m where
  config: "pl_max (configure lib yaml p) \<le> m \<Longrightarrow> plugin_step lib m p (configure lib yaml p)"
| hook: "run_hook lib h p = Inr p' \<Longrightarrow> plugin_step lib m p p'"
| send: "sender_take p = Some (rec, p') \<Longrightarrow> plugin_step lib m p p'"
| stop: "plugin_step lib m p (Shutdown p)"

lemma plugin_ok_configure:
  assumes "plugin_ok m p" and "pl_max (configure lib yaml p) \<le> m"
  shows "plugin_ok m (configure lib yaml p)"
proof -
  have "pl_active (configure lib yaml p) = pl_active p" by (simp add: configure_def Let_def)
  moreover have "pl_q p = None \<Longrightarrow> pl_q (configure lib yaml p) = Some []" by (simp add: configure_def Let_def)
  moreover have "pl_q p \<noteq> None \<Longrightarrow> pl_q (configure lib yaml p) = pl_q p \<and> pl_capacity (configure lib yaml p) = pl_capacity p"
    by (simp add: configure_def Let_def)
  ultimately show ?thesis using assms unfolding plugin_ok_def by (cases "pl_q p") auto
qed

lemma plugin_ok_step: "plugin_step lib m p p' \<Longrightarrow> plugin_ok m p \<Longrightarrow> plugin_ok m p'"
proof (induction rule: plugin_step.induct)
  case (config yaml p)
  then show ?case by (simp add: plugin_ok_configure)
next
  case (hook h p p')
  show ?case
  proof (cases h)
    case (Before r)
    with hook show ?thesis by (auto intro: plugin_ok_captureRequest)
  next
    case (After r)
    with hook show ?thesis by (auto intro: plugin_ok_captureRequest)
  qed (use hook in \<open>auto intro: plugin_ok_captureResponse plugin_ok_captureChunk plugin_ok_complete\<close>)
next
  case (send p rec p')
  then show ?case by (auto simp: sender_take_def plugin_ok_def split: option.splits list.splits)
next
  case (stop p)
  then show ?case by (simp add: Shutdown_def plugin_ok_def)
qed

lemma plugin_ok_reach: "(plugin_step lib m)\<^sup>*\<^sup>* p p' \<Longrightarrow> plugin_ok m p \<Longrightarrow> plugin_ok m p'"
proof (induction rule: rtranclp_induct)
  case (step p1 p2)
  then show ?case using plugin_ok_step by blast
qed

text \<open>
  C16. The memory of the plugin is bounded: after any sequence of configurations, hooks, deliveries and a shutdown, with
  no configured bound above \<open>m\<close>, every buffered payload and stream has at most \<open>m\<close> bytes, the queue holds no more than its
  capacity, each request in flight is filed under its own id, and the metadata of every record, in flight or queued, holds only
  non-empty strings under the names of the whitelist.
\<close>

theorem plugin_bounded:
  assumes "(plugin_step lib m)\<^sup>*\<^sup>* NewPlugin p" and "pl_max NewPlugin \<le> m"
  shows "(\<forall>k s. pl_active p k = Some s \<longrightarrow> RequestID (st_rec s) = k \<and> rec_ok m (st_rec s) \<and> length (st_chunks s) \<le> m)
    \<and> (\<forall>qs. pl_q p = Some qs \<longrightarrow> length qs \<le> pl_capacity p \<and> list_all (rec_ok m) qs)"
proof -
  have "plugin_ok m NewPlugin" using assms(2) by (simp add: plugin_ok_def NewPlugin_def)
  with plugin_ok_reach [OF assms(1)] have "plugin_ok m p" by blast
  then show ?thesis unfolding plugin_ok_def by blast
qed

section \<open>Credentials\<close>

text \<open>The headers the hooks read, apart from the two that carry a credential.\<close>

definition captured_headers :: "string list" where
  "captured_headers = [''Originator'', ''User-Agent'', ''Thread-Id'', ''X-Thread-Id'', ''X-Codex-Window-Id'', ''X-Codex-Turn-Metadata'',
     ''X-Client-Request-Id'', ''X-Request-Id'', ''X-Stainless-Lang'', ''X-Stainless-Package-Version'', ''X-Stainless-OS'',
     ''X-Stainless-Arch'', ''X-Stainless-Runtime'', ''X-Stainless-Runtime-Version'', ''Anthropic-Version'', ''OpenAI-Organization'',
     ''OpenAI-Project'', ''X-Claude-Code-Session-Id'', ''X-Session-Id'', ''Session-Id'', ''X-Conversation-Id'', ''X-Project-Id'',
     ''X-Workspace-Id'']"

lemma same_headers_desktop:
  "list_all (\<lambda>n. header_get h n = header_get h' n) captured_headers \<Longrightarrow> enrichDesktopMetadata h r = enrichDesktopMetadata h' r"
  by (simp add: captured_headers_def enrichDesktopMetadata_def)

lemma same_headers_generic:
  "list_all (\<lambda>n. header_get h n = header_get h' n) captured_headers \<Longrightarrow> enrichGenericFacets lib h b r = enrichGenericFacets lib h' b r"
proof -
  assume "list_all (\<lambda>n. header_get h n = header_get h' n) captured_headers"
  then have "header_facets h x = header_facets h' x" for x by (simp add: captured_headers_def header_facets_def)
  then show ?thesis by (simp add: enrichGenericFacets_def)
qed

text \<open>
  C17. The raw credential of a caller is never captured: two requests that differ only in the headers that carry the
  credential, and whose credentials have the same SHA-256 hash, leave the plugin in the same state. What is
  recorded of a credential is a function of its hash.
\<close>

theorem credentials_not_captured:
  assumes "list_all (\<lambda>n. header_get (ic_Headers r) n = header_get h n) captured_headers"
    and "nativeKeyHash (ic_Headers r) = nativeKeyHash h"
  shows "captureRequest lib r afterAuth p = captureRequest lib (r\<lparr>ic_Headers := h\<rparr>) afterAuth p"
proof -
  let ?r = "r\<lparr>ic_Headers := h\<rparr>"
  have f: "ic_Body ?r = ic_Body r" "ic_Metadata ?r = ic_Metadata r" "ic_Headers ?r = h" "ic_RequestID ?r = ic_RequestID r"
    "describe lib ?r = describe lib r" "after_auth up n ?r = after_auth up n r" for up n
    by (simp_all add: describe_def after_auth_def fun_eq_iff)
  have b: "before_auth lib n ?r = before_auth lib n r" for n
    unfolding before_auth_def f same_headers_desktop [OF assms(1)] same_headers_generic [OF assms(1)] ..
  have a: "attribute_caller lib ?r = attribute_caller lib r"
    unfolding attribute_caller_def f assms(2) ..
  show ?thesis unfolding captureRequest_def capture_record_def f a b ..
qed

section \<open>Delivery\<close>

abbreviation refused :: "int option \<times> bool \<Rightarrow> bool" where
  "refused a \<equiv> \<not> snd a \<and> (case fst a of Some c \<Rightarrow> \<not> (200 \<le> c \<and> c < 300) | None \<Rightarrow> True)"

definition backoff_at :: "nat \<Rightarrow> int" where
  "backoff_at i = min (initial_backoff * 2 ^ i) (30 * second)"

lemma next_backoff_at: "next_backoff (backoff_at i) = backoff_at (Suc i)"
  by (auto simp: next_backoff_def backoff_at_def initial_backoff_def second_def Let_def min_def)

lemma send_again:
  "refused a \<Longrightarrow> sendWithRetry b (a # as) = map_option (\<lambda>(ws, ok). (b # ws, ok)) (sendWithRetry (next_backoff b) as)"
  by (cases a; cases "fst a") auto

lemma send_refused:
  assumes "list_all refused fs" and "200 \<le> c" "c < 300"
  shows "sendWithRetry (backoff_at i) (fs @ (Some c, stopped) # rest) = Some (map backoff_at [i..<i + length fs], True)"
  using assms(1)
proof (induction fs arbitrary: i)
  case (Cons f fs)
  then have "sendWithRetry (next_backoff (backoff_at i)) (fs @ (Some c, stopped) # rest) = Some (map backoff_at [Suc i..<Suc i + length fs], True)"
    by (simp add: next_backoff_at)
  moreover have "[i..<i + length (f # fs)] = i # [Suc i..<Suc i + length fs]" by (simp add: upt_conv_Cons del: upt_Suc)
  ultimately show ?case using Cons.prems by (simp add: send_again)
qed (simp add: assms)

text \<open>
  C18. A record is retried until the collector accepts it: after any number of failures that are not interrupted by a shutdown, the first
  attempt answered with a 2xx status ends the delivery, and the wait after failure number \<open>i\<close> is 250 ms doubled \<open>i\<close> times, at
  most 30 s.
\<close>

theorem delivery_backoff:
  assumes "list_all refused fs" and "200 \<le> c" "c < 300"
  shows "sendWithRetry initial_backoff (fs @ (Some c, stopped) # rest) =
    Some (map (\<lambda>i. min (initial_backoff * 2 ^ i) (30 * second)) [0..<length fs], True)"
proof -
  have "backoff_at 0 = initial_backoff" by (simp add: backoff_at_def initial_backoff_def second_def)
  with send_refused [OF assms, of 0 stopped rest] show ?thesis by (simp add: backoff_at_def cong: map_cong)
qed

text \<open>
  A completed request whose record finds the queue full is dropped: the queue stays as it was and nothing of the request is
  left in flight to be delivered later.
\<close>

theorem full_queue_drops:
  assumes "pl_q p = Some qs" and "pl_capacity p \<le> length qs"
  shows "pl_q (complete lib r p) = Some qs \<and> pl_active (complete lib r p) (cp_RequestID r) = None"
  using assms by (simp add: complete_def enqueue_def)

section \<open>Witnesses\<close>

definition sample_lib :: library where
  "sample_lib = \<lparr>lib_gjson = (\<lambda>_ _. GResult [] None), lib_entities = (\<lambda>_. []), lib_sprint = (\<lambda>_. []), lib_order = (\<lambda>_ kvs. kvs),
     lib_yaml = (\<lambda>_ c. c), lib_duration = (\<lambda>_. None)\<rparr>"

definition sample_hook :: "string \<Rightarrow> string \<Rightarrow> intercept" where
  "sample_hook rid body = \<lparr>ic_RequestID = rid, ic_TraceID = [], ic_SourceFormat = [], ic_Model = [], ic_RequestedModel = [], ic_Stream = True,
     ic_Headers = [], ic_Body = body, ic_StatusCode = 0, ic_Metadata = Null, ic_ChunkIndex = 0\<rparr>"

definition sample_completion :: completion where
  "sample_completion = \<lparr>cp_RequestID = ''q'', cp_TraceID = [], cp_SourceFormat = [], cp_Model = [], cp_RequestedModel = [],
    cp_Outcome = ''succeeded'', cp_Error = [], cp_Stream = True, cp_StatusCode = 200, cp_StartedAt = [], cp_CompletedAt = [], cp_Metadata = Null\<rparr>"

theorem full_queue_drops_witness:
  "pl_q (complete sample_lib sample_completion (NewPlugin\<lparr>pl_q := Some [], pl_capacity := 0\<rparr>)) = Some []"
  using full_queue_drops [of "NewPlugin\<lparr>pl_q := Some [], pl_capacity := 0\<rparr>" "[]" sample_lib sample_completion] by simp

theorem plugin_bounded_witness:
  "length (the (pl_q (configure sample_lib [] NewPlugin))) \<le> pl_capacity (configure sample_lib [] NewPlugin)"
proof -
  let ?p = "configure sample_lib [] NewPlugin"
  have c: "pl_q ?p = Some []" "pl_max ?p = 64 * 2 ^ 20"
    by (simp_all add: configure_def sample_lib_def NewPlugin_def default_config_def Let_def)
  then have "plugin_step sample_lib (64 * 2 ^ 20) NewPlugin ?p" by (intro plugin_step.config) simp
  then have "(plugin_step sample_lib (64 * 2 ^ 20))\<^sup>*\<^sup>* NewPlugin ?p" by blast
  from plugin_bounded [OF this] c(1) show ?thesis by (auto simp: NewPlugin_def)
qed

theorem delivery_backoff_witness:
  "sendWithRetry initial_backoff ([(None, False), (Some 503, False)] @ (Some 202, False) # []) = Some ([initial_backoff, 2 * initial_backoff], True)"
  using delivery_backoff [of "[(None, False), (Some 503, False)]" 202 False "[]"]
  by (simp add: initial_backoff_def second_def numeral_2_eq_2)

lemma sample_key_header:
  "nativeKeyHash [(''Authorization'', [''Bearer k''])] = sha256_hex ''k''" "nativeKeyHash [(''X-Api-Key'', [''k''])] = sha256_hex ''k''"
proof -
  have g: "header_get [(''Authorization'', [''Bearer k''])] ''Authorization'' = ''Bearer k''"
    "header_get [(''X-Api-Key'', [''k''])] ''Authorization'' = []" "header_get [(''X-Api-Key'', [''k''])] ''X-API-Key'' = ''k''"
    by (simp_all add: header_get_def upper_ascii_def lower_ascii_def) (simp add: char_of_def bit_0)
  have t: "TrimSpace ''Bearer k'' = ''Bearer k''" "TrimSpace ''k'' = ''k''" "TrimSpace [] = []"
    by (simp_all add: TrimSpace_def runes_ascii rune_of_ascii is_space_def)
  have l: "HasPrefix (ToLower ''Bearer k'') ''bearer ''" "\<not> HasPrefix (ToLower []) ''bearer ''"
    by (simp_all add: ToLower_ascii_Cons lower_rune_def HasPrefix_def char_of_def bit_0)
  show "nativeKeyHash [(''Authorization'', [''Bearer k''])] = sha256_hex ''k''" "nativeKeyHash [(''X-Api-Key'', [''k''])] = sha256_hex ''k''"
    unfolding nativeKeyHash_def Let_def g t using l t by simp_all
qed

theorem credentials_not_captured_witness:
  "captureRequest sample_lib ((sample_hook ''q'' [])\<lparr>ic_Headers := [(''Authorization'', [''Bearer k''])]\<rparr>) False NewPlugin =
   captureRequest sample_lib ((sample_hook ''q'' [])\<lparr>ic_Headers := [(''X-Api-Key'', [''k''])]\<rparr>) False NewPlugin"
proof -
  have "list_all (\<lambda>n. header_get [(''Authorization'', [''Bearer k''])] n = header_get [(''X-Api-Key'', [''k''])] n) captured_headers"
    by (simp add: captured_headers_def header_get_def upper_ascii_def lower_ascii_def)
  with credentials_not_captured [of "(sample_hook ''q'' [])\<lparr>ic_Headers := [(''Authorization'', [''Bearer k''])]\<rparr>" "[(''X-Api-Key'', [''k''])]" sample_lib False NewPlugin]
  show ?thesis by (simp add: sample_key_header)
qed

lemma captureRequest_returns:
  assumes "extractConversationSummary (lib_entities lib) (gstr lib) (ic_Body r) = Inr t"
  shows "\<exists>p'. captureRequest lib r aft p = Inr p'"
  by (auto simp: captureRequest_def capture_record_def before_auth_def assms Let_def)

definition sample_run :: "hook list" where
  "sample_run = [Before (sample_hook ''q'' ''x''), Before (sample_hook ''other'' ''x''), After (sample_hook ''q'' ''x''),
     Chunk (sample_hook ''q'' ''a''), Chunk (sample_hook ''other'' ''z''), Chunk (sample_hook ''q'' ''b'')]"

lemma sample_summary: "extractConversationSummary (lib_entities sample_lib) (gstr sample_lib) ''x'' = Inr []"
proof -
  have "Unmarshal ''x'' = None" by (simp add: Unmarshal_def Decode_def text_eval pnum_def psign_def pint_def pdigits_def is_digit_def)
  then show ?thesis
    by (simp add: extractConversationSummary_def extractConversationSummaries_def title_paths_def compactSummary_def Fields_def sample_lib_def last_or_empty_def)
qed

lemma sample_run_returns: "\<exists>p'. foldM_res (run_hook sample_lib) sample_run NewPlugin = Inr p'"
proof -
  have r: "\<exists>p'. captureRequest sample_lib (sample_hook rid ''x'') aft p = Inr p'" for rid aft p
    by (rule captureRequest_returns) (simp add: sample_hook_def sample_summary)
  obtain p1 where p1: "captureRequest sample_lib (sample_hook ''q'' ''x'') False NewPlugin = Inr p1" using r by blast
  obtain p2 where p2: "captureRequest sample_lib (sample_hook ''other'' ''x'') False p1 = Inr p2" using r by blast
  obtain p3 where p3: "captureRequest sample_lib (sample_hook ''q'' ''x'') True p2 = Inr p3" using r by blast
  show ?thesis by (simp add: sample_run_def p1 p2 p3)
qed

theorem capture_exact_witness:
  "\<exists>p' r rec. foldM_res (run_hook sample_lib) sample_run NewPlugin = Inr p' \<and> rec = complete_record sample_lib r (pl_active p' ''q'')
    \<and> OriginalRequest rec = ''x'' \<and> Response rec = ''ab'' \<and> UpstreamRequest rec = [] \<and> \<not> Truncated rec"
proof -
  obtain p' where p': "foldM_res (run_hook sample_lib) sample_run NewPlugin = Inr p'" using sample_run_returns by blast
  have f: "filter (\<lambda>h. hook_id h = ''q'') sample_run =
    Before (sample_hook ''q'' ''x'') # After (sample_hook ''q'' ''x'') # map Chunk [sample_hook ''q'' ''a'', sample_hook ''q'' ''b'']"
    by (simp add: sample_run_def sample_hook_def)
  have "RequestID (complete_record sample_lib sample_completion (pl_active p' ''q'')) = ''q'' \<and> OriginalRequest (complete_record sample_lib sample_completion (pl_active p' ''q'')) = ''x''
      \<and> Response (complete_record sample_lib sample_completion (pl_active p' ''q'')) = ''ab'' \<and> UpstreamRequest (complete_record sample_lib sample_completion (pl_active p' ''q'')) = []
      \<and> \<not> Truncated (complete_record sample_lib sample_completion (pl_active p' ''q''))"
    using capture_exact [OF p' _ _ f _ _ refl refl, of sample_completion] by (simp add: NewPlugin_def sample_hook_def sample_completion_def)
  with p' show ?thesis by blast
qed

end
