(* ===== verification/Collector.thy ===== *)
theory Collector
  imports Records
begin

text \<open>
  The ingest path of the collector (\<open>cmd/cpa-session-collector/main.go\<close>): the handler that queues a record, the writer that
  collects batches and the flush that archives one.

  A request body is given decoded, or \<open>None\<close> when it is not a record. The database may be locked by another process: the environment
  gives the errors SQLite reports for the successive attempts of a flush before the transaction runs.
\<close>

section \<open>Operations\<close>

record server =
  sv_store :: db
  sv_q :: "Record list"
  sv_batch :: "Record list"

definition queue_capacity :: nat where
  "queue_capacity = 4096"

definition batch_size :: nat where
  "batch_size = 64"

text \<open>The record the handler queues for a body.\<close>

definition with_session :: "Record \<Rightarrow> Record" where
  "with_session rec = (if SessionID rec = [] then rec\<lparr>SessionID := ''request:'' @ RequestID rec\<rparr> else rec)"

text \<open>The status of the answer and the server afterwards.\<close>

definition ingest :: "string \<Rightarrow> Record option \<Rightarrow> server \<Rightarrow> nat \<times> server" where
  "ingest meth body s =
    (if meth \<noteq> ''POST'' then (405, s)
     else case body of
            None \<Rightarrow> (400, s)
          | Some rec \<Rightarrow>
              if RequestID rec = [] then (400, s)
              else if length (sv_q s) < queue_capacity then (202, s\<lparr>sv_q := sv_q s @ [with_session rec]\<rparr>)
              else (503, s))"

text \<open>The errors the flush waits out: \<open>database is locked\<close> and \<open>database is busy\<close>.\<close>

definition retryable :: "err \<Rightarrow> bool" where
  "retryable e \<longleftrightarrow> e = Locked"

fun flush :: "(gv \<Rightarrow> string) \<Rightarrow> bool \<Rightarrow> err list \<Rightarrow> Record list \<Rightarrow> db \<Rightarrow> db" where
  "flush sprint up [] batch d =
    (case PutBatch sprint up batch d of Inr d' \<Rightarrow> d' | Inl _ \<Rightarrow> d)"
| "flush sprint up (e # es) batch d = (if retryable e then flush sprint up es batch d else d)"

text \<open>One round of the writer: a record from the queue, or the tick.\<close>

definition writer_receive :: "(gv \<Rightarrow> string) \<Rightarrow> bool \<Rightarrow> err list \<Rightarrow> server \<Rightarrow> server" where
  "writer_receive sprint up es s =
    (case sv_q s of
       [] \<Rightarrow> s
     | rec # rest \<Rightarrow>
         let batch = sv_batch s @ [rec] in
         if batch_size \<le> length batch
         then s\<lparr>sv_q := rest, sv_batch := [], sv_store := flush sprint up es batch (sv_store s)\<rparr>
         else s\<lparr>sv_q := rest, sv_batch := batch\<rparr>)"

definition writer_tick :: "(gv \<Rightarrow> string) \<Rightarrow> bool \<Rightarrow> err list \<Rightarrow> server \<Rightarrow> server" where
  "writer_tick sprint up es s =
    (if sv_batch s \<noteq> [] then s\<lparr>sv_batch := [], sv_store := flush sprint up es (sv_batch s) (sv_store s)\<rparr> else s)"

definition start :: "db \<Rightarrow> server" where
  "start d = \<lparr>sv_store = d, sv_q = [], sv_batch = []\<rparr>"

section \<open>The archive as the writer sees it\<close>

text \<open>
  What the pipeline relies on: a batch put into a good archive succeeds, keeps it good, and afterwards the archive holds the
  requests of the batch and those it held before.
\<close>

locale archiver =
  fixes put :: "Record list \<Rightarrow> 's \<Rightarrow> 's result"
    and good :: "'s \<Rightarrow> bool"
    and holds :: "'s \<Rightarrow> string \<Rightarrow> bool"
  assumes put_ok: "good s \<Longrightarrow> \<exists>s'. put b s = Inr s' \<and> good s' \<and> (\<forall>r \<in> set b. holds s' (RequestID r)) \<and> (\<forall>k. holds s k \<longrightarrow> holds s' k)"
begin

lemma batches_ok:
  "good s \<Longrightarrow> \<exists>s'. foldM_res put bs s = Inr s' \<and> good s' \<and> (\<forall>r \<in> set (concat bs). holds s' (RequestID r)) \<and> (\<forall>k. holds s k \<longrightarrow> holds s' k)"
proof (induction bs arbitrary: s)
  case (Cons b bs)
  from put_ok [OF Cons.prems, of b] obtain s1 where s1: "put b s = Inr s1" "good s1"
    "\<forall>r \<in> set b. holds s1 (RequestID r)" "\<forall>k. holds s k \<longrightarrow> holds s1 k" by blast
  from Cons.IH [OF s1(2)] obtain s2 where "foldM_res put bs s1 = Inr s2" "good s2"
    "\<forall>r \<in> set (concat bs). holds s2 (RequestID r)" "\<forall>k. holds s1 k \<longrightarrow> holds s2 k" by blast
  with s1 show ?case by (intro exI [of _ s2]) auto
qed simp

lemma good_after: "good s \<Longrightarrow> foldM_res put bs s = Inr s' \<Longrightarrow> good s' \<and> (\<forall>r \<in> set (concat bs). holds s' (RequestID r))"
  using batches_ok [of s bs] by auto

end

interpretation store: archiver "PutBatch sprint up" archive_ok "\<lambda>d k. k \<in> request_id ` set (records d)" for sprint up
proof
  fix d b assume "archive_ok d"
  from put_batch_ok [OF this, of sprint up "credentialPrincipalIndex d" b] obtain d' where
    "PutBatch sprint up b d = Inr d'" "archive_ok d'" "RequestID ` set b \<union> request_id ` set (records d) \<subseteq> request_id ` set (records d')"
    unfolding PutBatch_def by blast
  then show "\<exists>d'. PutBatch sprint up b d = Inr d' \<and> archive_ok d' \<and> (\<forall>r \<in> set b. RequestID r \<in> request_id ` set (records d'))
      \<and> (\<forall>k. k \<in> request_id ` set (records d) \<longrightarrow> k \<in> request_id ` set (records d'))"
    by blast
qed

lemma foldM_res_snoc: "foldM_res f (xs @ [x]) s = bind_res (foldM_res f xs s) (f x)"
  by (induction xs arbitrary: s) (auto simp: bind_res_def split: sum.split)

lemma flush_archives:
  assumes "archive_ok d" and "list_all retryable es"
  shows "PutBatch sprint up batch d = Inr (flush sprint up es batch d)"
  using assms(2)
proof (induction es)
  case Nil
  from store.put_ok [OF assms(1), of sprint up batch] show ?case by auto
qed simp

section \<open>Every accepted record is archived\<close>

text \<open>The second component lists the records answered with 202, in order.\<close>

inductive collector_step :: "(gv \<Rightarrow> string) \<Rightarrow> bool \<Rightarrow> server \<times> Record list \<Rightarrow> server \<times> Record list \<Rightarrow> bool" for sprint up where
  accept: "ingest meth (Some rec) s = (202, s') \<Longrightarrow> collector_step sprint up (s, acc) (s', acc @ [with_session rec])"
| refuse: "ingest meth body s = (code, s') \<Longrightarrow> code \<noteq> 202 \<Longrightarrow> collector_step sprint up (s, acc) (s', acc)"
| receive: "list_all retryable es \<Longrightarrow> collector_step sprint up (s, acc) (writer_receive sprint up es s, acc)"
| tick: "list_all retryable es \<Longrightarrow> collector_step sprint up (s, acc) (writer_tick sprint up es s, acc)"

definition pipe_ok :: "(gv \<Rightarrow> string) \<Rightarrow> bool \<Rightarrow> db \<Rightarrow> server \<times> Record list \<Rightarrow> bool" where
  "pipe_ok sprint up d0 sa \<longleftrightarrow>
    (\<exists>batches. snd sa = concat batches @ sv_batch (fst sa) @ sv_q (fst sa)
      \<and> foldM_res (PutBatch sprint up) batches d0 = Inr (sv_store (fst sa)))
    \<and> length (sv_batch (fst sa)) < batch_size \<and> length (sv_q (fst sa)) \<le> queue_capacity"

lemma pipe_flush:
  assumes "archive_ok d0" and "foldM_res (PutBatch sprint up) batches d0 = Inr d" and "list_all retryable es"
  shows "foldM_res (PutBatch sprint up) (batches @ [batch]) d0 = Inr (flush sprint up es batch d)"
  using store.good_after [OF assms(1,2)] flush_archives [OF _ assms(3)] assms(2) by (simp add: foldM_res_snoc)

lemma pipe_ok_step:
  assumes "collector_step sprint up sa sa'" and "archive_ok d0" and "pipe_ok sprint up d0 sa"
  shows "pipe_ok sprint up d0 sa'"
  using assms(1,3)
proof (induction rule: collector_step.induct)
  case (accept meth rec s s' acc)
  then show ?case by (auto simp: pipe_ok_def ingest_def split: if_splits)
next
  case (refuse meth body s code s' acc)
  then show ?case by (auto simp: ingest_def split: if_splits option.splits)
next
  case (receive es s acc)
  then obtain batches where b: "acc = concat batches @ sv_batch s @ sv_q s" "foldM_res (PutBatch sprint up) batches d0 = Inr (sv_store s)"
    and l: "length (sv_batch s) < batch_size" "length (sv_q s) \<le> queue_capacity" by (auto simp: pipe_ok_def)
  show ?case
  proof (cases "sv_q s")
    case Nil
    with receive.prems show ?thesis by (simp add: writer_receive_def)
  next
    case (Cons rec rest)
    show ?thesis
    proof (cases "batch_size \<le> length (sv_batch s @ [rec])")
      case True
      from pipe_flush [OF assms(2) b(2) receive.hyps] True b(1) l Cons show ?thesis
        unfolding pipe_ok_def writer_receive_def
        by (intro conjI exI [of _ "batches @ [sv_batch s @ [rec]]"]) (auto simp: batch_size_def)
    next
      case False
      with b l Cons show ?thesis by (auto simp: pipe_ok_def writer_receive_def)
    qed
  qed
next
  case (tick es s acc)
  then obtain batches where b: "acc = concat batches @ sv_batch s @ sv_q s" "foldM_res (PutBatch sprint up) batches d0 = Inr (sv_store s)"
    and l: "length (sv_batch s) < batch_size" "length (sv_q s) \<le> queue_capacity" by (auto simp: pipe_ok_def)
  show ?case
  proof (cases "sv_batch s = []")
    case False
    from pipe_flush [OF assms(2) b(2) tick.hyps] False b(1) l show ?thesis
      unfolding pipe_ok_def writer_tick_def
      by (intro conjI exI [of _ "batches @ [sv_batch s]"]) (auto simp: batch_size_def)
  qed (use tick.prems in \<open>simp add: writer_tick_def\<close>)
qed

lemma pipe_ok_reach: "(collector_step sprint up)\<^sup>*\<^sup>* sa sa' \<Longrightarrow> archive_ok d0 \<Longrightarrow> pipe_ok sprint up d0 sa \<Longrightarrow> pipe_ok sprint up d0 sa'"
proof (induction rule: rtranclp_induct)
  case (step y z)
  then show ?case using pipe_ok_step by blast
qed

text \<open>
  C20. No accepted record is lost or reordered: however requests, ticks and database locks interleave, the records answered with
  202 are, in the order of their acceptance, those of the batches archived so far, then the batch in the writer's hands and the
  queue; the database is the result of archiving these batches, holds every request in them and is well formed. The batch stays below
  64 records and the queue within 4096.
\<close>

theorem accepted_records_archived:
  assumes "archive_ok d0" and "(collector_step sprint up)\<^sup>*\<^sup>* (start d0, []) (s, accepted)"
  shows "\<exists>batches. accepted = concat batches @ sv_batch s @ sv_q s
      \<and> foldM_res (PutBatch sprint up) batches d0 = Inr (sv_store s) \<and> archive_ok (sv_store s)
      \<and> RequestID ` set (concat batches) \<subseteq> request_id ` set (records (sv_store s))
      \<and> length (sv_batch s) < 64 \<and> length (sv_q s) \<le> 4096"
proof -
  have "pipe_ok sprint up d0 (start d0, [])"
    by (auto simp: pipe_ok_def start_def batch_size_def intro: exI [of _ "[]"])
  with pipe_ok_reach [OF assms(2,1)] have "pipe_ok sprint up d0 (s, accepted)" by blast
  then obtain batches where b: "accepted = concat batches @ sv_batch s @ sv_q s"
    "foldM_res (PutBatch sprint up) batches d0 = Inr (sv_store s)" "length (sv_batch s) < 64" "length (sv_q s) \<le> 4096"
    by (auto simp: pipe_ok_def batch_size_def queue_capacity_def)
  with store.good_after [OF assms(1) b(2)] show ?thesis by (intro exI [of _ batches]) blast
qed

theorem accepted_records_archived_witness:
  "\<exists>s. (collector_step (\<lambda>_. []) True)\<^sup>*\<^sup>* (start empty_db, []) (s, [sample_record]) \<and> ''q'' \<in> request_id ` set (records (sv_store s))"
proof -
  let ?step = "collector_step (\<lambda>_. []) True"
  let ?s1 = "(start empty_db)\<lparr>sv_q := [sample_record]\<rparr>"
  let ?s2 = "writer_receive (\<lambda>_. []) True [] ?s1"
  let ?s3 = "writer_tick (\<lambda>_. []) True [Locked] ?s2"
  have "ingest ''POST'' (Some sample_record) (start empty_db) = (202, ?s1)" and "with_session sample_record = sample_record"
    by (simp_all add: ingest_def start_def queue_capacity_def with_session_def sample_record_def)
  with accept [of "''POST''" sample_record "start empty_db" ?s1 "\<lambda>_. []" True "[]"] have 1: "?step (start empty_db, []) (?s1, [sample_record])" by simp
  have 2: "?step (?s1, [sample_record]) (?s2, [sample_record])" by (rule receive) simp
  have 3: "?step (?s2, [sample_record]) (?s3, [sample_record])" by (rule tick) (simp add: retryable_def)
  from 1 2 3 have run: "?step\<^sup>*\<^sup>* (start empty_db, []) (?s3, [sample_record])" by (meson r_into_rtranclp rtranclp_trans)
  have "sv_batch ?s3 = []" "sv_q ?s3 = []" by (simp_all add: writer_tick_def writer_receive_def start_def batch_size_def)
  with accepted_records_archived [OF archive_ok_empty(1) run]
  have "RequestID ` set [sample_record] \<subseteq> request_id ` set (records (sv_store ?s3))" by (metis append_Nil2)
  with run show ?thesis by (intro exI [of _ ?s3]) (auto simp: sample_record_def)
qed

end
