(* ===== verification/Turns.thy ===== *)
theory Turns
  imports User_Text Read_Side
begin

text \<open>
  The human view of a session (\<open>internal/archive/turns.go\<close> and the preview of \<open>internal/archive/timeline.go\<close>): requests grouped into
  turns, pages of turns, the requests of one turn, and the full text of a turn with its cache.

  A row comes from the narrow projection or, before the session is projected, from the records. \<open>json_extract\<close>
  of a facet is its text; the columns of the projection hold JSON arrays.
\<close>

section \<open>Rows\<close>

record turn_source =
  tsr_request_id :: string
  tsr_key_id :: string
  tsr_principal_id :: string
  tsr_credential_hash :: string
  tsr_alias :: string
  tsr_summary :: string
  tsr_preview :: string
  tsr_requested_model :: string
  tsr_model :: string
  tsr_outcome :: string
  tsr_status :: int
  tsr_started_at :: string
  tsr_completed_at :: string
  tsr_explicitID :: string
  tsr_tools :: string
  tsr_kinds :: string

text \<open>\<open>json.Unmarshal\<close> into a \<open>[]string\<close>.\<close>

definition decode_strings :: "string \<Rightarrow> string list" where
  "decode_strings s =
    (case Decode s of Some (v, rest) \<Rightarrow> if skip_ws rest = [] then facet_values v else [] | None \<Rightarrow> [])"

definition projected_source :: "db \<Rightarrow> turn_row \<Rightarrow> turn_source" where
  "projected_source d t =
    \<lparr>tsr_request_id = t_request_id t, tsr_key_id = t_key_id t, tsr_principal_id = t_principal_id t, tsr_credential_hash = t_credential_hash t,
     tsr_alias = alias_of d (t_principal_id t), tsr_summary = t_summary t, tsr_preview = t_response_preview t,
     tsr_requested_model = t_requested_model t, tsr_model = t_model t, tsr_outcome = t_outcome t, tsr_status = t_status_code t,
     tsr_started_at = t_started_at t, tsr_completed_at = t_completed_at t, tsr_explicitID = t_turn_id t,
     tsr_tools = (if t_tool_names_json t = [] then ''[]'' else t_tool_names_json t),
     tsr_kinds = (if t_request_kinds_json t = [] then ''[]'' else t_request_kinds_json t)\<rparr>"

text \<open>\<open>json_extract(facets_json, '$."name"')\<close> as a text column; \<open>None\<close> is \<open>NULL\<close>.\<close>

definition sql_text :: "gv \<Rightarrow> string option" where
  "sql_text v =
    (case v of Null \<Rightarrow> None | Str s \<Rightarrow> Some s | Num n \<Rightarrow> Some n | Bool b \<Rightarrow> Some (if b then ''1'' else ''0'') | _ \<Rightarrow> Some (Marshal v))"

definition json_member :: "gv \<Rightarrow> string \<Rightarrow> gv" where
  "json_member v name = (case v of Obj kvs \<Rightarrow> (case obj_get kvs name of Some x \<Rightarrow> x | None \<Rightarrow> Null) | _ \<Rightarrow> Null)"

definition json_first :: "gv \<Rightarrow> gv" where
  "json_first v = (case v of Arr (x # _) \<Rightarrow> x | _ \<Rightarrow> Null)"

definition record_source :: "db \<Rightarrow> rec_row \<Rightarrow> turn_source result" where
  "record_source d r =
    (case (if facets_json r = [] then Some (Null, []) else Decode (facets_json r)) of
       None \<Rightarrow> Inl BadJson
     | Some (fs, rest) \<Rightarrow>
         if skip_ws rest \<noteq> [] then Inl BadJson
         else
           let or_else = (\<lambda>x y. case x of Some s \<Rightarrow> s | None \<Rightarrow> y) in
           Inr \<lparr>tsr_request_id = request_id r, tsr_key_id = key_id r, tsr_principal_id = principal_id r, tsr_credential_hash = credential_hash r,
             tsr_alias = alias_of d (principal_id r), tsr_summary = summary r, tsr_preview = response_preview r,
             tsr_requested_model = requested_model r, tsr_model = model r, tsr_outcome = outcome r, tsr_status = status_code r,
             tsr_started_at = started_at r, tsr_completed_at = completed_at r,
             tsr_explicitID = or_else (sql_text (json_first (json_member fs ''turn.id''))) [],
             tsr_tools = or_else (sql_text (json_member fs ''tool.name'')) ''[]'',
             tsr_kinds = or_else (sql_text (json_member fs ''request.kind'')) ''[]''\<rparr>)"

definition turn_rows :: "db \<Rightarrow> string \<Rightarrow> turn_source list result" where
  "turn_rows d sid =
    (if \<exists>t \<in> set (turn_records d). t_session_id t = sid
     then Inr (map (projected_source d)
            (sort_key (\<lambda>t. (t_started_at t, t_id t)) (filter (\<lambda>t. t_session_id t = sid) (turn_records d))))
     else map_res (record_source d) (sort_key row_key (filter (\<lambda>r. session_id r = sid) (records d))))"

section \<open>Grouping\<close>

record TurnSummary =
  ts_TurnID :: string
  ts_SessionID :: string
  ts_UserText :: string
  ts_FinalText :: string
  ts_Requests :: nat
  ts_FirstAt :: string
  ts_LastAt :: string
  ts_KeyID :: string
  ts_PrincipalID :: string
  ts_CredentialHash :: string
  ts_PrincipalAlias :: string
  ts_Model :: string
  ts_Outcome :: string
  ts_StatusCode :: int
  ts_ToolNames :: "string list"
  ts_HasCompaction :: bool

record turnGroup =
  tg_summary :: TurnSummary
  tg_requestIDs :: "string list"
  tg_explicitID :: string
  tg_normalized :: string

definition derivedTurnID :: "string \<Rightarrow> string \<Rightarrow> string" where
  "derivedTurnID sid rid = ''derived-'' @ hex_encode (take 16 (sha256 (sid @ [CHR 0x0A] @ rid)))"

definition starts_new :: "string \<Rightarrow> string \<Rightarrow> turnGroup \<Rightarrow> bool" where
  "starts_new explicitID normalized g =
    (if explicitID \<noteq> [] \<and> tg_explicitID g \<noteq> [] then explicitID \<noteq> tg_explicitID g
     else if explicitID \<noteq> [] \<and> tg_explicitID g = []
     then normalized \<noteq> [] \<and> tg_normalized g \<noteq> [] \<and> normalized \<noteq> tg_normalized g
     else if explicitID = [] \<and> normalized \<noteq> [] \<and> tg_normalized g \<noteq> [] then normalized \<noteq> tg_normalized g
     else False)"

definition new_group :: "string \<Rightarrow> turn_source \<Rightarrow> string \<Rightarrow> string \<Rightarrow> turnGroup" where
  "new_group sid r normalized userText =
    \<lparr>tg_summary = \<lparr>ts_TurnID = (if tsr_explicitID r = [] then derivedTurnID sid (tsr_request_id r) else tsr_explicitID r),
       ts_SessionID = sid, ts_UserText = userText, ts_FinalText = [], ts_Requests = 0, ts_FirstAt = retime (tsr_started_at r),
       ts_LastAt = retime (tsr_completed_at r), ts_KeyID = tsr_key_id r, ts_PrincipalID = tsr_principal_id r,
       ts_CredentialHash = tsr_credential_hash r, ts_PrincipalAlias = tsr_alias r,
       ts_Model = firstNonEmpty [tsr_requested_model r, tsr_model r], ts_Outcome = [], ts_StatusCode = 0, ts_ToolNames = [],
       ts_HasCompaction = False\<rparr>,
     tg_requestIDs = [], tg_explicitID = tsr_explicitID r, tg_normalized = normalized\<rparr>"

definition add_tool :: "string \<Rightarrow> string list \<Rightarrow> string list" where
  "add_tool name names = (let t = TrimSpace name in if t = [] \<or> t \<in> set names then names else names @ [t])"

definition add_request :: "(string \<Rightarrow> nat list) \<Rightarrow> turn_source \<Rightarrow> string \<Rightarrow> turnGroup \<Rightarrow> turnGroup result" where
  "add_request ent r normalized g =
    bind_res (cleanTurnText ent (tsr_summary r)) (\<lambda>userText.
    bind_res (cleanTurnText ent (tsr_preview r)) (\<lambda>finalText.
    let s = tg_summary g;
        selected = firstNonEmpty [tsr_requested_model r, tsr_model r];
        adopt = (tg_explicitID g = [] \<and> tsr_explicitID r \<noteq> []);
        names = (tg_normalized g = [] \<and> normalized \<noteq> [])
    in Inr \<lparr>tg_summary = s\<lparr>
          ts_TurnID := (if adopt then tsr_explicitID r else ts_TurnID s),
          ts_UserText := (if names then userText else ts_UserText s),
          ts_Requests := ts_Requests s + 1,
          ts_LastAt := retime (tsr_completed_at r),
          ts_Outcome := tsr_outcome r,
          ts_StatusCode := tsr_status r,
          ts_KeyID := (if tsr_key_id r \<noteq> [] then tsr_key_id r else ts_KeyID s),
          ts_PrincipalID := (if tsr_principal_id r \<noteq> [] then tsr_principal_id r else ts_PrincipalID s),
          ts_PrincipalAlias := (if tsr_principal_id r \<noteq> [] then tsr_alias r else ts_PrincipalAlias s),
          ts_CredentialHash := (if tsr_credential_hash r \<noteq> [] then tsr_credential_hash r else ts_CredentialHash s),
          ts_Model := (if selected \<noteq> [] then selected else ts_Model s),
          ts_FinalText := (if readableFinalPreview (tsr_preview r) then finalText else ts_FinalText s),
          ts_ToolNames := fold add_tool (decode_strings (tsr_tools r)) (ts_ToolNames s),
          ts_HasCompaction := (ts_HasCompaction s \<or>
            list_ex (\<lambda>k. EqualFold k ''compaction'' \<or> EqualFold k ''compact'') (decode_strings (tsr_kinds r)))\<rparr>,
        tg_requestIDs = tg_requestIDs g @ [tsr_request_id r],
        tg_explicitID = (if adopt then tsr_explicitID r else tg_explicitID g),
        tg_normalized = (if names then normalized else tg_normalized g)\<rparr>))"

text \<open>One row; the groups are kept with the current one first.\<close>

definition group_row :: "(string \<Rightarrow> nat list) \<Rightarrow> string \<Rightarrow> turn_source \<Rightarrow> turnGroup list \<Rightarrow> turnGroup list result" where
  "group_row ent sid r groups =
    bind_res (normalizeTurnSummary ent (tsr_summary r)) (\<lambda>normalized.
    bind_res (cleanTurnText ent (tsr_summary r)) (\<lambda>userText.
    let groups1 = (case groups of
          [] \<Rightarrow> [new_group sid r normalized userText]
        | g # _ \<Rightarrow> if starts_new (tsr_explicitID r) normalized g then new_group sid r normalized userText # groups else groups)
    in bind_res (add_request ent r normalized (hd groups1)) (\<lambda>g. Inr (g # tl groups1))))"

definition sort_tools :: "turnGroup \<Rightarrow> turnGroup" where
  "sort_tools g = g\<lparr>tg_summary := (tg_summary g)\<lparr>ts_ToolNames := sort (ts_ToolNames (tg_summary g))\<rparr>\<rparr>"

definition sessionTurnGroups :: "(string \<Rightarrow> nat list) \<Rightarrow> db \<Rightarrow> string \<Rightarrow> turnGroup list result" where
  "sessionTurnGroups ent d sid =
    bind_res (turn_rows d sid) (\<lambda>rows.
    bind_res (foldM_res (group_row ent sid) rows []) (\<lambda>groups. Inr (map sort_tools (rev groups))))"

section \<open>Pages, details and texts\<close>

record TurnPage =
  tp_Turns :: "TurnSummary list"
  tp_Total :: nat
  tp_Limit :: nat
  tp_Offset :: nat

definition SessionTurnPage :: "(string \<Rightarrow> nat list) \<Rightarrow> db \<Rightarrow> string \<Rightarrow> nat \<Rightarrow> nat \<Rightarrow> string \<Rightarrow> TurnPage result" where
  "SessionTurnPage ent d sid limit offset order =
    bind_res (sessionTurnGroups ent d sid) (\<lambda>groups0.
      let groups = (if folds_to_desc order then rev groups0 else groups0) in
      Inr \<lparr>tp_Turns = (if length groups \<le> offset then [] else map tg_summary (take (min (offset + limit) (length groups) - offset) (drop offset groups))),
          tp_Total = length groups, tp_Limit = limit, tp_Offset = offset\<rparr>)"

record TimelineEntry =
  te_Role :: string
  te_Text :: string
  te_Label :: string
  te_CallID :: string
  te_Truncated :: bool

record preview_view =
  pv_RequestID :: string
  pv_SessionID :: string
  pv_KeyID :: string
  pv_PrincipalID :: string
  pv_CredentialHash :: string
  pv_PrincipalAlias :: string
  pv_Summary :: string
  pv_RequestedModel :: string
  pv_Model :: string
  pv_Outcome :: string
  pv_StatusCode :: int
  pv_StartedAt :: string
  pv_CompletedAt :: string
  pv_Facets :: facets
  pv_Kind :: string
  pv_Entries :: "TimelineEntry list"

definition firstTimelineFacet :: "facets \<Rightarrow> string \<Rightarrow> string" where
  "firstTimelineFacet fs name = (case facet fs name of v # _ \<Rightarrow> ToLower v | [] \<Rightarrow> [])"

definition entry :: "string \<Rightarrow> string \<Rightarrow> string \<Rightarrow> string \<Rightarrow> TimelineEntry" where
  "entry role txt label callID = \<lparr>te_Role = role, te_Text = txt, te_Label = label, te_CallID = callID, te_Truncated = False\<rparr>"

definition tool_entries :: "facets \<Rightarrow> TimelineEntry list" where
  "tool_entries fs =
    map (\<lambda>(i, name).
        let ids = facet fs ''tool.call_id''; given = (if i < length ids then ids ! i else []) in
        entry ''tool_call'' [] name (if given = [] then ''tool-'' @ Itoa (i + 1) else given))
      (enumerate 0 (facet fs ''tool.name''))"

definition preview_kind :: "facets \<Rightarrow> string" where
  "preview_kind fs =
    (let k = firstTimelineFacet fs ''request.kind'' in
     if k = ''compact'' then ''compaction'' else if k = [] then ''turn'' else k)"

definition preview_of ::
  "(string \<Rightarrow> nat list) \<Rightarrow> turn_source \<Rightarrow> string \<Rightarrow> string \<Rightarrow> preview_view result" where
  "preview_of ent r sid facetsRaw =
    (let fs = decode_facets facetsRaw; kind = preview_kind fs in
     bind_res (cleanTurnText ent (tsr_preview r)) (\<lambda>txt.
       Inr \<lparr>pv_RequestID = tsr_request_id r, pv_SessionID = sid, pv_KeyID = tsr_key_id r, pv_PrincipalID = tsr_principal_id r,
         pv_CredentialHash = tsr_credential_hash r, pv_PrincipalAlias = tsr_alias r, pv_Summary = tsr_summary r,
         pv_RequestedModel = tsr_requested_model r, pv_Model = tsr_model r, pv_Outcome = tsr_outcome r, pv_StatusCode = tsr_status r,
         pv_StartedAt = retime (tsr_started_at r), pv_CompletedAt = retime (tsr_completed_at r), pv_Facets = fs, pv_Kind = kind,
         pv_Entries = (if kind = ''compaction'' then [entry ''compaction'' [] [] []] else []) @ tool_entries fs
           @ (if readableFinalPreview (tsr_preview r) then [entry ''assistant'' txt [] []] else [])\<rparr>))"

definition plain_source :: "db \<Rightarrow> rec_row \<Rightarrow> turn_source" where
  "plain_source d r =
    \<lparr>tsr_request_id = request_id r, tsr_key_id = key_id r, tsr_principal_id = principal_id r, tsr_credential_hash = credential_hash r,
     tsr_alias = alias_of d (principal_id r), tsr_summary = summary r, tsr_preview = response_preview r,
     tsr_requested_model = requested_model r, tsr_model = model r, tsr_outcome = outcome r, tsr_status = status_code r,
     tsr_started_at = started_at r, tsr_completed_at = completed_at r, tsr_explicitID = [], tsr_tools = [], tsr_kinds = []\<rparr>"

definition RequestTimelinePreview :: "(string \<Rightarrow> nat list) \<Rightarrow> db \<Rightarrow> string \<Rightarrow> preview_view result" where
  "RequestTimelinePreview ent d rid =
    (case find (\<lambda>t. t_request_id t = rid) (turn_records d) of
       Some t \<Rightarrow> preview_of ent (projected_source d t) (t_session_id t) (t_facets_json t)
     | None \<Rightarrow>
         (case find (\<lambda>r. request_id r = rid) (records d) of
            None \<Rightarrow> Inl NoRows
          | Some r \<Rightarrow> preview_of ent (plain_source d r) (session_id r) (facets_json r)))"

record TurnDetailPage =
  td_Turn :: TurnSummary
  td_Records :: "preview_view list"
  td_Total :: nat
  td_Limit :: nat
  td_Offset :: nat

definition SessionTurnDetail :: "(string \<Rightarrow> nat list) \<Rightarrow> db \<Rightarrow> string \<Rightarrow> string \<Rightarrow> nat \<Rightarrow> nat \<Rightarrow> TurnDetailPage result" where
  "SessionTurnDetail ent d sid turnID limit offset =
    bind_res (sessionTurnGroups ent d sid) (\<lambda>groups.
      case find (\<lambda>g. ts_TurnID (tg_summary g) = turnID) groups of
        None \<Rightarrow> Inl NotFound
      | Some g \<Rightarrow>
          bind_res
            (if length (tg_requestIDs g) \<le> offset then Inr []
             else map_res (RequestTimelinePreview ent d)
                    (take (min (offset + limit) (length (tg_requestIDs g)) - offset) (drop offset (tg_requestIDs g)))) (\<lambda>views.
          Inr \<lparr>td_Turn = tg_summary g, td_Records = views, td_Total = length (tg_requestIDs g), td_Limit = limit, td_Offset = offset\<rparr>))"

text \<open>The text of one request of a turn; an unreadable payload has none.\<close>

definition request_text :: "(string \<Rightarrow> nat list) \<Rightarrow> nat \<Rightarrow> db \<Rightarrow> string \<Rightarrow> string result" where
  "request_text ent n d rid =
    (case find (\<lambda>r. request_id r = rid) (records d) of
       None \<Rightarrow> Inr []
     | Some r \<Rightarrow>
         let body = (if original_ref r \<noteq> [] then (case LoadPayload n d (original_ref r) of Inr b \<Rightarrow> b | Inl _ \<Rightarrow> [])
                     else gunzipBytes (original_request_gz r))
         in bind_res (extractConversationUserText ent body) (cleanTurnText ent))"

fun full_text_loop :: "(string \<Rightarrow> nat list) \<Rightarrow> nat \<Rightarrow> db \<Rightarrow> string \<Rightarrow> string \<Rightarrow> string list \<Rightarrow> string result" where
  "full_text_loop ent n d normalized fallback [] = Inr fallback"
| "full_text_loop ent n d normalized fallback (rid # rids) =
    bind_res (request_text ent n d rid) (\<lambda>candidate.
      if candidate = [] then full_text_loop ent n d normalized fallback rids
      else
        let fallback1 = (if fallback = [] then candidate else fallback) in
        if normalized = [] then Inr candidate
        else bind_res (normalizeTurnSummary ent (compactSummary candidate)) (\<lambda>nt.
               if nt = normalized then Inr candidate else full_text_loop ent n d normalized fallback1 rids))"

definition fullTurnUserText :: "(string \<Rightarrow> nat list) \<Rightarrow> nat \<Rightarrow> db \<Rightarrow> turnGroup \<Rightarrow> string result" where
  "fullTurnUserText ent n d g = full_text_loop ent n d (tg_normalized g) [] (tg_requestIDs g)"

definition BuildTurnText :: "(string \<Rightarrow> nat list) \<Rightarrow> nat \<Rightarrow> db \<Rightarrow> string \<Rightarrow> string \<Rightarrow> string result" where
  "BuildTurnText ent n d sid turnID =
    bind_res (sessionTurnGroups ent d sid) (\<lambda>groups.
      case find (\<lambda>g. ts_TurnID (tg_summary g) = turnID) groups of
        None \<Rightarrow> Inl NotFound
      | Some g \<Rightarrow>
          bind_res (fullTurnUserText ent n d g) (\<lambda>full. Inr (if full \<noteq> [] then full else ts_UserText (tg_summary g))))"

definition CachedTurnText :: "db \<Rightarrow> string \<Rightarrow> string \<Rightarrow> string option" where
  "CachedTurnText d sid turnID =
    map_option (\<lambda>r. gunzipBytes (tt_text r)) (find (\<lambda>r. tt_session_id r = sid \<and> tt_turn_id r = turnID) (turn_texts d))"

text \<open>A nil slice is bound as \<open>NULL\<close>, which violates the constraint of \<open>text_gz\<close>.\<close>

definition SaveTurnText :: "string \<Rightarrow> string \<Rightarrow> string \<Rightarrow> db \<Rightarrow> db result" where
  "SaveTurnText sid turnID txt d =
    (case gzipBytes txt of
       NoData \<Rightarrow> Inl Fatal
     | z \<Rightarrow>
         let row = \<lparr>tt_session_id = sid, tt_turn_id = turnID, tt_text = z\<rparr> in
         Inr (d\<lparr>turn_texts := upsert (\<lambda>r. (tt_session_id r, tt_turn_id r)) (\<lambda>_. row) row (turn_texts d)\<rparr>))"

end
