(* ===== verification/Turns_Partition.thy ===== *)
theory Turns_Partition
  imports Turns Text_Safety
begin

text \<open>
  The turns of a session are a segmentation of its requests; the cached text of a turn; and two cases the view misses: a turn
  that is taken up again, and a turn without text.
\<close>

section \<open>Segmentation\<close>

definition segment_ok :: "turn_source list \<Rightarrow> turnGroup \<Rightarrow> bool" where
  "segment_ok seg g \<longleftrightarrow>
    seg \<noteq> [] \<and> tg_requestIDs g = map tsr_request_id seg \<and> ts_Requests (tg_summary g) = length seg
    \<and> list_all (\<lambda>x. tsr_explicitID x \<in> {[], tg_explicitID g}) seg
    \<and> (tg_explicitID g \<noteq> [] \<longrightarrow> ts_TurnID (tg_summary g) = tg_explicitID g)"

text \<open>The same for the group a row is added to, which may still be empty.\<close>

definition open_ok :: "turn_source list \<Rightarrow> turnGroup \<Rightarrow> bool" where
  "open_ok seg g \<longleftrightarrow>
    tg_requestIDs g = map tsr_request_id seg \<and> ts_Requests (tg_summary g) = length seg
    \<and> list_all (\<lambda>x. tsr_explicitID x \<in> {[], tg_explicitID g}) seg
    \<and> (tg_explicitID g \<noteq> [] \<longrightarrow> ts_TurnID (tg_summary g) = tg_explicitID g)"

lemma normalizeTurnSummary_total: "\<exists>t. normalizeTurnSummary ent v = Inr t"
  using cleanTurnText_total [of ent v] by (auto simp: normalizeTurnSummary_def)

lemma add_request_ok:
  assumes "open_ok seg g" and "tsr_explicitID r = [] \<or> tg_explicitID g = [] \<or> tsr_explicitID r = tg_explicitID g"
  shows "\<exists>g'. add_request ent r nt g = Inr g' \<and> segment_ok (seg @ [r]) g'"
proof -
  obtain u f where "cleanTurnText ent (tsr_summary r) = Inr u" "cleanTurnText ent (tsr_preview r) = Inr f"
    using cleanTurnText_total by blast
  with assms show ?thesis
    by (auto simp: add_request_def open_ok_def segment_ok_def Let_def list_all_iff)
qed

lemma new_group_open: "open_ok [] (new_group sid r nt u)" "tg_explicitID (new_group sid r nt u) = tsr_explicitID r"
  by (simp_all add: open_ok_def new_group_def)

lemma segment_open: "segment_ok seg g \<Longrightarrow> open_ok seg g"
  by (simp add: segment_ok_def open_ok_def)

lemma starts_new_False:
  "\<not> starts_new e nt g \<Longrightarrow> e = [] \<or> tg_explicitID g = [] \<or> e = tg_explicitID g"
  by (auto simp: starts_new_def split: if_splits)

lemma group_row_ok:
  assumes "list_all2 segment_ok segs groups"
  shows "\<exists>groups' segs'. group_row ent sid r groups = Inr groups' \<and> list_all2 segment_ok segs' groups'
    \<and> concat (rev segs') = concat (rev segs) @ [r]"
proof -
  obtain nt where nt: "normalizeTurnSummary ent (tsr_summary r) = Inr nt" using normalizeTurnSummary_total by blast
  obtain u where u: "cleanTurnText ent (tsr_summary r) = Inr u" using cleanTurnText_total by blast
  have fresh: "\<exists>g'. add_request ent r nt (new_group sid r nt u) = Inr g' \<and> segment_ok [r] g'"
    using add_request_ok [OF new_group_open(1), of r sid r nt u ent nt] by (simp add: new_group_open(2))
  show ?thesis
  proof (cases "\<exists>g gs. groups = g # gs \<and> \<not> starts_new (tsr_explicitID r) nt g")
    case True
    then obtain g gs where g: "groups = g # gs" "\<not> starts_new (tsr_explicitID r) nt g" by blast
    with assms obtain seg rest where s: "segs = seg # rest" "segment_ok seg g" "list_all2 segment_ok rest gs"
      by (auto simp: list_all2_Cons2)
    from add_request_ok [OF segment_open [OF s(2)] starts_new_False [OF g(2)]] obtain g' where
      g': "add_request ent r nt g = Inr g'" "segment_ok (seg @ [r]) g'" by blast
    have "group_row ent sid r groups = Inr (g' # gs)" using nt u g g' by (simp add: group_row_def)
    moreover have "list_all2 segment_ok ((seg @ [r]) # rest) (g' # gs)" using g' s by simp
    ultimately show ?thesis using s(1) by (intro exI conjI) auto
  next
    case False
    from fresh obtain g' where g': "add_request ent r nt (new_group sid r nt u) = Inr g'" "segment_ok [r] g'" by blast
    have "group_row ent sid r groups = Inr (g' # groups)"
      using nt u g' False by (cases groups) (auto simp: group_row_def)
    moreover have "list_all2 segment_ok ([r] # segs) (g' # groups)" using g' assms by simp
    ultimately show ?thesis by (intro exI conjI) auto
  qed
qed

lemma group_rows_ok:
  assumes "list_all2 segment_ok segs groups"
  shows "\<exists>groups' segs'. foldM_res (group_row ent sid) rows groups = Inr groups' \<and> list_all2 segment_ok segs' groups'
    \<and> concat (rev segs') = concat (rev segs) @ rows"
  using assms
proof (induction rows arbitrary: segs groups)
  case (Cons r rows)
  from group_row_ok [OF Cons.prems, of ent sid r] obtain g1 s1 where
    1: "group_row ent sid r groups = Inr g1" "list_all2 segment_ok s1 g1" "concat (rev s1) = concat (rev segs) @ [r]" by blast
  from Cons.IH [OF 1(2)] obtain g2 s2 where
    "foldM_res (group_row ent sid) rows g1 = Inr g2" "list_all2 segment_ok s2 g2" "concat (rev s2) = concat (rev s1) @ rows" by blast
  with 1 show ?case by (intro exI [of _ g2] exI [of _ s2]) simp
qed (intro exI conjI, auto)

lemma segment_ok_sort: "segment_ok seg (sort_tools g) = segment_ok seg g"
  by (simp add: segment_ok_def sort_tools_def)

text \<open>
  C21. The turns of a session partition its requests: grouping always returns, and the turns are consecutive non-empty
  stretches of the session in order, so every request belongs to exactly one turn, the counts add up, and requests that
  name different turns are never put together; a turn that is named carries that name.
\<close>

theorem turns_partition_session:
  assumes "turn_rows d sid = Inr rows"
  shows "\<exists>groups segs. sessionTurnGroups ent d sid = Inr groups \<and> concat segs = rows \<and> list_all2 segment_ok segs groups"
proof -
  from group_rows_ok [of "[]" "[]" ent sid rows] obtain groups segs where
    g: "foldM_res (group_row ent sid) rows [] = Inr groups" "list_all2 segment_ok segs groups" "concat (rev segs) = rows"
    by auto
  then have "list_all2 segment_ok (rev segs) (map sort_tools (rev groups))"
    by (simp add: list_all2_map2 segment_ok_sort list_all2_rev)
  with g(1,3) assms show ?thesis by (auto simp: sessionTurnGroups_def)
qed

section \<open>A turn taken up again\<close>

definition sample_turn :: "nat \<Rightarrow> string \<Rightarrow> string \<Rightarrow> turn_row" where
  "sample_turn n rid turn =
    \<lparr>t_id = n, t_request_id = rid, t_session_id = ''s'', t_key_id = [], t_summary = [], t_response_preview = [], t_requested_model = [],
     t_model = [], t_outcome = [], t_status_code = 200, t_started_at = [], t_completed_at = [], t_facets_json = [],
     t_principal_id = [], t_credential_hash = [], t_turn_id = turn, t_tool_names_json = [], t_request_kinds_json = []\<rparr>"

definition resumed_turn :: db where
  "resumed_turn = empty_db\<lparr>turn_records := [sample_turn 1 ''p'' ''A'', sample_turn 2 ''q'' ''B'', sample_turn 3 ''r'' ''A'']\<rparr>"

lemma resumed_turn_rows:
  "turn_rows resumed_turn ''s'' = Inr (map (projected_source resumed_turn) (turn_records resumed_turn))"
  by (simp add: turn_rows_def resumed_turn_def sample_turn_def empty_db_def less_eq_prod_def less_prod_def)

theorem turns_partition_session_witness:
  "\<exists>groups segs. sessionTurnGroups (\<lambda>_. []) resumed_turn ''s'' = Inr groups
    \<and> concat segs = map (projected_source resumed_turn) (turn_records resumed_turn) \<and> list_all2 segment_ok segs groups"
  by (rule turns_partition_session [OF resumed_turn_rows])

text \<open>
  A turn that is taken up again becomes a second group with the same identifier, and the detail view reaches only the first.
\<close>

lemma cleanTurnText_Nil: "cleanTurnText ent [] = Inr []"
  by code_simp

lemma resumed_turn_groups:
  "bind_res (sessionTurnGroups (\<lambda>_. []) resumed_turn ''s'') (\<lambda>gs. Inr (map (\<lambda>g. (ts_TurnID (tg_summary g), tg_requestIDs g)) gs)) =
    Inr [(''A'', [''p'']), (''B'', [''q'']), (''A'', [''r''])]"
  by code_simp

lemma resumed_turn_hidden:
  "bind_res (SessionTurnDetail (\<lambda>_. []) resumed_turn ''s'' ''A'' 20 0) (\<lambda>p. Inr (td_Total p, map pv_RequestID (td_Records p))) =
    Inr (1, [''p''])"
  by code_simp

section \<open>The text of a turn\<close>

lemma saved_text_cached:
  assumes "SaveTurnText sid turnID txt d = Inr d'"
  shows "CachedTurnText d' sid turnID = Some txt"
proof -
  let ?row = "\<lparr>tt_session_id = sid, tt_turn_id = turnID, tt_text = Stream txt\<rparr>"
  have d': "d' = d\<lparr>turn_texts := upsert (\<lambda>r. (tt_session_id r, tt_turn_id r)) (\<lambda>_. ?row) ?row (turn_texts d)\<rparr>"
    using assms by (auto simp: SaveTurnText_def gzipBytes_def Let_def split: if_splits)
  have upd: "\<exists>r \<in> set rows. (tt_session_id r, tt_turn_id r) = (sid, turnID) \<Longrightarrow>
    find (\<lambda>r. tt_session_id r = sid \<and> tt_turn_id r = turnID)
      (map (\<lambda>r. if (tt_session_id r, tt_turn_id r) = (sid, turnID) then ?row else r) rows) = Some ?row" for rows
    by (induction rows) auto
  have app: "\<not> (\<exists>r \<in> set rows. (tt_session_id r, tt_turn_id r) = (sid, turnID)) \<Longrightarrow>
    find (\<lambda>r. tt_session_id r = sid \<and> tt_turn_id r = turnID) (rows @ [?row]) = Some ?row" for rows
    by (induction rows) auto
  have "find (\<lambda>r. tt_session_id r = sid \<and> tt_turn_id r = turnID) (turn_texts d') = Some ?row"
    using upd [of "turn_texts d"] app [of "turn_texts d"] by (auto simp: d' upsert_def)
  then show ?thesis by (simp add: CachedTurnText_def gunzipBytes_def gunzipBytesChecked_def)
qed

lemma SaveTurnText_empty: "SaveTurnText sid turnID [] d = Inl Fatal"
  by (simp add: SaveTurnText_def gzipBytes_def)

end
