(* ===== verification/Turn_Texts.thy ===== *)
theory Turn_Texts
  imports Turns_Partition
begin

text \<open>
  The turn-text endpoint of the collector (\<open>turnText\<close> in \<open>cmd/cpa-session-collector/main.go\<close>): a cached text is
  answered at once, otherwise a background job is started, at most one per session and turn, that builds the text and
  saves it. The requests, the two halves of a job and the rest of the archive interleave.
\<close>

section \<open>The handler and its jobs\<close>

datatype text_answer = BadRequest | TextOk string | Building

datatype job_phase = Started | Built string

record text_server =
  tx_db :: db
  tx_jobs :: "string list"
  tx_running :: "(string \<times> string \<times> job_phase) list"

definition jobID :: "string \<Rightarrow> string \<Rightarrow> string" where
  "jobID sid turnID = sid @ [CHR 0x00] @ turnID"

definition turnText :: "string \<Rightarrow> string \<Rightarrow> text_server \<Rightarrow> text_answer \<times> text_server" where
  "turnText qs qt s =
    (let sid = TrimSpace qs; turnID = TrimSpace qt in
     if sid = [] \<or> turnID = [] then (BadRequest, s)
     else case CachedTurnText (tx_db s) sid turnID of
       Some t \<Rightarrow> (TextOk t, s)
     | None \<Rightarrow>
         (Building,
          if jobID sid turnID \<in> set (tx_jobs s) then s
          else s\<lparr>tx_jobs := jobID sid turnID # tx_jobs s, tx_running := (sid, turnID, Started) # tx_running s\<rparr>))"

text \<open>The first half of a job reads the archive, the second writes the cache; both give up on an error, and the job's mark goes.\<close>

definition finish :: "string \<Rightarrow> string \<Rightarrow> job_phase \<Rightarrow> text_server \<Rightarrow> text_server" where
  "finish sid turnID p s =
    s\<lparr>tx_jobs := removeAll (jobID sid turnID) (tx_jobs s), tx_running := remove1 (sid, turnID, p) (tx_running s)\<rparr>"

definition job_build :: "(string \<Rightarrow> nat list) \<Rightarrow> nat \<Rightarrow> string \<Rightarrow> string \<Rightarrow> text_server \<Rightarrow> text_server" where
  "job_build ent n sid turnID s =
    (case BuildTurnText ent n (tx_db s) sid turnID of
       Inl _ \<Rightarrow> finish sid turnID Started s
     | Inr t \<Rightarrow> s\<lparr>tx_running := (sid, turnID, Built t) # remove1 (sid, turnID, Started) (tx_running s)\<rparr>)"

definition job_save :: "string \<Rightarrow> string \<Rightarrow> string \<Rightarrow> text_server \<Rightarrow> text_server" where
  "job_save sid turnID t s =
    finish sid turnID (Built t)
      (case SaveTurnText sid turnID t (tx_db s) of Inl _ \<Rightarrow> s | Inr d \<Rightarrow> s\<lparr>tx_db := d\<rparr>)"

text \<open>The archive around the endpoint changes in any way that leaves the cache alone. The history collects the databases a job has read.\<close>

inductive text_step :: "(string \<Rightarrow> nat list) \<Rightarrow> nat \<Rightarrow> text_server \<times> db list \<Rightarrow> text_server \<times> db list \<Rightarrow> bool"
  for ent n where
  ask: "text_step ent n (s, h) (snd (turnText qs qt s), h)"
| build: "(sid, turnID, Started) \<in> set (tx_running s) \<Longrightarrow>
    text_step ent n (s, h) (job_build ent n sid turnID s, tx_db s # h)"
| save: "(sid, turnID, Built t) \<in> set (tx_running s) \<Longrightarrow> text_step ent n (s, h) (job_save sid turnID t s, h)"
| archive: "turn_texts d = turn_texts (tx_db s) \<Longrightarrow> text_step ent n (s, h) (s\<lparr>tx_db := d\<rparr>, h)"

inductive_simps text_step_simps: "text_step ent n x y"

section \<open>The invariant\<close>

definition built :: "(string \<Rightarrow> nat list) \<Rightarrow> nat \<Rightarrow> db list \<Rightarrow> string \<Rightarrow> string \<Rightarrow> string \<Rightarrow> bool" where
  "built ent n h sid turnID t \<longleftrightarrow> (\<exists>d \<in> set h. BuildTurnText ent n d sid turnID = Inr t)"

abbreviation job_of :: "string \<times> string \<times> job_phase \<Rightarrow> string" where
  "job_of j \<equiv> jobID (fst j) (fst (snd j))"

definition texts_ok :: "(string \<Rightarrow> nat list) \<Rightarrow> nat \<Rightarrow> text_server \<Rightarrow> db list \<Rightarrow> bool" where
  "texts_ok ent n s h \<longleftrightarrow>
    distinct (map job_of (tx_running s)) \<and> set (tx_jobs s) = job_of ` set (tx_running s)
    \<and> (\<forall>sid turnID t. (sid, turnID, Built t) \<in> set (tx_running s) \<longrightarrow> built ent n h sid turnID t)
    \<and> (\<forall>sid turnID t. CachedTurnText (tx_db s) sid turnID = Some t \<longrightarrow> t \<noteq> [] \<and> built ent n h sid turnID t)"

lemma distinct_map_remove1:
  assumes "distinct (map f xs)" and "x \<in> set xs"
  shows "distinct (map f (remove1 x xs))" and "f ` set (remove1 x xs) = f ` set xs - {f x}"
proof -
  from assms(1) have d: "distinct xs" and i: "inj_on f (set xs)" by (simp_all add: distinct_map)
  then have e: "set (remove1 x xs) = set xs - {x}" by simp
  show "distinct (map f (remove1 x xs))"
    using d i by (simp add: distinct_map e) (meson Diff_subset inj_on_subset)
  show "f ` set (remove1 x xs) = f ` set xs - {f x}"
    using inj_on_image_set_diff [OF i, of "set xs" "{x}"] assms(2) by (simp add: e)
qed

lemma in_remove1D: "x \<in> set (remove1 y xs) \<Longrightarrow> x \<in> set xs"
  using set_remove1_subset by fastforce

lemma built_Cons: "built ent n h sid turnID t \<Longrightarrow> built ent n (d # h) sid turnID t"
  by (auto simp: built_def)

lemma texts_ok_Cons: "texts_ok ent n s h \<Longrightarrow> texts_ok ent n s (d # h)"
  unfolding texts_ok_def by (blast intro: built_Cons)

lemma finish_simps [simp]:
  "tx_db (finish sid turnID p s) = tx_db s"
  "tx_running (finish sid turnID p s) = remove1 (sid, turnID, p) (tx_running s)"
  "set (tx_jobs (finish sid turnID p s)) = set (tx_jobs s) - {jobID sid turnID}"
  by (simp_all add: finish_def)

lemma finish_ok:
  assumes "texts_ok ent n s h" and "(sid, turnID, p) \<in> set (tx_running s)"
  shows "texts_ok ent n (finish sid turnID p s) h"
  using assms distinct_map_remove1 [of job_of "tx_running s" "(sid, turnID, p)"]
  by (auto simp: texts_ok_def dest: in_remove1D)

lemma turnText_ok: "texts_ok ent n s h \<Longrightarrow> texts_ok ent n (snd (turnText qs qt s)) h"
  by (auto simp: texts_ok_def turnText_def Let_def split: option.splits)

lemma job_build_ok:
  assumes "texts_ok ent n s h" and "(sid, turnID, Started) \<in> set (tx_running s)"
  shows "texts_ok ent n (job_build ent n sid turnID s) (tx_db s # h)"
proof (cases "BuildTurnText ent n (tx_db s) sid turnID")
  case (Inl e)
  then show ?thesis using finish_ok [OF assms] by (simp add: job_build_def texts_ok_Cons)
next
  case (Inr t)
  then have "built ent n (tx_db s # h) sid turnID t" by (simp add: built_def)
  moreover have "jobID sid turnID \<in> job_of ` set (tx_running s)" using assms(2) by force
  ultimately show ?thesis
    using texts_ok_Cons [OF assms(1), of "tx_db s"] assms(2) distinct_map_remove1 [of job_of "tx_running s" "(sid, turnID, Started)"] Inr
    by (auto simp: texts_ok_def job_build_def dest: in_remove1D)
qed

lemma SaveTurnText_find:
  assumes "SaveTurnText sid turnID t d = Inr d'" and "(sid', turnID') \<noteq> (sid, turnID)"
  shows "CachedTurnText d' sid' turnID' = CachedTurnText d sid' turnID'"
proof -
  let ?row = "\<lparr>tt_session_id = sid, tt_turn_id = turnID, tt_text = Stream t\<rparr>"
  have d': "d' = d\<lparr>turn_texts := upsert (\<lambda>r. (tt_session_id r, tt_turn_id r)) (\<lambda>_. ?row) ?row (turn_texts d)\<rparr>"
    using assms(1) by (auto simp: SaveTurnText_def gzipBytes_def Let_def split: if_splits)
  have "find (\<lambda>r. tt_session_id r = sid' \<and> tt_turn_id r = turnID')
      (map (\<lambda>r. if (tt_session_id r, tt_turn_id r) = (sid, turnID) then ?row else r) rows)
    = find (\<lambda>r. tt_session_id r = sid' \<and> tt_turn_id r = turnID') rows"
    "find (\<lambda>r. tt_session_id r = sid' \<and> tt_turn_id r = turnID') (rows @ [?row])
    = find (\<lambda>r. tt_session_id r = sid' \<and> tt_turn_id r = turnID') rows" for rows
    using assms(2) by (induction rows) auto
  then show ?thesis by (auto simp: CachedTurnText_def d' upsert_def)
qed

lemma SaveTurnText_nonempty: "SaveTurnText sid turnID t d = Inr d' \<Longrightarrow> t \<noteq> []"
  using SaveTurnText_empty [of sid turnID d] by auto

lemma job_save_ok:
  assumes "texts_ok ent n s h" and "(sid, turnID, Built t) \<in> set (tx_running s)"
  shows "texts_ok ent n (job_save sid turnID t s) h"
proof (cases "SaveTurnText sid turnID t (tx_db s)")
  case (Inl e)
  then show ?thesis using finish_ok [OF assms] by (simp add: job_save_def)
next
  case (Inr d)
  have "u \<noteq> [] \<and> built ent n h sid' turnID' u" if c: "CachedTurnText d sid' turnID' = Some u" for sid' turnID' u
  proof (cases "(sid', turnID') = (sid, turnID)")
    case True
    with c Inr saved_text_cached have "u = t" by fastforce
    with True assms SaveTurnText_nonempty [OF Inr] show ?thesis by (simp add: texts_ok_def)
  next
    case False
    with SaveTurnText_find [OF Inr] c assms show ?thesis by (simp add: texts_ok_def)
  qed
  with assms have "texts_ok ent n (s\<lparr>tx_db := d\<rparr>) h" by (simp add: texts_ok_def)
  with finish_ok [of ent n "s\<lparr>tx_db := d\<rparr>" h sid turnID "Built t"] assms(2) Inr show ?thesis
    by (simp add: job_save_def)
qed

lemma text_step_ok: "text_step ent n x y \<Longrightarrow> texts_ok ent n (fst x) (snd x) \<Longrightarrow> texts_ok ent n (fst y) (snd y)"
proof (induction rule: text_step.induct)
  case (archive d s h)
  then have "CachedTurnText d = CachedTurnText (tx_db s)" by (intro ext) (simp add: CachedTurnText_def)
  with archive.prems show ?case by (simp add: texts_ok_def)
qed (simp_all add: turnText_ok job_build_ok job_save_ok)

lemma text_steps_ok:
  "(text_step ent n)\<^sup>*\<^sup>* x y \<Longrightarrow> texts_ok ent n (fst x) (snd x) \<Longrightarrow> texts_ok ent n (fst y) (snd y)"
  by (induction rule: rtranclp_induct) (auto dest: text_step_ok)

definition text_start :: "db \<Rightarrow> text_server" where
  "text_start d = \<lparr>tx_db = d, tx_jobs = [], tx_running = []\<rparr>"

lemma text_start_ok: "turn_texts d = [] \<Longrightarrow> texts_ok ent n (text_start d) h"
  by (simp add: texts_ok_def text_start_def CachedTurnText_def)

section \<open>What the endpoint answers\<close>

text \<open>
  C22. However requests, jobs and archive writes interleave, a text that the endpoint answers for a turn is the one that was
  built for that session and turn from a state of the archive, it is never empty, and no two jobs run for the same turn.
\<close>

theorem turn_text_sound:
  assumes "turn_texts d = []" and "(text_step ent n)\<^sup>*\<^sup>* (text_start d, []) (s, h)"
  shows "distinct (map (\<lambda>(sid, turnID, _). jobID sid turnID) (tx_running s))
    \<and> (\<forall>qs qt t. fst (turnText qs qt s) = TextOk t \<longrightarrow>
        t \<noteq> [] \<and> (\<exists>d' \<in> set h. BuildTurnText ent n d' (TrimSpace qs) (TrimSpace qt) = Inr t))"
proof -
  from text_steps_ok [OF assms(2)] text_start_ok [OF assms(1)] have ok: "texts_ok ent n s h" by simp
  moreover have "(\<lambda>(sid, turnID, _). jobID sid turnID) = job_of" by auto
  ultimately show ?thesis
    by (auto simp: texts_ok_def turnText_def Let_def built_def split: if_splits option.splits)
qed

text \<open>
  C23. A text that can be built is served: the first request starts the job, and after its two halves the next request is
  answered with that text.
\<close>

theorem turn_text_served:
  assumes "TrimSpace qs = sid" and "TrimSpace qt = turnID" and "sid \<noteq> []" and "turnID \<noteq> []"
    and "CachedTurnText (tx_db s) sid turnID = None" and "jobID sid turnID \<notin> set (tx_jobs s)"
    and "BuildTurnText ent n (tx_db s) sid turnID = Inr t" and "t \<noteq> []"
  shows "let s1 = snd (turnText qs qt s); s2 = job_build ent n sid turnID s1; s3 = job_save sid turnID t s2 in
    fst (turnText qs qt s) = Building \<and> (sid, turnID, Started) \<in> set (tx_running s1)
    \<and> (sid, turnID, Built t) \<in> set (tx_running s2) \<and> fst (turnText qs qt s3) = TextOk t"
proof -
  obtain d where d: "SaveTurnText sid turnID t (tx_db s) = Inr d"
    using assms(8) by (auto simp: SaveTurnText_def gzipBytes_def Let_def)
  from assms d saved_text_cached [OF d] show ?thesis
    by (simp add: Let_def turnText_def job_build_def job_save_def)
qed

section \<open>Examples\<close>

definition worded_turn :: db where
  "worded_turn = empty_db\<lparr>turn_records := [(sample_turn 1 ''p'' ''A'')\<lparr>t_summary := ''h''\<rparr>]\<rparr>"

lemma sample_trims: "TrimSpace ''s'' = ''s''" "TrimSpace ''A'' = ''A''" "TrimSpace ''h'' = ''h''" "TrimSpace [] = []"
  by (simp_all add: TrimSpace_def runes_ascii rune_of_ascii is_space_def)

lemma sample_lower_h: "ToLower ''h'' = ''h''"
  by (simp add: ToLower_ascii lower_rune_def char_of_eq_iff)

lemma sample_unescape: "unescapeDisplayText (\<lambda>_. []) ''h'' = ''h''"
  by (simp add: unescapeDisplayText_def eval_nat_numeral UnescapeString.simps)

lemma clean_h: "cleanTurnText (\<lambda>_. []) ''h'' = Inr ''h''"
  by (simp add: cleanTurnText_def sample_lower_h sample_unescape sample_trims HasPrefix_def HasSuffix_def)

lemma clean_Nil: "cleanTurnText (\<lambda>_. []) [] = Inr []"
  by code_simp

lemma worded_turn_text: "BuildTurnText (\<lambda>_. []) n worded_turn ''s'' ''A'' = Inr ''h''"
proof -
  obtain nt where "normalizeTurnSummary (\<lambda>_. []) ''h'' = Inr nt" using normalizeTurnSummary_total by blast
  then show ?thesis
    by (simp add: BuildTurnText_def sessionTurnGroups_def turn_rows_def worded_turn_def sample_turn_def empty_db_def
        group_row_def add_request_def new_group_def projected_source_def clean_h clean_Nil sort_tools_def fullTurnUserText_def
        request_text_def Let_def)
qed

lemma text_start_simps [simp]: "tx_db (text_start d) = d" "tx_jobs (text_start d) = []"
  by (simp_all add: text_start_def)

lemma worded_turn_uncached: "turn_texts worded_turn = []" "CachedTurnText worded_turn sid turnID = None"
  by (simp_all add: CachedTurnText_def worded_turn_def empty_db_def)

theorem turn_text_served_witness:
  "let s = text_start worded_turn; s1 = snd (turnText ''s'' ''A'' s); s2 = job_build (\<lambda>_. []) 1 ''s'' ''A'' s1;
      s3 = job_save ''s'' ''A'' ''h'' s2 in
    fst (turnText ''s'' ''A'' s) = Building \<and> fst (turnText ''s'' ''A'' s3) = TextOk ''h''"
  using turn_text_served [of "''s''" "''s''" "''A''" "''A''" "text_start worded_turn" "\<lambda>_. []" 1 "''h''"]
  by (simp add: sample_trims worded_turn_uncached worded_turn_text Let_def)

theorem turn_text_sound_witness:
  "distinct (map (\<lambda>(sid, turnID, _). jobID sid turnID) (tx_running (snd (turnText ''s'' ''A'' (text_start worded_turn)))))"
  using turn_text_sound [of worded_turn "\<lambda>_. []" 1 "snd (turnText ''s'' ''A'' (text_start worded_turn))" "[]",
      OF worded_turn_uncached(1) r_into_rtranclp [of "text_step (\<lambda>_. []) 1", OF text_step.ask]]
  by simp

end
