(* ===== verification/Export.thy ===== *)
theory Export
  imports Read_Side
begin

text \<open>
  What the exports of \<open>Read_Side\<close> write: the batched, cached and prefetching session export writes exactly the lines of
  the plain loop over the rows of the session in (start, id) order, and the full archive is the concatenation of
  its sessions.
\<close>

section \<open>The plain loop\<close>

definition plain_line :: "nat \<Rightarrow> db \<Rightarrow> rec_row \<Rightarrow> string result" where
  "plain_line n d r =
    bind_res (column_payload n d (original_ref r) (original_request_gz r)) (\<lambda>original.
    bind_res (column_payload n d (response_ref r) (response_gz r)) (\<lambda>response.
      encode_training ((scan_row d r)\<lparr>OriginalRequest := original, Response := response\<rparr>)
        (facets_value (facets_json r))))"

fun emit_plain :: "nat \<Rightarrow> db \<Rightarrow> rec_row list \<Rightarrow> string \<Rightarrow> string \<times> err option" where
  "emit_plain n d [] out = (out, None)"
| "emit_plain n d (r # rs) out =
    (case plain_line n d r of Inl e \<Rightarrow> (out, Some e) | Inr line \<Rightarrow> emit_plain n d rs (out @ line))"

definition rows_of :: "db \<Rightarrow> string \<Rightarrow> rec_row list" where
  "rows_of d sid = sort_key row_key (filter (\<lambda>r. session_id r = sid) (records d))"

lemma emit_plain_append:
  "emit_plain n d (rs @ rs') out =
    (case emit_plain n d rs out of (out', Some e) \<Rightarrow> (out', Some e) | (out', None) \<Rightarrow> emit_plain n d rs' out')"
  by (induction rs arbitrary: out) (auto split: sum.split)

lemma cached_column_agrees: "pcache.agrees d (cached_column n d ref old) (column_payload n d ref old)"
  by (simp add: cached_column_def column_payload_def loadPayloadWithCache_agrees pcache.agrees_pure)

lemma encodeArchiveExportRow_agrees: "pcache.agrees d (encodeArchiveExportRow n d r) (plain_line n d r)"
  unfolding encodeArchiveExportRow_def plain_line_def
  by (intro pcache.agrees_bind cached_column_agrees pcache.agrees_pure)

lemma emit_rows_plain: "cache_ok d c \<Longrightarrow> emit_rows n d rs c out = emit_plain n d rs out"
proof (induction rs arbitrary: c out)
  case (Cons r rs)
  obtain x c' where e: "encodeArchiveExportRow n d r c = (x, c')" by (cases "encodeArchiveExportRow n d r c")
  with encodeArchiveExportRow_agrees [of d n r] Cons.prems have "x = plain_line n d r" "cache_ok d c'"
    by (auto simp: pcache.agrees_def)
  with Cons.IH e show ?case by (simp split: sum.split)
qed simp

section \<open>Seeking\<close>

lemma rows_after_filter: "rows_after d sid cur = filter (\<lambda>r. cur < row_key r) (rows_of d sid)"
  by (cases cur) (auto simp: rows_after_def rows_of_def filter_sort row_key_def intro!: arg_cong [of _ _ "sort_key row_key"] filter_cong)

lemma rows_of_strict:
  assumes "distinct (map r_id (records d))"
  shows "sorted_wrt (<) (map row_key (rows_of d sid))"
proof -
  have "distinct (map r_id (filter (\<lambda>r. session_id r = sid) (records d)))"
    using assms by (simp add: distinct_map_filter)
  then have "distinct (map row_key (filter (\<lambda>r. session_id r = sid) (records d)))"
    by (auto simp: distinct_map inj_on_def row_key_def)
  then have "distinct (map row_key (rows_of d sid))"
    by (simp add: rows_of_def distinct_map inj_on_def distinct_sort)
  then show ?thesis by (simp add: rows_of_def strict_sorted_iff)
qed

lemma filter_greater_drop:
  fixes f :: "'a \<Rightarrow> 'b::linorder"
  assumes "sorted_wrt (<) (map f xs)" and "0 < k" and "k \<le> length xs"
  shows "filter (\<lambda>x. f (xs ! (k - 1)) < f x) xs = drop k xs"
proof -
  have split: "filter P xs = filter P (take k xs) @ filter P (drop k xs)" for P
    by (metis append_take_drop_id filter_append)
  have le: "i < j \<Longrightarrow> j < length xs \<Longrightarrow> f (xs ! i) < f (xs ! j)" for i j
    using assms(1) by (simp add: sorted_wrt_iff_nth_less)
  have "\<not> f (xs ! (k - 1)) < f x" if "x \<in> set (take k xs)" for x
  proof -
    from that obtain i where i: "i < k" "x = xs ! i" by (auto simp: in_set_conv_nth)
    with le [of i "k - 1"] assms(2,3) show ?thesis by (cases "i = k - 1") (auto dest: order.asym)
  qed
  moreover have "f (xs ! (k - 1)) < f x" if "x \<in> set (drop k xs)" for x
  proof -
    from that obtain i where "i < length xs - k" "x = xs ! (k + i)" by (auto simp: in_set_conv_nth)
    with le [of "k - 1" "k + i"] assms(2,3) show ?thesis by simp
  qed
  ultimately have "filter (\<lambda>x. f (xs ! (k - 1)) < f x) (take k xs) = []"
    "filter (\<lambda>x. f (xs ! (k - 1)) < f x) (drop k xs) = drop k xs"
    by (auto intro: filter_False filter_True)
  with split show ?thesis by (metis append_Nil)
qed

lemma rows_after_last:
  assumes "distinct (map r_id (records d))" and "0 < k" and "k \<le> length (rows_after d sid cur)"
  shows "rows_after d sid (row_key (rows_after d sid cur ! (k - 1))) = drop k (rows_after d sid cur)"
proof -
  let ?xs = "rows_after d sid cur"
  let ?r = "?xs ! (k - 1)"
  have s: "sorted_wrt (<) (map row_key ?xs)"
    using rows_of_strict [OF assms(1)] by (simp add: rows_after_filter sorted_wrt_map sorted_wrt_filter)
  have "?r \<in> set ?xs" using assms(2,3) by simp
  then have "cur < row_key ?r" by (simp add: rows_after_filter)
  then have "filter (\<lambda>r. row_key ?r < row_key r) (rows_of d sid) = filter (\<lambda>r. row_key ?r < row_key r) ?xs"
    by (auto simp: rows_after_filter intro!: filter_cong dest: less_trans)
  then show ?thesis
    unfolding rows_after_filter [of d sid "row_key ?r"] using filter_greater_drop [OF s assms(2,3)] by simp
qed

lemma fill_batch_all: "\<not> snd (fill_batch w b rs) \<Longrightarrow> fst (fill_batch w b rs) = rs"
  by (induction w b rs rule: fill_batch.induct) (auto simp: split_beta split: if_splits)

lemma batches_plain:
  assumes "distinct (map r_id (records d))" and "distinct (map bl_hash (blobs d))" and "all_readable d"
  shows "exportSessionArchiveBatches glen n d sid cur out = emit_plain n d (rows_after d sid cur) out"
  using assms
proof (induction glen n d sid cur out rule: exportSessionArchiveBatches.induct)
  case (1 glen n d sid cur out)
  let ?all = "rows_after d sid cur"
  let ?rows = "take archiveExportBatchSize ?all"
  let ?fb = "fill_batch (residentBytes glen d) 0 ?rows"
  obtain batch limited where fb: "?fb = (batch, limited)" by (cases ?fb)
  obtain c where c: "prefetchArchivePayloads d batch empty_cache = Inr c"
    using prefetch_closure_ok(2) [OF "1.prems"(2) cache_ok_empty "1.prems"(3)]
    by (auto simp: prefetchArchivePayloads_def)
  then have emit: "emit_rows n d batch c out = emit_plain n d batch out"
    using prefetch_closure_ok(1) [OF "1.prems"(2) cache_ok_empty] emit_rows_plain
    by (auto simp: prefetchArchivePayloads_def)
  obtain k where k: "batch = take k ?rows" using fill_batch_prefix [of "residentBytes glen d" 0 ?rows] fb by auto
  define m where "m = length batch"
  have m: "batch = take m ?all" "m \<le> length ?all" by (auto simp: k m_def min_def)
  have split: "emit_plain n d ?all out = (case emit_plain n d batch out of
      (out', Some e) \<Rightarrow> (out', Some e) | (out', None) \<Rightarrow> emit_plain n d (drop m ?all) out')"
    using emit_plain_append [of n d "take m ?all" "drop m ?all" out] by (simp add: m(1))
  obtain out' e where run: "emit_plain n d batch out = (out', e)" by (cases "emit_plain n d batch out")
  note step = exportSessionArchiveBatches.simps [of glen n d sid cur out] fb c emit run
  show ?case
  proof (cases "e \<noteq> None \<or> (length batch < archiveExportBatchSize \<and> \<not> limited)")
    case True
    moreover have "?all = batch" if "length batch < archiveExportBatchSize" "\<not> limited"
    proof -
      have "batch = ?rows" using fill_batch_all [of "residentBytes glen d" 0 ?rows] fb that(2) by simp
      with that(1) show ?thesis by simp
    qed
    ultimately show ?thesis using split run by (auto simp: step split: option.splits)
  next
    case False
    then have e: "e = None" and go: "\<not> (length batch < archiveExportBatchSize \<and> \<not> limited)" by auto
    have "batch \<noteq> []" using go fill_batch_limited [of "residentBytes glen d" 0 ?rows] fb
      by (auto simp: archiveExportBatchSize_def)
    then have pos: "0 < m" by (simp add: m_def)
    have "last batch = ?all ! (m - 1)"
      using \<open>batch \<noteq> []\<close> m pos by (metis last_conv_nth m_def nth_take diff_less zero_less_one)
    then have next_rows: "rows_after d sid (row_key (last batch)) = drop m ?all"
      using rows_after_last [OF "1.prems"(1) pos m(2)] by simp
    have "exportSessionArchiveBatches glen n d sid (row_key (last batch)) out' =
        emit_plain n d (rows_after d sid (row_key (last batch))) out'"
      by (rule "1.IH" [OF refl refl fb [symmetric] c _ e go "1.prems"]) (simp add: emit run e)
    then show ?thesis using split run by (simp add: step e go next_rows)
  qed
qed

lemma seek_start:
  assumes "\<forall>r \<in> set (records d). 0 < r_id r"
  shows "rows_after d sid ([], 0) = rows_of d sid"
proof -
  have "([], 0) < row_key r" if "r \<in> set (records d)" for r
    using assms that by (cases "started_at r") (auto simp: row_key_def)
  then show ?thesis by (auto simp: rows_after_filter rows_of_def filter_id_conv)
qed

section \<open>What is exported\<close>

text \<open>
  C8. The session export walks the rows in bounded batches behind a seek cursor, prefetches payloads and reads
  them through a cache; it terminates, and on an archive without corrupt blobs it writes exactly what the plain loop over
  the rows of the session in (start, id) order writes: every record once, in order, up to the same error.
\<close>

theorem session_export_exact:
  assumes "distinct (map r_id (records d))" and "distinct (map bl_hash (blobs d))" and "all_readable d"
    and "\<forall>r \<in> set (records d). 0 < r_id r" and "sid \<noteq> []"
  shows "ExportArchiveJSONL glen n up d sid = emit_plain n d (rows_of d sid) []"
  using batches_plain [OF assms(1-3)] seek_start [OF assms(4)] assms(5) by (simp add: ExportArchiveJSONL_def)

lemma find_record_row:
  "distinct (map request_id (records d)) \<Longrightarrow> r \<in> set (records d) \<Longrightarrow> find_record d (request_id r) = Some r"
proof -
  have "distinct (map request_id rs) \<Longrightarrow> r \<in> set rs \<Longrightarrow> find (\<lambda>x. request_id x = request_id r) rs = Some r" for rs
    by (induction rs) (auto intro: rev_image_eqI)
  then show "distinct (map request_id (records d)) \<Longrightarrow> r \<in> set (records d) \<Longrightarrow> ?thesis" by (simp add: find_record_def)
qed

lemma encode_training_upstream [simp]:
  "encode_training (x\<lparr>OriginalRequest := a, UpstreamRequest := b, Response := c\<rparr>) f =
    encode_training (x\<lparr>OriginalRequest := a, Response := c\<rparr>) f"
  by (simp add: encode_training_def TrainingRecord_def)

text \<open>A record whose upstream payload is readable, if it has one.\<close>

definition upstream_readable :: "nat \<Rightarrow> db \<Rightarrow> rec_row \<Rightarrow> bool" where
  "upstream_readable n d r \<longleftrightarrow> upstream_ref r = [] \<or> (\<exists>x. LoadPayload n d (upstream_ref r) = Inr x)"

lemma request_line:
  assumes "upstream_readable n d r"
  shows "bind_res (load_row n up d r) (\<lambda>(x, facets). encode_training x facets) = plain_line n d r"
proof -
  obtain u where "(if upstream_ref r \<noteq> [] then LoadPayload n d (upstream_ref r)
       else Inr (if up then gunzipBytes (upstream_request_gz r) else [])) = Inr u"
    using assms by (cases "upstream_ref r = []") (auto simp: upstream_readable_def)
  then show ?thesis
    unfolding load_row_def plain_line_def
    by (cases "column_payload n d (original_ref r) (original_request_gz r)";
        cases "column_payload n d (response_ref r) (response_gz r)") simp_all
qed

lemma emit_requests_plain:
  assumes "distinct (map request_id (records d))" and "\<forall>r \<in> set (records d). upstream_readable n d r"
  shows "set rs \<subseteq> set (records d) \<Longrightarrow> emit_requests n up d (map request_id rs) out = emit_plain n d rs out"
proof (induction rs arbitrary: out)
  case (Cons r rs)
  then have "find_record d (request_id r) = Some r" "upstream_readable n d r"
    using assms by (auto simp: find_record_row)
  with Cons request_line [of n d r up] show ?case
    by (simp add: requestWithQuery_def split: sum.split)
qed simp

definition session_ids :: "db \<Rightarrow> string list" where
  "session_ids d = sort (remdups (map session_id (records d)))"

text \<open>Sorting by session, start and id lists the sessions one after the other.\<close>

lemma sorted_by_session:
  assumes "distinct (map r_id (records d))"
  shows "sort_key (\<lambda>r. (session_id r, started_at r, r_id r)) (records d) = concat (map (rows_of d) (session_ids d))"
proof -
  let ?key = "\<lambda>r. (session_id r, started_at r, r_id r)"
  let ?xs = "concat (map (rows_of d) (session_ids d))"
  have set: "set ?xs = set (records d)" by (auto simp: rows_of_def session_ids_def)
  have in_session: "r \<in> set (rows_of d s) \<Longrightarrow> session_id r = s" for r s by (simp add: rows_of_def)
  have one: "sorted_wrt (<) (map ?key (rows_of d s))" for s
  proof -
    have "sorted_wrt (\<lambda>a b. row_key a < row_key b) (rows_of d s)"
      using rows_of_strict [OF assms, of s] by (simp add: sorted_wrt_map)
    then have "sorted_wrt (\<lambda>a b. ?key a < ?key b) (rows_of d s)"
      by (rule sorted_wrt_mono_rel [rotated]) (auto simp: row_key_def dest!: in_session)
    then show ?thesis by (simp add: sorted_wrt_map)
  qed
  have "sorted_wrt (<) (map ?key (concat (map (rows_of d) ss)))" if "sorted_wrt (<) ss" for ss
    using that
  proof (induction ss)
    case (Cons s ss)
    then show ?case using one [of s] by (auto simp: sorted_wrt_append dest!: in_session)
  qed simp
  moreover have "sorted_wrt (<) (session_ids d)" by (simp add: session_ids_def strict_sorted_iff)
  ultimately have strict: "sorted_wrt (<) (map ?key ?xs)" by blast
  have inj: "inj_on ?key (set (records d))" and dr: "distinct (records d)"
    using assms by (auto simp: distinct_map inj_on_def)
  have "map ?key (sort_key ?key (records d)) = map ?key ?xs"
  proof (rule sorted_distinct_set_unique)
    show "distinct (map ?key (sort_key ?key (records d)))" using inj dr by (simp add: distinct_map)
    show "distinct (map ?key ?xs)" "sorted (map ?key ?xs)" using strict by (simp_all only: strict_sorted_iff)
    show "set (map ?key (sort_key ?key (records d))) = set (map ?key ?xs)" using set by (simp only: set_map set_sort)
  qed simp
  then show ?thesis
    by (rule map_inj_on) (use inj set in \<open>simp only: set_sort Un_absorb\<close>)
qed

lemma emit_sessions:
  assumes "\<And>s. s \<in> set ss \<Longrightarrow> snd (emit_plain n d (rows_of d s) []) = None"
  shows "emit_plain n d (concat (map (rows_of d) ss)) out =
    (out @ concat (map (\<lambda>s. fst (emit_plain n d (rows_of d s) [])) ss), None)"
proof -
  have shift: "emit_plain n d rs out = (out @ fst (emit_plain n d rs []), snd (emit_plain n d rs []))" for rs out
  proof (induction rs arbitrary: out)
    case (Cons r rs)
    show ?case
    proof (cases "plain_line n d r")
      case (Inr line)
      then show ?thesis using Cons.IH [of "out @ line"] Cons.IH [of line] by simp
    qed simp
  qed simp
  show ?thesis using assms
  proof (induction ss arbitrary: out)
    case (Cons s ss)
    have "emit_plain n d (rows_of d s) out = (out @ fst (emit_plain n d (rows_of d s) []), None)"
      using shift [of "rows_of d s" out] Cons.prems [of s] by simp
    with Cons show ?case by (simp add: emit_plain_append)
  qed simp
qed

text \<open>
  The full archive is the concatenation of its sessions: when every session can be exported and the stored upstream
  payloads are readable, the export without a session id succeeds and writes the exports of the sessions one
  after the other, in the order of their ids. The two code paths share no loop.
\<close>

theorem full_export_concat:
  assumes "distinct (map r_id (records d))" and "distinct (map request_id (records d))"
    and "distinct (map bl_hash (blobs d))" and "all_readable d"
    and "\<forall>r \<in> set (records d). 0 < r_id r \<and> session_id r \<noteq> [] \<and> upstream_readable n d r"
    and "\<forall>s \<in> set (session_ids d). snd (ExportArchiveJSONL glen n up d s) = None"
  shows "ExportArchiveJSONL glen n up d [] =
    (concat (map (\<lambda>s. fst (ExportArchiveJSONL glen n up d s)) (session_ids d)), None)"
proof -
  have one: "ExportArchiveJSONL glen n up d s = emit_plain n d (rows_of d s) []" if "s \<in> set (session_ids d)" for s
  proof -
    have "s \<noteq> []" using that assms(5) by (auto simp: session_ids_def)
    then show ?thesis
      using batches_plain [OF assms(1,3,4)] seek_start [of d s] assms(5) by (simp add: ExportArchiveJSONL_def)
  qed
  have "ExportArchiveJSONL glen n up d [] = emit_plain n d (concat (map (rows_of d) (session_ids d))) []"
    unfolding ExportArchiveJSONL_def exportFullArchiveLegacy_def
    using emit_requests_plain [OF assms(2), of n "concat (map (rows_of d) (session_ids d))" up "[]"]
      assms(5) sorted_by_session [OF assms(1)] by (auto simp: rows_of_def)
  then show ?thesis using emit_sessions [of "session_ids d" n d "[]"] assms(6) one by (simp cong: map_cong)
qed

section \<open>The context of a request\<close>

lemma map_res_all: "map_res f xs = Inr ys \<Longrightarrow> \<forall>x \<in> set xs. \<exists>y \<in> set ys. f x = Inr y"
  by (induction xs arbitrary: ys) (auto simp: bind_res_Inr_iff)

lemma map_res_ids:
  "map_res f xs = Inr ys \<Longrightarrow> (\<And>x y. f x = Inr y \<Longrightarrow> g y = x) \<Longrightarrow> map g ys = xs"
  by (induction xs arbitrary: ys) (auto simp: bind_res_Inr_iff)

lemma requestWithQuery_id: "requestWithQuery n up d rq = Inr y \<Longrightarrow> RequestID (fst y) = rq"
  by (auto simp: requestWithQuery_def find_record_def load_row_def scan_row_def bind_res_Inr_iff find_Some_iff
      split: option.splits)

lemma sorted_split:
  fixes f :: "'a \<Rightarrow> 'b::linorder"
  assumes "sorted (map f xs)"
  shows "xs = filter (\<lambda>x. f x < k) xs @ filter (\<lambda>x. k \<le> f x) xs"
  using assms
proof (induction xs)
  case (Cons x xs)
  show ?case
  proof (cases "f x < k")
    case True
    with Cons show ?thesis by auto
  next
    case False
    then have "\<forall>y \<in> set (x # xs). k \<le> f y" using Cons.prems by auto
    then have "filter (\<lambda>y. f y < k) (x # xs) = []" "filter (\<lambda>y. k \<le> f y) (x # xs) = x # xs"
      by (auto simp: filter_empty_conv not_less)
    then show ?thesis by simp
  qed
qed simp

text \<open>
  The context of a request is a contiguous stretch of its session in id order that contains it: at most
  four requests before it and, counting it, at most 32 from it on (eight by default), so that a tool call and
  the output submitted by the next request are shown together.
\<close>

theorem RequestContext_window:
  assumes "RequestContext n up d rq before limit = Inr out" and "distinct (map r_id (records d))"
    and "find_record d rq = Some r"
  shows "\<exists>pre post. map request_id (sort_key r_id (filter (\<lambda>x. session_id x = session_id r) (records d)))
      = pre @ map (\<lambda>y. RequestID (fst y)) out @ post
    \<and> rq \<in> set (map (\<lambda>y. RequestID (fst y)) out) \<and> length out \<le> 36"
proof -
  let ?s = "sort_key r_id (filter (\<lambda>x. session_id x = session_id r) (records d))"
  let ?L = "filter (\<lambda>x. r_id x < r_id r) ?s" and ?R = "filter (\<lambda>x. r_id r \<le> r_id x) ?s"
  define l where "l = nat (if limit < 1 then 8 else if 32 < limit then 32 else limit)"
  define b where "b = nat (clamp 0 4 before)"
  have lb: "0 < l" "l \<le> 32" "b \<le> 4" by (auto simp: l_def b_def clamp_def)
  have ids: "map (\<lambda>y. RequestID (fst y)) out = map request_id (rev (take b (rev ?L)) @ take l ?R)"
    using assms(1,3) by (intro map_res_ids [where f = "requestWithQuery n up d"])
      (auto simp: RequestContext_def Let_def l_def b_def requestWithQuery_id)
  have r: "r \<in> set (records d)" "request_id r = rq" using assms(3) by (auto simp: find_record_def find_Some_iff)
  have strict: "sorted_wrt (<) (map r_id ?s)"
    using assms(2) by (auto simp: strict_sorted_iff distinct_map distinct_filter inj_on_def)
  have "?s = ?L @ ?R" by (rule sorted_split) simp
  also have "\<dots> = take (length ?L - b) ?L @ (rev (take b (rev ?L)) @ take l ?R) @ drop l ?R"
    by (simp add: rev_take)
  finally have split: "map request_id ?s = map request_id (take (length ?L - b) ?L)
      @ map (\<lambda>y. RequestID (fst y)) out @ map request_id (drop l ?R)"
    by (metis ids map_append)
  have "r \<in> set ?R" using r by simp
  then obtain x xs where R: "?R = x # xs" by (cases ?R) auto
  have "sorted_wrt (<) (map r_id ?R)" using strict by (simp add: sorted_wrt_map sorted_wrt_filter)
  moreover have "x \<in> set ?R" unfolding R by simp
  then have "r_id r \<le> r_id x" by simp
  ultimately have "x = r" using \<open>r \<in> set ?R\<close> R by auto
  then have "rq \<in> set (map (\<lambda>y. RequestID (fst y)) out)" using lb(1) r(2) by (cases l) (auto simp: ids R)
  moreover have "length out = length (rev (take b (rev ?L)) @ take l ?R)" by (metis ids length_map)
  then have "length out \<le> 36" using lb by simp
  ultimately show ?thesis using split by blast
qed

section \<open>Witnesses\<close>

definition sample_row :: "nat \<Rightarrow> string \<Rightarrow> rec_row" where
  "sample_row i rq = blank_row\<lparr>r_id := i, request_id := rq, session_id := ''s''\<rparr>"

lemma sample_row_simps [simp]:
  "r_id (sample_row i rq) = i" "request_id (sample_row i rq) = rq" "session_id (sample_row i rq) = ''s''"
  "started_at (sample_row i rq) = []" "completed_at (sample_row i rq) = []"
  "original_ref (sample_row i rq) = []" "upstream_ref (sample_row i rq) = []" "response_ref (sample_row i rq) = []"
  "original_request_gz (sample_row i rq) = NoData" "upstream_request_gz (sample_row i rq) = NoData"
  "response_gz (sample_row i rq) = NoData" "facets_json (sample_row i rq) = []"
  by (simp_all add: sample_row_def blank_row_def)

definition export_sample :: db where
  "export_sample = empty_db\<lparr>records := [sample_row 1 ''q'', sample_row 2 ''p'']\<rparr>"

lemma zero_retime: "retime [] = ''0001-01-01T00:00:00Z''" "marshal_time_ok ''0001-01-01T00:00:00Z''"
  by code_simp+

lemma export_sample_ok:
  "distinct (map r_id (records export_sample))" "distinct (map request_id (records export_sample))"
  "distinct (map bl_hash (blobs export_sample))" "all_readable export_sample"
  "\<forall>r \<in> set (records export_sample). 0 < r_id r \<and> session_id r \<noteq> [] \<and> upstream_readable n export_sample r"
  "session_ids export_sample = [''s'']"
  by (simp_all add: export_sample_def empty_db_def all_readable_def upstream_readable_def session_ids_def)

theorem session_export_exact_witness:
  "ExportArchiveJSONL (\<lambda>_. 0) 0 False export_sample ''s'' = emit_plain 0 export_sample (rows_of export_sample ''s'') []"
  using session_export_exact [OF export_sample_ok(1,3,4), of "''s''" "\<lambda>_. 0" 0 False] export_sample_ok(5) by simp

lemma export_sample_runs: "snd (emit_plain 0 export_sample (rows_of export_sample ''s'') []) = None"
  by (simp add: rows_of_def row_key_def export_sample_def plain_line_def column_payload_def gunzipBytes_def
      gunzipBytesChecked_def encode_training_def scan_row_def zero_retime)

theorem full_export_concat_witness:
  "ExportArchiveJSONL (\<lambda>_. 0) 0 False export_sample [] =
    (fst (ExportArchiveJSONL (\<lambda>_. 0) 0 False export_sample ''s''), None)"
proof -
  have "snd (ExportArchiveJSONL (\<lambda>_. 0) 0 False export_sample ''s'') = None"
    using batches_plain [OF export_sample_ok(1,3,4), of "\<lambda>_. 0" 0 "''s''" "([], 0)" "[]"] export_sample_runs
      seek_start [of export_sample "''s''"] export_sample_ok(5) by (simp add: ExportArchiveJSONL_def)
  with full_export_concat [OF export_sample_ok(1-5), where glen = "\<lambda>_. 0" and up = False and n = 0] show ?thesis
    by (simp add: export_sample_ok(6))
qed

theorem RequestContext_window_witness:
  "\<exists>pre post. [''q'', ''p''] = pre @ [''q''] @ post"
proof -
  have r: "find_record export_sample ''q'' = Some (sample_row 1 ''q'')"
    by (simp add: find_record_def export_sample_def)
  have q: "requestWithQuery 0 False export_sample ''q'' = Inr ((scan_row export_sample (sample_row 1 ''q''))
        \<lparr>OriginalRequest := [], UpstreamRequest := [], Response := []\<rparr>, facets_value [])"
    by (simp add: requestWithQuery_def r load_row_def column_payload_def gunzipBytes_def gunzipBytesChecked_def)
  have rs: "records export_sample = [sample_row 1 ''q'', sample_row 2 ''p'']" by (simp add: export_sample_def)
  have run: "RequestContext 0 False export_sample ''q'' 0 1 =
      Inr [((scan_row export_sample (sample_row 1 ''q''))
        \<lparr>OriginalRequest := [], UpstreamRequest := [], Response := []\<rparr>, facets_value [])]"
    by (simp add: RequestContext_def r rs q clamp_def Let_def)
  from RequestContext_window [OF run export_sample_ok(1) r] show ?thesis
    by (simp add: scan_row_def) (simp add: export_sample_def)
qed

end
