(* ===== verification/Snapshot.thy ===== *)
theory Snapshot
  imports Export
begin

text \<open>
  Stable session snapshots (\<open>internal/archive/snapshot.go\<close>): the full or incremental listing of sessions with the digest of
  each session's export, its pages, the verified export of a session, and the projection of digests that is
  refreshed in the background through a bounded queue.

  A snapshot holds a read transaction; the database it sees is the state in which it began (\<open>sn_tx\<close>). SQLite's comparison
  \<open>julianday(a)>=julianday(b)\<close> is the parameter \<open>jd_ge\<close>. An export is its complete text or an error; what a writer
  received before an error is not represented.
\<close>

section \<open>Stable sorting by a comparison\<close>

fun insert_by :: "('a \<Rightarrow> 'a \<Rightarrow> bool) \<Rightarrow> 'a \<Rightarrow> 'a list \<Rightarrow> 'a list" where
  "insert_by lt x [] = [x]"
| "insert_by lt x (y # ys) = (if lt y x then y # insert_by lt x ys else x # y # ys)"

definition sort_by :: "('a \<Rightarrow> 'a \<Rightarrow> bool) \<Rightarrow> 'a list \<Rightarrow> 'a list" where
  "sort_by lt xs = foldr (insert_by lt) xs []"

lemma set_insert_by [simp]: "set (insert_by lt x ys) = insert x (set ys)"
  by (induction ys) auto

lemma set_sort_by [simp]: "set (sort_by lt xs) = set xs"
  by (induction xs) (auto simp: sort_by_def)

lemma distinct_insert_by: "distinct (map f (insert_by lt x ys)) \<longleftrightarrow> f x \<notin> f ` set ys \<and> distinct (map f ys)"
  by (induction ys) auto

lemma distinct_sort_by: "distinct (map f (sort_by lt xs)) \<longleftrightarrow> distinct (map f xs)"
proof (induction xs)
  case (Cons x xs)
  then show ?case
    using distinct_insert_by [of f lt x "sort_by lt xs"] set_sort_by [of lt xs] by (auto simp: sort_by_def)
qed (simp add: sort_by_def)

section \<open>Summaries and snapshots\<close>

record StableSessionSummary =
  su_session_id :: string
  su_requests :: nat
  su_first_at :: string
  su_last_at :: string
  su_records_sha256 :: string
  su_deleted :: bool
  su_deleted_at :: string

record StableSessionSnapshot =
  sn_tx :: db
  sn_closed :: bool
  sn_ingestFence :: nat
  sn_tombstoneSafeAfter :: nat
  sn_sessions :: "StableSessionSummary list"
  sn_requestCount :: nat
  sn_deletedCount :: nat
  sn_sessionSetSHA256 :: string

definition validStableSessionID :: "string \<Rightarrow> bool" where
  "validStableSessionID v \<longleftrightarrow>
    v \<noteq> [] \<and> length v \<le> 512 \<and> list_all (\<lambda>c. 32 \<le> byte c \<and> byte c \<le> 126) v"

section \<open>The queries\<close>

definition min_text :: "string list \<Rightarrow> string" where
  "min_text xs = (case xs of [] \<Rightarrow> [] | y # ys \<Rightarrow> fold min ys y)"

definition max_text :: "string list \<Rightarrow> string" where
  "max_text xs = fold max xs []"

definition mentions :: "string \<Rightarrow> event_row \<Rightarrow> bool" where
  "mentions sid e \<longleftrightarrow> ev_session_id e = sid \<or> ev_previous_session_id e = sid"

definition session_events :: "db \<Rightarrow> nat \<Rightarrow> string \<Rightarrow> event_row list" where
  "session_events d fence sid = filter (\<lambda>e. mentions sid e \<and> ev_sequence e \<le> fence) (ingest_events d)"

definition session_fence :: "db \<Rightarrow> nat \<Rightarrow> string \<Rightarrow> nat" where
  "session_fence d fence sid = fold max (map ev_sequence (session_events d fence sid)) 0"

definition session_rows :: "db \<Rightarrow> string \<Rightarrow> rec_row list" where
  "session_rows d sid = filter (\<lambda>r. session_id r = sid) (records d)"

record snapshot_row =
  sr_session_id :: string
  sr_requests :: nat
  sr_first_at :: string
  sr_last_at :: string
  sr_session_fence :: nat
  sr_records_sha256 :: string
  sr_digest_fence :: int
  sr_deleted :: bool
  sr_changed_at :: string

definition find_digest :: "db \<Rightarrow> string \<Rightarrow> digest_row option" where
  "find_digest d sid = find (\<lambda>g. dg_session_id g = sid) (export_digests d)"

definition snapshot_row_of :: "db \<Rightarrow> nat \<Rightarrow> string \<Rightarrow> snapshot_row" where
  "snapshot_row_of d fence sid =
    (let rows = session_rows d sid in
     \<lparr>sr_session_id = sid, sr_requests = length rows, sr_first_at = min_text (map started_at rows),
      sr_last_at = max_text (map completed_at rows), sr_session_fence = session_fence d fence sid,
      sr_records_sha256 = (case find_digest d sid of None \<Rightarrow> [] | Some g \<Rightarrow> dg_records_sha256 g),
      sr_digest_fence = (case find_digest d sid of None \<Rightarrow> -1 | Some g \<Rightarrow> int (dg_max_ingest_sequence g)),
      sr_deleted = (rows = []), sr_changed_at = max_text (map ev_recorded_at (session_events d fence sid))\<rparr>)"

text \<open>\<open>ORDER BY COALESCE(last_at,changed_at) DESC, session_id ASC\<close>\<close>

definition row_before :: "snapshot_row \<Rightarrow> snapshot_row \<Rightarrow> bool" where
  "row_before a b \<longleftrightarrow>
    (let at = \<lambda>x. if sr_deleted x then sr_changed_at x else sr_last_at x in
     at b < at a \<or> at a = at b \<and> sr_session_id a < sr_session_id b)"

definition full_sessions :: "db \<Rightarrow> string list" where
  "full_sessions d = remdups (map session_id (records d))"

text \<open>The sessions an event after the fence names, as the session of the row or as the one it left.\<close>

definition changed_sessions :: "db \<Rightarrow> nat \<Rightarrow> nat \<Rightarrow> string list" where
  "changed_sessions d after fence =
    (let es = filter (\<lambda>e. after < ev_sequence e \<and> ev_sequence e \<le> fence) (ingest_events d)
     in remdups (map ev_session_id es @ filter (\<lambda>s. s \<noteq> []) (map ev_previous_session_id es)))"

definition delta_sessions :: "(string \<Rightarrow> string \<Rightarrow> bool) \<Rightarrow> string \<Rightarrow> db \<Rightarrow> nat \<Rightarrow> nat \<Rightarrow> string list" where
  "delta_sessions jd_ge lower d after fence =
    (let changed = changed_sessions d after fence in
     remdups (map session_id (filter (\<lambda>r. jd_ge (completed_at r) lower \<or> session_id r \<in> set changed) (records d)))
     @ filter (\<lambda>s. s \<notin> session_id ` set (records d)) changed)"

section \<open>Beginning a snapshot\<close>

datatype scanned = Listed StableSessionSummary | MissingDigest string

text \<open>The body of the loop over the rows of the query.\<close>

definition scan_snapshot_row :: "snapshot_row \<Rightarrow> scanned result" where
  "scan_snapshot_row x =
    (if \<not> validStableSessionID (sr_session_id x) then Inl SnapshotInvalid
     else if sr_deleted x then
       (case Parse_time (sr_changed_at x) of
          None \<Rightarrow> Inl SnapshotInvalid
        | Some t \<Rightarrow>
            Inr (Listed \<lparr>su_session_id = sr_session_id x, su_requests = sr_requests x, su_first_at = [],
              su_last_at = canonicalTimestamp t, su_records_sha256 = [], su_deleted = True,
              su_deleted_at = canonicalTimestamp t\<rparr>))
     else
       (case (Parse_time (sr_first_at x), Parse_time (sr_last_at x)) of
          (Some t1, Some t2) \<Rightarrow>
            if sr_digest_fence x \<noteq> int (sr_session_fence x) \<or> length (sr_records_sha256 x) \<noteq> 64
               \<or> \<not> hex_valid (sr_records_sha256 x)
            then Inr (MissingDigest (sr_session_id x))
            else
              Inr (Listed \<lparr>su_session_id = sr_session_id x, su_requests = sr_requests x,
                su_first_at = canonicalTimestamp t1, su_last_at = canonicalTimestamp t2,
                su_records_sha256 = sr_records_sha256 x, su_deleted = False, su_deleted_at = []\<rparr>)
        | _ \<Rightarrow> Inl SnapshotInvalid))"

definition listed :: "scanned list \<Rightarrow> StableSessionSummary list" where
  "listed xs = List.map_filter (\<lambda>x. case x of Listed s \<Rightarrow> Some s | _ \<Rightarrow> None) xs"

definition missing :: "scanned list \<Rightarrow> string list" where
  "missing xs = List.map_filter (\<lambda>x. case x of MissingDigest s \<Rightarrow> Some s | _ \<Rightarrow> None) xs"

definition maxQueuedSessionDigests :: nat where
  "maxQueuedSessionDigests = 10000"

text \<open>The digest queue is a set; here the list of its members.\<close>

fun queueSessionExportDigests :: "string list \<Rightarrow> string list \<Rightarrow> string list" where
  "queueSessionExportDigests [] q = q"
| "queueSessionExportDigests (sid # sids) q =
    (if maxQueuedSessionDigests \<le> length q then q
     else queueSessionExportDigests sids (List.insert sid q))"

definition summary_before :: "StableSessionSummary \<Rightarrow> StableSessionSummary \<Rightarrow> bool" where
  "summary_before a b \<longleftrightarrow>
    (if su_last_at a \<noteq> su_last_at b then su_last_at b < su_last_at a else su_session_id a < su_session_id b)"

definition digest_item :: "StableSessionSummary \<Rightarrow> gv" where
  "digest_item s =
    Struct (omit_str ''first_at'' (su_first_at s) @ [(''last_at'', Str (su_last_at s))]
      @ omit_str ''records_sha256'' (su_records_sha256 s)
      @ [(''requests'', Num (Itoa (su_requests s))), (''session_id'', Str (su_session_id s))]
      @ (if su_deleted s then [(''deleted'', Bool True)] else []) @ omit_str ''deleted_at'' (su_deleted_at s))"

definition stableSessionSetDigest :: "StableSessionSummary list \<Rightarrow> string" where
  "stableSessionSetDigest sessions =
    sha256_hex (TrimSuffix (Encode (Arr (map digest_item (sort_key su_session_id sessions)))) [CHR 0x0A])"

text \<open>The second component is the digest queue of the store, which a snapshot that is not ready fills.\<close>

definition begin_snapshot :: "string list \<Rightarrow> db \<Rightarrow> string list \<Rightarrow> StableSessionSnapshot result \<times> string list" where
  "begin_snapshot sids d queue =
    (let fence = ingest_clock d in
     case map_res scan_snapshot_row (sort_by row_before (map (snapshot_row_of d fence) sids)) of
       Inl e \<Rightarrow> (Inl e, queue)
     | Inr items \<Rightarrow>
         if missing items \<noteq> [] then (Inl SnapshotNotReady, queueSessionExportDigests (missing items) queue)
         else
           let sessions = sort_by summary_before (listed items) in
           (Inr \<lparr>sn_tx = d, sn_closed = False, sn_ingestFence = fence, sn_tombstoneSafeAfter = tombstone_safe_after d,
                 sn_sessions = sessions,
                 sn_requestCount = sum_list (map su_requests (filter (\<lambda>s. \<not> su_deleted s) (listed items))),
                 sn_deletedCount = length (filter su_deleted (listed items)),
                 sn_sessionSetSHA256 = stableSessionSetDigest sessions\<rparr>, queue))"

definition BeginStableSessionSnapshot ::
  "(string \<Rightarrow> string \<Rightarrow> bool) \<Rightarrow> go_time \<Rightarrow> int option \<Rightarrow> db \<Rightarrow> string list \<Rightarrow>
    StableSessionSnapshot result \<times> string list" where
  "BeginStableSessionSnapshot jd_ge lowerBound afterIngestFence d queue =
    (case afterIngestFence of
       None \<Rightarrow> begin_snapshot (full_sessions d) d queue
     | Some after \<Rightarrow>
         if after < 0 \<or> int (ingest_clock d) < after then (Inl SnapshotCursor, queue)
         else if after < int (tombstone_safe_after d) then (Inl SnapshotTombstoneHistory, queue)
         else begin_snapshot
           (delta_sessions jd_ge (canonicalTimestamp lowerBound) d (nat after) (ingest_clock d)) d queue)"

section \<open>Using a snapshot\<close>

fun find_cursor :: "string \<Rightarrow> string \<Rightarrow> StableSessionSummary list \<Rightarrow> nat option" where
  "find_cursor lastAt sid [] = None"
| "find_cursor lastAt sid (s # ss) =
    (if su_last_at s = lastAt \<and> su_session_id s = sid then Some 0 else map_option Suc (find_cursor lastAt sid ss))"

definition Page ::
  "StableSessionSnapshot \<Rightarrow> string \<Rightarrow> string \<Rightarrow> int \<Rightarrow>
    (StableSessionSummary list \<times> StableSessionSummary option) result" where
  "Page sn afterLastAt afterSessionID limit =
    (if sn_closed sn \<or> limit < 1 then Inl SnapshotCursor
     else
       let start = (if afterLastAt \<noteq> [] \<or> afterSessionID \<noteq> []
                    then map_option Suc (find_cursor afterLastAt afterSessionID (sn_sessions sn)) else Some 0)
       in case start of
            None \<Rightarrow> Inl SnapshotCursor
          | Some i \<Rightarrow>
              let end = min (i + nat limit) (length (sn_sessions sn));
                  page = take (end - i) (drop i (sn_sessions sn))
              in if length (sn_sessions sn) \<le> end then Inr (page, None)
                 else Inr (page, Some (sn_sessions sn ! (end - 1))))"

definition Summary_of :: "StableSessionSnapshot \<Rightarrow> string \<Rightarrow> StableSessionSummary option" where
  "Summary_of sn sid = (if sn_closed sn then None else find (\<lambda>s. su_session_id s = sid) (sn_sessions sn))"

definition Close :: "StableSessionSnapshot \<Rightarrow> StableSessionSnapshot" where
  "Close sn = sn\<lparr>sn_closed := True\<rparr>"

section \<open>The export a digest covers\<close>

definition keep_text :: "string \<Rightarrow> string \<Rightarrow> (string \<times> gv) list" where
  "keep_text k s = (if TrimSpace s \<noteq> [] then [(k, Str s)] else [])"

definition stableTrainingRecord :: "Record \<Rightarrow> gv \<Rightarrow> gv" where
  "stableTrainingRecord x facets =
    Obj (obj_of ([(''schema_version'', Num ''2''), (''session_id'', Str (SessionID x)), (''request_id'', Str (RequestID x)),
        (''started_at'', Str (canonicalTimestamp (parse_or_zero (StartedAt x)))),
        (''completed_at'', Str (canonicalTimestamp (parse_or_zero (CompletedAt x))))]
      @ keep_text ''key_id'' (KeyID x) @ keep_text ''principal_id'' (PrincipalID x)
      @ keep_text ''credential_hash'' (CredentialHash x) @ keep_text ''requested_model'' (RequestedModel x)
      @ keep_text ''model'' (Model x) @ keep_text ''outcome'' (Outcome x)
      @ (if StatusCode x \<noteq> 0 then [(''status_code'', Num (int_text (StatusCode x)))] else [])
      @ omit_nil ''metadata'' (Metadata x) @ omit_nil ''facets'' facets
      @ omit_nil ''request'' (decodedPayload (OriginalRequest x))
      @ omit_nil ''response'' (decodedPayload (Response x))))"

definition exportStableSessionJSONL :: "nat \<Rightarrow> db \<Rightarrow> string \<Rightarrow> string result" where
  "exportStableSessionJSONL n d sid =
    bind_res
      (map_res (\<lambda>rq. bind_res (requestWithQuery n False d rq) (\<lambda>(x, facets). Inr (Encode (stableTrainingRecord x facets))))
        (sort (map request_id (session_rows d sid))))
      (\<lambda>lines. Inr (concat lines))"

definition ExportSessionJSONL :: "nat \<Rightarrow> StableSessionSnapshot \<Rightarrow> string \<Rightarrow> string \<Rightarrow> string result" where
  "ExportSessionJSONL n sn sid expectedDigest =
    (if sn_closed sn then Inl SnapshotCursor
     else
       case find (\<lambda>s. su_session_id s = sid) (sn_sessions sn) of
         None \<Rightarrow> Inl SnapshotCursor
       | Some expected \<Rightarrow>
           if su_deleted expected \<or> su_records_sha256 expected \<noteq> expectedDigest then Inl SnapshotCursor
           else
             bind_res (exportStableSessionJSONL n (sn_tx sn) sid) (\<lambda>out.
               if sha256_hex out \<noteq> expectedDigest then Inl DigestMismatch else Inr out))"

section \<open>Refreshing digests\<close>

text \<open>
  \<open>refreshSessionExportDigest\<close> reads in one transaction and writes after it has ended; another writer may come in
  between. The two halves are two operations.
\<close>

datatype digest_work = DropDigest string | StoreDigest digest_row

definition refresh_read :: "nat \<Rightarrow> db \<Rightarrow> string \<Rightarrow> digest_work result" where
  "refresh_read n d sid =
    (let rows = session_rows d sid in
     if rows = [] then Inr (DropDigest sid)
     else
       bind_res (exportStableSessionJSONL n d sid) (\<lambda>out.
         Inr (StoreDigest
           \<lparr>dg_session_id = sid, dg_requests = length rows, dg_first_at = min_text (map started_at rows),
            dg_last_at = max_text (map completed_at rows), dg_records_sha256 = sha256_hex out,
            dg_max_ingest_sequence = fold max (map ev_sequence (filter (mentions sid) (ingest_events d))) 0\<rparr>)))"

definition refresh_write :: "digest_work \<Rightarrow> db \<Rightarrow> db" where
  "refresh_write w d =
    (case w of
       DropDigest sid \<Rightarrow>
         if session_rows d sid = []
         then d\<lparr>export_digests := filter (\<lambda>g. dg_session_id g \<noteq> sid) (export_digests d)\<rparr> else d
     | StoreDigest g \<Rightarrow>
         if fold max (map ev_sequence (filter (mentions (dg_session_id g)) (ingest_events d))) 0 = dg_max_ingest_sequence g
         then d\<lparr>export_digests := upsert dg_session_id (\<lambda>_. g) g (export_digests d)\<rparr> else d)"

definition refreshSessionExportDigest :: "nat \<Rightarrow> string \<Rightarrow> db \<Rightarrow> db result" where
  "refreshSessionExportDigest n sid d = bind_res (refresh_read n d sid) (\<lambda>w. Inr (refresh_write w d))"

definition takeSessionExportDigests :: "nat \<Rightarrow> string list \<Rightarrow> string list \<times> string list" where
  "takeSessionExportDigests limit queue =
    (let sids = take limit (sort queue) in (sids, filter (\<lambda>s. s \<notin> set sids) queue))"

text \<open>
  The number of sessions refreshed and the error that ended the loop, if any; on an error the session it failed on and
  those after it return to the queue.
\<close>

fun refresh_all :: "nat \<Rightarrow> string list \<Rightarrow> nat \<Rightarrow> db \<Rightarrow> (nat \<times> err option) \<times> db \<times> string list" where
  "refresh_all n [] k d = ((k, None), d, [])"
| "refresh_all n (sid # sids) k d =
    (case refreshSessionExportDigest n sid d of
       Inl e \<Rightarrow> ((k, Some e), d, sid # sids)
     | Inr d' \<Rightarrow> refresh_all n sids (k + 1) d')"

definition refresh_limit :: "int \<Rightarrow> nat" where
  "refresh_limit limit = nat (clamp 1 64 limit)"

definition RefreshQueuedSessionExportDigests ::
  "nat \<Rightarrow> int \<Rightarrow> db \<Rightarrow> string list \<Rightarrow> (nat \<times> err option) \<times> db \<times> string list" where
  "RefreshQueuedSessionExportDigests n limit d queue =
    (let (sids, queue1) = takeSessionExportDigests (refresh_limit limit) queue;
         (res, d', rest) = refresh_all n sids 0 d
     in (res, d', queueSessionExportDigests rest queue1))"

definition stale_sessions :: "db \<Rightarrow> string list" where
  "stale_sessions d =
    map ss_session_id (sort_by (\<lambda>a b. ss_last_at b < ss_last_at a \<or> ss_last_at a = ss_last_at b \<and> ss_session_id a < ss_session_id b)
      (filter (\<lambda>s. session_rows d (ss_session_id s) \<noteq> [] \<and>
         (case find_digest d (ss_session_id s) of
            None \<Rightarrow> True
          | Some g \<Rightarrow> dg_max_ingest_sequence g \<noteq>
              fold max (map ev_sequence (filter (mentions (ss_session_id s)) (ingest_events d))) 0))
        (session_summaries d)))"

definition RefreshSessionExportDigests :: "nat \<Rightarrow> int \<Rightarrow> db \<Rightarrow> (nat \<times> err option) \<times> db" where
  "RefreshSessionExportDigests n limit d =
    (let (res, d', _) = refresh_all n (take (refresh_limit limit) (stale_sessions d)) 0 d in (res, d'))"

end
