(* ===== verification/Snapshot_Pages.thy ===== *)
theory Snapshot_Pages
  imports Snapshot
begin

text \<open>
  The listing of a snapshot: what it contains, that walking its pages lists it exactly once, and the bound and
  conservation of the digest queue.
\<close>

section \<open>What a snapshot lists\<close>

lemma map_res_rel: "map_res f xs = Inr ys \<Longrightarrow> list_all2 (\<lambda>x y. f x = Inr y) xs ys"
  by (induction xs arbitrary: ys) (auto simp: bind_res_Inr_iff)

lemma list_all2_left: "list_all2 P xs ys \<Longrightarrow> x \<in> set xs \<Longrightarrow> \<exists>y \<in> set ys. P x y"
  by (induction xs ys rule: list_all2_induct) auto

lemma list_all2_right: "list_all2 P xs ys \<Longrightarrow> y \<in> set ys \<Longrightarrow> \<exists>x \<in> set xs. P x y"
  by (induction xs ys rule: list_all2_induct) auto

lemma missing_Nil: "missing ys = [] \<Longrightarrow> y \<in> set ys \<Longrightarrow> \<exists>s. y = Listed s"
  by (induction ys) (auto simp: missing_def List.map_filter_def split: scanned.splits if_splits)

lemma set_listed: "s \<in> set (listed ys) \<longleftrightarrow> Listed s \<in> set ys"
  by (induction ys) (auto simp: listed_def List.map_filter_def split: scanned.splits)

abbreviation scan_session :: "db \<Rightarrow> string \<Rightarrow> scanned result" where
  "scan_session d sid \<equiv> scan_snapshot_row (snapshot_row_of d (ingest_clock d) sid)"

lemma begin_snapshot_run:
  assumes "begin_snapshot sids d q = (Inr sn, q')"
  obtains items where "map_res scan_snapshot_row (sort_by row_before (map (snapshot_row_of d (ingest_clock d)) sids)) = Inr items"
    and "missing items = []" and "sn_sessions sn = sort_by summary_before (listed items)"
    and "sn_tx sn = d" and "\<not> sn_closed sn" and "sn_ingestFence sn = ingest_clock d" and "q' = q"
  using assms by (auto simp: begin_snapshot_def Let_def split: sum.splits if_splits)

lemma begin_snapshot_lists:
  assumes "begin_snapshot sids d q = (Inr sn, q')"
  shows "s \<in> set (sn_sessions sn) \<longleftrightarrow> (\<exists>sid \<in> set sids. scan_session d sid = Inr (Listed s))"
    and "sid \<in> set sids \<Longrightarrow> \<exists>s \<in> set (sn_sessions sn). scan_session d sid = Inr (Listed s)"
proof -
  from assms obtain items where
    items: "map_res scan_snapshot_row (sort_by row_before (map (snapshot_row_of d (ingest_clock d)) sids)) = Inr items"
    and none: "missing items = []" and sn: "sn_sessions sn = sort_by summary_before (listed items)"
    by (rule begin_snapshot_run)
  note rel = map_res_rel [OF items]
  have fwd: "\<exists>x \<in> set sids. scan_session d x = Inr y" if "y \<in> set items" for y
    using list_all2_right [OF rel that] by auto
  have bwd: "\<exists>s. scan_session d x = Inr (Listed s) \<and> Listed s \<in> set items" if "x \<in> set sids" for x
  proof -
    have "snapshot_row_of d (ingest_clock d) x \<in> set (sort_by row_before (map (snapshot_row_of d (ingest_clock d)) sids))"
      using that by simp
    from list_all2_left [OF rel this] obtain y where "y \<in> set items" "scan_session d x = Inr y" by auto
    with missing_Nil [OF none] show ?thesis by blast
  qed
  show "s \<in> set (sn_sessions sn) \<longleftrightarrow> (\<exists>sid \<in> set sids. scan_session d sid = Inr (Listed s))"
    using fwd bwd by (auto simp: sn set_listed) fastforce
  show "\<exists>s \<in> set (sn_sessions sn). scan_session d sid = Inr (Listed s)" if "sid \<in> set sids"
    using bwd [OF that] by (auto simp: sn set_listed)
qed

lemma scan_snapshot_row_Listed:
  assumes "scan_snapshot_row x = Inr (Listed s)"
  shows "su_session_id s = sr_session_id x" and "su_deleted s = sr_deleted x" and "validStableSessionID (sr_session_id x)"
  using assms by (auto simp: scan_snapshot_row_def split: if_splits option.splits)

lemma snapshot_row_of_simps [simp]:
  "sr_session_id (snapshot_row_of d f sid) = sid" "sr_deleted (snapshot_row_of d f sid) = (session_rows d sid = [])"
  "sr_requests (snapshot_row_of d f sid) = length (session_rows d sid)"
  by (simp_all add: snapshot_row_of_def Let_def)

lemma listed_ids:
  "list_all2 (\<lambda>x y. scan_snapshot_row x = Inr y) xs ys \<Longrightarrow> missing ys = [] \<Longrightarrow>
    map su_session_id (listed ys) = map sr_session_id xs"
proof (induction xs ys rule: list_all2_induct)
  case (Cons x xs y ys)
  then obtain s where "y = Listed s" using missing_Nil [of "y # ys" y] by auto
  with Cons show ?case
    by (auto simp: listed_def missing_def List.map_filter_def scan_snapshot_row_Listed(1))
qed (simp add: listed_def List.map_filter_def)

lemma begin_snapshot_distinct:
  assumes "begin_snapshot sids d q = (Inr sn, q')" and "distinct sids"
  shows "distinct (map su_session_id (sn_sessions sn))"
proof -
  from assms(1) obtain items where
    items: "map_res scan_snapshot_row (sort_by row_before (map (snapshot_row_of d (ingest_clock d)) sids)) = Inr items"
    and none: "missing items = []" and sn: "sn_sessions sn = sort_by summary_before (listed items)"
    by (rule begin_snapshot_run)
  from listed_ids [OF map_res_rel [OF items] none]
  have "distinct (map su_session_id (listed items)) \<longleftrightarrow> distinct sids"
    by (simp add: distinct_sort_by comp_def)
  with assms(2) show ?thesis by (simp add: sn distinct_sort_by)
qed

lemma distinct_selected: "distinct (full_sessions d)" "distinct (delta_sessions jd lower d after fence)"
  by (auto simp: full_sessions_def delta_sessions_def Let_def changed_sessions_def)

lemma BeginStable_cases:
  assumes "BeginStableSessionSnapshot jd lower after d q = (Inr sn, q')"
  obtains sids where "begin_snapshot sids d q = (Inr sn, q')" and "distinct sids"
  using assms distinct_selected
  by (auto simp: BeginStableSessionSnapshot_def split: option.splits if_splits)

section \<open>Pages\<close>

text \<open>A client that follows the cursors: each page is asked for behind the last session of the previous one.\<close>

fun walk_pages :: "nat \<Rightarrow> StableSessionSnapshot \<Rightarrow> int \<Rightarrow> string \<times> string \<Rightarrow> StableSessionSummary list list result" where
  "walk_pages 0 sn limit cursor = Inl OutOfFuel"
| "walk_pages (Suc k) sn limit cursor =
    bind_res (Page sn (fst cursor) (snd cursor) limit) (\<lambda>(page, nxt).
      case nxt of
        None \<Rightarrow> Inr [page]
      | Some s \<Rightarrow>
          bind_res (walk_pages k sn limit (su_last_at s, su_session_id s)) (\<lambda>pages. Inr (page # pages)))"

lemma find_cursor_nth:
  "distinct (map su_session_id ss) \<Longrightarrow> i < length ss \<Longrightarrow>
    find_cursor (su_last_at (ss ! i)) (su_session_id (ss ! i)) ss = Some i"
proof (induction ss arbitrary: i)
  case (Cons s ss)
  show ?case
  proof (cases i)
    case (Suc j)
    with Cons.prems have "su_session_id (ss ! j) \<in> su_session_id ` set ss" "j < length ss" by auto
    with Cons Suc show ?thesis by auto
  qed simp
qed simp

definition cursor_at :: "StableSessionSummary list \<Rightarrow> nat \<Rightarrow> string \<times> string" where
  "cursor_at ss i = (if i = 0 then ([], []) else (su_last_at (ss ! (i - 1)), su_session_id (ss ! (i - 1))))"

lemma Page_at:
  assumes "\<not> sn_closed sn" and "1 \<le> limit" and "i \<le> length (sn_sessions sn)"
    and "distinct (map su_session_id (sn_sessions sn))" and "[] \<notin> su_session_id ` set (sn_sessions sn)"
  shows "Page sn (fst (cursor_at (sn_sessions sn) i)) (snd (cursor_at (sn_sessions sn) i)) limit =
    (let ss = sn_sessions sn; j = i + nat limit in
     if length ss \<le> j then Inr (drop i ss, None) else Inr (take (nat limit) (drop i ss), Some (ss ! (j - 1))))"
proof -
  let ?ss = "sn_sessions sn"
  have start: "(if fst (cursor_at ?ss i) \<noteq> [] \<or> snd (cursor_at ?ss i) \<noteq> []
      then map_option Suc (find_cursor (fst (cursor_at ?ss i)) (snd (cursor_at ?ss i)) ?ss) else Some 0) = Some i"
  proof (cases i)
    case (Suc j)
    then have "?ss ! j \<in> set ?ss" using assms(3) by simp
    with assms(5) have "su_session_id (?ss ! j) \<noteq> []" by force
    with Suc find_cursor_nth [OF assms(4), of j] assms(3) show ?thesis by (simp add: cursor_at_def)
  qed (simp add: cursor_at_def)
  show ?thesis
    unfolding Page_def start using assms(1-3)
    by (auto simp: Let_def min_def not_le)
qed

lemma walk_from:
  assumes "\<not> sn_closed sn" and "1 \<le> limit"
    and "distinct (map su_session_id (sn_sessions sn))" and "[] \<notin> su_session_id ` set (sn_sessions sn)"
  shows "i \<le> length (sn_sessions sn) \<Longrightarrow> length (sn_sessions sn) - i < k \<Longrightarrow>
    \<exists>pages. walk_pages k sn limit (cursor_at (sn_sessions sn) i) = Inr pages \<and> concat pages = drop i (sn_sessions sn)
      \<and> (\<forall>p \<in> set pages. length p \<le> nat limit)"
proof (induction k arbitrary: i)
  case (Suc k)
  let ?ss = "sn_sessions sn"
  let ?j = "i + nat limit"
  note page = Page_at [OF assms(1,2) Suc.prems(1) assms(3,4)]
  show ?case
  proof (cases "length ?ss \<le> ?j")
    case True
    with page show ?thesis by (auto simp: Let_def)
  next
    case False
    have "cursor_at ?ss ?j = (su_last_at (?ss ! (?j - 1)), su_session_id (?ss ! (?j - 1)))"
      using assms(2) by (simp add: cursor_at_def)
    moreover have "length ?ss - ?j < k" using False Suc.prems(2) assms(2) by linarith
    with Suc.IH [of ?j] False obtain pages where "walk_pages k sn limit (cursor_at ?ss ?j) = Inr pages"
      "concat pages = drop ?j ?ss" "\<forall>p \<in> set pages. length p \<le> nat limit"
      by auto
    moreover have "take (nat limit) (drop i ?ss) @ drop ?j ?ss = drop i ?ss"
      by (metis add.commute append_take_drop_id drop_drop)
    ultimately show ?thesis using False page by (auto simp: Let_def)
  qed
qed simp

text \<open>
  Following the cursors lists a snapshot exactly once: from the first page on, with any page size of at least one,
  the walk ends, no page is longer than asked for, and the pages together are the sessions of the snapshot in order.
\<close>

theorem pages_cover_snapshot:
  assumes "BeginStableSessionSnapshot jd lower after d q = (Inr sn, q')" and "1 \<le> limit"
  shows "\<exists>pages. walk_pages (length (sn_sessions sn) + 1) sn limit ([], []) = Inr pages
    \<and> concat pages = sn_sessions sn \<and> (\<forall>p \<in> set pages. length p \<le> nat limit)"
proof -
  from assms(1) obtain sids where b: "begin_snapshot sids d q = (Inr sn, q')" and "distinct sids"
    by (rule BeginStable_cases)
  then have "distinct (map su_session_id (sn_sessions sn))" by (rule begin_snapshot_distinct)
  moreover have "[] \<notin> su_session_id ` set (sn_sessions sn)"
    using scan_snapshot_row_Listed by (fastforce simp: begin_snapshot_lists(1) [OF b] validStableSessionID_def)
  moreover have "\<not> sn_closed sn" using b by (rule begin_snapshot_run)
  ultimately show ?thesis using walk_from [of sn limit 0 "length (sn_sessions sn) + 1"] assms(2)
    by (simp add: cursor_at_def)
qed

section \<open>The digest queue\<close>

lemma queue_bound:
  "distinct q \<Longrightarrow> length q \<le> maxQueuedSessionDigests \<Longrightarrow>
    distinct (queueSessionExportDigests sids q) \<and> length (queueSessionExportDigests sids q) \<le> maxQueuedSessionDigests"
  by (induction sids q rule: queueSessionExportDigests.induct) (auto simp: List.insert_def)

lemma queue_adds:
  "length q + length sids \<le> maxQueuedSessionDigests \<Longrightarrow> set (queueSessionExportDigests sids q) = set q \<union> set sids"
  by (induction sids q rule: queueSessionExportDigests.induct) (auto simp: List.insert_def split: if_splits)

lemma refresh_all_run:
  "refresh_all n sids k d = ((m, e), d', rest) \<Longrightarrow> k \<le> m \<and> m - k \<le> length sids \<and> rest = drop (m - k) sids
    \<and> (e = None \<longrightarrow> rest = [])"
proof (induction n sids k d rule: refresh_all.induct)
  case (2 n sid sids k d)
  show ?case
  proof (cases "refreshSessionExportDigest n sid d")
    case (Inr d1)
    with 2(2) have "refresh_all n sids (k + 1) d1 = ((m, e), d', rest)" by simp
    note IH = 2(1) [OF Inr this]
    moreover from IH have "m - k = Suc (m - (k + 1))" by linarith
    ultimately show ?thesis by (elim conjE, intro conjI) simp_all
  qed (use 2 in auto)
qed simp

text \<open>
  The queue of digest refreshes is bounded and loses nothing: whatever the outcome of a refresh round, the queue
  stays free of duplicates and within \<open>maxQueuedSessionDigests\<close>, a round refreshes at most 64 sessions, and exactly the
  refreshed sessions leave the queue, also when an error ends the round.
\<close>

theorem RefreshQueued_conserves:
  assumes "distinct q" and "length q \<le> maxQueuedSessionDigests"
    and "RefreshQueuedSessionExportDigests n limit d q = ((k, e), d', q')"
  shows "distinct q' \<and> length q' \<le> maxQueuedSessionDigests \<and> k \<le> 64 \<and> set q' = set q - set (take k (sort q))"
proof -
  define l where "l = refresh_limit limit"
  let ?sids = "take l (sort q)"
  let ?q1 = "filter (\<lambda>s. s \<notin> set ?sids) q"
  have "l \<le> 64" by (auto simp: l_def refresh_limit_def clamp_def)
  obtain rest where r: "refresh_all n ?sids 0 d = ((k, e), d', rest)" "q' = queueSessionExportDigests rest ?q1"
    using assms(3) by (auto simp: RefreshQueuedSessionExportDigests_def takeSessionExportDigests_def Let_def l_def
        split: prod.splits)
  from refresh_all_run [OF r(1)] have k: "k \<le> length ?sids" "rest = drop k ?sids" by auto
  have dq: "distinct ?sids" using assms(1) by (simp add: distinct_take)
  have "length ?sids + length ?q1 = length q"
  proof -
    have "set ?sids \<subseteq> set q" by (auto dest: in_set_takeD)
    then have "card (set ?sids) + card (set q - set ?sids) = card (set q)"
      by (metis List.finite_set add.commute card_Diff_subset card_mono le_add_diff_inverse2)
    moreover have "set ?q1 = set q - set ?sids" by auto
    ultimately show ?thesis using assms(1) dq distinct_card [of ?q1] distinct_card [of ?sids] distinct_card [of q] by simp
  qed
  then have "length ?q1 + length rest \<le> maxQueuedSessionDigests" using assms(2) k by simp
  then have "set q' = set ?q1 \<union> set rest" by (simp add: r(2) queue_adds)
  also have "\<dots> = set q - set (take k (sort q))"
  proof -
    have tk: "take k ?sids = take k (sort q)" using k(1) by (simp add: min_absorb1)
    have parts: "set ?sids = set (take k ?sids) \<union> set (drop k ?sids)" "set (take k ?sids) \<inter> set (drop k ?sids) = {}"
      using dq by (metis append_take_drop_id set_append, metis append_take_drop_id distinct_append)
    have sub: "set ?sids \<subseteq> set q" by (auto dest: in_set_takeD)
    show ?thesis unfolding k(2) tk [symmetric] set_filter using parts sub by blast
  qed
  finally have "set q' = set q - set (take k (sort q))" .
  moreover have "k \<le> 64" using k(1) \<open>l \<le> 64\<close> by simp
  moreover have "distinct ?q1" "length ?q1 \<le> maxQueuedSessionDigests"
    using assms(1,2) \<open>length ?sids + length ?q1 = length q\<close> by auto
  ultimately show ?thesis using queue_bound [of ?q1 rest] r(2) by simp
qed

section \<open>Witnesses\<close>

theorem RefreshQueued_conserves_witness:
  "RefreshQueuedSessionExportDigests 0 1 empty_db [''b'', ''a''] = ((1, None), empty_db, [''b''])
    \<and> set [''b''] = set [''b'', ''a''] - set (take 1 (sort [''b'', ''a'']))"
proof -
  have run: "RefreshQueuedSessionExportDigests 0 1 empty_db [''b'', ''a''] = ((1, None), empty_db, [''b''])"
    by (simp add: RefreshQueuedSessionExportDigests_def takeSessionExportDigests_def refresh_limit_def clamp_def
        refreshSessionExportDigest_def refresh_read_def refresh_write_def session_rows_def empty_db_def)
  have "length [''b'', ''a''] \<le> maxQueuedSessionDigests" by (simp add: maxQueuedSessionDigests_def)
  from RefreshQueued_conserves [OF _ this run] run show ?thesis by simp
qed

definition one_session_db :: db where
  "one_session_db = empty_db\<lparr>ingest_clock := 1, ingest_events := [\<lparr>ev_sequence = 1, ev_request_id = ''q'',
     ev_session_id = ''s'', ev_previous_session_id = [], ev_recorded_at = ''2026-01-02T03:04:05Z''\<rparr>]\<rparr>"

lemma one_session_time: "\<exists>t. Parse_time ''2026-01-02T03:04:05Z'' = Some t"
proof -
  have "Parse_time ''2026-01-02T03:04:05Z'' \<noteq> None" by code_simp
  then show ?thesis by auto
qed

lemma one_session_begin:
  "\<exists>sn. BeginStableSessionSnapshot (\<lambda>_ _. False) zero_time (Some 0) one_session_db [] = (Inr sn, [])
    \<and> length (sn_sessions sn) = 1"
proof -
  obtain t where t: "Parse_time ''2026-01-02T03:04:05Z'' = Some t" using one_session_time by blast
  have row: "snapshot_row_of one_session_db 1 ''s'' =
      \<lparr>sr_session_id = ''s'', sr_requests = 0, sr_first_at = [], sr_last_at = [], sr_session_fence = 1,
       sr_records_sha256 = [], sr_digest_fence = -1, sr_deleted = True, sr_changed_at = ''2026-01-02T03:04:05Z''\<rparr>"
    by (simp add: snapshot_row_of_def one_session_db_def empty_db_def session_rows_def session_fence_def session_events_def
        mentions_def find_digest_def min_text_def max_text_def max_def)
  have "delta_sessions (\<lambda>_ _. False) (canonicalTimestamp zero_time) one_session_db 0 1 = [''s'']"
    "ingest_clock one_session_db = 1" "tombstone_safe_after one_session_db = 0"
    by (simp_all add: delta_sessions_def changed_sessions_def one_session_db_def empty_db_def)
  then show ?thesis
    by (simp add: BeginStableSessionSnapshot_def begin_snapshot_def row sort_by_def scan_snapshot_row_def
        validStableSessionID_def t missing_def listed_def List.map_filter_def Let_def
        del: One_nat_def snapshot_row_of_simps)
qed

theorem pages_cover_snapshot_witness:
  "\<exists>sn pages. BeginStableSessionSnapshot (\<lambda>_ _. False) zero_time (Some 0) one_session_db [] = (Inr sn, [])
    \<and> walk_pages (length (sn_sessions sn) + 1) sn 1 ([], []) = Inr pages \<and> concat pages = sn_sessions sn"
proof -
  from one_session_begin obtain sn where
    sn: "BeginStableSessionSnapshot (\<lambda>_ _. False) zero_time (Some 0) one_session_db [] = (Inr sn, [])" by blast
  from pages_cover_snapshot [OF sn, of 1] sn show ?thesis by auto
qed

end
