(* ===== verification/Registry.thy ===== *)
theory Registry
  imports Snapshot_Pages "HOL-Library.AList"
begin

text \<open>
  The registry of stable snapshots of the collector (\<open>cmd/cpa-session-collector/snapshot.go\<close>) and the endpoint that pages
  through them.

  The registry maps snapshot ids to pointers; an entry is shared by the requests that hold a pointer to it, so the
  entries live in a heap (\<open>rg_heap\<close>) addressed by position. Times are in nanoseconds. Every operation takes the readings of
  the clock it makes, and \<open>create\<close> the random bytes it draws. An operation runs under the mutex, except
  \<open>export\<close>, which is two operations with the export itself in between.
\<close>

section \<open>Tokens\<close>

definition xor_pad :: "nat \<Rightarrow> string \<Rightarrow> string" where
  "xor_pad p key = map (\<lambda>c. char_of (xor (byte c) p)) key @ replicate (64 - length key) (char_of p)"

text \<open>\<open>hmac.New(sha256.New, key)\<close> for a key of at most one block.\<close>

definition hmac_sha256 :: "string \<Rightarrow> string \<Rightarrow> string" where
  "hmac_sha256 key msg = bytes (sha256 (xor_pad 92 key @ bytes (sha256 (xor_pad 54 key @ msg))))"

text \<open>\<open>base64.RawURLEncoding\<close>\<close>

definition b64_rawurl :: "string \<Rightarrow> string" where
  "b64_rawurl s =
    map (\<lambda>c. if c = CHR ''+'' then CHR ''-'' else if c = CHR ''/'' then CHR ''_'' else c)
      (filter (\<lambda>c. c \<noteq> CHR ''='') (b64_encode s))"

section \<open>The registry\<close>

record stableCursorClaims =
  cc_SnapshotID :: string
  cc_LowerBound :: string
  cc_AfterFence :: string
  cc_Limit :: int
  cc_LastAt :: string
  cc_SessionID :: string

record stableSnapshotEntry =
  en_ID :: string
  en_LowerBound :: string
  en_AfterFence :: string
  en_Limit :: int
  en_CreatedAt :: int
  en_LastUsedAt :: int
  en_ExpiresAt :: int
  en_Snapshot :: StableSessionSnapshot
  en_CursorState :: "(string \<times> stableCursorClaims) list"
  en_ActiveExports :: int

record stableSnapshotRegistry =
  rg_secret :: string
  rg_ttl :: int
  rg_idleTTL :: int
  rg_maxActive :: int
  rg_heap :: "stableSnapshotEntry list"
  rg_snapshots :: "(string \<times> nat) list"

definition minute :: int where
  "minute = 60 * second"

definition hour :: int where
  "hour = 60 * minute"

definition newStableSnapshotRegistry :: "string \<Rightarrow> int \<Rightarrow> int \<Rightarrow> int \<Rightarrow> stableSnapshotRegistry result" where
  "newStableSnapshotRegistry secret ttl idleTTL maxActive =
    (if ttl < minute \<or> 6 * hour < ttl then Inl Fatal
     else if idleTTL < minute \<or> ttl < idleTTL then Inl Fatal
     else if maxActive < 1 \<or> 8 < maxActive then Inl Fatal
     else Inr \<lparr>rg_secret = secret, rg_ttl = ttl, rg_idleTTL = idleTTL, rg_maxActive = maxActive,
               rg_heap = [], rg_snapshots = []\<rparr>)"

definition registryTTL :: "bool \<Rightarrow> int" where
  "registryTTL allowOfflineFull = (if allowOfflineFull then 6 * hour else 15 * minute)"

definition stableSnapshotIdleTTL :: int where
  "stableSnapshotIdleTTL = 2 * minute"

definition stableMaxActiveSnapshots :: int where
  "stableMaxActiveSnapshots = 1"

definition update_entry :: "nat \<Rightarrow> (stableSnapshotEntry \<Rightarrow> stableSnapshotEntry) \<Rightarrow> stableSnapshotRegistry \<Rightarrow> stableSnapshotRegistry"
  where "update_entry p f rg = rg\<lparr>rg_heap := (rg_heap rg)[p := f (rg_heap rg ! p)]\<rparr>"

definition close_entry :: "stableSnapshotEntry \<Rightarrow> stableSnapshotEntry" where
  "close_entry e = e\<lparr>en_Snapshot := Close (en_Snapshot e)\<rparr>"

text \<open>An entry the cleanup removes.\<close>

definition stale :: "stableSnapshotRegistry \<Rightarrow> int \<Rightarrow> stableSnapshotEntry \<Rightarrow> bool" where
  "stale rg now e \<longleftrightarrow>
    \<not> 0 < en_ActiveExports e \<and> (\<not> now < en_ExpiresAt e \<or> rg_idleTTL rg \<le> now - en_LastUsedAt e)"

definition cleanupLocked :: "int \<Rightarrow> stableSnapshotRegistry \<Rightarrow> stableSnapshotRegistry" where
  "cleanupLocked now rg =
    (let dead = filter (\<lambda>(key, p). stale rg now (rg_heap rg ! p)) (rg_snapshots rg)
     in (fold (\<lambda>(key, p). update_entry p close_entry) dead rg)
        \<lparr>rg_snapshots := filter (\<lambda>(key, p). \<not> stale rg now (rg_heap rg ! p)) (rg_snapshots rg)\<rparr>)"

text \<open>The entry of an id that has not expired.\<close>

definition lookup_live :: "int \<Rightarrow> string \<Rightarrow> stableSnapshotRegistry \<Rightarrow> nat result" where
  "lookup_live now key rg =
    (case map_of (rg_snapshots rg) key of
       None \<Rightarrow> Inl SnapshotExpired
     | Some p \<Rightarrow> if now < en_ExpiresAt (rg_heap rg ! p) then Inr p else Inl SnapshotExpired)"

definition touch :: "int \<Rightarrow> nat \<Rightarrow> stableSnapshotRegistry \<Rightarrow> stableSnapshotRegistry" where
  "touch now p = update_entry p (\<lambda>e. e\<lparr>en_LastUsedAt := now\<rparr>)"

definition create_entry ::
  "(string \<Rightarrow> string \<Rightarrow> bool) \<Rightarrow> int \<Rightarrow> string \<Rightarrow> go_time \<Rightarrow> int option \<Rightarrow> int \<Rightarrow> db \<Rightarrow> string list \<Rightarrow>
    stableSnapshotRegistry \<Rightarrow> nat result \<times> stableSnapshotRegistry \<times> string list" where
  "create_entry jd_ge now random lowerBound afterFence limit d queue rg0 =
    (let rg = cleanupLocked now rg0 in
     if rg_maxActive rg \<le> int (length (rg_snapshots rg)) then (Inl SnapshotLimit, rg, queue)
     else
       (case BeginStableSessionSnapshot jd_ge lowerBound afterFence d queue of
          (Inl e, queue') \<Rightarrow> (Inl e, rg, queue')
        | (Inr snapshot, queue') \<Rightarrow>
            let key = b64_rawurl random;
                entry = \<lparr>en_ID = key, en_LowerBound = FormatNano (UTC lowerBound),
                         en_AfterFence = (case afterFence of None \<Rightarrow> [] | Some a \<Rightarrow> int_text a), en_Limit = limit,
                         en_CreatedAt = now, en_LastUsedAt = now, en_ExpiresAt = now + rg_ttl rg,
                         en_Snapshot = snapshot, en_CursorState = [], en_ActiveExports = 0\<rparr>
            in (Inr (length (rg_heap rg)),
                rg\<lparr>rg_heap := rg_heap rg @ [entry], rg_snapshots := AList.update key (length (rg_heap rg)) (rg_snapshots rg)\<rparr>,
                queue')))"

definition get_entry ::
  "int \<Rightarrow> string \<Rightarrow> string \<Rightarrow> string \<Rightarrow> int \<Rightarrow> stableSnapshotRegistry \<Rightarrow> nat result \<times> stableSnapshotRegistry" where
  "get_entry now key lowerBound afterFence limit rg0 =
    (let rg = cleanupLocked now rg0 in
     case lookup_live now key rg of
       Inl e \<Rightarrow> (Inl e, rg)
     | Inr p \<Rightarrow>
         let e = rg_heap rg ! p in
         if en_LowerBound e \<noteq> lowerBound \<or> en_AfterFence e \<noteq> afterFence \<or> en_Limit e \<noteq> limit
         then (Inl SnapshotCursor, rg) else (Inr p, touch now p rg))"

definition getForExport :: "int \<Rightarrow> string \<Rightarrow> stableSnapshotRegistry \<Rightarrow> nat result \<times> stableSnapshotRegistry" where
  "getForExport now key rg0 =
    (let rg = cleanupLocked now rg0 in
     case lookup_live now key rg of Inl e \<Rightarrow> (Inl e, rg) | Inr p \<Rightarrow> (Inr p, touch now p rg))"

text \<open>The first critical section of \<open>export\<close>: the entry is pinned.\<close>

definition export_begin :: "int \<Rightarrow> string \<Rightarrow> stableSnapshotRegistry \<Rightarrow> nat result \<times> stableSnapshotRegistry" where
  "export_begin now key rg0 =
    (let rg = cleanupLocked now rg0 in
     case lookup_live now key rg of
       Inl e \<Rightarrow> (Inl e, rg)
     | Inr p \<Rightarrow>
         (Inr p, update_entry p (\<lambda>e. e\<lparr>en_LastUsedAt := now, en_ActiveExports := en_ActiveExports e + 1\<rparr>) rg))"

text \<open>The second one, with the error of the export, and the close that follows it.\<close>

definition export_end ::
  "int \<Rightarrow> string \<Rightarrow> nat \<Rightarrow> err option \<Rightarrow> stableSnapshotRegistry \<Rightarrow> err option \<times> stableSnapshotRegistry" where
  "export_end finishedAt key p err rg0 =
    (let rg1 = update_entry p (\<lambda>e. e\<lparr>en_ActiveExports := en_ActiveExports e - 1\<rparr>) rg0;
         expired = (\<not> finishedAt < en_ExpiresAt (rg_heap rg1 ! p));
         rg2 = (if map_of (rg_snapshots rg1) key = Some p
                then
                  let rg = touch finishedAt p rg1 in
                  if expired \<and> en_ActiveExports (rg_heap rg ! p) = 0
                  then update_entry p close_entry (rg\<lparr>rg_snapshots := AList.delete key (rg_snapshots rg)\<rparr>) else rg
                else rg1)
     in (if expired \<and> err = None then Some SnapshotExpired else err, rg2))"

definition validateExport ::
  "int \<Rightarrow> string \<Rightarrow> string \<Rightarrow> string \<Rightarrow> stableSnapshotRegistry \<Rightarrow> err option \<times> stableSnapshotRegistry" where
  "validateExport now key sid digest rg0 =
    (let rg = cleanupLocked now rg0 in
     case lookup_live now key rg of
       Inl e \<Rightarrow> (Some e, rg)
     | Inr p \<Rightarrow>
         (case Summary_of (en_Snapshot (rg_heap rg ! p)) sid of
            None \<Rightarrow> (Some SnapshotCursor, rg)
          | Some s \<Rightarrow>
              if su_deleted s \<or> su_records_sha256 s \<noteq> digest then (Some SnapshotCursor, rg)
              else (None, touch now p rg)))"

definition claims_json :: "stableCursorClaims \<Rightarrow> string" where
  "claims_json c =
    Marshal (Struct [(''snapshot'', Str (cc_SnapshotID c)), (''lower_bound'', Str (cc_LowerBound c)),
      (''after_fence'', Str (cc_AfterFence c)), (''limit'', Num (int_text (cc_Limit c))),
      (''last_at'', Str (cc_LastAt c)), (''session_id'', Str (cc_SessionID c))])"

definition cursor_token :: "stableSnapshotRegistry \<Rightarrow> stableCursorClaims \<Rightarrow> string" where
  "cursor_token rg claims = b64_rawurl (hmac_sha256 (rg_secret rg) (claims_json claims))"

text \<open>\<open>current, ok := registry.snapshots[entry.ID]; !ok || current != entry || expired\<close>\<close>

definition entry_gone :: "int \<Rightarrow> nat \<Rightarrow> stableSnapshotRegistry \<Rightarrow> bool" where
  "entry_gone now p rg \<longleftrightarrow>
    map_of (rg_snapshots rg) (en_ID (rg_heap rg ! p)) \<noteq> Some p \<or> \<not> now < en_ExpiresAt (rg_heap rg ! p)"

definition cursor_of ::
  "int \<Rightarrow> int \<Rightarrow> nat \<Rightarrow> stableCursorClaims \<Rightarrow> stableSnapshotRegistry \<Rightarrow> string result \<times> stableSnapshotRegistry" where
  "cursor_of now1 now2 p claims rg =
    (if entry_gone now1 p rg then (Inl SnapshotExpired, rg)
     else
       (Inr (cursor_token rg claims),
        update_entry p (\<lambda>e. e\<lparr>en_LastUsedAt := now2,
          en_CursorState := AList.update (cursor_token rg claims) claims (en_CursorState e)\<rparr>) rg))"

definition resolveCursor ::
  "int \<Rightarrow> int \<Rightarrow> nat \<Rightarrow> string \<Rightarrow> stableSnapshotRegistry \<Rightarrow> stableCursorClaims result \<times> stableSnapshotRegistry" where
  "resolveCursor now1 now2 p token rg =
    (if token = [] \<or> 128 < length token then (Inl SnapshotCursor, rg)
     else if entry_gone now1 p rg then (Inl SnapshotExpired, rg)
     else
       (case map_of (en_CursorState (rg_heap rg ! p)) token of
          None \<Rightarrow> Inl SnapshotCursor | Some claims \<Rightarrow> Inr claims, touch now2 p rg))"

definition diagnostics :: "int \<Rightarrow> stableSnapshotRegistry \<Rightarrow> (nat \<times> int) \<times> stableSnapshotRegistry" where
  "diagnostics now rg0 =
    (let rg = cleanupLocked now rg0;
         age = (\<lambda>(key, p). let x = now - en_CreatedAt (rg_heap rg ! p) in if x < 0 then - (- x div second) else x div second)
     in ((length (rg_snapshots rg), fold max (map age (rg_snapshots rg)) 0), rg))"

end
