(* ===== verification/Stable_Endpoint.thy ===== *)
theory Stable_Endpoint
  imports Registry
begin

text \<open>
  The endpoint \<open>GET /v1/sessions?cursor_protocol=...\<close> (\<open>stableSessions\<close> in
  \<open>cmd/cpa-session-collector/snapshot.go\<close>): the checks of the query, the snapshot it opens or continues, and the page with its
  cursor.

  A query is the decoded form values, keys with the list of their values. An error is a status and a message.
  \<open>clock\<close> gives the readings of the clock the handler makes, in order.
\<close>

type_synonym http_query = "(string \<times> string list) list"

definition query_get :: "http_query \<Rightarrow> string \<Rightarrow> string" where
  "query_get q k = (case map_of q k of Some (v # _) \<Rightarrow> v | _ \<Rightarrow> [])"

text \<open>\<open>strconv.ParseInt(s, 10, 64)\<close>\<close>

definition parse_int64 :: "string \<Rightarrow> int option" where
  "parse_int64 s =
    (let neg = HasPrefix s ''-''; ds = (if neg \<or> HasPrefix s ''+'' then tl s else s);
         v = (if neg then - int (digits_val ds) else int (digits_val ds))
     in if ds \<noteq> [] \<and> list_all is_digit ds \<and> - (2 ^ 63) \<le> v \<and> v < 2 ^ 63 then Some v else None)"

datatype stable_response =
    StableError nat string
  | Touched gv
  | PageResponse gv "StableSessionSummary list" bool "string option"

record stable_query =
  sq_metadataTouch :: bool
  sq_lowerBound :: go_time
  sq_limit :: int
  sq_afterRaw :: string
  sq_afterFence :: "int option"
  sq_snapshotID :: string
  sq_cursor :: string

definition StableCursorProtocol :: string where
  "StableCursorProtocol = ''session-snapshot-cursor-v1''"

definition allowed_keys :: "string list" where
  "allowed_keys = [''cursor_protocol'', ''lower_bound_completed_at'', ''after_ingest_fence'', ''limit'', ''snapshot'',
     ''cursor'', ''metadata_touch'']"

definition query_limit :: "http_query \<Rightarrow> int option" where
  "query_limit q =
    (let raw = TrimSpace (query_get q ''limit'') in
     if raw = [] then Some 100
     else case parse_int64 raw of
            None \<Rightarrow> None
          | Some v \<Rightarrow> if v < 1 \<or> 1000 < v \<or> raw \<noteq> int_text v then None else Some v)"

definition query_fence :: "http_query \<Rightarrow> int option option" where
  "query_fence q =
    (let raw = TrimSpace (query_get q ''after_ingest_fence'') in
     if raw = [] then Some None
     else case parse_int64 raw of
            None \<Rightarrow> None
          | Some v \<Rightarrow> if v < 0 \<or> raw \<noteq> int_text v then None else Some (Some v))"

definition parse_stable_query :: "string \<Rightarrow> http_query \<Rightarrow> (nat \<times> string) + stable_query" where
  "parse_stable_query method q =
    (if method \<noteq> ''GET'' then Inl (405, ''method'')
     else if \<not> list_all (\<lambda>kv. fst kv \<in> set allowed_keys) q then Inl (400, ''invalid stable session query'')
     else if query_get q ''cursor_protocol'' \<noteq> StableCursorProtocol then Inl (400, ''unsupported cursor protocol'')
     else if map_of q ''metadata_touch'' \<notin> {None, Some [''1'']} then Inl (400, ''invalid stable session query'')
     else
       (case Parse_time (TrimSpace (query_get q ''lower_bound_completed_at'')) of
          None \<Rightarrow> Inl (400, ''invalid lower bound'')
        | Some lower \<Rightarrow>
            (case query_limit q of
               None \<Rightarrow> Inl (400, ''invalid page limit'')
             | Some limit \<Rightarrow>
                 (case query_fence q of
                    None \<Rightarrow> Inl (400, ''invalid prior ingest fence'')
                  | Some fence \<Rightarrow>
                      let touch = (map_of q ''metadata_touch'' \<noteq> None);
                          snap = TrimSpace (query_get q ''snapshot'');
                          cur = TrimSpace (query_get q ''cursor'')
                      in if 128 < length snap \<or> (cur \<noteq> [] \<and> snap = []) \<or> (touch \<and> (snap = [] \<or> cur \<noteq> []))
                         then Inl (400, ''invalid stable session cursor'')
                         else Inr \<lparr>sq_metadataTouch = touch, sq_lowerBound = lower, sq_limit = limit,
                                   sq_afterRaw = TrimSpace (query_get q ''after_ingest_fence''), sq_afterFence = fence,
                                   sq_snapshotID = snap, sq_cursor = cur\<rparr>))))"

definition open_error :: "err \<Rightarrow> stable_response" where
  "open_error e =
    (case e of
       SnapshotNotReady \<Rightarrow> StableError 503 ''stable session projection is preparing''
     | SnapshotLimit \<Rightarrow> StableError 429 ''stable session snapshot capacity reached''
     | SnapshotExpired \<Rightarrow> StableError 410 ''stable session snapshot expired''
     | SnapshotCursor \<Rightarrow> StableError 400 ''invalid stable session cursor''
     | SnapshotTombstoneHistory \<Rightarrow>
         StableError 409 ''stable session tombstone history is unavailable before the upgrade fence''
     | _ \<Rightarrow> StableError 500 ''stable session snapshot failed'')"

definition stableSnapshotMetadata :: "stableSnapshotEntry \<Rightarrow> (string \<times> gv) list" where
  "stableSnapshotMetadata e =
    (let sn = en_Snapshot e in
     obj_of [(''snapshot_schema_version'', Num ''2''), (''cursor_protocol'', Str StableCursorProtocol), (''snapshot'', Str (en_ID e)),
       (''ingest_fence'', Str (Itoa (sn_ingestFence sn))),
       (''tombstone_safe_after_ingest_fence'', Str (Itoa (sn_tombstoneSafeAfter sn))),
       (''session_count'', Num (Itoa (length (sn_sessions sn)))), (''request_count'', Num (Itoa (sn_requestCount sn))),
       (''deleted_session_count'', Num (Itoa (sn_deletedCount sn))),
       (''session_set_sha256'', Str (sn_sessionSetSHA256 sn))])"

text \<open>The position a cursor stands for.\<close>

definition cursor_position ::
  "(nat \<Rightarrow> int) \<Rightarrow> nat \<Rightarrow> string \<Rightarrow> stableSnapshotRegistry \<Rightarrow> (stable_response + string \<times> string) \<times> stableSnapshotRegistry"
  where
  "cursor_position clock p cur rg =
    (if cur = [] then (Inr ([], []), rg)
     else
       (case resolveCursor (clock 1) (clock 2) p cur rg of
          (Inl SnapshotExpired, rg') \<Rightarrow> (Inl (StableError 410 ''stable session snapshot expired''), rg')
        | (Inl _, rg') \<Rightarrow> (Inl (StableError 400 ''invalid stable session cursor''), rg')
        | (Inr claims, rg') \<Rightarrow>
            let e = rg_heap rg' ! p in
            if cc_SnapshotID claims \<noteq> en_ID e \<or> cc_LowerBound claims \<noteq> en_LowerBound e
               \<or> cc_AfterFence claims \<noteq> en_AfterFence e \<or> cc_Limit claims \<noteq> en_Limit e
            then (Inl (StableError 400 ''invalid stable session cursor''), rg')
            else (Inr (cc_LastAt claims, cc_SessionID claims), rg')))"

definition next_claims :: "stableSnapshotEntry \<Rightarrow> StableSessionSummary \<Rightarrow> stableCursorClaims" where
  "next_claims e s =
    \<lparr>cc_SnapshotID = en_ID e, cc_LowerBound = en_LowerBound e, cc_AfterFence = en_AfterFence e, cc_Limit = en_Limit e,
     cc_LastAt = su_last_at s, cc_SessionID = su_session_id s\<rparr>"

definition answer_page ::
  "(nat \<Rightarrow> int) \<Rightarrow> nat \<Rightarrow> stable_query \<Rightarrow> stableSnapshotRegistry \<Rightarrow> stable_response \<times> stableSnapshotRegistry" where
  "answer_page clock p sq rg0 =
    (if sq_metadataTouch sq
     then (Touched (Obj (obj_put ''metadata_touch'' (Bool True) (stableSnapshotMetadata (rg_heap rg0 ! p)))), rg0)
     else
       (case cursor_position clock p (sq_cursor sq) rg0 of
          (Inl resp, rg) \<Rightarrow> (resp, rg)
        | (Inr (lastAt, sid), rg) \<Rightarrow>
            let e = rg_heap rg ! p in
            (case Page (en_Snapshot e) lastAt sid (sq_limit sq) of
               Inl _ \<Rightarrow> (StableError 400 ''invalid stable session cursor'', rg)
             | Inr (page, None) \<Rightarrow> (PageResponse (Obj (stableSnapshotMetadata e)) page True None, rg)
             | Inr (page, Some s) \<Rightarrow>
                 (case cursor_of (clock 3) (clock 4) p (next_claims e s) rg of
                    (Inl _, rg') \<Rightarrow> (StableError 410 ''stable session snapshot expired'', rg')
                  | (Inr token, rg') \<Rightarrow> (PageResponse (Obj (stableSnapshotMetadata e)) page False (Some token), rg')))))"

definition open_entry ::
  "(string \<Rightarrow> string \<Rightarrow> bool) \<Rightarrow> (nat \<Rightarrow> int) \<Rightarrow> string \<Rightarrow> stable_query \<Rightarrow> db \<Rightarrow> string list \<Rightarrow> stableSnapshotRegistry \<Rightarrow>
    nat result \<times> stableSnapshotRegistry \<times> string list" where
  "open_entry jd_ge clock random sq d queue rg =
    (if sq_snapshotID sq = []
     then create_entry jd_ge (clock 0) random (sq_lowerBound sq) (sq_afterFence sq) (sq_limit sq) d queue rg
     else
       let (res, rg') = get_entry (clock 0) (sq_snapshotID sq) (FormatNano (UTC (sq_lowerBound sq))) (sq_afterRaw sq)
             (sq_limit sq) rg
       in (res, rg', queue))"

definition stableSessions ::
  "(string \<Rightarrow> string \<Rightarrow> bool) \<Rightarrow> bool \<Rightarrow> (nat \<Rightarrow> int) \<Rightarrow> string \<Rightarrow> string \<Rightarrow> http_query \<Rightarrow> db \<Rightarrow> string list \<Rightarrow>
    stableSnapshotRegistry \<Rightarrow> stable_response \<times> stableSnapshotRegistry \<times> string list" where
  "stableSessions jd_ge allowOfflineFull clock random method q d queue rg =
    (case parse_stable_query method q of
       Inl (status, msg) \<Rightarrow> (StableError status msg, rg, queue)
     | Inr sq \<Rightarrow>
         if sq_snapshotID sq = [] \<and> sq_afterFence sq = None \<and> \<not> allowOfflineFull
         then (StableError 403 ''full snapshots require an offline archive'', rg, queue)
         else
           (case open_entry jd_ge clock random sq d queue rg of
              (Inl e, rg', queue') \<Rightarrow> (open_error e, rg', queue')
            | (Inr p, rg', queue') \<Rightarrow>
                let (resp, rg'') = answer_page clock p sq rg' in (resp, rg'', queue')))"

end
