(* ===== verification/Registry_Safety.thy ===== *)
theory Registry_Safety
  imports Stable_Endpoint
begin

text \<open>
  The registry as a transition system: requests run its critical sections in any order. However they interleave, the number
  of open snapshots, and so of read transactions held on the database, stays within the configured bound, and a snapshot
  is never closed while an export reads from it.
\<close>

section \<open>The invariant\<close>

abbreviation open_at :: "stableSnapshotRegistry \<Rightarrow> nat \<Rightarrow> bool" where
  "open_at rg p \<equiv> \<not> sn_closed (en_Snapshot (rg_heap rg ! p))"

text \<open>\<open>run\<close> lists the exports between their two critical sections, by snapshot id and entry.\<close>

definition registry_ok :: "stableSnapshotRegistry \<Rightarrow> (string \<times> nat) list \<Rightarrow> bool" where
  "registry_ok rg run \<longleftrightarrow>
    distinct (map fst (rg_snapshots rg)) \<and>
    (\<forall>(k, p) \<in> set (rg_snapshots rg). p < length (rg_heap rg) \<and> en_ID (rg_heap rg ! p) = k) \<and>
    int (length (rg_snapshots rg)) \<le> rg_maxActive rg \<and>
    (\<forall>p < length (rg_heap rg). open_at rg p \<longleftrightarrow> (en_ID (rg_heap rg ! p), p) \<in> set (rg_snapshots rg)) \<and>
    (\<forall>p < length (rg_heap rg). en_ActiveExports (rg_heap rg ! p) = int (length (filter (\<lambda>x. snd x = p) run))) \<and>
    set run \<subseteq> set (rg_snapshots rg)"

lemma registry_okD:
  assumes "registry_ok rg run"
  shows "distinct (map fst (rg_snapshots rg))"
    and "(k, p) \<in> set (rg_snapshots rg) \<Longrightarrow> p < length (rg_heap rg) \<and> en_ID (rg_heap rg ! p) = k"
    and "int (length (rg_snapshots rg)) \<le> rg_maxActive rg"
    and "p < length (rg_heap rg) \<Longrightarrow> open_at rg p \<longleftrightarrow> (en_ID (rg_heap rg ! p), p) \<in> set (rg_snapshots rg)"
    and "p < length (rg_heap rg) \<Longrightarrow> en_ActiveExports (rg_heap rg ! p) = int (length (filter (\<lambda>x. snd x = p) run))"
    and "set run \<subseteq> set (rg_snapshots rg)"
  using assms unfolding registry_ok_def by auto

section \<open>Updates of one entry\<close>

text \<open>An update that leaves the identity, the snapshot and the pins of the entry alone.\<close>

definition harmless :: "(stableSnapshotEntry \<Rightarrow> stableSnapshotEntry) \<Rightarrow> bool" where
  "harmless f \<longleftrightarrow> (\<forall>e. en_ID (f e) = en_ID e \<and> en_Snapshot (f e) = en_Snapshot e \<and> en_ActiveExports (f e) = en_ActiveExports e)"

lemma update_entry_simps [simp]:
  "rg_snapshots (update_entry p f rg) = rg_snapshots rg" "rg_maxActive (update_entry p f rg) = rg_maxActive rg"
  "length (rg_heap (update_entry p f rg)) = length (rg_heap rg)" "rg_idleTTL (update_entry p f rg) = rg_idleTTL rg"
  "rg_secret (update_entry p f rg) = rg_secret rg" "rg_ttl (update_entry p f rg) = rg_ttl rg"
  by (simp_all add: update_entry_def)

lemma heap_update: "q < length (rg_heap rg) \<Longrightarrow> rg_heap (update_entry p f rg) ! q = (if q = p then f (rg_heap rg ! q) else rg_heap rg ! q)"
  by (simp add: update_entry_def nth_list_update)

lemma registry_ok_harmless: "registry_ok rg run \<Longrightarrow> harmless f \<Longrightarrow> registry_ok (update_entry p f rg) run"
  unfolding registry_ok_def by (auto simp: heap_update harmless_def split: if_splits)

lemma harmless_touch: "harmless (\<lambda>e. e\<lparr>en_LastUsedAt := now\<rparr>)"
  and harmless_cursor: "harmless (\<lambda>e. e\<lparr>en_LastUsedAt := now, en_CursorState := f (en_CursorState e)\<rparr>)"
  by (simp_all add: harmless_def)

lemma registry_ok_touch: "registry_ok rg run \<Longrightarrow> registry_ok (touch now p rg) run"
  unfolding touch_def by (rule registry_ok_harmless [OF _ harmless_touch])

section \<open>Cleanup\<close>

lemma close_entry_simps [simp]:
  "en_ID (close_entry e) = en_ID e" "en_ActiveExports (close_entry e) = en_ActiveExports e"
  "sn_closed (en_Snapshot (close_entry e))" "close_entry (close_entry e) = close_entry e"
  by (simp_all add: close_entry_def Close_def)

lemma fold_close:
  "\<forall>x \<in> set ds. snd x < length (rg_heap rg) \<Longrightarrow>
    rg_snapshots (fold (\<lambda>(k, p). update_entry p close_entry) ds rg) = rg_snapshots rg
    \<and> rg_maxActive (fold (\<lambda>(k, p). update_entry p close_entry) ds rg) = rg_maxActive rg
    \<and> length (rg_heap (fold (\<lambda>(k, p). update_entry p close_entry) ds rg)) = length (rg_heap rg)
    \<and> (\<forall>q < length (rg_heap rg). rg_heap (fold (\<lambda>(k, p). update_entry p close_entry) ds rg) ! q =
        (if q \<in> snd ` set ds then close_entry (rg_heap rg ! q) else rg_heap rg ! q))"
proof (induction ds arbitrary: rg)
  case (Cons x ds)
  let ?rg = "update_entry (snd x) close_entry rg"
  have "\<forall>y \<in> set ds. snd y < length (rg_heap ?rg)" using Cons.prems by simp
  note IH = Cons.IH [OF this]
  have "fold (\<lambda>(k, p). update_entry p close_entry) (x # ds) rg = fold (\<lambda>(k, p). update_entry p close_entry) ds ?rg"
    by (simp add: split_beta)
  with IH show ?case by (auto simp: heap_update)
qed simp

lemma cleanup_effect:
  fixes now :: int
  assumes "registry_ok rg run"
  defines "rg' \<equiv> cleanupLocked now rg"
  shows "rg_snapshots rg' = filter (\<lambda>(k, p). \<not> stale rg now (rg_heap rg ! p)) (rg_snapshots rg)"
    and "rg_maxActive rg' = rg_maxActive rg" and "length (rg_heap rg') = length (rg_heap rg)"
    and "q < length (rg_heap rg) \<Longrightarrow> rg_heap rg' ! q =
      (if open_at rg q \<and> stale rg now (rg_heap rg ! q) then close_entry (rg_heap rg ! q) else rg_heap rg ! q)"
proof -
  let ?dead = "filter (\<lambda>(k, p). stale rg now (rg_heap rg ! p)) (rg_snapshots rg)"
  have "\<forall>x \<in> set ?dead. snd x < length (rg_heap rg)" using registry_okD(2) [OF assms(1)] by auto
  note f = fold_close [OF this]
  have rg': "rg' = (fold (\<lambda>(k, p). update_entry p close_entry) ?dead rg)
      \<lparr>rg_snapshots := filter (\<lambda>(k, p). \<not> stale rg now (rg_heap rg ! p)) (rg_snapshots rg)\<rparr>"
    by (simp add: rg'_def cleanupLocked_def Let_def)
  show "rg_snapshots rg' = filter (\<lambda>(k, p). \<not> stale rg now (rg_heap rg ! p)) (rg_snapshots rg)"
    "rg_maxActive rg' = rg_maxActive rg" "length (rg_heap rg') = length (rg_heap rg)"
    using f by (simp_all add: rg')
  assume q: "q < length (rg_heap rg)"
  have "q \<in> snd ` set ?dead \<longleftrightarrow> open_at rg q \<and> stale rg now (rg_heap rg ! q)"
  proof
    assume "q \<in> snd ` set ?dead"
    then obtain k where k: "(k, q) \<in> set (rg_snapshots rg)" "stale rg now (rg_heap rg ! q)" by auto
    with registry_okD(2) [OF assms(1) k(1)] registry_okD(4) [OF assms(1) q]
    show "open_at rg q \<and> stale rg now (rg_heap rg ! q)" by simp
  next
    assume "open_at rg q \<and> stale rg now (rg_heap rg ! q)"
    with registry_okD(4) [OF assms(1) q] have "(en_ID (rg_heap rg ! q), q) \<in> set ?dead" by simp
    then show "q \<in> snd ` set ?dead" by (rule rev_image_eqI) simp
  qed
  with f q show "rg_heap rg' ! q =
      (if open_at rg q \<and> stale rg now (rg_heap rg ! q) then close_entry (rg_heap rg ! q) else rg_heap rg ! q)"
    by (simp add: rg')
qed

lemma registry_ok_cleanup:
  assumes "registry_ok rg run"
  shows "registry_ok (cleanupLocked now rg) run"
proof -
  note ok = registry_okD [OF assms]
  note eff = cleanup_effect [OF assms, where now = now]
  have snaps: "(k, p) \<in> set (rg_snapshots (cleanupLocked now rg)) \<longleftrightarrow>
      (k, p) \<in> set (rg_snapshots rg) \<and> \<not> stale rg now (rg_heap rg ! p)" for k p
    by (simp add: eff(1))
  show ?thesis
    unfolding registry_ok_def
  proof (intro conjI)
    show "distinct (map fst (rg_snapshots (cleanupLocked now rg)))"
      unfolding eff(1) using ok(1) by (rule distinct_map_filter)
    show "\<forall>(k, p) \<in> set (rg_snapshots (cleanupLocked now rg)).
        p < length (rg_heap (cleanupLocked now rg)) \<and> en_ID (rg_heap (cleanupLocked now rg) ! p) = k"
      using ok(2) by (auto simp: snaps eff(3,4))
    have "length (rg_snapshots (cleanupLocked now rg)) \<le> length (rg_snapshots rg)" unfolding eff(1) by (rule length_filter_le)
    then show "int (length (rg_snapshots (cleanupLocked now rg))) \<le> rg_maxActive (cleanupLocked now rg)"
      using ok(3) by (simp add: eff(2))
    show "\<forall>p < length (rg_heap (cleanupLocked now rg)). open_at (cleanupLocked now rg) p \<longleftrightarrow>
        (en_ID (rg_heap (cleanupLocked now rg) ! p), p) \<in> set (rg_snapshots (cleanupLocked now rg))"
      using ok(4) by (auto simp: snaps eff(3,4))
    show "\<forall>p < length (rg_heap (cleanupLocked now rg)).
        en_ActiveExports (rg_heap (cleanupLocked now rg) ! p) = int (length (filter (\<lambda>x. snd x = p) run))"
      using ok(5) by (auto simp: eff(3,4))
    show "set run \<subseteq> set (rg_snapshots (cleanupLocked now rg))"
    proof
      fix x assume x: "x \<in> set run"
      obtain k p where kp: "x = (k, p)" by (cases x)
      have p: "p < length (rg_heap rg)" using x ok(2,6) kp by auto
      have "filter (\<lambda>y. snd y = p) run \<noteq> []" using x kp by (auto simp: filter_empty_conv intro!: bexI [of _ "(k, p)"])
      then have "0 < en_ActiveExports (rg_heap rg ! p)" using ok(5) [OF p] by simp
      then show "x \<in> set (rg_snapshots (cleanupLocked now rg))" using x ok(6) kp by (auto simp: snaps stale_def)
    qed
  qed
qed

section \<open>Lookups, creation and exports\<close>

lemma lookup_live_Inr:
  "lookup_live now k rg = Inr p \<Longrightarrow> (k, p) \<in> set (rg_snapshots rg) \<and> now < en_ExpiresAt (rg_heap rg ! p)"
  by (auto simp: lookup_live_def dest: map_of_SomeD split: option.splits if_splits)

lemma update_absent: "k \<notin> fst ` set al \<Longrightarrow> AList.update k v al = al @ [(k, v)]"
  by (induction al) auto

lemma registry_ok_create:
  assumes "registry_ok rg run" and "b64_rawurl random \<notin> en_ID ` set (rg_heap rg)"
    and "create_entry jd now random lower after limit d q rg = (res, rg', q')"
  shows "registry_ok rg' run"
proof -
  let ?rg = "cleanupLocked now rg"
  let ?h = "rg_heap ?rg"
  have ok1: "registry_ok ?rg run" by (rule registry_ok_cleanup [OF assms(1)])
  note ok = registry_okD [OF ok1]
  note eff = cleanup_effect [OF assms(1), where now = now]
  consider "rg' = ?rg" | sn where "int (length (rg_snapshots ?rg)) < rg_maxActive ?rg"
      "BeginStableSessionSnapshot jd lower after d q = (Inr sn, q')"
      "rg' = ?rg\<lparr>rg_heap := ?h @ [\<lparr>en_ID = b64_rawurl random, en_LowerBound = FormatNano (UTC lower),
                 en_AfterFence = (case after of None \<Rightarrow> [] | Some a \<Rightarrow> int_text a), en_Limit = limit,
                 en_CreatedAt = now, en_LastUsedAt = now, en_ExpiresAt = now + rg_ttl ?rg,
                 en_Snapshot = sn, en_CursorState = [], en_ActiveExports = 0\<rparr>],
             rg_snapshots := AList.update (b64_rawurl random) (length ?h) (rg_snapshots ?rg)\<rparr>"
    using assms(3) by (auto simp: create_entry_def Let_def not_le split: if_splits prod.splits sum.splits)
  then show ?thesis
  proof cases
    case 1
    with ok1 show ?thesis by simp
  next
    case (2 sn)
    let ?id = "b64_rawurl random"
    have "en_ID (?h ! p) \<noteq> ?id" if "p < length ?h" for p
    proof -
      have "en_ID (?h ! p) = en_ID (rg_heap rg ! p)" using that eff(3,4) by auto
      moreover have "rg_heap rg ! p \<in> set (rg_heap rg)" using that eff(3) by simp
      ultimately show ?thesis using assms(2) by (metis image_eqI)
    qed
    then have ids: "?id \<notin> fst ` set (rg_snapshots ?rg)" using ok(2) by fastforce
    then have snaps: "rg_snapshots rg' = rg_snapshots ?rg @ [(?id, length ?h)]"
      by (simp add: 2(3) update_absent)
    have fresh_run: "filter (\<lambda>x. snd x = length ?h) run = []"
      using ok(2,6) by (fastforce simp: filter_empty_conv)
    obtain sids where "begin_snapshot sids d q = (Inr sn, q')" using 2(2) by (rule BeginStable_cases)
    then have "\<not> sn_closed sn" by (auto elim: begin_snapshot_run)
    moreover have len: "length (rg_heap rg') = Suc (length ?h)" by (simp add: 2(3))
    moreover have heap: "rg_heap rg' ! p = ?h ! p" if "p < length ?h" for p using that by (simp add: 2(3) nth_append)
    moreover have new: "en_ID (rg_heap rg' ! length ?h) = ?id" "en_Snapshot (rg_heap rg' ! length ?h) = sn"
      "en_ActiveExports (rg_heap rg' ! length ?h) = 0" by (simp_all add: 2(3))
    moreover have "rg_maxActive rg' = rg_maxActive ?rg" by (simp add: 2(3))
    ultimately show ?thesis
      unfolding registry_ok_def using ok 2(1) ids fresh_run
      by (auto simp: snaps less_Suc_eq)
  qed
qed

lemma registry_ok_pin:
  assumes "registry_ok rg run" and "(k, p) \<in> set (rg_snapshots rg)"
  shows "registry_ok (update_entry p (\<lambda>e. e\<lparr>en_LastUsedAt := now, en_ActiveExports := en_ActiveExports e + 1\<rparr>) rg)
    ((k, p) # run)"
  using assms unfolding registry_ok_def by (auto simp: heap_update split: if_splits)

lemma registry_ok_unpin:
  assumes "registry_ok rg ((k, p) # run)"
  shows "registry_ok (update_entry p (\<lambda>e. e\<lparr>en_ActiveExports := en_ActiveExports e - 1\<rparr>) rg) run"
  using assms unfolding registry_ok_def by (auto simp: heap_update split: if_splits)

lemma registry_ok_drop:
  assumes ok: "registry_ok rg run" and mem: "(k, p) \<in> set (rg_snapshots rg)" and idle: "en_ActiveExports (rg_heap rg ! p) = 0"
  shows "registry_ok (update_entry p close_entry (rg\<lparr>rg_snapshots := AList.delete k (rg_snapshots rg)\<rparr>)) run"
proof -
  note D = registry_okD [OF ok]
  have p: "p < length (rg_heap rg)" "en_ID (rg_heap rg ! p) = k" using D(2) mem by auto
  have none: "filter (\<lambda>x. snd x = p) run = []" using D(5) [OF p(1)] idle by simp
  have only: "q = p" if "(k, q) \<in> set (rg_snapshots rg)" for q
    using that mem D(1) by (metis eq_key_imp_eq_value)
  have del: "(k', q) \<in> set (AList.delete k (rg_snapshots rg)) \<longleftrightarrow> (k', q) \<in> set (rg_snapshots rg) \<and> k' \<noteq> k" for k' q
    by (auto simp: AList.delete_eq)
  have "set run \<subseteq> set (AList.delete k (rg_snapshots rg))"
  proof
    fix x assume x: "x \<in> set run"
    obtain k' q where kq: "x = (k', q)" by (cases x)
    with x D(6) have "(k', q) \<in> set (rg_snapshots rg)" by auto
    moreover have "q \<noteq> p" using none x kq by (auto simp: filter_empty_conv)
    ultimately show "x \<in> set (AList.delete k (rg_snapshots rg))" using only by (auto simp: kq del)
  qed
  moreover have "distinct (map fst (AList.delete k (rg_snapshots rg)))" using D(1) by (simp add: distinct_delete)
  moreover have "length (AList.delete k (rg_snapshots rg)) \<le> length (rg_snapshots rg)" by (simp add: AList.delete_eq)
  moreover define rg' where "rg' = update_entry p close_entry (rg\<lparr>rg_snapshots := AList.delete k (rg_snapshots rg)\<rparr>)"
  have heap: "rg_heap rg' ! q = (if q = p then close_entry (rg_heap rg ! q) else rg_heap rg ! q)" if "q < length (rg_heap rg)" for q
    using that by (simp add: rg'_def update_entry_def nth_list_update)
  have len: "length (rg_heap rg') = length (rg_heap rg)" by (simp add: rg'_def update_entry_def)
  have "open_at rg' q \<longleftrightarrow> (en_ID (rg_heap rg' ! q), q) \<in> set (AList.delete k (rg_snapshots rg))"
    if q: "q < length (rg_heap rg)" for q
    using D(4) [OF q] only p(2) by (cases "q = p") (auto simp: heap [OF q] heap [OF p(1)] del)
  moreover have "q < length (rg_heap rg) \<and> en_ID (rg_heap rg' ! q) = k'" if "(k', q) \<in> set (AList.delete k (rg_snapshots rg))" for k' q
    using D(2) [of k' q] that heap [of q] by (auto simp: del)
  moreover have "en_ActiveExports (rg_heap rg' ! q) = int (length (filter (\<lambda>x. snd x = q) run))" if "q < length (rg_heap rg)" for q
    using D(5) [OF that] heap [OF that] by auto
  moreover have "rg_snapshots rg' = AList.delete k (rg_snapshots rg)" "rg_maxActive rg' = rg_maxActive rg"
    by (simp_all add: rg'_def)
  ultimately have "registry_ok rg' run"
    using D(3) unfolding registry_ok_def len by auto
  then show ?thesis by (simp add: rg'_def)
qed

lemma registry_ok_export_end:
  assumes "registry_ok rg ((k, p) # run)" and "export_end now k p e rg = (e', rg')"
  shows "registry_ok rg' run"
proof -
  let ?rg1 = "update_entry p (\<lambda>e. e\<lparr>en_ActiveExports := en_ActiveExports e - 1\<rparr>) rg"
  have ok1: "registry_ok ?rg1 run" by (rule registry_ok_unpin [OF assms(1)])
  have ok2: "registry_ok (touch now p ?rg1) run" by (rule registry_ok_touch [OF ok1])
  have mem: "(k, p) \<in> set (rg_snapshots rg)" using registry_okD(6) [OF assms(1)] by auto
  have "registry_ok (update_entry p close_entry ((touch now p ?rg1)\<lparr>rg_snapshots := AList.delete k (rg_snapshots (touch now p ?rg1))\<rparr>)) run"
    if "en_ActiveExports (rg_heap (touch now p ?rg1) ! p) = 0"
    by (rule registry_ok_drop [OF ok2 _ that]) (simp add: touch_def mem)
  with ok1 ok2 assms(2) show ?thesis by (auto simp: export_end_def Let_def split: if_splits)
qed

section \<open>The transition system\<close>

text \<open>
  The critical sections, in any order and with any clock readings. A new id is fresh: it is the encoding of 32 random bytes.
\<close>

inductive registry_step ::
  "stableSnapshotRegistry \<times> (string \<times> nat) list \<Rightarrow> stableSnapshotRegistry \<times> (string \<times> nat) list \<Rightarrow> bool" where
  tick: "registry_step (rg, run) (cleanupLocked now rg, run)"
| create: "b64_rawurl random \<notin> en_ID ` set (rg_heap rg) \<Longrightarrow>
    create_entry jd now random lower after limit d q rg = (res, rg', q') \<Longrightarrow> registry_step (rg, run) (rg', run)"
| get: "get_entry now k lower after limit rg = (res, rg') \<Longrightarrow> registry_step (rg, run) (rg', run)"
| get_for_export: "getForExport now k rg = (res, rg') \<Longrightarrow> registry_step (rg, run) (rg', run)"
| export_starts: "export_begin now k rg = (Inr p, rg') \<Longrightarrow> registry_step (rg, run) (rg', (k, p) # run)"
| export_refused: "export_begin now k rg = (Inl e, rg') \<Longrightarrow> registry_step (rg, run) (rg', run)"
| export_ends: "export_end now k p e rg = (e', rg') \<Longrightarrow> registry_step (rg, run1 @ (k, p) # run2) (rg', run1 @ run2)"
| validate: "validateExport now k sid digest rg = (res, rg') \<Longrightarrow> registry_step (rg, run) (rg', run)"
| cursor: "cursor_of now1 now2 p claims rg = (res, rg') \<Longrightarrow> registry_step (rg, run) (rg', run)"
| resolve: "resolveCursor now1 now2 p token rg = (res', rg') \<Longrightarrow> registry_step (rg, run) (rg', run)"
| diagnose: "diagnostics now rg = (res'', rg') \<Longrightarrow> registry_step (rg, run) (rg', run)"

lemma registry_ok_perm: "registry_ok rg (run1 @ x # run2) \<longleftrightarrow> registry_ok rg (x # run1 @ run2)"
  unfolding registry_ok_def by auto

lemma registry_ok_step: "registry_step s s' \<Longrightarrow> registry_ok (fst s) (snd s) \<Longrightarrow> registry_ok (fst s') (snd s')"
proof (induction rule: registry_step.induct)
  case (tick rg run now)
  then show ?case by (simp add: registry_ok_cleanup)
next
  case (create random rg jd now lower after limit d q res rg' q' run)
  then show ?case by (simp add: registry_ok_create)
next
  case (get now k lower after limit rg res rg' run)
  with registry_ok_cleanup [of rg run now] show ?case
    by (auto simp: get_entry_def Let_def intro: registry_ok_touch split: sum.splits if_splits)
next
  case (get_for_export now k rg res rg' run)
  with registry_ok_cleanup [of rg run now] show ?case
    by (auto simp: getForExport_def Let_def intro: registry_ok_touch split: sum.splits)
next
  case (export_starts now k rg p rg' run)
  with registry_ok_cleanup [of rg run now] show ?case
    by (auto simp: export_begin_def Let_def dest: lookup_live_Inr intro!: registry_ok_pin split: sum.splits)
next
  case (export_refused now k rg e rg' run)
  with registry_ok_cleanup [of rg run now] show ?case by (auto simp: export_begin_def Let_def split: sum.splits)
next
  case (export_ends now k p e rg e' rg' run1 run2)
  then show ?case by (auto simp: registry_ok_perm intro: registry_ok_export_end)
next
  case (validate now k sid digest rg res rg' run)
  with registry_ok_cleanup [of rg run now] show ?case
    by (auto simp: validateExport_def Let_def intro: registry_ok_touch split: sum.splits option.splits if_splits)
next
  case (cursor now1 now2 p claims rg res rg' run)
  then show ?case
    by (auto simp: cursor_of_def intro!: registry_ok_harmless harmless_cursor split: if_splits)
next
  case (resolve now1 now2 p token rg res' rg' run)
  then show ?case by (auto simp: resolveCursor_def intro: registry_ok_touch split: if_splits)
next
  case (diagnose now rg res'' rg' run)
  then show ?case by (auto simp: diagnostics_def Let_def registry_ok_cleanup)
qed

lemma registry_ok_new: "newStableSnapshotRegistry secret ttl idle maxActive = Inr rg \<Longrightarrow> registry_ok rg []"
  by (auto simp: newStableSnapshotRegistry_def registry_ok_def split: if_splits)

lemma registry_reach: "registry_step\<^sup>*\<^sup>* s s' \<Longrightarrow> registry_ok (fst s) (snd s) \<Longrightarrow> registry_ok (fst s') (snd s')"
  by (induction rule: rtranclp_induct) (auto intro: registry_ok_step)

lemma registry_maxActive: "registry_step\<^sup>*\<^sup>* s s' \<Longrightarrow> registry_ok (fst s) (snd s) \<Longrightarrow> rg_maxActive (fst s') = rg_maxActive (fst s)"
proof (induction rule: rtranclp_induct)
  case (step s1 s2)
  have "registry_ok (fst s1) (snd s1)" by (rule registry_reach [OF step.hyps(1) step.prems])
  with step.hyps(2) have "rg_maxActive (fst s2) = rg_maxActive (fst s1)"
    by (cases rule: registry_step.cases)
      (auto simp: create_entry_def get_entry_def getForExport_def export_begin_def export_end_def validateExport_def cursor_of_def
        resolveCursor_def diagnostics_def Let_def touch_def cleanup_effect(2) split: if_splits sum.splits prod.splits option.splits)
  with step show ?case by simp
qed simp


end
