(* ===== verification/Legacy.thy ===== *)
theory Legacy
  imports Records
begin

text \<open>
  \<open>MigrateLegacy\<close> of \<open>internal/archive/store.go\<close>: rows that still hold their payloads in gzip columns are moved to
  the content-addressed store, eight per transaction, until none is left.
\<close>

definition legacy :: "rec_row \<Rightarrow> bool" where
  "legacy r \<longleftrightarrow> original_ref r = [] \<and> (original_request_gz r \<noteq> NoData \<or> response_gz r \<noteq> NoData)"

definition set_refs :: "string \<Rightarrow> string \<Rightarrow> string \<Rightarrow> rec_row \<Rightarrow> rec_row" where
  "set_refs orig up resp r =
    r\<lparr>original_ref := orig, upstream_ref := up, response_ref := resp, original_request_gz := NoData,
      upstream_request_gz := NoData, response_gz := NoData\<rparr>"

definition migrate_one :: "bool \<Rightarrow> rec_row \<Rightarrow> db \<Rightarrow> db result" where
  "migrate_one storeUpstream x d =
    bind_res (gunzipBytesChecked (original_request_gz x)) (\<lambda>original.
    let (orig, d1) = putPayload original d in
    bind_res
      (if storeUpstream
       then bind_res (gunzipBytesChecked (upstream_request_gz x)) (\<lambda>upstream. Inr (putPayload upstream d1))
       else Inr ([], d1)) (\<lambda>(up, d2).
    bind_res (gunzipBytesChecked (response_gz x)) (\<lambda>response.
    let (resp, d3) = putPayload response d2 in
      Inr (update_records (\<lambda>r. request_id r = request_id x) (set_refs orig up resp) d3))))"

lemma records_putPayload: "records (snd (putPayload raw d)) = records d"
  using putPayload_only_blobs [of raw d] by fastforce

lemma migrate_one_run:
  assumes "migrate_one up x d = Inr d'"
  shows "\<exists>o' u r. records d' = map (\<lambda>y. if request_id y = request_id x then set_refs o' u r y else y) (records d)"
    and "logged d d'" and "loadBlob d h = Inr s \<Longrightarrow> loadBlob d' h = Inr s"
    and "export_digests d' = export_digests d"
proof -
  let ?up = "\<lambda>d1. if up
    then bind_res (gunzipBytesChecked (upstream_request_gz x)) (\<lambda>upstream. Inr (putPayload upstream d1))
    else Inr ([], d1)"
  from assms obtain a u c where
    g: "?up (snd (putPayload a d)) = Inr u"
    and d': "d' = update_records (\<lambda>r. request_id r = request_id x)
      (set_refs (fst (putPayload a d)) (fst u) (fst (putPayload c (snd u)))) (snd (putPayload c (snd u)))"
    unfolding migrate_one_def bind_res_Inr_iff Let_def split_beta by auto
  define d1 where "d1 = snd (putPayload a d)"
  define d2 where "d2 = snd u"
  define d3 where "d3 = snd (putPayload c d2)"
  have u: "d2 = d1 \<or> (\<exists>b. d2 = snd (putPayload b d1))"
    using g by (auto simp: d1_def d2_def bind_res_Inr_iff split: if_splits)
  have e: "export_digests (snd (putPayload raw x)) = export_digests x" for raw x
    using putPayload_only_blobs [of raw x] by fastforce
  then have "export_digests d1 = export_digests d" "export_digests d2 = export_digests d1"
    "export_digests d3 = export_digests d2"
    using u by (auto simp: d1_def d3_def)
  then show "export_digests d' = export_digests d" by (simp add: d' update_records_fires row_simps d3_def d2_def)
  have k: "records d1 = records d" "records d2 = records d1" "records d3 = records d2"
    using u by (auto simp: d1_def d3_def records_putPayload)
  show "\<exists>o' u r. records d' = map (\<lambda>y. if request_id y = request_id x then set_refs o' u r y else y) (records d)"
    using k by (auto simp: d' update_records_fires row_simps d3_def d2_def)
  have l: "logged e (snd (putPayload raw e))" for raw e
    using putPayload_only_blobs [of raw e] by (auto intro!: logged_same)
  have "logged d d1" "logged d1 d2" "logged d2 d3"
    using u l [of d a] l [of d2 c] l [of d1] logged_same [of d1 d1] by (auto simp: d1_def d3_def)
  moreover have "logged d3 d'" unfolding d' d3_def d2_def by (rule logged_update) (simp add: set_refs_def)
  ultimately show "logged d d'" by (meson logged_trans)
  show "loadBlob d' h = Inr s" if "loadBlob d h = Inr s"
  proof -
    have "loadBlob d1 h = Inr s" using putPayload_mono [OF that, of a] by (simp add: d1_def)
    then have "loadBlob d2 h = Inr s" using u putPayload_mono [of d1] by auto
    then have "loadBlob d3 h = Inr s" using putPayload_mono [of d2 h s c] by (simp add: d3_def)
    then show ?thesis
      by (cases "h = []") (simp_all add: d' update_records_fires loadBlob_def find_blob_def row_simps d3_def d2_def)
  qed
qed

definition legacy_left :: "db \<Rightarrow> nat" where
  "legacy_left d = length (filter legacy (records d))"

lemma set_refs_not_legacy [simp]: "\<not> legacy (set_refs a b c r)"
  by (simp add: legacy_def set_refs_def)

lemma filter_legacy_map:
  "length (filter legacy (map (\<lambda>y. if P y then set_refs a b c y else y) rs)) = length (filter (\<lambda>y. legacy y \<and> \<not> P y) rs)"
  by (induction rs) auto

lemma length_filter_mono: "(\<And>x. P x \<Longrightarrow> Q x) \<Longrightarrow> length (filter P xs) \<le> length (filter Q xs)"
  by (induction xs) auto

lemma migrate_one_left:
  assumes "migrate_one up x d = Inr d'"
  shows "legacy_left d' \<le> legacy_left d"
    and "x \<in> set (filter legacy (records d)) \<Longrightarrow> legacy_left d' < legacy_left d"
proof -
  from migrate_one_run(1) [OF assms] have eq: "legacy_left d' =
      length (filter (\<lambda>y. legacy y \<and> request_id y \<noteq> request_id x) (records d))"
    by (elim exE) (simp only: legacy_left_def filter_legacy_map)
  then show "legacy_left d' \<le> legacy_left d" by (auto simp: legacy_left_def intro!: length_filter_mono)
  assume "x \<in> set (filter legacy (records d))"
  then have "length (filter (\<lambda>y. request_id y \<noteq> request_id x) (filter legacy (records d))) <
      length (filter legacy (records d))"
    by (intro length_filter_less [of x]) simp_all
  with eq show "legacy_left d' < legacy_left d" by (simp add: legacy_left_def conj_commute)
qed

lemma migrate_batch_left:
  assumes "foldM_res (migrate_one up) batch d = Inr d'" and "batch \<noteq> []"
    and "set batch \<subseteq> set (filter legacy (records d))"
  shows "legacy_left d' < legacy_left d"
proof -
  from assms obtain x xs d1 where x: "batch = x # xs" "migrate_one up x d = Inr d1"
    "foldM_res (migrate_one up) xs d1 = Inr d'"
    by (cases batch) (auto simp: bind_res_Inr_iff)
  have "legacy_left d' \<le> legacy_left d1"
    by (rule foldM_res_rel [OF x(3), where Q = "\<lambda>a b. legacy_left b \<le> legacy_left a"])
      (auto dest: migrate_one_left(1))
  with migrate_one_left(2) [OF x(2)] x(1) assms(3) show ?thesis by simp
qed

text \<open>A transaction that fails is rolled back; the earlier ones stay.\<close>

function MigrateLegacy :: "bool \<Rightarrow> db \<Rightarrow> err option \<times> db" where
  "MigrateLegacy storeUpstream d =
    (let batch = take 8 (filter legacy (records d)) in
     if batch = [] then (None, d)
     else
       (case foldM_res (migrate_one storeUpstream) batch d of
          Inl e \<Rightarrow> (Some e, d)
        | Inr d' \<Rightarrow> MigrateLegacy storeUpstream d'))"
  by pat_completeness auto
termination
  by (relation "measure (\<lambda>(up, d). legacy_left d)") (auto intro!: migrate_batch_left dest: in_set_takeD)

declare MigrateLegacy.simps [simp del]

interpretation migration: logged_op "migrate_one up" for up
  by unfold_locales (rule migrate_one_run(2))

lemma migrate_batch_loads:
  assumes "foldM_res (migrate_one up) batch d = Inr d'" and "loadBlob d h = Inr s"
  shows "loadBlob d' h = Inr s"
  by (rule foldM_res_rel [OF assms(1), where Q = "\<lambda>a b. loadBlob a h = Inr s \<longrightarrow> loadBlob b h = Inr s", rule_format])
    (use assms(2) migrate_one_run(3) in auto)

definition legacy_readable :: "rec_row \<Rightarrow> bool" where
  "legacy_readable r \<longleftrightarrow>
    (\<forall>z \<in> {original_request_gz r, upstream_request_gz r, response_gz r}. \<exists>s. gunzipBytesChecked z = Inr s)"

lemma migrate_one_total: "legacy_readable x \<Longrightarrow> \<exists>d'. migrate_one up x d = Inr d'"
  by (auto simp: legacy_readable_def migrate_one_def Let_def split_beta)

lemma migrate_batch_total:
  "\<forall>x \<in> set batch. legacy_readable x \<Longrightarrow> \<exists>d'. foldM_res (migrate_one up) batch d = Inr d'"
proof (induction batch arbitrary: d)
  case (Cons x xs)
  then obtain d1 where "migrate_one up x d = Inr d1" using migrate_one_total [of x up d] by auto
  with Cons show ?case by auto
qed simp

lemma migrated_rows_readable:
  assumes "foldM_res (migrate_one up) batch d = Inr d'"
  shows "(\<forall>r \<in> set (records d). legacy_readable r) \<longrightarrow> (\<forall>r \<in> set (records d'). legacy_readable r)"
proof (rule foldM_res_rel [OF assms])
  fix x a b assume "migrate_one up x a = Inr b"
  from migrate_one_run(1) [OF this] show
    "(\<forall>r \<in> set (records a). legacy_readable r) \<longrightarrow> (\<forall>r \<in> set (records b). legacy_readable r)"
    by (auto simp: legacy_readable_def set_refs_def gunzipBytesChecked_def)
qed auto


text \<open>
  A legacy row that was archived again: its new response is in the store, its request still in the gzip column.
  The migration replaces the reference to the new response by what the old column holds, here nothing.
\<close>

definition reingested_row :: rec_row where
  "reingested_row =
    blank_row\<lparr>r_id := 1, request_id := ''q'', original_request_gz := Stream ''[]'', response_ref := ''sha256:new''\<rparr>"

text \<open>
  A request that is archived again before its legacy row is migrated loses its new response: the row keeps no
  reference to it after the migration, although it is still in the blob table.
\<close>

theorem MigrateLegacy_drops_new_response:
  "map response_ref (records (snd (MigrateLegacy up (empty_db\<lparr>records := [reingested_row]\<rparr>)))) = [[]]"
proof -
  let ?d = "empty_db\<lparr>records := [reingested_row]\<rparr>"
  have leg: "filter legacy (records ?d) = [reingested_row]"
    by (simp add: legacy_def reingested_row_def blank_row_def)
  obtain d1 where d1: "migrate_one up reingested_row ?d = Inr d1"
    using migrate_one_total [of reingested_row up ?d]
    by (auto simp: legacy_readable_def reingested_row_def blank_row_def gunzipBytesChecked_def)
  have e: "putPayload [] d = ([], d)" for d by (simp add: putPayload_def CompactPayload_def)
  have z: "gunzipBytesChecked (original_request_gz reingested_row) = Inr ''[]''"
    "gunzipBytesChecked (upstream_request_gz reingested_row) = Inr []"
    "gunzipBytesChecked (response_gz reingested_row) = Inr []"
    by (simp_all add: reingested_row_def blank_row_def gunzipBytesChecked_def)
  have "records d1 = [set_refs (fst (putPayload ''[]'' ?d)) [] [] reingested_row]"
    using d1
    by (cases up) (auto simp: migrate_one_def z e Let_def split_beta update_records_fires row_simps records_putPayload)
  then have recs: "\<exists>o' u. records d1 = [set_refs o' u [] reingested_row]" by blast
  then have "filter legacy (records d1) = []" by auto
  then have "MigrateLegacy up ?d = (None, d1)"
    unfolding MigrateLegacy.simps [of up ?d] leg by (simp add: d1 MigrateLegacy.simps [of up d1])
  with recs show ?thesis by (auto simp: set_refs_def)
qed


end
