(* ===== verification/Evolution.thy ===== *)
theory Evolution
  imports Legacy
begin

text \<open>
  How an operation may change the archive: every change of a record is logged, no payload a record refers to is lost, the digest
  projection is left alone and request ids stay unique. The operations of the store are shown to be of this kind once;
  what digests, snapshots and incremental listings guarantee follows for all of them.
\<close>

lemma find_distinct: "distinct (map f xs) \<Longrightarrow> x \<in> set xs \<Longrightarrow> find (\<lambda>y. f y = f x) xs = Some x"
  by (induction xs) (auto intro: rev_image_eqI)

lemma find_append: "find P (xs @ ys) = (case find P xs of Some r \<Rightarrow> Some r | None \<Rightarrow> find P ys)"
  by (induction xs) auto

section \<open>How the archive may change\<close>

definition unique_requests :: "db \<Rightarrow> bool" where
  "unique_requests d \<longleftrightarrow> distinct (map request_id (records d))"

text \<open>
  A transition as the digest projection sees it: logged, its own table untouched, and no payload of a record lost.
\<close>

definition evolves :: "nat \<Rightarrow> db \<Rightarrow> db \<Rightarrow> bool" where
  "evolves n d d' \<longleftrightarrow>
    logged d d' \<and> export_digests d' = export_digests d \<and> (unique_requests d \<longrightarrow> unique_requests d') \<and>
    (\<forall>r \<in> set (records d). \<forall>ref \<in> {original_ref r, upstream_ref r, response_ref r}. \<forall>x.
      ref \<noteq> [] \<longrightarrow> LoadPayload n d ref = Inr x \<longrightarrow> LoadPayload n d' ref = Inr x)"

text \<open>The stronger form that composes: no blob is lost at all.\<close>

definition grows :: "db \<Rightarrow> db \<Rightarrow> bool" where
  "grows d d' \<longleftrightarrow>
    logged d d' \<and> export_digests d' = export_digests d \<and> (unique_requests d \<longrightarrow> unique_requests d') \<and>
    (\<forall>h x. loadBlob d h = Inr x \<longrightarrow> loadBlob d' h = Inr x)"

lemma grows_evolves: "grows d d' \<Longrightarrow> evolves n d d'"
  using LoadPayload_mono [of d d'] by (auto simp: grows_def evolves_def)

lemma grows_refl: "grows d d"
  by (simp add: grows_def logged_same)

lemma grows_trans: "grows d d' \<Longrightarrow> grows d' d'' \<Longrightarrow> grows d d''"
  by (auto simp: grows_def intro: logged_trans)

lemma grows_same:
  "records d' = records d \<Longrightarrow> ingest_clock d' = ingest_clock d \<Longrightarrow> ingest_events d' = ingest_events d \<Longrightarrow>
    export_digests d' = export_digests d \<Longrightarrow> blobs d' = blobs d \<Longrightarrow> grows d d'"
  by (simp add: grows_def logged_same unique_requests_def loadBlob_def find_blob_def)

lemma loadBlob_blobs: "blobs d' = blobs d \<Longrightarrow> loadBlob d' h = loadBlob d h"
  by (simp add: loadBlob_def find_blob_def)

lemma update_records_keeps:
  "blobs (update_records P f d) = blobs d" "export_digests (update_records P f d) = export_digests d"
  by (simp_all add: update_records_fires row_simps)

lemma fires_shape: "\<exists>c es. fires xs d = d\<lparr>ingest_clock := c, ingest_events := es\<rparr>"
proof (induction xs arbitrary: d)
  case Nil
  show ?case by (intro exI [of _ "ingest_clock d"] exI [of _ "ingest_events d"]) simp
next
  case (Cons x xs)
  obtain a b c where x: "x = (a, b, c)" by (cases x)
  obtain k es where "fires xs (fire a b c d) = (fire a b c d)\<lparr>ingest_clock := k, ingest_events := es\<rparr>" using Cons by blast
  then show ?case by (intro exI [of _ k] exI [of _ es]) (simp add: x fire_def Let_def)
qed

text \<open>An update changes the rows it matches, the clock and the log, and nothing else.\<close>

lemma update_records_shape:
  "\<exists>c es. update_records P f d =
    d\<lparr>records := map (\<lambda>r. if P r then f r else r) (records d), ingest_clock := c, ingest_events := es\<rparr>"
  unfolding update_records_fires using fires_shape by blast

lemma unique_update: "(\<And>r. request_id (f r) = request_id r) \<Longrightarrow> unique_requests (update_records P f d) = unique_requests d"
  by (simp add: unique_requests_def update_records_fires row_simps comp_def if_distrib cong: if_cong)

lemma grows_update: "(\<And>r. request_id (f r) = request_id r) \<Longrightarrow> grows d (update_records P f d)"
  by (auto simp: grows_def update_records_keeps loadBlob_blobs [OF update_records_keeps(1)] unique_update
      intro: logged_update)

lemma grows_upsert:
  assumes "\<And>r. request_id (m r) = request_id r"
  shows "grows d (upsert_record m row d)"
proof (cases "request_id row \<in> request_id ` set (records d)")
  case True
  with grows_update [OF assms, of d] show ?thesis by (simp add: upsert_record_def)
next
  case False
  have k: "blobs (insert_record row d) = blobs d" "export_digests (insert_record row d) = export_digests d"
    "records (insert_record row d) = records d @ [row\<lparr>r_id := next_id (records d)\<rparr>]"
    by (simp_all add: insert_record_fires row_simps del: fires_simps)
  have u: "upsert_record m row d = insert_record row d" using False by (simp add: upsert_record_def)
  have "unique_requests d \<longrightarrow> unique_requests (insert_record row d)" using False by (simp add: unique_requests_def k(3))
  then show ?thesis unfolding u grows_def using logged_insert k(2) loadBlob_blobs [OF k(1)] by simp
qed

lemma run_batches_rel:
  assumes tx: "\<And>b d d'. tx b d = Inr d' \<Longrightarrow> Q d d'" and refl: "\<And>d. Q d d"
    and trans: "\<And>d d' d''. Q d d' \<Longrightarrow> Q d' d'' \<Longrightarrow> Q d d''"
  shows "Q d (snd (run_batches tx bs d))"
proof (induction bs arbitrary: d)
  case (Cons b bs)
  show ?case
  proof (cases "tx b d")
    case (Inr d1)
    with trans [OF tx [OF Inr] Cons.IH] show ?thesis by simp
  qed (simp add: refl)
qed (simp add: refl)

text \<open>
  An operation that only adds: a loop of such operations only adds, also when it runs in transactions of which a failing one
  is rolled back and ends the loop.
\<close>

locale growing_op =
  fixes op :: "'a \<Rightarrow> db \<Rightarrow> db result"
  assumes op_grows: "op x d = Inr d' \<Longrightarrow> grows d d'"
begin

lemma loop_grows: "foldM_res op xs d = Inr d' \<Longrightarrow> grows d d'"
  by (erule foldM_res_rel) (auto intro: op_grows grows_refl grows_trans)

lemma batches_grow: "grows d (snd (run_batches (foldM_res op) bs d))"
  by (rule run_batches_rel) (auto intro: loop_grows grows_refl grows_trans)

end

sublocale growing_op \<subseteq> logs: logged_op op
  by unfold_locales (auto dest: op_grows simp: grows_def)

section \<open>The operations\<close>

lemma put_record_grows:
  assumes "put_record sprint up idx r0 d = Inr d'"
  shows "grows d d'"
proof -
  obtain r bs row where p: "r = resolveIdentity sprint idx r0" "request_id row = RequestID r" "session_id row = SessionID r"
    "put_record sprint up idx r0 d =
      bind_res (put_turn (RequestID r) (compactTurnFacets (Facets r))
        (upsert_record (merge_record row) row (d\<lparr>blobs := bs\<rparr>)))
        (\<lambda>d5. Inr (indexSessionRecord r (put_record_facets (RequestID r) (Facets r) d5)))"
    "\<forall>h x. loadBlob d h = Inr x \<longrightarrow> loadBlob (d\<lparr>blobs := bs\<rparr>) h = Inr x"
    by (rule put_record_parts [of sprint idx r0 up d])
  let ?d4 = "upsert_record (merge_record row) row (d\<lparr>blobs := bs\<rparr>)"
  from assms p(4) obtain d5 where d5: "put_turn (RequestID r) (compactTurnFacets (Facets r)) ?d4 = Inr d5"
    "d' = indexSessionRecord r (put_record_facets (RequestID r) (Facets r) d5)"
    by (auto simp: bind_res_Inr_iff)
  obtain ts where ts: "d5 = ?d4\<lparr>turn_records := ts\<rparr>" using put_turn_only_turns [OF d5(1)] by blast
  have "grows d (d\<lparr>blobs := bs\<rparr>)" using p(5) by (simp add: grows_def unique_requests_def logged_same)
  moreover have "grows (d\<lparr>blobs := bs\<rparr>) ?d4" by (rule grows_upsert) (simp add: merge_record_def)
  moreover have "export_digests (indexSessionRecord r e) = export_digests e" for e by (simp add: indexSessionRecord_def)
  then have "grows ?d4 d'" unfolding d5(2) ts by (intro grows_same) (simp_all add: row_simps put_record_facets_def)
  ultimately show ?thesis by (blast intro: grows_trans)
qed

interpretation ingest: growing_op "put_record sprint up idx" for sprint up idx
  by unfold_locales (rule put_record_grows)

lemma PutBatch_grows: "PutBatch sprint up batch d = Inr d' \<Longrightarrow> grows d d'"
  unfolding PutBatch_def by (rule ingest.loop_grows)

lemma apply_mapping_grows:
  assumes "apply_mapping now item s = Inr s'"
  shows "grows (snd s) (snd s')"
proof -
  obtain affected d where s: "s = (affected, d)" by (cases s)
  from assms obtain P pid ps ts where d': "snd s' =
      update_records P (set_identity pid) (d\<lparr>credential_principals := ps\<rparr>)\<lparr>turn_records := ts\<rparr>"
    by (auto simp: apply_mapping_def s Let_def split: if_splits)
  have "grows d (d\<lparr>credential_principals := ps\<rparr>)" by (rule grows_same) simp_all
  moreover have "grows (d\<lparr>credential_principals := ps\<rparr>) (update_records P (set_identity pid) (d\<lparr>credential_principals := ps\<rparr>))"
    by (rule grows_update) (simp add: set_identity_def)
  moreover have "grows (update_records P (set_identity pid) (d\<lparr>credential_principals := ps\<rparr>)) (snd s')"
    unfolding d' by (rule grows_same) simp_all
  ultimately show ?thesis unfolding s by (auto intro: grows_trans)
qed

lemma ApplyCredentialPrincipals_grows:
  assumes "ApplyCredentialPrincipals now mappings d = Inr d'"
  shows "grows d d'"
proof -
  from assms obtain affected d1 where
    run: "foldM_res (apply_mapping now) mappings ([], d) = Inr (affected, d1)"
    and d': "d' = fold refresh_identity (remdups affected) d1"
    by (auto simp: ApplyCredentialPrincipals_def bind_res_Inr_iff)
  from run have "grows (snd ([] :: string list, d)) (snd (affected, d1))"
    by (rule foldM_res_rel [where Q = "\<lambda>s s'. grows (snd s) (snd s')"])
      (auto intro: apply_mapping_grows grows_refl grows_trans)
  moreover have "grows d1 (fold refresh_identity sids d1)" for sids
  proof (induction sids arbitrary: d1)
    case (Cons sid sids)
    have "grows d1 (refresh_identity sid d1)" by (rule grows_same) (simp_all add: refresh_identity_def Let_def)
    with Cons.IH [of "refresh_identity sid d1"] show ?case by (auto intro: grows_trans)
  qed (simp add: grows_refl)
  ultimately show ?thesis unfolding d' by (auto intro: grows_trans)
qed

lemma GC_evolves:
  assumes "GC d = Inr (k, d')"
  shows "evolves n d d'"
proof -
  from assms obtain bs where d': "d' = d\<lparr>blobs := bs\<rparr>"
    by (auto simp: GC_def bind_res_Inr_iff Let_def)
  have "LoadPayload n d' ref = LoadPayload n d ref"
    if "r \<in> set (records d)" "ref \<in> {original_ref r, upstream_ref r, response_ref r}" "ref \<noteq> []" for r ref
  proof (rule LoadPayload_agree)
    show "gc_reach d ref" using that by (intro gc_reach.root) (auto simp: gc_roots_def)
    show "find_blob d' x = find_blob d x" if "gc_reach d x" for x
      using GC_blobs(1) [OF assms] that by (auto simp: find_blob_def intro: find_filter_key)
  qed
  then show ?thesis by (auto simp: evolves_def d' unique_requests_def logged_same)
qed

lemma migrate_one_grows: "migrate_one up x d = Inr d' \<Longrightarrow> grows d d'"
proof -
  assume run: "migrate_one up x d = Inr d'"
  have "map request_id (records d') = map request_id (records d)"
    using migrate_one_run(1) [OF run] by (auto simp: set_refs_def)
  then show ?thesis
    using migrate_one_run(2-4) [OF run] by (simp add: grows_def unique_requests_def)
qed

interpretation moving: growing_op "migrate_one up" for up
  by unfold_locales (rule migrate_one_grows)

lemma MigrateLegacy_grows: "grows d (snd (MigrateLegacy up d))"
proof (induction up d rule: MigrateLegacy.induct)
  case (1 up d)
  let ?batch = "take 8 (filter legacy (records d))"
  show ?case
  proof (cases "?batch \<noteq> [] \<and> (\<exists>d1. foldM_res (migrate_one up) ?batch d = Inr d1)")
    case True
    then obtain d1 where b: "?batch \<noteq> []" and d1: "foldM_res (migrate_one up) ?batch d = Inr d1" by blast
    have "grows d d1" using d1 by (rule moving.loop_grows)
    then show ?thesis
      using "1.IH" [OF refl b d1] b d1 by (auto simp: MigrateLegacy.simps [of up d] intro: grows_trans)
  next
    case False
    then have "snd (MigrateLegacy up d) = d"
      by (auto simp: MigrateLegacy.simps [of up d] split: sum.splits)
    then show ?thesis by (simp add: grows_refl)
  qed
qed

lemma backfill_one_grows: "backfill_one q d = Inr d' \<Longrightarrow> grows d d'"
  by (auto simp: backfill_one_def indexSessionRecord_def split: option.splits intro!: grows_same)

interpretation backfill: growing_op backfill_one
  by unfold_locales (rule backfill_one_grows)

lemma BackfillSessionIndex_grows: "grows d (snd (BackfillSessionIndex d))"
  unfolding BackfillSessionIndex_def by (rule backfill.batches_grow)

end
