(* ===== verification/Canonical_Repair.thy ===== *)
theory Canonical_Repair
  imports Evolution Capture
begin

text \<open>
  \<open>RepairCanonicalSessions\<close> (\<open>internal/archive/session_repair.go\<close>): records that older versions filed under a transient
  execution session are moved to the session their thread names, and the session projection is rebuilt.

  \<open>SELECT value ... LIMIT 1\<close> without an order leaves the choice among several facet values to SQLite: the parameter
  \<open>pick\<close>. Writing into a map that a stored \<open>null\<close> has set to \<open>nil\<close> is the error \<open>Panic\<close>.
\<close>

section \<open>Definitions\<close>

definition repair_version :: "string \<Rightarrow> db \<Rightarrow> nat" where
  "repair_version name d = (case map_of (repair_versions d) name of Some v \<Rightarrow> v | None \<Rightarrow> 0)"

definition set_version :: "string \<Rightarrow> nat \<Rightarrow> db \<Rightarrow> db" where
  "set_version name v d =
    d\<lparr>repair_versions := upsert fst (\<lambda>r. (fst r, v)) (name, v) (repair_versions d)\<rparr>"

definition appendUnique :: "string list \<Rightarrow> string \<Rightarrow> string list" where
  "appendUnique values value = (if value \<in> set values then values else values @ [value])"

record canonicalRepair =
  cr_requestID :: string
  cr_oldID :: string
  cr_newID :: string
  cr_facets :: string

definition some_facet :: "(string list \<Rightarrow> string) \<Rightarrow> db \<Rightarrow> string \<Rightarrow> string \<Rightarrow> string option" where
  "some_facet pick d rq name =
    (let vs = map (\<lambda>(_, _, v). v) (filter (\<lambda>(q, m, v). q = rq \<and> m = name \<and> v \<noteq> []) (record_facets d))
     in if vs = [] then None else Some (if pick vs \<in> set vs then pick vs else hd vs))"

definition canonical_facet :: "(string list \<Rightarrow> string) \<Rightarrow> db \<Rightarrow> string \<Rightarrow> string" where
  "canonical_facet pick d rq =
    (case some_facet pick d rq ''thread.id'' of
       Some v \<Rightarrow> v
     | None \<Rightarrow>
         (case some_facet pick d rq ''header.thread-id'' of
            Some v \<Rightarrow> v
          | None \<Rightarrow> (case some_facet pick d rq ''header.session-id'' of Some v \<Rightarrow> v | None \<Rightarrow> [])))"

definition canonical_repair :: "(string list \<Rightarrow> string) \<Rightarrow> db \<Rightarrow> rec_row \<Rightarrow> canonicalRepair" where
  "canonical_repair pick d r =
    \<lparr>cr_requestID = request_id r, cr_oldID = session_id r,
     cr_newID = stableWindowID (canonical_facet pick d (request_id r)), cr_facets = facets_json r\<rparr>"

definition canonical_repairs :: "(string list \<Rightarrow> string) \<Rightarrow> db \<Rightarrow> canonicalRepair list" where
  "canonical_repairs pick d =
    filter (\<lambda>x. cr_newID x \<noteq> [] \<and> cr_newID x \<noteq> cr_oldID x) (map (canonical_repair pick d) (records d))"

text \<open>A stored \<open>null\<close> turns the map into \<open>nil\<close>.\<close>

definition null_facets :: "string \<Rightarrow> bool" where
  "null_facets s = (case Decode s of Some (Null, rest) \<Rightarrow> skip_ws rest = [] | _ \<Rightarrow> False)"

definition moved_facets :: "canonicalRepair \<Rightarrow> facets" where
  "moved_facets x =
    (let fs = obj_put ''session.id'' [cr_newID x] (decode_facets (cr_facets x)) in
     if cr_oldID x \<noteq> [] \<and> cr_oldID x \<noteq> cr_newID x
     then obj_put ''execution.session.id'' (appendUnique (facet fs ''execution.session.id'') (cr_oldID x)) fs
     else fs)"

definition move_row :: "string \<Rightarrow> string \<Rightarrow> rec_row \<Rightarrow> rec_row" where
  "move_row sid js r = r\<lparr>session_id := sid, facets_json := js\<rparr>"

definition move_turn :: "string \<Rightarrow> string \<Rightarrow> string \<Rightarrow> turn_row \<Rightarrow> turn_row" where
  "move_turn rq sid js t = (if t_request_id t = rq then t\<lparr>t_session_id := sid, t_facets_json := js\<rparr> else t)"

definition move_facets :: "canonicalRepair \<Rightarrow> (string \<times> string \<times> string) list \<Rightarrow> (string \<times> string \<times> string) list" where
  "move_facets x fs =
    (let fs1 = filter (\<lambda>(q, name, _). \<not> (q = cr_requestID x \<and> name = ''session.id'')) fs;
         fs2 = insert_ignore id (cr_requestID x, ''session.id'', cr_newID x) fs1
     in if cr_oldID x \<noteq> [] \<and> cr_oldID x \<noteq> cr_newID x
        then insert_ignore id (cr_requestID x, ''execution.session.id'', cr_oldID x) fs2 else fs2)"

text \<open>The body of the loop over the repairs.\<close>

definition move_one :: "canonicalRepair \<Rightarrow> db \<Rightarrow> db result" where
  "move_one x d =
    (if null_facets (cr_facets x) then Inl Panic
     else
       let js = facetsJSON (moved_facets x);
           d1 = update_records (\<lambda>r. request_id r = cr_requestID x) (move_row (cr_newID x) js) d
       in Inr (d1\<lparr>turn_records := map (move_turn (cr_requestID x) (cr_newID x) js) (turn_records d1),
                  record_facets := move_facets x (record_facets d1)\<rparr>))"

text \<open>The columns the rebuild reads: the principal and the credential are not among them.\<close>

definition rebuilt_record :: "rec_row \<Rightarrow> Record" where
  "rebuilt_record r = (record_of_row r)\<lparr>PrincipalID := [], CredentialHash := []\<rparr>"

definition rebuild_index :: "db \<Rightarrow> db" where
  "rebuild_index d =
    fold (\<lambda>r. indexSessionRecord (rebuilt_record r)) (sort_key r_id (records d))
      (d\<lparr>session_indexed_requests := [], session_summaries := [], session_facets := []\<rparr>)"

definition canonical_tx :: "canonicalRepair list \<Rightarrow> db \<Rightarrow> db result" where
  "canonical_tx repairs d = bind_res (foldM_res move_one repairs d) (\<lambda>d1. Inr (rebuild_index d1))"

definition RepairCanonicalSessions :: "(string list \<Rightarrow> string) \<Rightarrow> db \<Rightarrow> nat result \<times> db" where
  "RepairCanonicalSessions pick d =
    (if 1 \<le> repair_version ''canonical_session'' d then (Inr 0, d)
     else
       let repairs = canonical_repairs pick d in
       if repairs = [] then (Inr 0, set_version ''canonical_session'' 1 d)
       else
         (case canonical_tx repairs d of
            Inl e \<Rightarrow> (Inl e, d)
          | Inr d' \<Rightarrow> (Inr (length repairs), set_version ''canonical_session'' 1 d')))"

section \<open>The invariant in terms of identifiers\<close>

definition row_ids :: "db \<Rightarrow> (nat \<times> string) list" where
  "row_ids d = map (\<lambda>r. (r_id r, request_id r)) (records d)"

definition turn_ids :: "db \<Rightarrow> (nat \<times> string) list" where
  "turn_ids d = map (\<lambda>t. (t_id t, t_request_id t)) (turn_records d)"

lemma archive_ok_ids:
  "archive_ok d \<longleftrightarrow>
    index_ok d \<and> log_ok d \<and> distinct (map fst (row_ids d)) \<and> distinct (map snd (row_ids d)) \<and>
    distinct (map snd (turn_ids d)) \<and> set (turn_ids d) \<subseteq> set (row_ids d) \<and>
    fst ` set (session_indexed_requests d) \<subseteq> snd ` set (row_ids d)"
proof -
  have k: "map fst (rec_keys d) = map fst (row_ids d)" "map (\<lambda>k. fst (snd k)) (rec_keys d) = map snd (row_ids d)"
    "(\<lambda>k. fst (snd k)) ` set (rec_keys d) = snd ` set (row_ids d)" "map t_request_id (turn_records d) = map snd (turn_ids d)"
    by (simp_all add: rec_keys_def row_ids_def turn_ids_def image_image)
  have "(\<forall>t \<in> set (turn_records d). \<exists>s. (t_id t, t_request_id t, s) \<in> set (rec_keys d)) \<longleftrightarrow>
      set (turn_ids d) \<subseteq> set (row_ids d)"
    by (auto simp: rec_keys_def row_ids_def turn_ids_def image_iff subset_iff) metis
  then show ?thesis unfolding archive_ok_def turn_ok_def k by blast
qed

text \<open>A logged change that keeps the identifiers and the projection keeps the invariant.\<close>

lemma archive_ok_same_ids:
  assumes "archive_ok d" and "logged d d'" and "row_ids d' = row_ids d" and "turn_ids d' = turn_ids d"
    and "session_indexed_requests d' = session_indexed_requests d"
    and "map (\<lambda>s. (ss_session_id s, ss_requests s)) (session_summaries d') = map (\<lambda>s. (ss_session_id s, ss_requests s)) (session_summaries d)"
  shows "archive_ok d'"
proof -
  have ids: "map ss_session_id (session_summaries d') = map ss_session_id (session_summaries d)"
    using arg_cong [OF assms(6), of "map fst"] by (simp add: comp_def)
  have "ss_requests s = length (filter (\<lambda>p. snd p = ss_session_id s) (session_indexed_requests d))"
    if "s \<in> set (session_summaries d')" for s
  proof -
    have "(ss_session_id s, ss_requests s) \<in> set (map (\<lambda>s. (ss_session_id s, ss_requests s)) (session_summaries d))"
      unfolding assms(6) [symmetric] using that by auto
    with assms(1) show ?thesis by (auto simp: archive_ok_def index_ok_def)
  qed
  with ids assms(1,5) have "index_ok d'"
    unfolding archive_ok_def index_ok_def set_map [symmetric] by simp
  then show ?thesis
    using assms(1,2) unfolding archive_ok_ids assms(3-5) by (simp add: logged_def)
qed

section \<open>The moves\<close>

lemma set_version_keeps [row_simps]:
  "records (set_version name v d) = records d" "blobs (set_version name v d) = blobs d"
  "record_facets (set_version name v d) = record_facets d" "turn_records (set_version name v d) = turn_records d"
  "session_indexed_requests (set_version name v d) = session_indexed_requests d"
  "session_summaries (set_version name v d) = session_summaries d"
  "ingest_clock (set_version name v d) = ingest_clock d" "ingest_events (set_version name v d) = ingest_events d"
  "export_digests (set_version name v d) = export_digests d"
  by (simp_all add: set_version_def)

lemma map_of_upsert: "map_of (upsert fst (\<lambda>p. (fst p, v)) (k, v) xs) = (map_of xs)(k \<mapsto> v)"
proof (cases "\<exists>p \<in> set xs. fst p = k")
  case True
  have "map_of (map (\<lambda>p. if fst p = k then (fst p, v) else p) xs) x =
      (if x = k \<and> k \<in> fst ` set xs then Some v else map_of xs x)" for x
    by (induction xs) (auto simp: image_iff, force+)
  with True show ?thesis by (auto simp: upsert_def fun_eq_iff)
next
  case False
  then have "map_of xs k = None" by (auto simp: map_of_eq_None_iff)
  with False show ?thesis by (auto simp: upsert_def fun_eq_iff map_add_def split: option.split)
qed

lemma repair_version_set: "repair_version name (set_version name v d) = v"
  by (simp add: repair_version_def set_version_def map_of_upsert)

lemma set_version_grows: "grows d (set_version name v d)"
  by (rule grows_same) (simp_all add: row_simps)

lemma set_version_ok: "archive_ok d \<Longrightarrow> archive_ok (set_version name v d)"
  by (erule archive_ok_cong) (simp_all add: row_simps)

lemma move_one_run:
  assumes "move_one x d = Inr d'"
  shows "\<exists>js. records d' = map (\<lambda>r. if request_id r = cr_requestID x then move_row (cr_newID x) js r else r) (records d)"
    and "record_facets d' = move_facets x (record_facets d)"
    and "turn_ids d' = turn_ids d" and "blobs d' = blobs d" and "grows d d'"
proof -
  let ?js = "facetsJSON (moved_facets x)"
  let ?d1 = "update_records (\<lambda>r. request_id r = cr_requestID x) (move_row (cr_newID x) ?js) d"
  have d': "d' = ?d1\<lparr>turn_records := map (move_turn (cr_requestID x) (cr_newID x) ?js) (turn_records ?d1),
      record_facets := move_facets x (record_facets ?d1)\<rparr>"
    using assms by (simp add: move_one_def Let_def split: if_splits)
  show "\<exists>js. records d' = map (\<lambda>r. if request_id r = cr_requestID x then move_row (cr_newID x) js r else r) (records d)"
    by (simp add: d' update_records_fires row_simps) blast
  show "record_facets d' = move_facets x (record_facets d)" "blobs d' = blobs d"
    by (simp_all add: d' update_records_fires row_simps)
  show "turn_ids d' = turn_ids d"
    by (simp add: turn_ids_def d' update_records_fires row_simps move_turn_def)
  have "grows d ?d1" by (rule grows_update) (simp add: move_row_def)
  moreover have "grows ?d1 d'" by (rule grows_same) (simp_all add: d')
  ultimately show "grows d d'" by (rule grows_trans)
qed

interpretation move: growing_op move_one
  by unfold_locales (rule move_one_run(5))

definition moved :: "canonicalRepair list \<Rightarrow> rec_row \<Rightarrow> rec_row \<Rightarrow> bool" where
  "moved xs r r' \<longleftrightarrow>
    (case find (\<lambda>x. cr_requestID x = request_id r) xs of
       None \<Rightarrow> r' = r
     | Some x \<Rightarrow> \<exists>js. r' = move_row (cr_newID x) js r)"

lemma move_row_simps [simp]:
  "request_id (move_row s js r) = request_id r" "r_id (move_row s js r) = r_id r" "session_id (move_row s js r) = s"
  "move_row a b (move_row s js r) = move_row a b r"
  by (simp_all add: move_row_def)

lemma moved_keeps:
  assumes "moved xs r r'"
  shows "request_id r' = request_id r" "r_id r' = r_id r" "move_row a b r' = move_row a b r"
  using assms by (auto simp: moved_def split: option.splits)

lemma move_all:
  assumes "foldM_res move_one xs d = Inr d'" and "distinct (map cr_requestID xs)"
  shows "list_all2 (moved xs) (records d) (records d') \<and> turn_ids d' = turn_ids d \<and> blobs d' = blobs d
    \<and> record_facets d' = fold move_facets xs (record_facets d)"
  using assms
proof (induction xs arbitrary: d)
  case Nil
  then show ?case by (simp add: moved_def list.rel_refl)
next
  case (Cons x xs)
  then obtain d1 where d1: "move_one x d = Inr d1" "foldM_res move_one xs d1 = Inr d'"
    by (auto simp: bind_res_Inr_iff)
  have dist: "distinct (map cr_requestID xs)" using Cons.prems(2) by simp
  note step = move_one_run [OF d1(1)] and rest = Cons.IH [OF d1(2) dist]
  from step(1) obtain js where
    rows: "records d1 = map (\<lambda>r. if request_id r = cr_requestID x then move_row (cr_newID x) js r else r) (records d)"
    by blast
  have mono: "moved (x # xs) r r'"
    if "moved xs (if request_id r = cr_requestID x then move_row (cr_newID x) js r else r) r'" for r r'
  proof (cases "request_id r = cr_requestID x")
    case True
    have "find (\<lambda>y. cr_requestID y = request_id r) xs = None"
      using Cons.prems(2) True by (auto simp: find_None_iff intro: rev_image_eqI)
    with that True show ?thesis by (auto simp: moved_def)
  next
    case False
    with that show ?thesis by (simp add: moved_def)
  qed
  have "list_all2 (moved (x # xs)) (records d) (records d')"
    using rest mono unfolding rows list_all2_map1 by (blast intro: list_all2_mono)
  with rest step show ?case by simp
qed

lemma move_all_total:
  "\<forall>x \<in> set xs. \<not> null_facets (cr_facets x) \<Longrightarrow> \<exists>d'. foldM_res move_one xs d = Inr d'"
  by (induction xs arbitrary: d) (auto simp: move_one_def Let_def)

lemma canonical_facet_moved:
  "record_facets d' = fold move_facets xs (record_facets d) \<Longrightarrow> canonical_facet pick d' rq = canonical_facet pick d rq"
proof -
  assume a: "record_facets d' = fold move_facets xs (record_facets d)"
  have one: "filter (\<lambda>(q, m, v). q = rq \<and> m = name \<and> v \<noteq> []) (move_facets x fs) =
      filter (\<lambda>(q, m, v). q = rq \<and> m = name \<and> v \<noteq> []) fs"
    if "name \<noteq> ''session.id''" "name \<noteq> ''execution.session.id''" for name x fs
  proof -
    have ins: "filter P (insert_ignore id y fs) = filter P fs" if "\<not> P y" for P y and fs :: "(string \<times> string \<times> string) list"
      using that by (simp add: insert_ignore_def)
    have "filter (\<lambda>(q, m, v). q = rq \<and> m = name \<and> v \<noteq> [])
        (filter (\<lambda>(q, name, _). \<not> (q = cr_requestID x \<and> name = ''session.id'')) fs) =
        filter (\<lambda>(q, m, v). q = rq \<and> m = name \<and> v \<noteq> []) fs"
      unfolding filter_filter by (rule filter_cong) (use that in auto)
    with that show ?thesis by (simp add: move_facets_def Let_def ins)
  qed
  have "filter (\<lambda>(q, m, v). q = rq \<and> m = name \<and> v \<noteq> []) (fold move_facets xs fs) =
      filter (\<lambda>(q, m, v). q = rq \<and> m = name \<and> v \<noteq> []) fs"
    if "name \<noteq> ''session.id''" "name \<noteq> ''execution.session.id''" for name fs
    by (induction xs arbitrary: fs) (simp_all only: fold_simps one [OF that])
  then have same: "some_facet pick d' rq name = some_facet pick d rq name"
    if "name \<noteq> ''session.id''" "name \<noteq> ''execution.session.id''" for name
    by (simp only: some_facet_def a that not_False_eq_True)
  have "some_facet pick d' rq ''thread.id'' = some_facet pick d rq ''thread.id''"
    "some_facet pick d' rq ''header.thread-id'' = some_facet pick d rq ''header.thread-id''"
    "some_facet pick d' rq ''header.session-id'' = some_facet pick d rq ''header.session-id''"
    by (rule same; simp)+
  then show ?thesis by (simp only: canonical_facet_def)
qed

section \<open>The rebuilt projection\<close>

lemma rebuilt_record_simps [simp]:
  "RequestID (rebuilt_record r) = request_id r" "SessionID (rebuilt_record r) = session_id r"
  by (simp_all add: rebuilt_record_def)

lemma indexSessionRecord_keeps2 [row_simps]:
  "record_facets (indexSessionRecord r d) = record_facets d" "export_digests (indexSessionRecord r d) = export_digests d"
  by (simp_all add: indexSessionRecord_def)

lemma index_all:
  assumes "archive_ok d" and "set rs \<subseteq> set (records d)"
  defines "d' \<equiv> fold (\<lambda>r. indexSessionRecord (rebuilt_record r)) rs d"
  shows "archive_ok d' \<and> records d' = records d \<and> turn_records d' = turn_records d \<and> blobs d' = blobs d
    \<and> record_facets d' = record_facets d \<and> grows d d'
    \<and> (\<forall>r \<in> set rs. request_id r \<noteq> [] \<and> session_id r \<noteq> [] \<longrightarrow> request_id r \<in> fst ` set (session_indexed_requests d'))
    \<and> fst ` set (session_indexed_requests d) \<subseteq> fst ` set (session_indexed_requests d')"
  using assms(1,2) unfolding d'_def
proof (induction rs arbitrary: d)
  case (Cons r rs)
  let ?d = "indexSessionRecord (rebuilt_record r) d"
  have ok: "archive_ok ?d" using Cons.prems by (intro archive_ok_index) auto
  have g: "grows d ?d" by (rule grows_same) (simp_all add: row_simps)
  have sub: "set rs \<subseteq> set (records ?d)" using Cons.prems(2) by (simp add: row_simps)
  have idx: "fst ` set (session_indexed_requests ?d) =
      (if request_id r = [] \<or> session_id r = [] then fst ` set (session_indexed_requests d)
       else insert (request_id r) (fst ` set (session_indexed_requests d)))"
    using indexed_after [of "rebuilt_record r" d] by simp
  from Cons.IH [OF ok sub] g idx show ?case
    by (simp add: row_simps split: if_splits) (meson grows_trans)+
qed (simp add: grows_refl)

lemma rebuild_index_ok:
  assumes "log_ok d" and "distinct (map fst (row_ids d))" and "distinct (map snd (row_ids d))"
    and "distinct (map snd (turn_ids d))" and "set (turn_ids d) \<subseteq> set (row_ids d)"
  shows "archive_ok (rebuild_index d)" and "fully_indexed (rebuild_index d)" and "grows d (rebuild_index d)"
    and "records (rebuild_index d) = records d" and "blobs (rebuild_index d) = blobs d"
    and "record_facets (rebuild_index d) = record_facets d"
proof -
  let ?c = "d\<lparr>session_indexed_requests := [], session_summaries := [], session_facets := []\<rparr>"
  have ids: "row_ids ?c = row_ids d" "turn_ids ?c = turn_ids d" by (simp_all add: row_ids_def turn_ids_def)
  have "log_ok ?c" using assms(1) by (simp add: log_ok_def)
  then have "archive_ok ?c" unfolding archive_ok_ids ids using assms by (simp add: index_ok_def)
  then have all: "archive_ok (rebuild_index d) \<and> records (rebuild_index d) = records ?c \<and> turn_records (rebuild_index d) = turn_records ?c
      \<and> blobs (rebuild_index d) = blobs ?c \<and> record_facets (rebuild_index d) = record_facets ?c \<and> grows ?c (rebuild_index d)
      \<and> (\<forall>r \<in> set (sort_key r_id (records d)). request_id r \<noteq> [] \<and> session_id r \<noteq> [] \<longrightarrow>
           request_id r \<in> fst ` set (session_indexed_requests (rebuild_index d)))
      \<and> fst ` set (session_indexed_requests ?c) \<subseteq> fst ` set (session_indexed_requests (rebuild_index d))"
    unfolding rebuild_index_def by (rule index_all) simp
  then show "archive_ok (rebuild_index d)" "records (rebuild_index d) = records d" "blobs (rebuild_index d) = blobs d"
    "record_facets (rebuild_index d) = record_facets d"
    by simp_all
  from all show "fully_indexed (rebuild_index d)"
    by (auto simp: fully_indexed_def rec_keys_def simp del: image_iff)
  have "grows d ?c" by (rule grows_same) simp_all
  with all show "grows d (rebuild_index d)" by (blast intro: grows_trans)
qed

lemma rebuild_index_grows: "grows d (rebuild_index d)"
proof -
  have "grows e (fold (\<lambda>r. indexSessionRecord (rebuilt_record r)) rs e)" for rs e
  proof (induction rs arbitrary: e)
    case (Cons r rs)
    have "grows e (indexSessionRecord (rebuilt_record r) e)" by (rule grows_same) (simp_all add: row_simps)
    from grows_trans [OF this Cons.IH] show ?case by simp
  qed (simp add: grows_refl)
  moreover have "grows d (d\<lparr>session_indexed_requests := [], session_summaries := [], session_facets := []\<rparr>)"
    by (rule grows_same) simp_all
  ultimately show ?thesis unfolding rebuild_index_def by (blast intro: grows_trans)
qed

lemma canonical_tx_grows: "canonical_tx xs d = Inr d' \<Longrightarrow> grows d d'"
  by (auto simp: canonical_tx_def bind_res_Inr_iff intro: grows_trans [OF move.loop_grows rebuild_index_grows])

section \<open>The repair\<close>

lemma canonical_repair_simps [simp]:
  "cr_requestID (canonical_repair pick d r) = request_id r" "cr_oldID (canonical_repair pick d r) = session_id r"
  "cr_newID (canonical_repair pick d r) = stableWindowID (canonical_facet pick d (request_id r))"
  "cr_facets (canonical_repair pick d r) = facets_json r"
  by (simp_all add: canonical_repair_def)

lemma canonical_repairs_distinct:
  "distinct (map snd (row_ids d)) \<Longrightarrow> distinct (map cr_requestID (canonical_repairs pick d))"
  unfolding canonical_repairs_def by (rule distinct_map_filter) (simp add: row_ids_def comp_def)

lemma moved_canonical:
  assumes "moved (canonical_repairs pick d) r r'" and "r \<in> set (records d)"
  shows "stableWindowID (canonical_facet pick d (request_id r)) \<in> {[], session_id r'}"
proof (cases "find (\<lambda>x. cr_requestID x = request_id r) (canonical_repairs pick d)")
  case None
  with assms have "r' = r" "canonical_repair pick d r \<notin> set (canonical_repairs pick d)"
    by (auto simp: moved_def find_None_iff)
  with assms(2) show ?thesis by (auto simp: canonical_repairs_def)
next
  case (Some x)
  then have "x \<in> set (canonical_repairs pick d)" "cr_requestID x = request_id r" by (auto simp: find_Some_iff)
  then have "cr_newID x = stableWindowID (canonical_facet pick d (request_id r))" by (auto simp: canonical_repairs_def)
  with Some assms(1) show ?thesis by (auto simp: moved_def)
qed

lemma canonical_tx_run:
  assumes ok: "archive_ok d" and run: "canonical_tx (canonical_repairs pick d) d = Inr d'"
  shows "archive_ok d'" and "fully_indexed d'" and "grows d d'" and "blobs d' = blobs d"
    and "map (move_row [] []) (records d') = map (move_row [] []) (records d)"
    and "\<forall>r \<in> set (records d'). stableWindowID (canonical_facet pick d (request_id r)) \<in> {[], session_id r}"
    and "canonical_repairs pick d' = []"
proof -
  from run obtain d1 where d1: "foldM_res move_one (canonical_repairs pick d) d = Inr d1" "d' = rebuild_index d1"
    by (auto simp: canonical_tx_def bind_res_Inr_iff)
  have ids: "distinct (map fst (row_ids d))" "distinct (map snd (row_ids d))" "distinct (map snd (turn_ids d))"
    "set (turn_ids d) \<subseteq> set (row_ids d)" "log_ok d"
    using ok by (simp_all add: archive_ok_ids)
  note m = move_all [OF d1(1) canonical_repairs_distinct [OF ids(2)]]
  have g1: "grows d d1" using d1(1) by (rule move.loop_grows)
  have eq: "map f (records d1) = map f (records d)" if "\<And>r r'. moved (canonical_repairs pick d) r r' \<Longrightarrow> f r' = f r"
    for f :: "rec_row \<Rightarrow> 'b"
    using m that by (auto simp: list_all2_conv_all_nth intro!: nth_equalityI)
  have rows: "row_ids d1 = row_ids d" unfolding row_ids_def by (rule eq) (simp add: moved_keeps)
  have log: "log_ok d1" using g1 ids(5) by (simp add: grows_def logged_def)
  have turns: "turn_ids d1 = turn_ids d" using m by simp
  note rb = rebuild_index_ok [of d1, unfolded rows turns, OF log ids(1-4)]
  show "archive_ok d'" "fully_indexed d'" "blobs d' = blobs d" unfolding d1(2) using rb m by simp_all
  show "grows d d'" unfolding d1(2) using g1 rb(3) by (rule grows_trans)
  show "map (move_row [] []) (records d') = map (move_row [] []) (records d)"
    unfolding d1(2) rb(4) by (rule eq) (simp add: moved_keeps)
  show placed: "\<forall>r \<in> set (records d'). stableWindowID (canonical_facet pick d (request_id r)) \<in> {[], session_id r}"
  proof
    fix r' assume "r' \<in> set (records d')"
    then obtain i where i: "i < length (records d1)" "r' = records d1 ! i"
      unfolding d1(2) rb(4) by (auto simp: in_set_conv_nth)
    define r where "r = records d ! i"
    have r: "r \<in> set (records d)" "moved (canonical_repairs pick d) r r'"
      using m i by (auto simp: list_all2_conv_all_nth r_def)
    from moved_canonical [OF r(2,1)] show "stableWindowID (canonical_facet pick d (request_id r')) \<in> {[], session_id r'}"
      by (simp only: moved_keeps [OF r(2)])
  qed
  have "record_facets d' = fold move_facets (canonical_repairs pick d) (record_facets d)"
    unfolding d1(2) rb(6) using m by simp
  note facets = canonical_facet_moved [OF this]
  show "canonical_repairs pick d' = []"
    using placed by (auto simp: canonical_repairs_def filter_empty_conv facets)
qed

lemma canonical_repairs_version: "canonical_repairs pick (set_version name v d) = canonical_repairs pick d"
proof -
  have "canonical_repair pick (set_version name v d) = canonical_repair pick d"
    using canonical_facet_moved [of "set_version name v d" "[]" d pick]
    by (intro ext) (simp add: canonical_repair_def row_simps)
  then show ?thesis by (simp add: canonical_repairs_def row_simps)
qed

lemma canonical_repair_run:
  assumes "archive_ok d" and "repair_version ''canonical_session'' d = 0"
    and "\<forall>r \<in> set (records d). \<not> null_facets (facets_json r)"
  shows "\<exists>k d'. RepairCanonicalSessions pick d = (Inr k, d') \<and> archive_ok d' \<and> logged d d' \<and> blobs d' = blobs d
    \<and> map (move_row [] []) (records d') = map (move_row [] []) (records d)
    \<and> (\<forall>r \<in> set (records d'). stableWindowID (canonical_facet pick d (request_id r)) \<in> {[], session_id r})
    \<and> canonical_repairs pick d' = [] \<and> (fully_indexed d \<or> k > 0 \<longrightarrow> fully_indexed d')
    \<and> RepairCanonicalSessions pick d' = (Inr 0, d')"
proof (cases "canonical_repairs pick d = []")
  case True
  let ?d = "set_version ''canonical_session'' 1 d"
  have run: "RepairCanonicalSessions pick d = (Inr 0, ?d)"
    using True assms(2) by (simp add: RepairCanonicalSessions_def)
  note canonical_repairs_version
  moreover have "\<forall>r \<in> set (records d). stableWindowID (canonical_facet pick d (request_id r)) \<in> {[], session_id r}"
    using True by (auto simp: canonical_repairs_def filter_empty_conv)
  moreover have "fully_indexed ?d = fully_indexed d" by (simp add: fully_indexed_def rec_keys_def row_simps)
  moreover have "RepairCanonicalSessions pick ?d = (Inr 0, ?d)"
    by (simp add: RepairCanonicalSessions_def repair_version_set)
  moreover have "logged d ?d" by (rule logged_same) (simp_all add: row_simps)
  ultimately show ?thesis
    using run True set_version_ok [OF assms(1)] by (intro exI [of _ 0] exI [of _ ?d]) (simp add: row_simps)
next
  case False
  have "\<forall>x \<in> set (canonical_repairs pick d). \<not> null_facets (cr_facets x)"
    using assms(3) by (auto simp: canonical_repairs_def)
  from move_all_total [OF this, of d] obtain d1 where tx: "canonical_tx (canonical_repairs pick d) d = Inr d1"
    by (auto simp: canonical_tx_def)
  let ?d = "set_version ''canonical_session'' 1 d1"
  note t = canonical_tx_run [OF assms(1) tx]
  have run: "RepairCanonicalSessions pick d = (Inr (length (canonical_repairs pick d)), ?d)"
    using False assms(2) tx by (simp add: RepairCanonicalSessions_def)
  note canonical_repairs_version
  moreover have "fully_indexed ?d = fully_indexed d1" by (simp add: fully_indexed_def rec_keys_def row_simps)
  moreover have "RepairCanonicalSessions pick ?d = (Inr 0, ?d)"
    by (simp add: RepairCanonicalSessions_def repair_version_set)
  moreover have "logged d ?d"
    using t(3) set_version_grows [of d1] grows_trans unfolding grows_def by blast
  ultimately show ?thesis
    using run t set_version_ok [OF t(1)]
    by (intro exI [of _ "length (canonical_repairs pick d)"] exI [of _ ?d]) (simp add: row_simps)
qed


section \<open>Example\<close>

text \<open>A record under an execution session whose thread is known. The rebuilt summary has lost the principal.\<close>

definition misfiled :: db where
  "misfiled = empty_db\<lparr>records := [blank_row\<lparr>r_id := 1, request_id := ''q'', session_id := ''exec'', principal_id := ''p''\<rparr>],
     record_facets := [(''q'', ''thread.id'', ''t'')],
     session_indexed_requests := [(''q'', ''exec'')],
     session_summaries := [new_summary (blank_record\<lparr>RequestID := ''q'', SessionID := ''exec'', PrincipalID := ''p''\<rparr>)]\<rparr>"

lemma misfiled_ok: "archive_ok misfiled"
  by (simp add: archive_ok_def index_ok_def turn_ok_def log_ok_def rec_keys_def misfiled_def empty_db_def blank_row_def
      blank_record_def)

lemma misfiled_canonical:
  "canonical_facet hd misfiled ''q'' = ''t''" "stableWindowID ''t'' = ''t''"
  by (simp_all add: canonical_facet_def some_facet_def misfiled_def empty_db_def stableWindowID_def Let_def TrimSpace_def
      runes_ascii rune_of_ascii is_space_def)


text \<open>No session of the rebuilt projection has a principal, whatever its records say.\<close>

lemma rebuild_drops_principals: "\<forall>s \<in> set (session_summaries (rebuild_index d)). ss_principal_id s = []"
proof -
  have new: "ss_principal_id (new_summary (rebuilt_record r)) = []" for r
    by (simp add: new_summary_def rebuilt_record_def)
  have one: "\<forall>s \<in> set (session_summaries (indexSessionRecord (rebuilt_record r) e)). ss_principal_id s = []"
    if "\<forall>s \<in> set (session_summaries e). ss_principal_id s = []" for r e
    using that by (auto simp: indexSessionRecord_def upsert_def merge_summary_def Let_def new split: if_splits)
  have "\<forall>s \<in> set (session_summaries (fold (\<lambda>r. indexSessionRecord (rebuilt_record r)) rs e)). ss_principal_id s = []"
    if "\<forall>s \<in> set (session_summaries e). ss_principal_id s = []" for rs e
    using that
  proof (induction rs arbitrary: e)
    case (Cons r rs)
    from Cons.IH [OF one [OF Cons.prems]] show ?case by simp
  qed simp
  note all = this
  show ?thesis unfolding rebuild_index_def by (rule all) simp
qed

end
