(* ===== verification/Session_Repairs.thy ===== *)
theory Session_Repairs
  imports Canonical_Repair
begin

text \<open>
  The repairs of \<open>internal/archive/session_index.go\<close> that run when the collector starts: successful event streams stored
  as raw text are replaced by their terminal event (\<open>NormalizeHistoricalSSE\<close>), summaries of sessions that are
  transport boilerplate by the first user text (\<open>RepairSessionSummaries\<close>), and records get previews
  (\<open>RepairRecordPreviews\<close>). Each works through a list of pending rows in small transactions and marks what is done, so that
  it can be resumed: the locale \<open>marked_work\<close>.
\<close>

section \<open>Normalization of stored event streams\<close>

definition loadBlobTx :: "db \<Rightarrow> string \<Rightarrow> string result" where
  "loadBlobTx d h =
    (case find_blob d h of
       None \<Rightarrow> Inl NoRows
     | Some b \<Rightarrow> (case bl_data b of GzipCodec z \<Rightarrow> gunzipBytesChecked z | OtherCodec s \<Rightarrow> Inr s))"

text \<open>\<open>json.Unmarshal\<close> into the \<open>size\<close> field, an \<open>int\<close> of 64 bits.\<close>

definition size_field :: "gv \<Rightarrow> bool" where
  "size_field v =
    (case v of
       Null \<Rightarrow> True
     | Num s \<Rightarrow>
         let ds = (if HasPrefix s ''-'' then drop 1 s else s) in
         ds \<noteq> [] \<and> list_all is_digit ds \<and> digits_val ds < (if HasPrefix s ''-'' then 2 ^ 63 + 1 else 2 ^ 63)
     | _ \<Rightarrow> False)"

text \<open>The blob a manifest names when it is a reference to raw bytes.\<close>

definition raw_reference :: "string \<Rightarrow> string option" where
  "raw_reference manifest =
    (case Option.bind (parse_json manifest) object_field of
       None \<Rightarrow> None
     | Some kvs \<Rightarrow>
         (case (string_field (field_value kvs ''$cpa_blob''), string_field (field_value kvs ''encoding''),
                string_field (field_value kvs ''media_type'')) of
            (Some blob, Some enc, Some _) \<Rightarrow>
              if size_field (field_value kvs ''size'') \<and> enc = ''raw'' \<and> blob \<noteq> [] then Some blob else None
          | _ \<Rightarrow> None))"

text \<open>The terminal event of a stored response, when the response is a raw event stream that has one.\<close>

definition stored_terminal :: "db \<Rightarrow> string \<Rightarrow> string option result" where
  "stored_terminal d root =
    bind_res (loadBlobTx d root) (\<lambda>manifest.
      case raw_reference manifest of
        None \<Rightarrow> Inr None
      | Some blob \<Rightarrow> bind_res (loadBlobTx d blob) (\<lambda>raw. Inr (terminalSSEPayload raw)))"

definition set_response_ref :: "string \<Rightarrow> rec_row \<Rightarrow> rec_row" where
  "set_response_ref h r = r\<lparr>response_ref := h\<rparr>"

definition normalize_one :: "string \<Rightarrow> db \<Rightarrow> db result" where
  "normalize_one rq d =
    (case find (\<lambda>r. request_id r = rq) (records d) of
       None \<Rightarrow> Inl NoRows
     | Some r \<Rightarrow>
         let root = response_ref r in
         bind_res (if root = [] then Inr None else stored_terminal d root) (\<lambda>t.
           let d1 = (case t of
                       None \<Rightarrow> d
                     | Some terminal \<Rightarrow>
                         (case putPayload terminal d of
                            (newRoot, d') \<Rightarrow>
                              update_records (\<lambda>x. request_id x = rq \<and> response_ref x = root) (set_response_ref newRoot) d'))
           in Inr (d1\<lparr>normalized_response_requests := insert_ignore id rq (normalized_response_requests d1)\<rparr>)))"

definition unnormalized :: "db \<Rightarrow> string list" where
  "unnormalized d =
    sort (filter (\<lambda>q. q \<notin> set (normalized_response_requests d)) (map fst (session_indexed_requests d)))"

definition NormalizeHistoricalSSE :: "db \<Rightarrow> err option \<times> db" where
  "NormalizeHistoricalSSE d = run_batches (foldM_res normalize_one) (chunks 32 (unnormalized d)) d"

section \<open>Summaries of sessions\<close>

text \<open>\<open>LIKE\<close>: \<open>%\<close> matches any text, \<open>_\<close> one character, letters match in either case.\<close>

fun like :: "string \<Rightarrow> string list \<Rightarrow> bool" where
  "like [] cs = (cs = [])"
| "like (p # ps) cs =
    (if p = CHR ''%'' then list_ex (like ps) (suffixes cs)
     else (case cs of [] \<Rightarrow> False | c # cs' \<Rightarrow> (p = CHR ''_'' \<or> nocase c = nocase [p]) \<and> like ps cs'))"

definition boilerplate_patterns :: "string list" where
  "boilerplate_patterns =
    [''<environment_%'', ''<workspace_info>%'', ''<in-app-browser-context%'', ''<app-context>%'', ''<context>%'',
     ''&lt;context&gt;%'', ''# files mentioned by the user:%'']"

definition boilerplate :: "string \<Rightarrow> bool" where
  "boilerplate s \<longleftrightarrow> s = [] \<or> list_ex (\<lambda>p. like p (runes (nocase s))) boilerplate_patterns"

definition first_original :: "db \<Rightarrow> string \<Rightarrow> string" where
  "first_original d sid =
    (case sort_key started_at (filter (\<lambda>r. session_id r = sid) (records d)) of [] \<Rightarrow> [] | r # _ \<Rightarrow> original_ref r)"

definition summary_candidates :: "db \<Rightarrow> (string \<times> string) list" where
  "summary_candidates d =
    map (\<lambda>s. (ss_session_id s, first_original d (ss_session_id s)))
      (filter (\<lambda>s. repair_version ''session_summary'' d < 3 \<or> boilerplate (ss_summary s)) (session_summaries d))"

definition set_summary :: "string \<Rightarrow> string \<Rightarrow> summary_row \<Rightarrow> summary_row" where
  "set_summary sid text s =
    (if ss_session_id s = sid then s\<lparr>ss_summary := text, ss_summary_at := ss_first_at s\<rparr> else s)"

definition resummarize_one :: "library \<Rightarrow> nat \<Rightarrow> string \<times> string \<Rightarrow> db \<Rightarrow> db result" where
  "resummarize_one lib n item d =
    (if snd item = [] then Inr d
     else
       bind_res (LoadPayload n d (snd item)) (\<lambda>body.
       bind_res (extractConversationSummaryFirst (lib_entities lib) (gstr lib) body) (\<lambda>text.
         if text = [] then Inr d
         else Inr (d\<lparr>session_summaries := map (set_summary (fst item) text) (session_summaries d)\<rparr>))))"

text \<open>Every update is a transaction of its own: a batch of one.\<close>

definition RepairSessionSummaries :: "library \<Rightarrow> nat \<Rightarrow> db \<Rightarrow> err option \<times> db" where
  "RepairSessionSummaries lib n d =
    (case run_batches (foldM_res (resummarize_one lib n)) (chunks 1 (summary_candidates d)) d of
       (Some e, d') \<Rightarrow> (Some e, d')
     | (None, d') \<Rightarrow> (None, set_version ''session_summary'' 3 d'))"

section \<open>Previews of records\<close>

record preview_item =
  pi_requestID :: string
  pi_sessionID :: string
  pi_originalRef :: string
  pi_responseRef :: string
  pi_facets :: string

definition previewVersion :: nat where
  "previewVersion = 4"

definition unpreviewed :: "db \<Rightarrow> string \<Rightarrow> bool" where
  "unpreviewed d rq \<longleftrightarrow> (case map_of (previewed_requests d) rq of None \<Rightarrow> True | Some v \<Rightarrow> v < previewVersion)"

definition preview_candidates :: "db \<Rightarrow> preview_item list" where
  "preview_candidates d =
    map (\<lambda>r. \<lparr>pi_requestID = request_id r, pi_sessionID = session_id r, pi_originalRef = original_ref r,
              pi_responseRef = response_ref r, pi_facets = facets_json r\<rparr>)
      (sort_key r_id (filter (\<lambda>r. unpreviewed d (request_id r)) (records d)))"

definition or_old :: "string \<Rightarrow> string \<Rightarrow> string" where
  "or_old new old = (if new \<noteq> [] then new else old)"

definition preview_row :: "string \<Rightarrow> string \<Rightarrow> string \<Rightarrow> rec_row \<Rightarrow> rec_row" where
  "preview_row sm rp js r =
    r\<lparr>summary := or_old sm (summary r), response_preview := or_old rp (response_preview r), facets_json := js\<rparr>"

definition preview_turn :: "string \<Rightarrow> string \<Rightarrow> string \<Rightarrow> string \<Rightarrow> turn_row \<Rightarrow> turn_row" where
  "preview_turn rq sm rp js t =
    (if t_request_id t = rq
     then t\<lparr>t_summary := or_old sm (t_summary t), t_response_preview := or_old rp (t_response_preview t), t_facets_json := js\<rparr>
     else t)"

definition preview_texts :: "library \<Rightarrow> nat \<Rightarrow> db \<Rightarrow> preview_item \<Rightarrow> (string \<times> string \<times> string) result" where
  "preview_texts lib n d item =
    bind_res
      (if pi_originalRef item = [] then Inr ([], [])
       else
         bind_res (LoadPayload n d (pi_originalRef item)) (\<lambda>body.
         bind_res (extractConversationSummary (lib_entities lib) (gstr lib) body) (\<lambda>sm.
           Inr (sm, extractThreadSource lib body)))) (\<lambda>(sm, src).
    bind_res
      (if pi_responseRef item = [] then Inr []
       else bind_res (LoadPayload n d (pi_responseRef item)) (\<lambda>body. Inr (extractResponsePreview (lib_sprint lib) body))) (\<lambda>rp.
      Inr (sm, rp, src)))"

definition preview_facets :: "preview_item \<Rightarrow> string \<Rightarrow> facets" where
  "preview_facets item src =
    (let fs = decode_facets (pi_facets item) in
     if src \<noteq> [] then obj_put ''thread.source'' (appendUnique (facet fs ''thread.source'') src) fs else fs)"

definition preview_one :: "library \<Rightarrow> nat \<Rightarrow> preview_item \<Rightarrow> db \<Rightarrow> db result" where
  "preview_one lib n item d =
    bind_res (preview_texts lib n d item) (\<lambda>(sm, rp, src).
      let rq = pi_requestID item;
          js = facetsJSON (preview_facets item src);
          d1 = update_records (\<lambda>r. request_id r = rq) (preview_row sm rp js) d
      in Inr (d1\<lparr>turn_records := map (preview_turn rq sm rp js) (turn_records d1),
                 record_facets :=
                   (if src \<noteq> [] then insert_ignore id (rq, ''thread.source'', src) (record_facets d1) else record_facets d1),
                 session_facets :=
                   (if src \<noteq> [] then insert_ignore id (pi_sessionID item, ''thread.source'', src) (session_facets d1)
                    else session_facets d1),
                 previewed_requests := upsert fst (\<lambda>p. (fst p, previewVersion)) (rq, previewVersion) (previewed_requests d1)\<rparr>))"

definition RepairRecordPreviews :: "library \<Rightarrow> nat \<Rightarrow> db \<Rightarrow> err option \<times> db" where
  "RepairRecordPreviews lib n d =
    (case run_batches (foldM_res (preview_one lib n)) (chunks 16 (preview_candidates d)) d of
       (Some e, d') \<Rightarrow> (Some e, d')
     | (None, d') \<Rightarrow> (None, set_version ''record_preview'' previewVersion d'))"

section \<open>Work lists with marks\<close>

text \<open>A change that moves no row and leaves the counts of the projection.\<close>

definition keeps_ids :: "db \<Rightarrow> db \<Rightarrow> bool" where
  "keeps_ids d d' \<longleftrightarrow>
    row_ids d' = row_ids d \<and> turn_ids d' = turn_ids d \<and> session_indexed_requests d' = session_indexed_requests d \<and>
    map (\<lambda>s. (ss_session_id s, ss_requests s)) (session_summaries d') =
      map (\<lambda>s. (ss_session_id s, ss_requests s)) (session_summaries d)"

lemma keeps_ids_refl: "keeps_ids d d"
  by (simp add: keeps_ids_def)

lemma keeps_ids_trans: "keeps_ids d d' \<Longrightarrow> keeps_ids d' d'' \<Longrightarrow> keeps_ids d d''"
  by (simp add: keeps_ids_def)

lemma archive_ok_keeps: "archive_ok d \<Longrightarrow> grows d d' \<Longrightarrow> keeps_ids d d' \<Longrightarrow> archive_ok d'"
  by (erule archive_ok_same_ids) (simp_all add: keeps_ids_def grows_def)

locale repair_op = growing_op op for op :: "'a \<Rightarrow> db \<Rightarrow> db result" +
  assumes op_keeps: "op x d = Inr d' \<Longrightarrow> keeps_ids d d'"
begin

lemma loop_keeps: "foldM_res op xs d = Inr d' \<Longrightarrow> keeps_ids d d'"
  by (erule foldM_res_rel) (auto intro: op_keeps keeps_ids_refl keeps_ids_trans)

lemma batches_keep: "keeps_ids d (snd (run_batches (foldM_res op) bs d))"
  by (rule run_batches_rel) (auto intro: loop_keeps keeps_ids_refl keeps_ids_trans)

text \<open>Also a run that is interrupted by an error leaves a well-formed archive.\<close>

lemma batches_ok: "archive_ok d \<Longrightarrow> archive_ok (snd (run_batches (foldM_res op) bs d))"
  by (erule archive_ok_keeps) (rule batches_grow batches_keep)+

end

text \<open>
  Each item marks its key and no other, and an item that can be processed stays so when another one is processed. So a run
  works off the whole list, and what an interrupted run has marked is not done again.
\<close>

locale marked_work = repair_op op for op :: "'a \<Rightarrow> db \<Rightarrow> db result" +
  fixes key :: "'a \<Rightarrow> string" and pending :: "db \<Rightarrow> string \<Rightarrow> bool" and processable :: "db \<Rightarrow> 'a \<Rightarrow> bool"
  assumes op_marks: "op x d = Inr d' \<Longrightarrow> pending d' q \<longleftrightarrow> pending d q \<and> q \<noteq> key x"
    and op_total: "processable d x \<Longrightarrow> \<exists>d'. op x d = Inr d'"
    and op_other: "op x d = Inr d' \<Longrightarrow> key y \<noteq> key x \<Longrightarrow> processable d y \<Longrightarrow> processable d' y"
begin

lemma loop_marks: "foldM_res op xs d = Inr d' \<Longrightarrow> pending d' q \<longleftrightarrow> pending d q \<and> q \<notin> key ` set xs"
proof (induction xs arbitrary: d)
  case (Cons x xs)
  then obtain d1 where "op x d = Inr d1" "foldM_res op xs d1 = Inr d'" by (auto simp: bind_res_Inr_iff)
  with Cons.IH [OF this(2)] op_marks [OF this(1), of q] show ?case by auto
qed simp

lemma loop_total:
  "distinct (map key xs) \<Longrightarrow> \<forall>x \<in> set xs. processable d x \<Longrightarrow> \<exists>d'. foldM_res op xs d = Inr d'"
proof (induction xs arbitrary: d)
  case (Cons x xs)
  then obtain d1 where d1: "op x d = Inr d1" using op_total [of d x] by auto
  have "\<forall>y \<in> set xs. processable d1 y"
  proof
    fix y assume y: "y \<in> set xs"
    with Cons.prems(1) have "key y \<noteq> key x" by (auto intro: rev_image_eqI)
    with op_other [OF d1] Cons.prems(2) y show "processable d1 y" by simp
  qed
  with Cons.IH [of d1] Cons.prems(1) d1 show ?case by simp
qed simp

lemma work_done:
  assumes "m \<noteq> 0" and "distinct (map key xs)" and "\<forall>x \<in> set xs. processable d x"
  shows "\<exists>d'. run_batches (foldM_res op) (chunks m xs) d = (None, d') \<and> foldM_res op xs d = Inr d'
    \<and> (\<forall>q. pending d' q \<longleftrightarrow> pending d q \<and> q \<notin> key ` set xs)"
proof -
  from loop_total [OF assms(2,3)] obtain d' where d': "foldM_res op xs d = Inr d'" by blast
  then have "run_batches (foldM_res op) (chunks m xs) d = (None, d')"
    using assms(1) by (intro run_batches_all) (simp add: concat_chunks)
  with d' loop_marks [OF d'] show ?thesis by blast
qed

lemma never_unmarked: "pending (snd (run_batches (foldM_res op) bs d)) q \<Longrightarrow> pending d q"
  using run_batches_rel [where Q = "\<lambda>d d'. pending d' q \<longrightarrow> pending d q" and tx = "foldM_res op" and bs = bs and d = d]
    loop_marks by blast

end

section \<open>Event streams become their terminal events\<close>

lemma loadBlobTx_loadBlob: "h \<noteq> [] \<Longrightarrow> loadBlobTx d h = loadBlob d h"
  by (simp add: loadBlobTx_def loadBlob_def blob_bytes_def split: option.split)

lemma raw_reference_nonempty: "raw_reference m = Some b \<Longrightarrow> b \<noteq> []"
  by (auto simp: raw_reference_def split: option.splits prod.splits if_splits)

lemma stored_terminal_grows:
  assumes "grows d d'" and "root \<noteq> []" and "stored_terminal d root = Inr t"
  shows "stored_terminal d' root = Inr t"
proof -
  have mono: "loadBlobTx d' h = Inr s" if "loadBlobTx d h = Inr s" "h \<noteq> []" for h s
    using assms(1) that by (simp add: loadBlobTx_loadBlob grows_def)
  from assms(3) obtain m where m: "loadBlobTx d root = Inr m" by (auto simp: stored_terminal_def bind_res_Inr_iff)
  note m' = mono [OF m assms(2)]
  show ?thesis
  proof (cases "raw_reference m")
    case None
    with assms(3) m m' show ?thesis by (simp add: stored_terminal_def)
  next
    case (Some b)
    with assms(3) m obtain raw where "loadBlobTx d b = Inr raw" "t = terminalSSEPayload raw"
      by (auto simp: stored_terminal_def bind_res_Inr_iff)
    with mono [OF _ raw_reference_nonempty [OF Some]] Some m' show ?thesis by (simp add: stored_terminal_def)
  qed
qed

lemma putPayload_grows: "grows d (snd (putPayload raw d))"
proof -
  obtain bs where bs: "snd (putPayload raw d) = d\<lparr>blobs := bs\<rparr>" using putPayload_only_blobs by blast
  then show ?thesis
    using putPayload_mono [of d _ _ raw] by (auto simp: grows_def unique_requests_def intro: logged_same)
qed

text \<open>The reference of a payload depends on its bytes only.\<close>

definition payload_ref :: "string \<Rightarrow> string" where
  "payload_ref raw = (if raw = [] then [] else Hash (manifest_blob raw))"

lemma fst_putPayload: "fst (putPayload raw d) = payload_ref raw"
  by (cases "raw = []") (simp_all add: payload_ref_def putPayload_eq, simp add: putPayload_def)

text \<open>What the normalization makes of a response reference.\<close>

definition normal_ref :: "db \<Rightarrow> string \<Rightarrow> string" where
  "normal_ref d root =
    (if root = [] then []
     else case stored_terminal d root of Inr (Some t) \<Rightarrow> payload_ref t | _ \<Rightarrow> root)"

definition response_readable :: "db \<Rightarrow> string \<Rightarrow> bool" where
  "response_readable d root \<longleftrightarrow> root = [] \<or> (\<exists>t. stored_terminal d root = Inr t)"

lemma response_readable_grows: "grows d d' \<Longrightarrow> response_readable d root \<Longrightarrow> response_readable d' root"
  by (auto simp: response_readable_def dest: stored_terminal_grows)

lemma normal_ref_grows: "grows d d' \<Longrightarrow> response_readable d root \<Longrightarrow> normal_ref d' root = normal_ref d root"
  by (auto simp: response_readable_def normal_ref_def dest: stored_terminal_grows)

lemma set_response_ref_simps [simp]:
  "request_id (set_response_ref h r) = request_id r" "r_id (set_response_ref h r) = r_id r"
  "set_response_ref h (set_response_ref g r) = set_response_ref h r" "response_ref (set_response_ref h r) = h"
  "set_response_ref (response_ref r) r = r"
  by (simp_all add: set_response_ref_def)

lemma normalize_one_run:
  assumes run: "normalize_one rq d = Inr d'"
  obtains r bs c es where "find (\<lambda>r. request_id r = rq) (records d) = Some r" "response_readable d (response_ref r)"
    "d' = d\<lparr>blobs := bs, records := map (\<lambda>x. if request_id x = rq \<and> response_ref x = response_ref r
        then set_response_ref (normal_ref d (response_ref r)) x else x) (records d), ingest_clock := c, ingest_events := es,
        normalized_response_requests := insert_ignore id rq (normalized_response_requests d)\<rparr>"
    "grows d d'"
proof -
  let ?mark = "\<lambda>e. e\<lparr>normalized_response_requests := insert_ignore id rq (normalized_response_requests e)\<rparr>"
  let ?upd = "\<lambda>r t. update_records (\<lambda>x. request_id x = rq \<and> response_ref x = response_ref r)
      (set_response_ref (payload_ref t)) (snd (putPayload t d))"
  from run obtain r t where r: "find (\<lambda>r. request_id r = rq) (records d) = Some r"
    and t: "(if response_ref r = [] then Inr None else stored_terminal d (response_ref r)) = Inr t"
    and d': "d' = ?mark (case t of None \<Rightarrow> d | Some terminal \<Rightarrow> ?upd r terminal)"
    by (auto simp: normalize_one_def Let_def bind_res_Inr_iff split_beta fst_putPayload split: option.splits)
  have readable: "response_readable d (response_ref r)" using t by (auto simp: response_readable_def split: if_splits)
  have mark: "grows e (?mark e)" for e by (rule grows_same) simp_all
  show thesis
  proof (cases t)
    case None
    then have "normal_ref d (response_ref r) = response_ref r" using t by (auto simp: normal_ref_def split: if_splits)
    then have "map (\<lambda>x. if request_id x = rq \<and> response_ref x = response_ref r
        then set_response_ref (normal_ref d (response_ref r)) x else x) (records d) = records d"
      by (intro map_idI) (metis set_response_ref_simps(5))
    then show thesis
      using that [OF r readable, where bs = "blobs d" and c = "ingest_clock d" and es = "ingest_events d"] d' None mark [of d] by simp
  next
    case (Some u)
    then have "normal_ref d (response_ref r) = payload_ref u" using t by (auto simp: normal_ref_def split: if_splits)
    moreover obtain bs where bs: "snd (putPayload u d) = d\<lparr>blobs := bs\<rparr>" using putPayload_only_blobs by blast
    moreover obtain c es where "?upd r u = (d\<lparr>blobs := bs\<rparr>)\<lparr>records := map (\<lambda>x. if request_id x = rq \<and> response_ref x = response_ref r
        then set_response_ref (payload_ref u) x else x) (records d), ingest_clock := c, ingest_events := es\<rparr>"
      unfolding bs using update_records_shape [of _ _ "d\<lparr>blobs := bs\<rparr>"] by fastforce
    moreover have up: "grows d (?upd r u)"
      using putPayload_grows [of d u] grows_update [of "set_response_ref (payload_ref u)"] by (blast intro: grows_trans set_response_ref_simps)
    ultimately show thesis
      using that [OF r readable, where bs = bs and c = c and es = es] d' Some grows_trans [OF up mark] by simp
  qed
qed

lemma normalize_one_keeps: "normalize_one rq d = Inr d' \<Longrightarrow> keeps_ids d d'"
  by (erule normalize_one_run) (simp add: keeps_ids_def row_ids_def turn_ids_def)

lemma normalize_one_grows: "normalize_one rq d = Inr d' \<Longrightarrow> grows d d'"
  by (erule normalize_one_run)

lemma find_map_other:
  assumes "\<And>x. key (f x) = key x" and "\<And>x. key x = k \<Longrightarrow> f x = x"
  shows "find (\<lambda>x. key x = k) (map f xs) = find (\<lambda>x. key x = k) xs"
  by (induction xs) (auto simp: assms)

definition normalizable :: "db \<Rightarrow> string \<Rightarrow> bool" where
  "normalizable d rq \<longleftrightarrow>
    (case find (\<lambda>r. request_id r = rq) (records d) of None \<Rightarrow> False | Some r \<Rightarrow> response_readable d (response_ref r))"

lemma normalize_one_other:
  assumes "normalize_one rq d = Inr d'" and "q \<noteq> rq" and "normalizable d q"
  shows "normalizable d' q"
  using assms(1)
proof (rule normalize_one_run)
  fix r bs c es
  assume d': "d' = d\<lparr>blobs := bs, records := map (\<lambda>x. if request_id x = rq \<and> response_ref x = response_ref r
        then set_response_ref (normal_ref d (response_ref r)) x else x) (records d), ingest_clock := c, ingest_events := es,
        normalized_response_requests := insert_ignore id rq (normalized_response_requests d)\<rparr>"
    and g: "grows d d'"
  have "find (\<lambda>r. request_id r = q) (records d') = find (\<lambda>r. request_id r = q) (records d)"
    unfolding d' using assms(2) by (simp, intro find_map_other) auto
  with assms(3) g show ?thesis by (auto simp: normalizable_def response_readable_grows split: option.splits)
qed

interpretation normalization: marked_work normalize_one id "\<lambda>d q. q \<notin> set (normalized_response_requests d)" normalizable
proof
  show "normalize_one x d = Inr d' \<Longrightarrow> grows d d'" for x d d' by (rule normalize_one_grows)
  show "normalize_one x d = Inr d' \<Longrightarrow> keeps_ids d d'" for x d d' by (rule normalize_one_keeps)
  show "normalize_one x d = Inr d' \<Longrightarrow>
      (q \<notin> set (normalized_response_requests d')) = (q \<notin> set (normalized_response_requests d) \<and> q \<noteq> id x)" for x d d' q
    by (erule normalize_one_run) (use insert_ignore_keys [of id x "normalized_response_requests d"] in auto)
  show "\<exists>d'. normalize_one x d = Inr d'" if "normalizable d x" for d x
    using that by (auto simp: normalizable_def response_readable_def normalize_one_def Let_def split: option.splits)
  show "normalizable d' y" if "normalize_one x d = Inr d'" "id y \<noteq> id x" "normalizable d y" for x d d' y
    using normalize_one_other [OF that(1) _ that(3)] that(2) by simp
qed

lemma normalize_all:
  assumes "foldM_res normalize_one qs d = Inr d'" and "distinct qs" and "distinct (map request_id (records d))"
    and "\<forall>q \<in> set qs. normalizable d q"
  shows "records d' = map (\<lambda>r. if request_id r \<in> set qs then set_response_ref (normal_ref d (response_ref r)) r else r) (records d)"
  using assms
proof (induction qs arbitrary: d)
  case (Cons q qs)
  then obtain d1 where d1: "normalize_one q d = Inr d1" "foldM_res normalize_one qs d1 = Inr d'"
    by (auto simp: bind_res_Inr_iff)
  from d1(1) obtain r where r: "find (\<lambda>r. request_id r = q) (records d) = Some r"
    and rows: "records d1 = map (\<lambda>x. if request_id x = q \<and> response_ref x = response_ref r
      then set_response_ref (normal_ref d (response_ref r)) x else x) (records d)"
    and g: "grows d d1"
    by (rule normalize_one_run) simp
  have only: "x = y" if "x \<in> set (records d)" "find (\<lambda>r. request_id r = request_id x) (records d) = Some y" for x y
    using find_distinct [OF Cons.prems(3) that(1)] that(2) by simp
  have rows: "records d1 = map (\<lambda>x. if request_id x = q then set_response_ref (normal_ref d (response_ref x)) x else x) (records d)"
    unfolding rows using only r by (intro map_cong) auto
  have "distinct (map request_id (records d1))" using Cons.prems(3) by (simp add: rows comp_def if_distrib cong: if_cong)
  moreover have "\<forall>p \<in> set qs. normalizable d1 p"
  proof
    fix p assume "p \<in> set qs"
    with Cons.prems(2,4) show "normalizable d1 p" by (intro normalize_one_other [OF d1(1)]) auto
  qed
  ultimately have rest: "records d' =
      map (\<lambda>r. if request_id r \<in> set qs then set_response_ref (normal_ref d1 (response_ref r)) r else r) (records d1)"
    using Cons.IH [OF d1(2)] Cons.prems(2) by simp
  have same: "normal_ref d1 (response_ref x) = normal_ref d (response_ref x)"
    if x: "x \<in> set (records d)" "request_id x \<in> set qs" for x
  proof (rule normal_ref_grows [OF g])
    from Cons.prems(4) x(2) have "normalizable d (request_id x)" by simp
    then show "response_readable d (response_ref x)"
      using only [OF x(1)] by (auto simp: normalizable_def split: option.splits)
  qed
  show ?case
    unfolding rest rows map_map by (intro map_cong refl) (use Cons.prems(2) same in auto)
qed simp

lemma unnormalized_keys: "set (unnormalized d) = fst ` set (session_indexed_requests d) - set (normalized_response_requests d)"
  by (auto simp: unnormalized_def)

lemma normalization_run:
  assumes "archive_ok d" and "\<forall>r \<in> set (records d). response_readable d (response_ref r)"
  shows "\<exists>d'. NormalizeHistoricalSSE d = (None, d') \<and> archive_ok d' \<and> logged d d' \<and> unnormalized d' = []
    \<and> records d' = map (\<lambda>r. if request_id r \<in> set (unnormalized d)
        then set_response_ref (normal_ref d (response_ref r)) r else r) (records d)
    \<and> (\<forall>n h x. LoadPayload n d h = Inr x \<longrightarrow> LoadPayload n d' h = Inr x)"
proof -
  let ?qs = "unnormalized d"
  have dist: "distinct (map request_id (records d))" "distinct (map fst (session_indexed_requests d))"
    and sub: "fst ` set (session_indexed_requests d) \<subseteq> request_id ` set (records d)"
    using assms(1) by (auto simp: archive_ok_ids row_ids_def comp_def index_ok_def image_image)
  then have dq: "distinct ?qs" by (simp add: unnormalized_def)
  have ready: "\<forall>q \<in> set ?qs. normalizable d q"
  proof
    fix q assume "q \<in> set ?qs"
    with sub obtain r where "r \<in> set (records d)" "q = request_id r" by (auto simp: unnormalized_keys)
    with find_distinct [OF dist(1)] assms(2) show "normalizable d q" by (simp add: normalizable_def)
  qed
  from normalization.work_done [of 32 ?qs d] dq ready obtain d' where
    d': "NormalizeHistoricalSSE d = (None, d')" "foldM_res normalize_one ?qs d = Inr d'"
    "\<forall>q. q \<notin> set (normalized_response_requests d') \<longleftrightarrow> q \<notin> set (normalized_response_requests d) \<and> q \<notin> set ?qs"
    unfolding NormalizeHistoricalSSE_def by auto
  have g: "grows d d'" and k: "keeps_ids d d'"
    using normalization.loop_grows [OF d'(2)] normalization.loop_keeps [OF d'(2)] by simp_all
  have "set (unnormalized d') = {}"
    using d'(3) k by (auto simp: unnormalized_keys keeps_ids_def)
  moreover have "\<forall>n h x. LoadPayload n d h = Inr x \<longrightarrow> LoadPayload n d' h = Inr x"
    using g LoadPayload_mono [of d d'] by (simp add: grows_def)
  ultimately show ?thesis
    using d'(1) archive_ok_keeps [OF assms(1) g k] g normalize_all [OF d'(2) dq dist(1) ready]
    by (auto simp: grows_def)
qed

text \<open>
  C32. The normalization completes and is exact. On a well-formed archive whose responses can be read it returns, afterwards
  no request is left to normalize and the archive is well formed; the response of a listed request refers to the terminal
  event exactly when it was a raw event stream with one, no other column changed, every change is in the ingest
  log, and every payload that could be loaded still can.
\<close>

theorem NormalizeHistoricalSSE_exact:
  assumes "archive_ok d" and "\<forall>r \<in> set (records d). response_readable d (response_ref r)"
  shows "\<exists>d'. NormalizeHistoricalSSE d = (None, d') \<and> archive_ok d' \<and> logged d d' \<and> unnormalized d' = []
    \<and> records d' = map (\<lambda>r. if request_id r \<in> set (unnormalized d)
        then set_response_ref (normal_ref d (response_ref r)) r else r) (records d)
    \<and> (\<forall>n h x. LoadPayload n d h = Inr x \<longrightarrow> LoadPayload n d' h = Inr x)"
  using assms by (rule normalization_run)

section \<open>Previews\<close>

lemma preview_texts_grows:
  assumes "grows d d'" and "preview_texts lib n d item = Inr t"
  shows "preview_texts lib n d' item = Inr t"
proof -
  have load: "LoadPayload n d' h = Inr x" if "LoadPayload n d h = Inr x" for h x
    using assms(1) that LoadPayload_mono [of d d'] by (simp add: grows_def)
  show ?thesis
    using assms(2) load by (auto simp: preview_texts_def bind_res_Inr_iff split: if_splits)
qed

lemma or_old_empty [simp]: "or_old a b = [] \<longleftrightarrow> a = [] \<and> b = []"
  by (simp add: or_old_def)

lemma preview_row_simps [simp]:
  "request_id (preview_row sm rp js r) = request_id r" "r_id (preview_row sm rp js r) = r_id r"
  "summary (preview_row sm rp js r) = or_old sm (summary r)"
  "response_preview (preview_row sm rp js r) = or_old rp (response_preview r)"
  by (simp_all add: preview_row_def)

definition previewed :: "rec_row \<Rightarrow> rec_row \<Rightarrow> bool" where
  "previewed r r' \<longleftrightarrow> (\<exists>sm rp js. r' = preview_row sm rp js r)"

lemma previewed_refl: "previewed r r"
  unfolding previewed_def by (intro exI [of _ "[]"] exI [of _ "facets_json r"]) (simp add: preview_row_def or_old_def)

lemma previewed_trans: "previewed r r' \<Longrightarrow> previewed r' r'' \<Longrightarrow> previewed r r''"
proof -
  have "preview_row sm' rp' js' (preview_row sm rp js r) = preview_row (or_old sm' sm) (or_old rp' rp) js' r"
    for sm' rp' js' sm rp js
    by (simp add: preview_row_def or_old_def)
  then show "previewed r r' \<Longrightarrow> previewed r' r'' \<Longrightarrow> previewed r r''" unfolding previewed_def by blast
qed

lemma preview_one_run:
  assumes run: "preview_one lib n item d = Inr d'"
  obtains sm rp js src c es where
    "d' = d\<lparr>records := map (\<lambda>r. if request_id r = pi_requestID item then preview_row sm rp js r else r) (records d),
        ingest_clock := c, ingest_events := es,
        turn_records := map (preview_turn (pi_requestID item) sm rp js) (turn_records d),
        record_facets :=
          (if src \<noteq> [] then insert_ignore id (pi_requestID item, ''thread.source'', src) (record_facets d) else record_facets d),
        session_facets :=
          (if src \<noteq> [] then insert_ignore id (pi_sessionID item, ''thread.source'', src) (session_facets d) else session_facets d),
        previewed_requests :=
          upsert fst (\<lambda>p. (fst p, previewVersion)) (pi_requestID item, previewVersion) (previewed_requests d)\<rparr>"
    "grows d d'"
proof -
  from run obtain sm rp src where t: "preview_texts lib n d item = Inr (sm, rp, src)"
    by (auto simp: preview_one_def bind_res_Inr_iff)
  define js where "js = facetsJSON (preview_facets item src)"
  let ?d1 = "update_records (\<lambda>r. request_id r = pi_requestID item) (preview_row sm rp js) d"
  obtain c es where d1: "?d1 = d\<lparr>records := map (\<lambda>r. if request_id r = pi_requestID item then preview_row sm rp js r else r) (records d),
      ingest_clock := c, ingest_events := es\<rparr>"
    using update_records_shape by blast
  have d': "d' = ?d1\<lparr>turn_records := map (preview_turn (pi_requestID item) sm rp js) (turn_records ?d1),
      record_facets :=
        (if src \<noteq> [] then insert_ignore id (pi_requestID item, ''thread.source'', src) (record_facets ?d1) else record_facets ?d1),
      session_facets :=
        (if src \<noteq> [] then insert_ignore id (pi_sessionID item, ''thread.source'', src) (session_facets ?d1) else session_facets ?d1),
      previewed_requests :=
        upsert fst (\<lambda>p. (fst p, previewVersion)) (pi_requestID item, previewVersion) (previewed_requests ?d1)\<rparr>"
    using run t by (cases "src = []") (auto simp: preview_one_def Let_def js_def)
  have "grows d ?d1" by (rule grows_update) simp
  moreover have "grows ?d1 d'" by (rule grows_same) (simp_all add: d')
  ultimately have g: "grows d d'" by (rule grows_trans)
  show thesis
    by (rule that [where sm = sm and rp = rp and js = js and c = c and es = es and src = src, OF _ g])
      (simp add: d' d1)
qed

lemma preview_one_keeps: "preview_one lib n item d = Inr d' \<Longrightarrow> keeps_ids d d'"
  by (erule preview_one_run) (simp add: keeps_ids_def row_ids_def turn_ids_def preview_turn_def)

lemma preview_one_rows: "preview_one lib n item d = Inr d' \<Longrightarrow> list_all2 previewed (records d) (records d')"
  by (erule preview_one_run)
    (auto simp: list_all2_map2 previewed_refl intro!: list.rel_refl_strong, auto simp: previewed_def)

interpretation previews: marked_work "preview_one lib n" pi_requestID unpreviewed
  "\<lambda>d item. \<exists>t. preview_texts lib n d item = Inr t" for lib n
proof
  show grows: "preview_one lib n x d = Inr d' \<Longrightarrow> grows d d'" for x d d' by (erule preview_one_run)
  show "preview_one lib n x d = Inr d' \<Longrightarrow> keeps_ids d d'" for x d d' by (rule preview_one_keeps)
  show "preview_one lib n x d = Inr d' \<Longrightarrow> unpreviewed d' q \<longleftrightarrow> unpreviewed d q \<and> q \<noteq> pi_requestID x" for x d d' q
    by (erule preview_one_run) (simp add: unpreviewed_def map_of_upsert)
  show "\<exists>d'. preview_one lib n x d = Inr d'" if "\<exists>t. preview_texts lib n d x = Inr t" for d x
    using that by (auto simp: preview_one_def Let_def)
  show "\<exists>t. preview_texts lib n d' y = Inr t"
    if "preview_one lib n x d = Inr d'" "\<exists>t. preview_texts lib n d y = Inr t" for x d d' y
    using that grows preview_texts_grows by blast
qed

lemma preview_all_rows:
  "foldM_res (preview_one lib n) items d = Inr d' \<Longrightarrow> list_all2 previewed (records d) (records d')"
proof (erule foldM_res_rel)
  show "list_all2 previewed (records s) (records s'')"
    if "list_all2 previewed (records s) (records s')" "list_all2 previewed (records s') (records s'')" for s s' s'' :: db
    using that unfolding list_all2_conv_all_nth by (metis previewed_trans)
qed (auto intro: preview_one_rows list.rel_refl previewed_refl)

lemma previews_run:
  assumes "archive_ok d" and "\<forall>item \<in> set (preview_candidates d). \<exists>t. preview_texts lib n d item = Inr t"
  shows "\<exists>d'. RepairRecordPreviews lib n d = (None, d') \<and> archive_ok d' \<and> logged d d' \<and> preview_candidates d' = []
    \<and> list_all2 (\<lambda>r r'. (\<exists>sm rp js. r' = preview_row sm rp js r) \<and> (summary r \<noteq> [] \<longrightarrow> summary r' \<noteq> [])
        \<and> (response_preview r \<noteq> [] \<longrightarrow> response_preview r' \<noteq> [])) (records d) (records d')
    \<and> (\<forall>m h x. LoadPayload m d h = Inr x \<longrightarrow> LoadPayload m d' h = Inr x)"
proof -
  let ?items = "preview_candidates d"
  have "distinct (map request_id (records d))" using assms(1) by (simp add: archive_ok_ids row_ids_def comp_def)
  then have "distinct (map request_id (sort_key r_id (filter (\<lambda>r. unpreviewed d (request_id r)) (records d))))"
    by (intro distinct_map [THEN iffD2]) (auto simp: distinct_map inj_on_def)
  then have dist: "distinct (map pi_requestID ?items)" by (simp add: preview_candidates_def comp_def)
  from previews.work_done [where m = 16 and xs = ?items and d = d and lib = lib and n = n] dist assms(2) obtain d1 where
    d1: "run_batches (foldM_res (preview_one lib n)) (chunks 16 ?items) d = (None, d1)"
    "foldM_res (preview_one lib n) ?items d = Inr d1"
    "\<forall>q. unpreviewed d1 q \<longleftrightarrow> unpreviewed d q \<and> q \<notin> pi_requestID ` set ?items"
    by auto
  let ?d' = "set_version ''record_preview'' previewVersion d1"
  have g: "grows d d1" and k: "keeps_ids d d1"
    using previews.loop_grows [OF d1(2)] previews.loop_keeps [OF d1(2)] by simp_all
  have "\<not> unpreviewed d1 (request_id r)" if "r \<in> set (records d)" for r
    using d1(3) that by (auto simp: preview_candidates_def image_iff)
  then have "\<forall>q \<in> snd ` set (row_ids d1). \<not> unpreviewed d1 q"
    using k by (auto simp: keeps_ids_def row_ids_def)
  then have "preview_candidates ?d' = []"
    by (auto simp: preview_candidates_def row_simps filter_empty_conv row_ids_def unpreviewed_def set_version_def)
  moreover have "list_all2 (\<lambda>r r'. (\<exists>sm rp js. r' = preview_row sm rp js r) \<and> (summary r \<noteq> [] \<longrightarrow> summary r' \<noteq> [])
        \<and> (response_preview r \<noteq> [] \<longrightarrow> response_preview r' \<noteq> [])) (records d) (records ?d')"
    unfolding row_simps using preview_all_rows [OF d1(2)]
    by (rule list_all2_mono) (auto simp: previewed_def)
  moreover have g': "grows d ?d'" using g set_version_grows by (rule grows_trans)
  moreover have "\<forall>m h x. LoadPayload m d h = Inr x \<longrightarrow> LoadPayload m ?d' h = Inr x"
    using g' LoadPayload_mono [of d ?d'] by (simp add: grows_def)
  moreover have "archive_ok ?d'" using archive_ok_keeps [OF assms(1) g k] by (rule set_version_ok)
  moreover have "RepairRecordPreviews lib n d = (None, ?d')" using d1(1) by (simp add: RepairRecordPreviews_def)
  ultimately show ?thesis by (auto simp: grows_def)
qed

text \<open>
  The previews are completed once. On a well-formed archive in which the payloads of the records without a preview can
  be read, the repair returns and leaves no record to do; the archive stays well formed, a record changes in its summary,
  its response preview and its facets only, a text that was there is never replaced by an empty one, and no payload is lost.
\<close>

theorem RepairRecordPreviews_complete:
  assumes "archive_ok d" and "\<forall>item \<in> set (preview_candidates d). \<exists>t. preview_texts lib n d item = Inr t"
  shows "\<exists>d'. RepairRecordPreviews lib n d = (None, d') \<and> archive_ok d' \<and> logged d d' \<and> preview_candidates d' = []
    \<and> list_all2 (\<lambda>r r'. (\<exists>sm rp js. r' = preview_row sm rp js r) \<and> (summary r \<noteq> [] \<longrightarrow> summary r' \<noteq> [])
        \<and> (response_preview r \<noteq> [] \<longrightarrow> response_preview r' \<noteq> [])) (records d) (records d')
    \<and> (\<forall>m h x. LoadPayload m d h = Inr x \<longrightarrow> LoadPayload m d' h = Inr x)"
  using assms by (rule previews_run)

section \<open>Summaries\<close>

lemma resummarize_one_shape:
  assumes "resummarize_one lib n item d = Inr d'"
  shows "d' = d \<or> (\<exists>text. text \<noteq> [] \<and> d' = d\<lparr>session_summaries := map (set_summary (fst item) text) (session_summaries d)\<rparr>)"
  using assms by (auto simp: resummarize_one_def bind_res_Inr_iff split: if_splits)

lemma set_summary_simps [simp]:
  "ss_session_id (set_summary sid text s) = ss_session_id s" "ss_requests (set_summary sid text s) = ss_requests s"
  by (simp_all add: set_summary_def)

interpretation summaries: repair_op "resummarize_one lib n" for lib n
proof
  fix x and d d' :: db
  assume "resummarize_one lib n x d = Inr d'"
  then show "grows d d'" "keeps_ids d d'"
    by (auto dest!: resummarize_one_shape simp: keeps_ids_def row_ids_def turn_ids_def comp_def intro: grows_refl grows_same)
qed

definition resummarized :: "summary_row \<Rightarrow> summary_row \<Rightarrow> bool" where
  "resummarized s s' \<longleftrightarrow>
    s'\<lparr>ss_summary := [], ss_summary_at := []\<rparr> = s\<lparr>ss_summary := [], ss_summary_at := []\<rparr> \<and> (ss_summary s \<noteq> [] \<longrightarrow> ss_summary s' \<noteq> [])"

lemma resummarized_trans: "resummarized s s' \<Longrightarrow> resummarized s' s'' \<Longrightarrow> resummarized s s''"
  by (simp add: resummarized_def)

lemma resummarize_one_rows:
  "resummarize_one lib n x d = Inr d' \<Longrightarrow> list_all2 resummarized (session_summaries d) (session_summaries d')"
  by (drule resummarize_one_shape)
    (auto simp: list_all2_map2 resummarized_def set_summary_def intro!: list.rel_refl_strong)

text \<open>The repair of summaries, complete or interrupted, changes summaries and nothing else; it never removes one.\<close>

lemma RepairSessionSummaries_ok:
  assumes "archive_ok d" and "RepairSessionSummaries lib n d = (e, d')"
  shows "archive_ok d' \<and> grows d d' \<and> keeps_ids d d' \<and> list_all2 resummarized (session_summaries d) (session_summaries d')"
proof -
  let ?Q = "\<lambda>d d'. list_all2 resummarized (session_summaries d) (session_summaries d')"
  let ?run = "snd (run_batches (foldM_res (resummarize_one lib n)) (chunks 1 (summary_candidates d)) d)"
  have tr: "?Q d d''" if "?Q d d'" "?Q d' d''" for d d' d'' :: db
    using that unfolding list_all2_conv_all_nth by (metis resummarized_trans)
  have rf: "?Q d d" for d :: db by (rule list.rel_refl) (simp add: resummarized_def)
  have loop: "?Q d d'" if "foldM_res (resummarize_one lib n) xs d = Inr d'" for xs d d'
    using that by (rule foldM_res_rel) (fact resummarize_one_rows, fact rf, fact tr)
  have "?Q d ?run" by (rule run_batches_rel) (fact loop, fact rf, fact tr)
  moreover have "d' = ?run \<or> d' = set_version ''session_summary'' 3 ?run"
    using assms(2) by (auto simp: RepairSessionSummaries_def split: prod.splits option.splits)
  moreover have "archive_ok ?run" using assms(1) by (rule summaries.batches_ok)
  moreover have "grows d ?run" by (rule summaries.batches_grow)
  moreover have "keeps_ids d ?run" by (rule summaries.batches_keep)
  moreover have "keeps_ids e (set_version name v e)" for name v e
    by (simp add: keeps_ids_def row_ids_def turn_ids_def row_simps)
  ultimately show ?thesis
    using set_version_ok [of ?run] set_version_grows [of ?run] grows_trans [of d ?run] keeps_ids_trans [of d ?run]
    by (elim disjE) (simp_all add: row_simps)
qed

section \<open>Witnesses\<close>

text \<open>A response that an older version stored as the raw text of an event stream.\<close>

definition stream_text :: string where
  \<open>stream_text = ''event: response.completed:data:{"type":"response.completed"}''\<close>

definition stream_manifest :: string where
  \<open>stream_manifest = ''{"$cpa_blob":"b","encoding":"raw","media_type":"","size":1}''\<close>

definition stream_db :: db where
  "stream_db = empty_db\<lparr>
     blobs := [\<lparr>bl_hash = ''m'', bl_media = [], bl_raw_size = 0, bl_data = OtherCodec stream_manifest\<rparr>,
               \<lparr>bl_hash = ''b'', bl_media = [], bl_raw_size = 0, bl_data = OtherCodec stream_text\<rparr>],
     records := [blank_row\<lparr>r_id := 1, request_id := ''q'', session_id := ''s'', response_ref := ''m''\<rparr>],
     session_indexed_requests := [(''q'', ''s'')], session_summaries := [new_summary sample_record]\<rparr>"

lemma stream_manifest_Decode:
  "Decode stream_manifest =
    Some (Obj [(''$cpa_blob'', Str ''b''), (''encoding'', Str ''raw''), (''media_type'', Str []), (''size'', Num ''1'')], [])"
  by (simp add: Decode_def stream_manifest_def max_depth_def text_eval obj_of_def pnum_def psign_def pint_def pdigits_def
      pfrac_def pexp_def is_digit_def)

definition stream_event :: gv where
  "stream_event = Obj [(''type'', Str ''response.completed'')]"

lemma stream_event_Decode: \<open>Decode ''{"type":"response.completed"}'' = Some (stream_event, [])\<close>
  by (simp add: Decode_def stream_event_def max_depth_def text_eval obj_of_def)

lemma stream_terminal: "terminalSSEPayload stream_text = Some (Marshal stream_event)"
  by (simp add: terminalSSEPayload_def stream_text_def HasPrefix_def stream_event_Decode [unfolded stream_event_def] stream_event_def
      del: marshal.simps)

lemma stream_stored: "stored_terminal stream_db ''m'' = Inr (Some (Marshal stream_event))"
proof -
  have "raw_reference stream_manifest = Some ''b''"
    by (simp add: raw_reference_def parse_json_def stream_manifest_Decode skip_ws_def object_field_def field_value_def
        string_field_def size_field_def HasPrefix_def is_digit_def digits_val_def)
  then show ?thesis
    by (simp add: stored_terminal_def loadBlobTx_def find_blob_def stream_db_def stream_terminal del: marshal.simps)
qed

lemma stream_ok: "archive_ok stream_db"
  by (simp add: archive_ok_def index_ok_def turn_ok_def log_ok_def rec_keys_def stream_db_def empty_db_def blank_row_def
      sample_record_def)

theorem NormalizeHistoricalSSE_exact_witness:
  "\<exists>d'. NormalizeHistoricalSSE stream_db = (None, d') \<and> unnormalized d' = []
    \<and> map response_ref (records d') = [payload_ref (Marshal stream_event)]"
proof -
  have r: "\<forall>r \<in> set (records stream_db). response_readable stream_db (response_ref r)"
    using stream_stored by (auto simp: stream_db_def blank_row_def response_readable_def simp del: marshal.simps)
  have u: "unnormalized stream_db = [''q'']" by (simp add: unnormalized_def stream_db_def empty_db_def)
  have n: "normal_ref stream_db ''m'' = payload_ref (Marshal stream_event)"
    by (simp add: normal_ref_def stream_stored del: marshal.simps)
  obtain r0 where r0: "records stream_db = [r0]" "request_id r0 = ''q''" "response_ref r0 = ''m''"
    by (simp add: stream_db_def blank_row_def)
  from NormalizeHistoricalSSE_exact [OF stream_ok r, unfolded r0(1) u] obtain d' where
    d': "NormalizeHistoricalSSE stream_db = (None, d')" "unnormalized d' = []"
    "records d' = map (\<lambda>r. if request_id r \<in> set [''q''] then set_response_ref (normal_ref stream_db (response_ref r)) r else r) [r0]"
    by (elim exE conjE)
  have "map response_ref (records d') = [payload_ref (Marshal stream_event)]"
    unfolding d'(3) by (simp add: n r0 del: marshal.simps)
  then show ?thesis by (intro exI [of _ d'] conjI d'(1,2))
qed

definition quiet_lib :: library where
  "quiet_lib = \<lparr>lib_gjson = (\<lambda>_ _. GResult [] None), lib_entities = (\<lambda>_. []), lib_sprint = (\<lambda>_. []),
     lib_order = (\<lambda>_ kvs. kvs), lib_yaml = (\<lambda>_ c. c), lib_duration = (\<lambda>_. None)\<rparr>"

theorem RepairRecordPreviews_complete_witness:
  "\<exists>d'. RepairRecordPreviews quiet_lib 0 misfiled = (None, d') \<and> archive_ok d' \<and> preview_candidates d' = []
    \<and> preview_candidates misfiled \<noteq> []"
proof -
  have c: "preview_candidates misfiled \<noteq> []"
    "\<forall>item \<in> set (preview_candidates misfiled). \<exists>t. preview_texts quiet_lib 0 misfiled item = Inr t"
    by (simp_all add: preview_candidates_def misfiled_def empty_db_def blank_row_def unpreviewed_def preview_texts_def)
  from RepairRecordPreviews_complete [OF misfiled_ok c(2)] c(1) show ?thesis by blast
qed

end
