(* ===== verification/Turn_Projection.thy ===== *)
theory Turn_Projection
  imports Session_Repairs Export
begin

text \<open>
  The backfill of the turn projection (\<open>internal/archive/turn_projection.go\<close>): the narrow rows of records that
  older versions archived, copied session by session in small transactions, and the facets of those rows, extracted
  newest first.

  The three facet columns are written together and two of them hold JSON, so a row whose columns are \<open>NULL\<close> is one with an
  empty \<open>tool_names_json\<close> or \<open>request_kinds_json\<close>. Whether SQLite is busy belongs to the environment: \<open>busy i k\<close> is the
  error message of attempt \<open>k\<close> at batch \<open>i\<close>, if it fails. The context is not cancelled.
\<close>

section \<open>Copying the rows of a session\<close>

definition projected_row :: "rec_row \<Rightarrow> turn_row" where
  "projected_row r =
    \<lparr>t_id = r_id r, t_request_id = request_id r, t_session_id = session_id r, t_key_id = key_id r,
     t_summary = summary r, t_response_preview = response_preview r, t_requested_model = requested_model r,
     t_model = model r, t_outcome = outcome r, t_status_code = status_code r, t_started_at = started_at r,
     t_completed_at = completed_at r, t_facets_json = facets_json r, t_principal_id = [], t_credential_hash = [],
     t_turn_id = [], t_tool_names_json = [], t_request_kinds_json = []\<rparr>"

definition refresh_turn :: "rec_row \<Rightarrow> turn_row \<Rightarrow> turn_row" where
  "refresh_turn r t =
    t\<lparr>t_session_id := session_id r, t_key_id := key_id r, t_summary := summary r, t_response_preview := response_preview r,
      t_requested_model := requested_model r, t_model := model r, t_outcome := outcome r, t_status_code := status_code r,
      t_started_at := started_at r, t_completed_at := completed_at r, t_facets_json := facets_json r\<rparr>"

definition project_one :: "rec_row \<Rightarrow> db \<Rightarrow> db result" where
  "project_one r d =
    (if \<exists>t \<in> set (turn_records d). t_id t = r_id r \<and> t_request_id t \<noteq> request_id r then Inl Fatal
     else Inr (d\<lparr>turn_records := upsert t_request_id (refresh_turn r) (projected_row r) (turn_records d)\<rparr>))"

lemma project_one_records: "project_one r d = Inr d' \<Longrightarrow> records d' = records d"
  by (auto simp: project_one_def split: if_splits)

lemma project_all_records: "foldM_res project_one rs d = Inr d' \<Longrightarrow> records d' = records d"
  by (erule foldM_res_rel) (auto dest: project_one_records)

lemma rows_after_records: "records d' = records d \<Longrightarrow> rows_after d' sid cur = rows_after d sid cur"
  by (simp add: rows_after_def)

function backfill_rows :: "nat \<Rightarrow> string \<Rightarrow> string \<times> nat \<Rightarrow> db \<Rightarrow> err option \<times> db" where
  "backfill_rows batchSize sid cursor d =
    (let batch = take batchSize (rows_after d sid cursor) in
     if batch = [] then (None, d)
     else
       (case foldM_res project_one batch d of
          Inl e \<Rightarrow> (Some e, d)
        | Inr d' \<Rightarrow>
            if length batch < batchSize then (None, d')
            else backfill_rows batchSize sid (row_key (last batch)) d'))"
  by pat_completeness auto
termination
proof (relation "measure (\<lambda>(b, sid, cur, d). length (rows_after d sid cur))", goal_cases)
  case (2 b sid cur d batch d')
  then have "last batch \<in> set (rows_after d sid cur)" by (metis in_set_takeD last_in_set)
  then show ?case
    using rows_after_shrinks rows_after_records [OF project_all_records [OF 2(3)]] by auto
qed simp

declare backfill_rows.simps [simp del]

definition backfillTurnSession :: "nat \<Rightarrow> string \<Rightarrow> db \<Rightarrow> err option \<times> db" where
  "backfillTurnSession batchSize sid d =
    (let projected = length (filter (\<lambda>t. t_session_id t = sid) (turn_records d));
         total = length (filter (\<lambda>r. session_id r = sid) (records d))
     in if projected = total then (None, d) else backfill_rows batchSize sid ([], 0) d)"

fun backfill_sessions :: "nat \<Rightarrow> string list \<Rightarrow> db \<Rightarrow> err option \<times> db" where
  "backfill_sessions batchSize [] d = (None, d)"
| "backfill_sessions batchSize (sid # sids) d =
    (case backfillTurnSession batchSize sid d of
       (Some e, d') \<Rightarrow> (Some e, d')
     | (None, d') \<Rightarrow> backfill_sessions batchSize sids d')"

definition batch_size_or :: "int \<Rightarrow> nat" where
  "batch_size_or n = (if n < 1 then 64 else nat n)"

text \<open>The sessions in the order of \<open>last_at DESC\<close>.\<close>

definition BackfillTurnProjection :: "int \<Rightarrow> db \<Rightarrow> err option \<times> db" where
  "BackfillTurnProjection batchSize d =
    backfill_sessions (batch_size_or batchSize)
      (map ss_session_id (rev (sort_key ss_last_at (session_summaries d)))) d"

section \<open>The facets of the rows\<close>

record turnFacetProjectionItem =
  fi_id :: nat
  fi_turnID :: string
  fi_tools :: string
  fi_kinds :: string

definition unprojected :: "turn_row \<Rightarrow> bool" where
  "unprojected t \<longleftrightarrow> t_tool_names_json t = [] \<or> t_request_kinds_json t = []"

definition facet_item :: "turn_row \<Rightarrow> turnFacetProjectionItem" where
  "facet_item t =
    (case compactTurnFacets (decode_facets (t_facets_json t)) of
       (turnID, tools, kinds) \<Rightarrow> \<lparr>fi_id = t_id t, fi_turnID = turnID, fi_tools = tools, fi_kinds = kinds\<rparr>)"

definition facet_batch :: "nat \<Rightarrow> nat \<Rightarrow> db \<Rightarrow> turn_row list" where
  "facet_batch batchSize beforeID d =
    take batchSize (rev (sort_key t_id (filter (\<lambda>t. t_id t < beforeID \<and> unprojected t) (turn_records d))))"

definition write_item :: "turnFacetProjectionItem \<Rightarrow> turn_row \<Rightarrow> turn_row" where
  "write_item x t =
    (if t_id t = fi_id x
     then t\<lparr>t_turn_id := fi_turnID x, t_tool_names_json := fi_tools x, t_request_kinds_json := fi_kinds x\<rparr> else t)"

definition tryWriteTurnFacetProjectionBatch :: "turnFacetProjectionItem list \<Rightarrow> db \<Rightarrow> db" where
  "tryWriteTurnFacetProjectionBatch batch d =
    d\<lparr>turn_records := fold (\<lambda>x. map (write_item x)) batch (turn_records d)\<rparr>"

definition isSQLiteBusy :: "string option \<Rightarrow> bool" where
  "isSQLiteBusy err =
    (case err of
       None \<Rightarrow> False
     | Some message \<Rightarrow>
         Contains (ToLower message) ''database is locked'' \<or> Contains (ToLower message) ''database is busy'')"

text \<open>The attempts from a given one on; \<open>left\<close> counts down from 30. The last error is returned when all fail.\<close>

fun write_attempts :: "(nat \<Rightarrow> string option) \<Rightarrow> nat \<Rightarrow> nat \<Rightarrow> turnFacetProjectionItem list \<Rightarrow> db \<Rightarrow> string option \<times> db" where
  "write_attempts busy attempt 0 batch d = (None, d)"
| "write_attempts busy attempt (Suc left) batch d =
    (case busy attempt of
       None \<Rightarrow> (None, tryWriteTurnFacetProjectionBatch batch d)
     | Some e \<Rightarrow>
         if \<not> isSQLiteBusy (Some e) \<or> left = 0 then (Some e, d)
         else write_attempts busy (Suc attempt) left batch d)"

definition writeTurnFacetProjectionBatch :: "(nat \<Rightarrow> string option) \<Rightarrow> turnFacetProjectionItem list \<Rightarrow> db \<Rightarrow> string option \<times> db" where
  "writeTurnFacetProjectionBatch busy batch d = write_attempts busy 0 30 batch d"

lemma write_attempts_cases:
  "write_attempts busy k n batch d = (e, d') \<Longrightarrow> d' = d \<or> e = None \<and> d' = tryWriteTurnFacetProjectionBatch batch d"
  by (induction busy k n batch d rule: write_attempts.induct) (auto split: option.splits if_splits)

lemma map_t_id_write: "map t_id (turn_records (tryWriteTurnFacetProjectionBatch batch d)) = map t_id (turn_records d)"
proof -
  have "map t_id (fold (\<lambda>x. map (write_item x)) batch ts) = map t_id ts" for ts
    by (induction batch arbitrary: ts) (simp_all add: write_item_def if_distrib comp_def cong: if_cong)
  then show ?thesis by (simp add: tryWriteTurnFacetProjectionBatch_def)
qed

definition ids_below :: "nat \<Rightarrow> db \<Rightarrow> nat list" where
  "ids_below k d = filter (\<lambda>i. i < k) (map t_id (turn_records d))"

function facet_loop :: "(nat \<Rightarrow> nat \<Rightarrow> string option) \<Rightarrow> nat \<Rightarrow> nat \<Rightarrow> nat \<Rightarrow> db \<Rightarrow> string option \<times> db" where
  "facet_loop busy i batchSize beforeID d =
    (let rows = facet_batch batchSize beforeID d in
     if rows = [] then (None, d)
     else
       (case writeTurnFacetProjectionBatch (busy i) (map facet_item rows) d of
          (Some e, d') \<Rightarrow> (Some e, d')
        | (None, d') \<Rightarrow> facet_loop busy (Suc i) batchSize (t_id (last rows)) d'))"
  by pat_completeness auto
termination
proof (relation "measure (\<lambda>(busy, i, b, k, d). length (ids_below k d))", goal_cases)
  case (2 busy i b k d rows p d')
  then have "write_attempts (busy i) 0 30 (map facet_item rows) d = (None, d')"
    by (simp add: writeTurnFacetProjectionBatch_def)
  then have d': "map t_id (turn_records d') = map t_id (turn_records d)"
    by (auto dest!: write_attempts_cases simp: map_t_id_write)
  have "last rows \<in> set (facet_batch b k d)" using 2 by simp
  then have l: "last rows \<in> set (turn_records d)" "t_id (last rows) < k"
    by (auto simp: facet_batch_def dest!: in_set_takeD)
  have "ids_below (t_id (last rows)) d = filter (\<lambda>i. i < t_id (last rows)) (ids_below k d)"
    using l(2) by (auto simp: ids_below_def intro!: filter_cong)
  moreover have "length (filter (\<lambda>i. i < t_id (last rows)) (ids_below k d)) < length (ids_below k d)"
    using l by (intro length_filter_less [of "t_id (last rows)"]) (auto simp: ids_below_def)
  moreover have "ids_below j d' = ids_below j d" for j by (simp only: ids_below_def d')
  ultimately show ?case by simp
qed simp

declare facet_loop.simps [simp del]

definition BackfillTurnFacetProjection :: "(nat \<Rightarrow> nat \<Rightarrow> string option) \<Rightarrow> int \<Rightarrow> db \<Rightarrow> string option \<times> db" where
  "BackfillTurnFacetProjection busy batchSize d = facet_loop busy 0 (batch_size_or batchSize) (2 ^ 63 - 1) d"

section \<open>The copy is complete\<close>

text \<open>Every projected row is filed under the session of its record.\<close>

definition turns_filed :: "db \<Rightarrow> bool" where
  "turns_filed d \<longleftrightarrow>
    (\<forall>t \<in> set (turn_records d). \<forall>r \<in> set (records d). request_id r = t_request_id t \<longrightarrow> t_session_id t = session_id r)"

lemma projected_row_simps [simp]:
  "t_id (projected_row r) = r_id r" "t_request_id (projected_row r) = request_id r" "t_session_id (projected_row r) = session_id r"
  "t_id (refresh_turn r t) = t_id t" "t_request_id (refresh_turn r t) = t_request_id t"
  "t_session_id (refresh_turn r t) = session_id r"
  by (simp_all add: projected_row_def refresh_turn_def)

lemma project_one_ok:
  assumes ok: "archive_ok d" and filed: "turns_filed d" and r: "r \<in> set (records d)"
  obtains ts where "project_one r d = Inr (d\<lparr>turn_records := ts\<rparr>)" "archive_ok (d\<lparr>turn_records := ts\<rparr>)"
    "turns_filed (d\<lparr>turn_records := ts\<rparr>)" "t_request_id ` set ts = insert (request_id r) (t_request_id ` set (turn_records d))"
proof -
  let ?ts = "upsert t_request_id (refresh_turn r) (projected_row r) (turn_records d)"
  let ?d = "d\<lparr>turn_records := ?ts\<rparr>"
  have ids: "distinct (map fst (row_ids d))" "distinct (map snd (row_ids d))" "distinct (map snd (turn_ids d))"
    "set (turn_ids d) \<subseteq> set (row_ids d)"
    using ok by (simp_all add: archive_ok_ids)
  have row: "(r_id r, request_id r) \<in> set (row_ids d)" using r by (auto simp: row_ids_def)
  have "t_request_id t = request_id r" if "t \<in> set (turn_records d)" "t_id t = r_id r" for t
  proof -
    have "(r_id r, t_request_id t) \<in> set (row_ids d)" using ids(4) that by (auto simp: turn_ids_def)
    then show ?thesis using row by (rule eq_key_imp_eq_value [OF ids(1)])
  qed
  then have run: "project_one r d = Inr ?d" by (auto simp: project_one_def)
  have keys: "map t_request_id ?ts =
      (if request_id r \<in> set (map t_request_id (turn_records d)) then map t_request_id (turn_records d)
       else map t_request_id (turn_records d) @ [request_id r])"
    using upsert_keys [of t_request_id "projected_row r" "refresh_turn r" "turn_records d"] by simp
  have member: "u = projected_row r \<or> (\<exists>t \<in> set (turn_records d). u = (if t_request_id t = request_id r then refresh_turn r t else t))"
    if "u \<in> set ?ts" for u
    using that by (auto simp: upsert_def split: if_splits)
  have "set (turn_ids ?d) \<subseteq> set (row_ids ?d)"
  proof
    fix p assume "p \<in> set (turn_ids ?d)"
    then obtain u where u: "u \<in> set ?ts" "p = (t_id u, t_request_id u)" by (auto simp: turn_ids_def)
    from member [OF u(1)] have "p = (r_id r, request_id r) \<or> (\<exists>t \<in> set (turn_records d). p = (t_id t, t_request_id t))"
      unfolding u(2) by (elim disjE bexE) (simp_all split: if_splits, auto)
    then have "p = (r_id r, request_id r) \<or> p \<in> set (turn_ids d)" by (auto simp: turn_ids_def)
    then show "p \<in> set (row_ids ?d)" using row ids(4) by (auto simp: row_ids_def)
  qed
  moreover have "distinct (map snd (turn_ids ?d))"
  proof -
    have "map snd (turn_ids e) = map t_request_id (turn_records e)" for e by (simp add: turn_ids_def)
    with ids(3) keys show ?thesis by (simp split: if_splits)
  qed
  moreover have "row_ids ?d = row_ids d" "index_ok ?d = index_ok d" "log_ok ?d = log_ok d"
    by (simp_all add: row_ids_def index_ok_def log_ok_def)
  ultimately have ok': "archive_ok ?d" using ok by (simp add: archive_ok_ids)
  have filed': "turns_filed ?d"
    unfolding turns_filed_def
  proof (intro ballI impI)
    fix u x assume u: "u \<in> set (turn_records ?d)" and x: "x \<in> set (records ?d)" "request_id x = t_request_id u"
    have same: "x = r" if "request_id x = request_id r"
      using that x(1) r ids(2) by (auto simp: row_ids_def comp_def distinct_map dest: inj_onD)
    from u have "u \<in> set ?ts" by simp
    from member [OF this] show "t_session_id u = session_id x"
      using filed x same by (auto simp: turns_filed_def split: if_splits)
  qed
  have "set (map t_request_id ?ts) = insert (request_id r) (set (map t_request_id (turn_records d)))"
    unfolding keys by auto
  then show thesis using that [OF run ok' filed'] by simp
qed

lemma project_all_ok:
  assumes "archive_ok d" and "turns_filed d" and "set rs \<subseteq> set (records d)"
  shows "\<exists>ts. foldM_res project_one rs d = Inr (d\<lparr>turn_records := ts\<rparr>) \<and> archive_ok (d\<lparr>turn_records := ts\<rparr>)
    \<and> turns_filed (d\<lparr>turn_records := ts\<rparr>) \<and> t_request_id ` set ts = request_id ` set rs \<union> t_request_id ` set (turn_records d)"
  using assms
proof (induction rs arbitrary: d)
  case Nil
  then show ?case by (intro exI [of _ "turn_records d"]) simp
next
  case (Cons r rs)
  from Cons.prems(3) have r: "r \<in> set (records d)" by simp
  from Cons.prems(1,2) r obtain ts where ts: "project_one r d = Inr (d\<lparr>turn_records := ts\<rparr>)"
    "archive_ok (d\<lparr>turn_records := ts\<rparr>)" "turns_filed (d\<lparr>turn_records := ts\<rparr>)"
    "t_request_id ` set ts = insert (request_id r) (t_request_id ` set (turn_records d))"
    by (rule project_one_ok)
  have "set rs \<subseteq> set (records (d\<lparr>turn_records := ts\<rparr>))" using Cons.prems(3) by simp
  from Cons.IH [OF ts(2,3) this] ts(1,4) show ?case by auto
qed

text \<open>The batches run through all rows behind the cursor.\<close>

lemma backfill_rows_all:
  assumes "distinct (map r_id (records d))" and "0 < b" and "foldM_res project_one (rows_after d sid cur) d = Inr d'"
  shows "backfill_rows b sid cur d = (None, d')"
  using assms
proof (induction b sid cur d rule: backfill_rows.induct)
  case (1 b sid cur d)
  let ?all = "rows_after d sid cur"
  let ?batch = "take b ?all"
  show ?case
  proof (cases "?batch = []")
    case True
    with "1.prems" show ?thesis by (simp add: backfill_rows.simps [of b])
  next
    case False
    from "1.prems"(3) have "foldM_res project_one (?batch @ drop b ?all) d = Inr d'" by simp
    then obtain d1 where d1: "foldM_res project_one ?batch d = Inr d1" "foldM_res project_one (drop b ?all) d1 = Inr d'"
      by (auto simp: foldM_res_append bind_res_Inr_iff simp del: append_take_drop_id)
    have rec: "records d1 = records d" by (rule project_all_records [OF d1(1)])
    show ?thesis
    proof (cases "length ?batch < b")
      case True
      then have "drop b ?all = []" by simp
      with d1 False True show ?thesis by (simp add: backfill_rows.simps [of b] Let_def)
    next
      case full: False
      then have len: "b \<le> length ?all" by simp
      have "last ?batch = ?all ! (b - 1)" using False len by (simp add: last_conv_nth)
      then have "rows_after d1 sid (row_key (last ?batch)) = drop b ?all"
        using rows_after_last [OF "1.prems"(1,2) len] rows_after_records [OF rec] by simp
      with "1.IH" [OF refl False d1(1) full] d1(2) "1.prems"(1,2) rec have "backfill_rows b sid (row_key (last ?batch)) d1 = (None, d')"
        by simp
      with False full d1(1) show ?thesis by (simp add: backfill_rows.simps [of b _ cur] Let_def)
    qed
  qed
qed

text \<open>When a session has as many projected rows as records, every record of it is projected.\<close>

lemma equal_counts_projected:
  assumes ok: "archive_ok d" and filed: "turns_filed d"
    and count: "length (filter (\<lambda>t. t_session_id t = sid) (turn_records d)) = length (filter (\<lambda>r. session_id r = sid) (records d))"
    and r: "r \<in> set (records d)" "session_id r = sid"
  shows "request_id r \<in> t_request_id ` set (turn_records d)"
proof -
  let ?T = "map t_request_id (filter (\<lambda>t. t_session_id t = sid) (turn_records d))"
  let ?R = "map request_id (filter (\<lambda>r. session_id r = sid) (records d))"
  have ids: "distinct (map t_request_id (turn_records d))" "distinct (map request_id (records d))"
    "set (turn_ids d) \<subseteq> set (row_ids d)"
    using ok by (simp_all add: archive_ok_ids row_ids_def turn_ids_def comp_def)
  have "set ?T \<subseteq> set ?R"
  proof
    fix q assume "q \<in> set ?T"
    then obtain t where t: "t \<in> set (turn_records d)" "t_session_id t = sid" "q = t_request_id t" by auto
    with ids(3) have "(t_id t, t_request_id t) \<in> set (row_ids d)" by (auto simp: turn_ids_def)
    then obtain x where "x \<in> set (records d)" "request_id x = t_request_id t" by (auto simp: row_ids_def)
    with filed t show "q \<in> set ?R" by (auto simp: turns_filed_def image_iff)
  qed
  moreover have "card (set ?T) = card (set ?R)"
    using ids(1,2) count by (simp only: distinct_card distinct_map_filter length_map)
  ultimately have "set ?T = set ?R" by (simp only: card_subset_eq finite_set)
  moreover have "request_id r \<in> set ?R" using r by auto
  ultimately have "request_id r \<in> set ?T" by simp
  then show ?thesis by auto
qed

lemma backfillTurnSession_ok:
  assumes "archive_ok d" and "turns_filed d" and "\<forall>r \<in> set (records d). 0 < r_id r" and "0 < b"
  shows "\<exists>ts. backfillTurnSession b sid d = (None, d\<lparr>turn_records := ts\<rparr>) \<and> archive_ok (d\<lparr>turn_records := ts\<rparr>)
    \<and> turns_filed (d\<lparr>turn_records := ts\<rparr>) \<and> t_request_id ` set (turn_records d) \<subseteq> t_request_id ` set ts
    \<and> (\<forall>r \<in> set (records d). session_id r = sid \<longrightarrow> request_id r \<in> t_request_id ` set ts)"
proof (cases "length (filter (\<lambda>t. t_session_id t = sid) (turn_records d)) = length (filter (\<lambda>r. session_id r = sid) (records d))")
  case True
  with assms(1,2) equal_counts_projected [OF assms(1,2) True] show ?thesis
    by (intro exI [of _ "turn_records d"]) (simp add: backfillTurnSession_def)
next
  case False
  have dist: "distinct (map r_id (records d))" using assms(1) by (simp add: archive_ok_ids row_ids_def comp_def)
  have rows: "rows_after d sid ([], 0) = rows_of d sid" using assms(3) by (rule seek_start)
  have sub: "set (rows_of d sid) \<subseteq> set (records d)" by (auto simp: rows_of_def)
  from project_all_ok [OF assms(1,2) sub] obtain ts where ts: "foldM_res project_one (rows_of d sid) d = Inr (d\<lparr>turn_records := ts\<rparr>)"
    "archive_ok (d\<lparr>turn_records := ts\<rparr>)" "turns_filed (d\<lparr>turn_records := ts\<rparr>)"
    "t_request_id ` set ts = request_id ` set (rows_of d sid) \<union> t_request_id ` set (turn_records d)"
    by blast
  have "backfillTurnSession b sid d = (None, d\<lparr>turn_records := ts\<rparr>)"
    using False backfill_rows_all [OF dist assms(4), of sid "([], 0)"] ts(1) by (simp add: backfillTurnSession_def rows)
  moreover have "request_id r \<in> t_request_id ` set ts" if "r \<in> set (records d)" "session_id r = sid" for r
    unfolding ts(4) using that by (auto simp: rows_of_def)
  ultimately show ?thesis using ts(2-4) by (intro exI [of _ ts]) blast
qed

lemma backfill_sessions_ok:
  assumes "archive_ok d" and "turns_filed d" and "\<forall>r \<in> set (records d). 0 < r_id r" and "0 < b"
  shows "\<exists>ts. backfill_sessions b sids d = (None, d\<lparr>turn_records := ts\<rparr>) \<and> archive_ok (d\<lparr>turn_records := ts\<rparr>)
    \<and> turns_filed (d\<lparr>turn_records := ts\<rparr>) \<and> t_request_id ` set (turn_records d) \<subseteq> t_request_id ` set ts
    \<and> (\<forall>r \<in> set (records d). session_id r \<in> set sids \<longrightarrow> request_id r \<in> t_request_id ` set ts)"
  using assms
proof (induction sids arbitrary: d)
  case Nil
  then show ?case by (intro exI [of _ "turn_records d"]) simp
next
  case (Cons sid sids)
  from backfillTurnSession_ok [OF Cons.prems, of sid] obtain ts where
    ts: "backfillTurnSession b sid d = (None, d\<lparr>turn_records := ts\<rparr>)" "archive_ok (d\<lparr>turn_records := ts\<rparr>)"
    "turns_filed (d\<lparr>turn_records := ts\<rparr>)" "t_request_id ` set (turn_records d) \<subseteq> t_request_id ` set ts"
    "\<forall>r \<in> set (records d). session_id r = sid \<longrightarrow> request_id r \<in> t_request_id ` set ts"
    by blast
  have pos: "\<forall>r \<in> set (records (d\<lparr>turn_records := ts\<rparr>)). 0 < r_id r" using Cons.prems(3) by simp
  from Cons.IH [OF ts(2,3) pos Cons.prems(4)] obtain us where
    us: "backfill_sessions b sids (d\<lparr>turn_records := ts\<rparr>) = (None, d\<lparr>turn_records := us\<rparr>)"
    "archive_ok (d\<lparr>turn_records := us\<rparr>)" "turns_filed (d\<lparr>turn_records := us\<rparr>)"
    "t_request_id ` set ts \<subseteq> t_request_id ` set us"
    "\<forall>r \<in> set (records d). session_id r \<in> set sids \<longrightarrow> request_id r \<in> t_request_id ` set us"
    by auto
  have "\<forall>r \<in> set (records d). session_id r \<in> set (sid # sids) \<longrightarrow> request_id r \<in> t_request_id ` set us"
    using ts(5) us(4,5) by (metis set_ConsD subsetD)
  moreover have "t_request_id ` set (turn_records d) \<subseteq> t_request_id ` set us" using ts(4) us(4) by (rule subset_trans)
  ultimately show ?case using ts(1) us(1-3) by (intro exI [of _ us]) simp
qed

section \<open>The facets are complete\<close>

definition project_facets :: "turn_row \<Rightarrow> turn_row" where
  "project_facets t = write_item (facet_item t) t"

lemma fi_id_item [simp]: "fi_id (facet_item t) = t_id t"
  by (simp add: facet_item_def split: prod.split)

lemma project_facets_simps [simp]: "t_id (project_facets t) = t_id t" "t_request_id (project_facets t) = t_request_id t"
  by (simp_all add: project_facets_def write_item_def)

lemma project_facets_done [simp]: "\<not> unprojected (project_facets t)"
  by (simp add: project_facets_def write_item_def facet_item_def unprojected_def compactTurnFacets_def)

lemma write_rows:
  assumes "distinct (map t_id ts)" and "set rows \<subseteq> set ts" and "distinct rows"
  shows "fold (\<lambda>x. map (write_item x)) (map facet_item rows) ts = map (\<lambda>t. if t \<in> set rows then project_facets t else t) ts"
proof -
  have eq: "t = u" if "t \<in> set ts" "u \<in> set ts" "t_id t = t_id u" for t u
    using that assms(1) by (auto simp: distinct_map dest: inj_onD)
  have "fold (\<lambda>x. map (write_item x)) (map facet_item us) (map (\<lambda>t. if t \<in> V then project_facets t else t) ts) =
      map (\<lambda>t. if t \<in> V \<union> set us then project_facets t else t) ts"
    if "set us \<subseteq> set ts" "distinct us" "V \<inter> set us = {}" for us V
    using that
  proof (induction us arbitrary: V)
    case (Cons u us)
    have step: "map (write_item (facet_item u)) (map (\<lambda>t. if t \<in> V then project_facets t else t) ts) =
        map (\<lambda>t. if t \<in> insert u V then project_facets t else t) ts"
      using Cons.prems eq by (auto simp: project_facets_def write_item_def)
    have "insert u V \<inter> set us = {}" "set us \<subseteq> set ts" "distinct us" using Cons.prems by auto
    from Cons.IH [OF this(2,3,1)] show ?case unfolding list.map fold_simps step by simp
  qed simp
  from this [of rows "{}"] assms(2,3) show ?thesis by simp
qed

lemma writes_through:
  assumes "\<exists>k<n. busy (a + k) = None \<and> (\<forall>j<k. isSQLiteBusy (busy (a + j)))"
  shows "write_attempts busy a n batch d = (None, tryWriteTurnFacetProjectionBatch batch d)"
  using assms
proof (induction n arbitrary: a)
  case (Suc n)
  then obtain k where k: "k < Suc n" "busy (a + k) = None" "\<forall>j<k. isSQLiteBusy (busy (a + j))" by blast
  show ?case
  proof (cases k)
    case 0
    with k show ?thesis by simp
  next
    case (Suc m)
    with k(3) obtain e where e: "busy a = Some e" "isSQLiteBusy (Some e)"
      by (cases "busy a") (auto simp: isSQLiteBusy_def)
    have "\<exists>k<n. busy (Suc a + k) = None \<and> (\<forall>j<k. isSQLiteBusy (busy (Suc a + j)))"
      using k Suc by (intro exI [of _ m]) auto
    with Suc.IH e k Suc show ?thesis by auto
  qed
qed simp

text \<open>A batch takes the largest ids: what is left has smaller ones.\<close>

lemma facet_batch_rest:
  assumes "distinct (map t_id (turn_records d))" and "t \<in> set (turn_records d)" and "unprojected t" and "t_id t < k"
    and "t \<notin> set (facet_batch b k d)" and "facet_batch b k d \<noteq> []"
  shows "t_id t < t_id (last (facet_batch b k d))"
proof -
  let ?xs = "rev (sort_key t_id (filter (\<lambda>t. t_id t < k \<and> unprojected t) (turn_records d)))"
  have split: "?xs = facet_batch b k d @ drop b ?xs" by (simp add: facet_batch_def)
  have "sorted_wrt (\<lambda>x y. t_id y \<le> t_id x) ?xs" using sorted_sort_key [of t_id] by (simp add: sorted_wrt_rev sorted_wrt_map)
  then have sorted: "\<forall>x \<in> set (facet_batch b k d). \<forall>y \<in> set (drop b ?xs). t_id y \<le> t_id x"
    by (subst (asm) split) (drule sorted_wrt_append [THEN iffD1], elim conjE)
  have "t \<in> set ?xs" using assms(2-4) by simp
  then have "t \<in> set (drop b ?xs)" using assms(5) by (subst (asm) split) (simp only: set_append Un_iff simp_thms)
  then have le: "t_id t \<le> t_id (last (facet_batch b k d))" using assms(6) sorted by simp
  have l: "last (facet_batch b k d) \<in> set (turn_records d)"
    using last_in_set [OF assms(6)] by (auto simp: facet_batch_def dest!: in_set_takeD)
  have "t_id t \<noteq> t_id (last (facet_batch b k d))"
  proof
    assume "t_id t = t_id (last (facet_batch b k d))"
    then have "t = last (facet_batch b k d)" using assms(1,2) l by (auto simp: distinct_map dest: inj_onD)
    with assms(5,6) show False by simp
  qed
  with le show ?thesis by simp
qed

lemma facet_loop_all:
  assumes "\<forall>i. \<exists>k<30. busy i k = None \<and> (\<forall>j<k. isSQLiteBusy (busy i j))" and "0 < b" and "distinct (map t_id (turn_records d))"
  shows "facet_loop busy i b k d =
    (None, d\<lparr>turn_records := map (\<lambda>t. if unprojected t \<and> t_id t < k then project_facets t else t) (turn_records d)\<rparr>)"
  using assms
proof (induction busy i b k d rule: facet_loop.induct)
  case (1 busy i b k d)
  let ?rows = "facet_batch b k d"
  let ?P = "\<lambda>j t. if unprojected t \<and> t_id t < j then project_facets t else t"
  have mem: "t \<in> set ?rows \<Longrightarrow> t \<in> set (turn_records d) \<and> unprojected t \<and> t_id t < k" for t
    by (auto simp: facet_batch_def dest!: in_set_takeD)
  show ?case
  proof (cases "?rows = []")
    case True
    then have "set (sort_key t_id (filter (\<lambda>t. t_id t < k \<and> unprojected t) (turn_records d))) = {}"
      using "1.prems"(2) by (simp add: facet_batch_def del: set_sort)
    then have "\<forall>t \<in> set (turn_records d). \<not> (unprojected t \<and> t_id t < k)" by auto
    then have "map (?P k) (turn_records d) = turn_records d" by (intro map_idI) auto
    with True show ?thesis by (simp add: facet_loop.simps [of busy])
  next
    case False
    have "distinct (sort_key t_id (filter (\<lambda>t. t_id t < k \<and> unprojected t) (turn_records d)))"
      using "1.prems"(3) by (simp add: distinct_map)
    then have "distinct ?rows" by (simp add: facet_batch_def distinct_take)
    then have w: "turn_records (tryWriteTurnFacetProjectionBatch (map facet_item ?rows) d) =
        map (\<lambda>t. if t \<in> set ?rows then project_facets t else t) (turn_records d)"
      using write_rows [OF "1.prems"(3), of ?rows] mem by (auto simp: tryWriteTurnFacetProjectionBatch_def)
    define d1 where "d1 = tryWriteTurnFacetProjectionBatch (map facet_item ?rows) d"
    have run: "writeTurnFacetProjectionBatch (busy i) (map facet_item ?rows) d = (None, d1)"
      unfolding writeTurnFacetProjectionBatch_def d1_def using "1.prems"(1) by (intro writes_through) simp
    have "distinct (map t_id (turn_records d1))" using "1.prems"(3) by (simp add: d1_def map_t_id_write)
    with "1.IH" [OF refl False run [symmetric]] "1.prems"(1,2)
    have rest: "facet_loop busy (Suc i) b (t_id (last ?rows)) d1 =
        (None, d1\<lparr>turn_records := map (?P (t_id (last ?rows))) (turn_records d1)\<rparr>)"
      by simp
    have "?P (t_id (last ?rows)) (if t \<in> set ?rows then project_facets t else t) = ?P k t" if "t \<in> set (turn_records d)" for t
      using facet_batch_rest [OF "1.prems"(3) that _ _ _ False] mem [of t] mem [OF last_in_set [OF False]] by auto
    then have "map (?P (t_id (last ?rows))) (turn_records d1) = map (?P k) (turn_records d)" by (simp add: d1_def w)
    moreover have "d1\<lparr>turn_records := us\<rparr> = d\<lparr>turn_records := us\<rparr>" for us
      by (simp add: d1_def tryWriteTurnFacetProjectionBatch_def)
    ultimately show ?thesis using False run rest by (simp add: facet_loop.simps [of busy i])
  qed
qed

lemma turn_ids_distinct:
  assumes "archive_ok d"
  shows "distinct (map t_id (turn_records d))"
proof -
  have ids: "distinct (map fst (row_ids d))" "distinct (map snd (turn_ids d))" "set (turn_ids d) \<subseteq> set (row_ids d)"
    using assms by (simp_all add: archive_ok_ids)
  have "inj_on fst (set (turn_ids d))" using ids(1,3) by (auto simp: distinct_map intro: inj_on_subset)
  then have "distinct (map fst (turn_ids d))" using ids(2) by (simp add: distinct_map)
  then show ?thesis by (simp add: turn_ids_def comp_def)
qed

lemma turn_projection_run:
  assumes "archive_ok d" and "turns_filed d" and "\<forall>r \<in> set (records d). 0 < r_id r \<and> r_id r < 2 ^ 63 - 1"
    and "\<forall>i. \<exists>k<30. busy i k = None \<and> (\<forall>j<k. isSQLiteBusy (busy i j))"
  shows "\<exists>d1 d2. BackfillTurnProjection m d = (None, d1) \<and> BackfillTurnFacetProjection busy n d1 = (None, d2)
    \<and> archive_ok d2 \<and> d2 = d\<lparr>turn_records := turn_records d2\<rparr> \<and> (\<forall>t \<in> set (turn_records d2). \<not> unprojected t)
    \<and> (\<forall>r \<in> set (records d). session_id r \<in> ss_session_id ` set (session_summaries d) \<longrightarrow>
         request_id r \<in> t_request_id ` set (turn_records d2))
    \<and> turn_records d2 = map (\<lambda>t. if unprojected t then project_facets t else t) (turn_records d1)"
proof -
  have pos: "\<forall>r \<in> set (records d). 0 < r_id r" "0 < batch_size_or m" "0 < batch_size_or n"
    using assms(3) by (simp_all add: batch_size_or_def)
  let ?sids = "map ss_session_id (rev (sort_key ss_last_at (session_summaries d)))"
  from backfill_sessions_ok [OF assms(1,2) pos(1,2), of ?sids] obtain ts where
    ts: "BackfillTurnProjection m d = (None, d\<lparr>turn_records := ts\<rparr>)" "archive_ok (d\<lparr>turn_records := ts\<rparr>)"
    "\<forall>r \<in> set (records d). session_id r \<in> set ?sids \<longrightarrow> request_id r \<in> t_request_id ` set ts"
    unfolding BackfillTurnProjection_def by blast
  let ?d1 = "d\<lparr>turn_records := ts\<rparr>"
  let ?us = "map (\<lambda>t. if unprojected t then project_facets t else t) ts"
  have "t_id t < 2 ^ 63 - 1" if "t \<in> set ts" for t
  proof -
    have "(t_id t, t_request_id t) \<in> set (row_ids d)"
      using ts(2) that by (auto simp: archive_ok_ids turn_ids_def row_ids_def)
    with assms(3) show ?thesis by (auto simp: row_ids_def)
  qed
  then have "map (\<lambda>t. if unprojected t \<and> t_id t < 2 ^ 63 - 1 then project_facets t else t) ts = ?us"
    by (intro map_cong) auto
  then have run: "BackfillTurnFacetProjection busy n ?d1 = (None, d\<lparr>turn_records := ?us\<rparr>)"
    unfolding BackfillTurnFacetProjection_def
    using facet_loop_all [OF assms(4) pos(3) turn_ids_distinct [OF ts(2)], of 0 "2 ^ 63 - 1"] by simp
  have "keeps_ids ?d1 (d\<lparr>turn_records := ?us\<rparr>)"
    by (auto simp: keeps_ids_def row_ids_def turn_ids_def)
  moreover have "grows ?d1 (d\<lparr>turn_records := ?us\<rparr>)" by (rule grows_same) simp_all
  ultimately have "archive_ok (d\<lparr>turn_records := ?us\<rparr>)" using archive_ok_keeps [OF ts(2)] by blast
  moreover have "t_request_id ` set ?us = t_request_id ` set ts"
  proof -
    have "map t_request_id ?us = map t_request_id ts" by simp
    then show ?thesis by (metis set_map)
  qed
  moreover have "set ?sids = ss_session_id ` set (session_summaries d)" by simp
  ultimately show ?thesis
    using ts(1,3) run by (intro exI [of _ ?d1] exI [of _ "d\<lparr>turn_records := ?us\<rparr>"]) auto
qed

text \<open>
  C33. The turn projection is completed. On a well-formed archive whose projected rows are filed with their records, whatever the
  batch sizes and as long as SQLite is not busy thirty times in a row, both backfills return without error;
  afterwards every record of a listed session has its projected row, no row is without its facets, the archive is well
  formed and nothing but the projection changed.
\<close>

theorem turn_projection_complete:
  assumes "archive_ok d" and "turns_filed d" and "\<forall>r \<in> set (records d). 0 < r_id r \<and> r_id r < 2 ^ 63 - 1"
    and "\<forall>i. \<exists>k<30. busy i k = None \<and> (\<forall>j<k. isSQLiteBusy (busy i j))"
  shows "\<exists>d1 d2. BackfillTurnProjection m d = (None, d1) \<and> BackfillTurnFacetProjection busy n d1 = (None, d2)
    \<and> archive_ok d2 \<and> d2 = d\<lparr>turn_records := turn_records d2\<rparr> \<and> (\<forall>t \<in> set (turn_records d2). \<not> unprojected t)
    \<and> (\<forall>r \<in> set (records d). session_id r \<in> ss_session_id ` set (session_summaries d) \<longrightarrow>
         request_id r \<in> t_request_id ` set (turn_records d2))
    \<and> turn_records d2 = map (\<lambda>t. if unprojected t then project_facets t else t) (turn_records d1)"
  using assms by (rule turn_projection_run)

section \<open>Rows stay filed with their records\<close>

lemma turns_filed_cong: "records d' = records d \<Longrightarrow> turn_records d' = turn_records d \<Longrightarrow> turns_filed d' = turns_filed d"
  by (simp add: turns_filed_def)

lemma upsert_record_filed:
  assumes "archive_ok d" and "turns_filed d" and "\<And>r. request_id (m r) = request_id r \<and> session_id (m r) = session_id r"
  shows "turns_filed (upsert_record m row d)"
proof (cases "request_id row \<in> request_id ` set (records d)")
  case True
  then have "records (upsert_record m row d) = map (\<lambda>r. if request_id r = request_id row then m r else r) (records d)"
    by (simp add: upsert_record_def update_records_fires row_simps)
  with assms(2,3) show ?thesis by (auto simp: turns_filed_def upsert_record_keeps split: if_splits)
next
  case False
  then have rows: "records (upsert_record m row d) = records d @ [row\<lparr>r_id := next_id (records d)\<rparr>]"
    by (simp add: upsert_record_def insert_record_fires row_simps del: fires_simps)
  have "t_request_id t \<noteq> request_id row" if "t \<in> set (turn_records d)" for t
  proof -
    have "(t_id t, t_request_id t) \<in> set (row_ids d)" using assms(1) that by (auto simp: archive_ok_ids turn_ids_def)
    then have "t_request_id t \<in> request_id ` set (records d)" by (auto simp: row_ids_def)
    with False show ?thesis by metis
  qed
  with assms(2) show ?thesis by (fastforce simp: turns_filed_def upsert_record_keeps rows)
qed

lemma put_turn_filed:
  assumes "archive_ok d" and "turns_filed d" and "put_turn rq tf d = Inr d'"
  shows "turns_filed d'"
proof (cases "find (\<lambda>r. request_id r = rq) (records d)")
  case None
  with assms show ?thesis by (simp add: put_turn_def)
next
  case (Some r)
  then have r: "r \<in> set (records d)" "request_id r = rq" by (auto simp: find_Some_iff)
  have d': "d' = d\<lparr>turn_records := upsert t_request_id (\<lambda>t. (turn_of r tf)\<lparr>t_id := t_id t\<rparr>) (turn_of r tf) (turn_records d)\<rparr>"
    using assms(3) Some by (simp add: put_turn_def split: if_splits)
  have same: "x = r" if "x \<in> set (records d)" "request_id x = rq" for x
    using that r assms(1) by (auto simp: archive_ok_ids row_ids_def comp_def distinct_map dest: inj_onD)
  have new: "t_request_id (turn_of r tf) = rq" "t_session_id (turn_of r tf) = session_id r" using r by (simp_all add: turn_of_def)
  show ?thesis
    unfolding turns_filed_def
  proof (intro ballI impI)
    fix u x assume u: "u \<in> set (turn_records d')" and x: "x \<in> set (records d')" "request_id x = t_request_id u"
    from u have "u \<in> set (turn_records d) \<or> t_request_id u = rq \<and> t_session_id u = session_id r"
      using new by (auto simp: d' upsert_def split: if_splits)
    then show "t_session_id u = session_id x"
      using assms(2) same [of x] x by (auto simp: turns_filed_def d')
  qed
qed

lemma put_record_filed:
  assumes "archive_ok d" and "turns_filed d" and "put_record sprint up idx r0 d = Inr d'"
  shows "turns_filed d'"
proof -
  obtain r bs row where p: "r = resolveIdentity sprint idx r0" "request_id row = RequestID r" "session_id row = SessionID r"
    "put_record sprint up idx r0 d =
      bind_res (put_turn (RequestID r) (compactTurnFacets (Facets r))
        (upsert_record (merge_record row) row (d\<lparr>blobs := bs\<rparr>)))
        (\<lambda>d5. Inr (indexSessionRecord r (put_record_facets (RequestID r) (Facets r) d5)))"
    "\<forall>h x. loadBlob d h = Inr x \<longrightarrow> loadBlob (d\<lparr>blobs := bs\<rparr>) h = Inr x"
    by (rule put_record_parts [of sprint idx r0 up d])
  let ?d1 = "d\<lparr>blobs := bs\<rparr>"
  let ?d4 = "upsert_record (merge_record row) row ?d1"
  from assms(3) p(4) obtain d5 where d5: "put_turn (RequestID r) (compactTurnFacets (Facets r)) ?d4 = Inr d5"
    "d' = indexSessionRecord r (put_record_facets (RequestID r) (Facets r) d5)"
    by (auto simp: bind_res_Inr_iff)
  have ok1: "archive_ok ?d1" using assms(1) by (rule archive_ok_cong) simp_all
  have "turns_filed ?d1 = turns_filed d" by (rule turns_filed_cong) simp_all
  with assms(2) have "turns_filed ?d1" by (rule iffD2 [rotated])
  with ok1 have f4: "turns_filed ?d4" by (rule upsert_record_filed) (simp only: merge_record_keys simp_thms)
  have "archive_ok ?d4" using ok1 by (rule archive_ok_upsert) (rule merge_record_keys)
  then have "turns_filed d5" using f4 d5(1) by (rule put_turn_filed)
  moreover have "turns_filed d' = turns_filed d5"
    unfolding d5(2) by (rule turns_filed_cong) (simp_all add: row_simps put_record_facets_def)
  ultimately show ?thesis by (rule iffD2 [rotated])
qed

lemma PutBatch_filed:
  assumes "archive_ok d" and "turns_filed d" and "PutBatch sprint up batch d = Inr d'"
  shows "turns_filed d'"
proof -
  have "turns_filed d'" if "foldM_res (put_record sprint up idx) rs d = Inr d'" "archive_ok d" "turns_filed d" for idx rs d
    using that
  proof (induction rs arbitrary: d)
    case (Cons r rs)
    then obtain d1 where d1: "put_record sprint up idx r d = Inr d1" "foldM_res (put_record sprint up idx) rs d1 = Inr d'"
      by (auto simp: bind_res_Inr_iff)
    moreover have "archive_ok d1" using put_record_ok [OF Cons.prems(2), of sprint up idx r] d1(1) by auto
    moreover have "turns_filed d1" using Cons.prems(2,3) d1(1) by (rule put_record_filed)
    ultimately show ?case using Cons.IH by blast
  qed simp
  with assms show ?thesis unfolding PutBatch_def by blast
qed

section \<open>What the copies do to the rest of the archive\<close>

lemma project_one_grows: "project_one r d = Inr d' \<Longrightarrow> grows d d'"
  by (auto simp: project_one_def split: if_splits intro!: grows_same)

interpretation projection: growing_op project_one
  by unfold_locales (rule project_one_grows)

lemma write_facets_grows: "grows d (tryWriteTurnFacetProjectionBatch batch d)"
  by (rule grows_same) (simp_all add: tryWriteTurnFacetProjectionBatch_def)

text \<open>A copied row has neither principal nor credential, whatever its record has.\<close>

lemma projected_row_anonymous: "t_principal_id (projected_row r) = [] \<and> t_credential_hash (projected_row r) = []"
  by (simp add: projected_row_def)

section \<open>Witness\<close>

theorem turn_projection_complete_witness:
  "\<exists>d1 d2. BackfillTurnProjection 64 misfiled = (None, d1) \<and> BackfillTurnFacetProjection (\<lambda>_ _. None) 64 d1 = (None, d2)
    \<and> ''q'' \<in> t_request_id ` set (turn_records d2) \<and> turn_records misfiled = []"
proof -
  have f: "turns_filed misfiled" and e: "turn_records misfiled = []"
    by (simp_all add: turns_filed_def misfiled_def empty_db_def)
  have p: "\<forall>r \<in> set (records misfiled). 0 < r_id r \<and> r_id r < 2 ^ 63 - 1" by (simp add: misfiled_def blank_row_def)
  have b: "\<forall>i::nat. \<exists>k<30::nat. (\<lambda>_ _. None :: string option) i k = None \<and> (\<forall>j<k. isSQLiteBusy ((\<lambda>_ _. None) i j))"
    by (auto intro: exI [of _ 0])
  have r: "\<exists>r \<in> set (records misfiled). request_id r = ''q'' \<and> session_id r \<in> ss_session_id ` set (session_summaries misfiled)"
    by (simp add: misfiled_def blank_row_def blank_record_def)
  from turn_projection_complete [OF misfiled_ok f p b, of 64 64] obtain d1 d2 where
    d: "BackfillTurnProjection 64 misfiled = (None, d1)" "BackfillTurnFacetProjection (\<lambda>_ _. None) 64 d1 = (None, d2)"
    "\<forall>r \<in> set (records misfiled). session_id r \<in> ss_session_id ` set (session_summaries misfiled) \<longrightarrow>
       request_id r \<in> t_request_id ` set (turn_records d2)"
    by (elim exE conjE)
  from r obtain x where x: "x \<in> set (records misfiled)" "request_id x = ''q''"
    "session_id x \<in> ss_session_id ` set (session_summaries misfiled)"
    by (elim bexE conjE)
  have "''q'' \<in> t_request_id ` set (turn_records d2)" using bspec [OF d(3) x(1)] x(2,3) by (simp only: simp_thms)
  then show ?thesis by (intro exI [of _ d1] exI [of _ d2] conjI d(1,2) e)
qed

end
