(* ===== verification/Snapshot_Digests.thy ===== *)
theory Snapshot_Digests
  imports Snapshot_Pages Turn_Projection
begin

text \<open>
  The digests of a snapshot are true: however the operations of the archive, the reads and the delayed writes of the digest
  projection and the garbage collector interleave, every live session a snapshot lists can be exported from it,
  and the export has the listed digest. And an incremental snapshot is enough: applied to an earlier full snapshot it
  gives the full snapshot of the present.
\<close>

section \<open>What an export depends on\<close>

definition stable_line :: "nat \<Rightarrow> db \<Rightarrow> rec_row \<Rightarrow> string result" where
  "stable_line n d r = bind_res (load_row n False d r) (\<lambda>(x, facets). Inr (Encode (stableTrainingRecord x facets)))"

lemma stable_alias:
  "stableTrainingRecord ((scan_row d r)\<lparr>OriginalRequest := a, UpstreamRequest := b, Response := c\<rparr>) f =
    stableTrainingRecord ((scan_row d' r)\<lparr>OriginalRequest := a, UpstreamRequest := b, Response := c\<rparr>) f"
  by (simp add: stableTrainingRecord_def scan_row_def)

lemma column_payload_evolves:
  assumes "\<forall>x. ref \<noteq> [] \<longrightarrow> LoadPayload n d ref = Inr x \<longrightarrow> LoadPayload n d' ref = Inr x"
    and "column_payload n d ref old = Inr y"
  shows "column_payload n d' ref old = Inr y"
  using assms by (simp add: column_payload_def split: if_splits)

lemma stable_line_evolves:
  assumes "evolves n d d'" and "r \<in> set (records d)" and "stable_line n d r = Inr l"
  shows "stable_line n d' r = Inr l"
proof -
  have keep: "\<forall>x. ref \<noteq> [] \<longrightarrow> LoadPayload n d ref = Inr x \<longrightarrow> LoadPayload n d' ref = Inr x"
    if "ref \<in> {original_ref r, upstream_ref r, response_ref r}" for ref
    using assms(1,2) that by (auto simp: evolves_def)
  from assms(3) obtain a u b where
    a: "column_payload n d (original_ref r) (original_request_gz r) = Inr a"
    and u: "(if upstream_ref r \<noteq> [] then LoadPayload n d (upstream_ref r)
      else Inr (if False then gunzipBytes (upstream_request_gz r) else [])) = Inr u"
    and b: "column_payload n d (response_ref r) (response_gz r) = Inr b"
    and l: "l = Encode (stableTrainingRecord ((scan_row d r)\<lparr>OriginalRequest := a, UpstreamRequest := u, Response := b\<rparr>)
      (facets_value (facets_json r)))"
    by (auto simp: stable_line_def load_row_def bind_res_Inr_iff)
  have "column_payload n d' (original_ref r) (original_request_gz r) = Inr a"
    "column_payload n d' (response_ref r) (response_gz r) = Inr b"
    using column_payload_evolves [OF keep a] column_payload_evolves [OF keep b] by simp_all
  moreover have "(if upstream_ref r \<noteq> [] then LoadPayload n d' (upstream_ref r)
      else Inr (if False then gunzipBytes (upstream_request_gz r) else [])) = Inr u"
    using u keep [of "upstream_ref r"] by (auto split: if_splits)
  ultimately show ?thesis
    unfolding stable_line_def load_row_def l stable_alias [where d = d and d' = d'] by simp
qed

lemma sort_map_request: "sort (map request_id rs) = map request_id (sort_key request_id rs)"
proof (induction rs)
  case (Cons r rs)
  have "map request_id (insort_key request_id r xs) = insort (request_id r) (map request_id xs)" for xs
    by (induction xs) auto
  with Cons show ?case by simp
qed simp

lemma export_lines:
  assumes "unique_requests d"
  shows "exportStableSessionJSONL n d sid =
    bind_res (map_res (stable_line n d) (sort_key request_id (session_rows d sid))) (\<lambda>ls. Inr (concat ls))"
proof -
  have "map_res (\<lambda>rq. bind_res (requestWithQuery n False d rq) (\<lambda>(x, facets). Inr (Encode (stableTrainingRecord x facets))))
      (map request_id rs) = map_res (stable_line n d) rs" if "set rs \<subseteq> set (records d)" for rs
    using that assms
    by (induction rs) (auto simp: requestWithQuery_def find_record_row unique_requests_def stable_line_def)
  from this [of "sort_key request_id (session_rows d sid)"]
  show ?thesis
    by (simp add: exportStableSessionJSONL_def session_rows_def sort_map_request)
qed

section \<open>A session nobody touched\<close>

lemma fold_max_ge: "x \<in> set xs \<Longrightarrow> x \<le> fold max xs (a::'b::linorder)" "a \<le> fold max xs a"
proof -
  have ge: "a \<le> fold max xs a" for xs and a :: 'b
    by (induction xs arbitrary: a) (auto intro: order_trans [OF max.cobounded2])
  then show "a \<le> fold max xs a" .
  show "x \<in> set xs \<Longrightarrow> x \<le> fold max xs a"
    by (induction xs arbitrary: a) (auto intro: order_trans [OF max.cobounded1 ge])
qed

lemma fold_max_le_all: "(\<And>x. x \<in> set xs \<Longrightarrow> x \<le> b) \<Longrightarrow> a \<le> b \<Longrightarrow> fold max xs a \<le> (b::'b::linorder)"
  by (induction xs arbitrary: a) auto

definition log_fence :: "db \<Rightarrow> string \<Rightarrow> nat" where
  "log_fence d sid = fold max (map ev_sequence (filter (mentions sid) (ingest_events d))) 0"

lemma session_fence_log: "log_ok d \<Longrightarrow> session_fence d (ingest_clock d) sid = log_fence d sid"
  unfolding session_fence_def log_fence_def session_events_def
  by (rule arg_cong [where f = "\<lambda>es. fold max (map ev_sequence es) 0"]) (auto simp: log_ok_def intro: filter_cong)

lemma log_fence_le: "log_ok d \<Longrightarrow> log_fence d sid \<le> ingest_clock d"
  unfolding log_fence_def by (rule fold_max_le_all) (auto simp: log_ok_def)

text \<open>When the last event of a session is not later than the clock before a transition, the session did not change in it.\<close>

lemma untouched:
  assumes "logged d d'" and "log_ok d" and "log_fence d' sid \<le> ingest_clock d"
  shows "set (session_rows d' sid) = set (session_rows d sid)" and "log_fence d' sid = log_fence d sid"
proof -
  from assms(1) obtain new where new: "ingest_events d' = ingest_events d @ new"
    "\<forall>e \<in> set new. ingest_clock d < ev_sequence e"
    "\<forall>r \<in> set (records d') - set (records d). \<exists>e \<in> set new. ev_request_id e = request_id r \<and> ev_session_id e = session_id r"
    "\<forall>r \<in> set (records d) - set (records d'). \<exists>e \<in> set new. ev_request_id e = request_id r \<and>
       (ev_session_id e = session_id r \<or> ev_previous_session_id e = session_id r)"
    unfolding logged_def by blast
  have none: "\<not> mentions sid e" if "e \<in> set new" for e
  proof
    assume "mentions sid e"
    then have "ev_sequence e \<le> log_fence d' sid"
      unfolding log_fence_def using that by (intro fold_max_ge(1)) (auto simp: new(1))
    with new(2) that assms(3) show False by fastforce
  qed
  have "r \<in> set (records d') \<longleftrightarrow> r \<in> set (records d)" if "session_id r = sid" for r
  proof -
    have "\<not> (r \<in> set (records d') - set (records d))" "\<not> (r \<in> set (records d) - set (records d'))"
      using new(3,4) none that unfolding mentions_def by blast+
    then show ?thesis by blast
  qed
  then show "set (session_rows d' sid) = set (session_rows d sid)" by (auto simp: session_rows_def)
  have "filter (mentions sid) new = []" using none by (simp add: filter_empty_conv)
  then show "log_fence d' sid = log_fence d sid" by (simp add: log_fence_def new(1))
qed

lemma same_rows_sorted:
  assumes "unique_requests d" and "unique_requests d'" and "set (session_rows d' sid) = set (session_rows d sid)"
  shows "sort_key request_id (session_rows d' sid) = sort_key request_id (session_rows d sid)"
proof -
  have dist: "distinct (map request_id (session_rows e sid))" if "unique_requests e" for e
    using that by (simp add: unique_requests_def session_rows_def distinct_map_filter)
  have "map request_id (sort_key request_id (session_rows d' sid)) = map request_id (sort_key request_id (session_rows d sid))"
  proof (rule sorted_distinct_set_unique)
    show "distinct (map request_id (sort_key request_id (session_rows d' sid)))"
      "distinct (map request_id (sort_key request_id (session_rows d sid)))"
      using dist [OF assms(1)] dist [OF assms(2)] by (simp_all flip: sort_map_request)
  qed (use assms(3) in auto)
  moreover have "inj_on request_id (set (session_rows d sid))" using dist [OF assms(1)] by (simp add: distinct_map)
  ultimately show ?thesis using assms(3) by (auto intro: map_inj_on)
qed

lemma export_evolves:
  assumes "evolves n d d'" and "unique_requests d" and "set (session_rows d' sid) = set (session_rows d sid)"
    and "exportStableSessionJSONL n d sid = Inr out"
  shows "exportStableSessionJSONL n d' sid = Inr out"
proof -
  have u': "unique_requests d'" using assms(1,2) by (simp add: evolves_def)
  from assms(4) obtain ls where ls: "map_res (stable_line n d) (sort_key request_id (session_rows d sid)) = Inr ls"
    and out: "out = concat ls"
    by (auto simp: export_lines [OF assms(2)] bind_res_Inr_iff)
  have "map_res (stable_line n d') (sort_key request_id (session_rows d sid)) = Inr ls"
    using ls by (rule map_res_mono [rotated]) (auto intro: stable_line_evolves [OF assms(1)] simp: session_rows_def)
  then show ?thesis
    unfolding export_lines [OF u'] same_rows_sorted [OF assms(2) u' assms(3)] by (simp add: out)
qed

section \<open>True digests\<close>

text \<open>A digest row that claims to be current covers the export of its session.\<close>

definition digest_true :: "nat \<Rightarrow> db \<Rightarrow> digest_row \<Rightarrow> bool" where
  "digest_true n d g \<longleftrightarrow>
    dg_max_ingest_sequence g \<le> ingest_clock d \<and>
    (session_rows d (dg_session_id g) \<noteq> [] \<longrightarrow> log_fence d (dg_session_id g) = dg_max_ingest_sequence g \<longrightarrow>
      (\<exists>out. exportStableSessionJSONL n d (dg_session_id g) = Inr out \<and> dg_records_sha256 g = sha256_hex out))"

lemma digest_true_evolves:
  assumes "evolves n d d'" and "log_ok d" and "unique_requests d" and "digest_true n d g"
  shows "digest_true n d' g"
proof -
  have l: "logged d d'" and c: "ingest_clock d \<le> ingest_clock d'" using assms(1) by (auto simp: evolves_def logged_def)
  have "\<exists>out. exportStableSessionJSONL n d' (dg_session_id g) = Inr out \<and> dg_records_sha256 g = sha256_hex out"
    if rows: "session_rows d' (dg_session_id g) \<noteq> []" and f: "log_fence d' (dg_session_id g) = dg_max_ingest_sequence g"
  proof -
    have "log_fence d' (dg_session_id g) \<le> ingest_clock d" using f assms(4) by (simp add: digest_true_def)
    note same = untouched [OF l assms(2) this]
    have "session_rows d (dg_session_id g) \<noteq> []" using rows same(1) by (metis set_empty)
    with assms(4) f same(2) obtain out where "exportStableSessionJSONL n d (dg_session_id g) = Inr out"
      "dg_records_sha256 g = sha256_hex out" by (auto simp: digest_true_def)
    with export_evolves [OF assms(1,3) same(1)] show ?thesis by blast
  qed
  with assms(4) c show ?thesis by (auto simp: digest_true_def)
qed

section \<open>The archive as a transition system\<close>

text \<open>
  The operations on the database in any order. The repairs and the backfills of the turn projection appear with their single
  transactions, on any work list, so that any operation can come between two of them. A digest refresh is two steps, so that any operation can come between the
  read and the write; the second component holds the results read but not yet written.
\<close>

inductive archive_step :: "nat \<Rightarrow> db \<times> digest_work list \<Rightarrow> db \<times> digest_work list \<Rightarrow> bool" for n where
  batch: "PutBatch sprint up b d = Inr d' \<Longrightarrow> archive_step n (d, ws) (d', ws)"
| principals: "ApplyCredentialPrincipals now ms d = Inr d' \<Longrightarrow> archive_step n (d, ws) (d', ws)"
| collect: "GC d = Inr (k, d') \<Longrightarrow> archive_step n (d, ws) (d', ws)"
| migrate: "MigrateLegacy up d = (e, d') \<Longrightarrow> archive_step n (d, ws) (d', ws)"
| backfill: "BackfillSessionIndex d = (e, d') \<Longrightarrow> archive_step n (d, ws) (d', ws)"
| canonical: "canonical_tx xs d = Inr d' \<Longrightarrow> archive_step n (d, ws) (d', ws)"
| normalize: "foldM_res normalize_one qs d = Inr d' \<Longrightarrow> archive_step n (d, ws) (d', ws)"
| preview: "foldM_res (preview_one lib m) items d = Inr d' \<Longrightarrow> archive_step n (d, ws) (d', ws)"
| resummarize: "resummarize_one lib m item d = Inr d' \<Longrightarrow> archive_step n (d, ws) (d', ws)"
| project: "foldM_res project_one rs d = Inr d' \<Longrightarrow> archive_step n (d, ws) (d', ws)"
| facets: "archive_step n (d, ws) (tryWriteTurnFacetProjectionBatch fs d, ws)"
| mark: "archive_step n (d, ws) (set_version name v d, ws)"
| digest_read: "refresh_read n d sid = Inr w \<Longrightarrow> archive_step n (d, ws) (d, w # ws)"
| digest_write: "w \<in> set ws \<Longrightarrow> archive_step n (d, ws) (refresh_write w d, remove1 w ws)"

inductive_cases archive_stepE: "archive_step n (d, ws) (d', ws')"

definition digests_inv :: "nat \<Rightarrow> db \<times> digest_work list \<Rightarrow> bool" where
  "digests_inv n s \<longleftrightarrow>
    log_ok (fst s) \<and> unique_requests (fst s) \<and> (\<forall>g \<in> set (export_digests (fst s)). digest_true n (fst s) g)
    \<and> (\<forall>g. StoreDigest g \<in> set (snd s) \<longrightarrow> digest_true n (fst s) g)"

lemma refresh_write_eq: "\<exists>gs. refresh_write w d = d\<lparr>export_digests := gs\<rparr> \<and>
    (\<forall>g \<in> set gs. g \<in> set (export_digests d) \<or> w = StoreDigest g)"
proof (cases w)
  case (DropDigest sid)
  then show ?thesis
    by (cases "session_rows d sid = []") (auto simp: refresh_write_def intro: exI [of _ "export_digests d"])
next
  case (StoreDigest g)
  have "\<forall>x \<in> set (upsert dg_session_id (\<lambda>_. g) g (export_digests d)). x \<in> set (export_digests d) \<or> x = g"
    by (auto simp: upsert_def split: if_splits)
  with StoreDigest show ?thesis
    by (cases "fold max (map ev_sequence (filter (mentions (dg_session_id g)) (ingest_events d))) 0 = dg_max_ingest_sequence g")
      (auto simp: refresh_write_def intro: exI [of _ "export_digests d"])
qed

lemma export_digests_irrelevant:
  "exportStableSessionJSONL n (d\<lparr>export_digests := gs\<rparr>) sid = exportStableSessionJSONL n d sid"
proof -
  have "loadBlob (d\<lparr>export_digests := gs\<rparr>) = loadBlob d" by (intro ext loadBlob_blobs) simp
  then have "LoadPayload n (d\<lparr>export_digests := gs\<rparr>) h = LoadPayload n d h" for h by (simp add: LoadPayload_def)
  then have "requestWithQuery n False (d\<lparr>export_digests := gs\<rparr>) rq = requestWithQuery n False d rq" for rq
    by (simp add: requestWithQuery_def find_record_def load_row_def column_payload_def scan_row_def alias_of_def
        split: option.split)
  then show ?thesis by (simp add: exportStableSessionJSONL_def session_rows_def)
qed

lemma digest_true_digests: "digest_true n (d\<lparr>export_digests := gs\<rparr>) g = digest_true n d g"
  by (simp add: digest_true_def session_rows_def log_fence_def export_digests_irrelevant)

lemma archive_step_cases:
  assumes "archive_step n s s'"
  shows "(evolves n (fst s) (fst s') \<and> snd s' = snd s)
    \<or> (\<exists>sid w. refresh_read n (fst s) sid = Inr w \<and> s' = (fst s, w # snd s))
    \<or> (\<exists>w \<in> set (snd s). s' = (refresh_write w (fst s), remove1 w (snd s)))"
  using assms
proof cases
  case (migrate up d e d' ws)
  then show ?thesis using MigrateLegacy_grows [of d up] by (simp add: grows_evolves)
next
  case (backfill d e d' ws)
  then show ?thesis using BackfillSessionIndex_grows [of d] by (simp add: grows_evolves)
qed (auto intro: grows_evolves PutBatch_grows ApplyCredentialPrincipals_grows GC_evolves canonical_tx_grows
    normalization.loop_grows previews.loop_grows summaries.op_grows projection.loop_grows write_facets_grows set_version_grows)

lemma refresh_read_true:
  assumes "refresh_read n d sid = Inr (StoreDigest g)" and "log_ok d"
  shows "digest_true n d g"
proof -
  from assms(1) obtain out where "exportStableSessionJSONL n d sid = Inr out" "dg_session_id g = sid"
    "dg_records_sha256 g = sha256_hex out" "dg_max_ingest_sequence g = log_fence d sid"
    by (auto simp: refresh_read_def Let_def bind_res_Inr_iff log_fence_def split: if_splits)
  with log_fence_le [OF assms(2)] show ?thesis by (auto simp: digest_true_def)
qed

lemma digests_inv_step:
  assumes "digests_inv n s" and "archive_step n s s'"
  shows "digests_inv n s'"
proof -
  have inv: "log_ok (fst s)" "unique_requests (fst s)" using assms(1) by (auto simp: digests_inv_def)
  from archive_step_cases [OF assms(2)] consider
    (chg) "evolves n (fst s) (fst s')" "snd s' = snd s"
  | (rd) sid w where "refresh_read n (fst s) sid = Inr w" "s' = (fst s, w # snd s)"
  | (wr) w where "w \<in> set (snd s)" "s' = (refresh_write w (fst s), remove1 w (snd s))"
    by blast
  then show ?thesis
  proof cases
    case chg
    then have "log_ok (fst s')" "unique_requests (fst s')" "export_digests (fst s') = export_digests (fst s)"
      using inv by (auto simp: evolves_def logged_def)
    with chg assms(1) digest_true_evolves [OF chg(1) inv] show ?thesis by (auto simp: digests_inv_def)
  next
    case rd
    then show ?thesis using assms(1) refresh_read_true inv(1) by (auto simp: digests_inv_def)
  next
    case wr
    obtain gs where gs: "refresh_write w (fst s) = (fst s)\<lparr>export_digests := gs\<rparr>"
      "\<forall>g \<in> set gs. g \<in> set (export_digests (fst s)) \<or> w = StoreDigest g"
      using refresh_write_eq by blast
    have "\<forall>g \<in> set gs. digest_true n (fst s) g"
      using gs(2) wr(1) assms(1) by (auto simp: digests_inv_def)
    moreover have "\<forall>g. StoreDigest g \<in> set (remove1 w (snd s)) \<longrightarrow> digest_true n (fst s) g"
      using assms(1) set_remove1_subset [of w "snd s"] by (auto simp: digests_inv_def)
    moreover have "log_ok (fst s\<lparr>export_digests := gs\<rparr>)" "unique_requests (fst s\<lparr>export_digests := gs\<rparr>)"
      using inv by (auto simp: log_ok_def unique_requests_def)
    ultimately show ?thesis by (simp add: digests_inv_def wr(2) gs(1) digest_true_digests)
  qed
qed

definition archive_reaches :: "nat \<Rightarrow> db \<times> digest_work list \<Rightarrow> db \<times> digest_work list \<Rightarrow> bool" where
  "archive_reaches n = (archive_step n)\<^sup>*\<^sup>*"

lemma digests_inv_reaches: "archive_reaches n s s' \<Longrightarrow> digests_inv n s \<Longrightarrow> digests_inv n s'"
  unfolding archive_reaches_def by (induction rule: rtranclp_induct) (auto intro: digests_inv_step)

lemma digests_inv_empty: "digests_inv n (empty_db\<lparr>sql_now := now\<rparr>, [])"
  by (simp add: digests_inv_def log_ok_def unique_requests_def empty_db_def)

section \<open>Snapshots export what they list\<close>

lemma listed_digest:
  assumes "digests_inv n (d, ws)" and "scan_session d sid = Inr (Listed s)" and "\<not> su_deleted s"
  shows "session_rows d sid \<noteq> []"
    and "\<exists>out. exportStableSessionJSONL n d sid = Inr out \<and> su_records_sha256 s = sha256_hex out"
proof -
  show rows: "session_rows d sid \<noteq> []" using scan_snapshot_row_Listed(2) [OF assms(2)] assms(3) by simp
  have f: "session_fence d (ingest_clock d) sid = log_fence d sid"
    using assms(1) by (auto simp: digests_inv_def intro: session_fence_log)
  from assms(2,3) have "sr_digest_fence (snapshot_row_of d (ingest_clock d) sid) = int (log_fence d sid)"
    "su_records_sha256 s = sr_records_sha256 (snapshot_row_of d (ingest_clock d) sid)"
    using f by (auto simp: scan_snapshot_row_def snapshot_row_of_def Let_def split: if_splits option.splits prod.splits)
  then obtain g where g: "find_digest d sid = Some g" "dg_max_ingest_sequence g = log_fence d sid"
    "su_records_sha256 s = dg_records_sha256 g"
    by (auto simp: snapshot_row_of_def Let_def split: option.splits)
  then have "g \<in> set (export_digests d)" "dg_session_id g = sid" by (auto simp: find_digest_def find_Some_iff)
  with assms(1) g rows show "\<exists>out. exportStableSessionJSONL n d sid = Inr out \<and> su_records_sha256 s = sha256_hex out"
    by (fastforce simp: digests_inv_def digest_true_def)
qed

lemma snapshot_export_digest:
  assumes "archive_reaches n (empty_db\<lparr>sql_now := now\<rparr>, []) (d, ws)"
    and "BeginStableSessionSnapshot jd lower after d q = (Inr sn, q')"
    and "s \<in> set (sn_sessions sn)" and "\<not> su_deleted s"
  shows "\<exists>out. ExportSessionJSONL n sn (su_session_id s) (su_records_sha256 s) = Inr out
    \<and> sha256_hex out = su_records_sha256 s"
proof -
  have inv: "digests_inv n (d, ws)" by (rule digests_inv_reaches [OF assms(1) digests_inv_empty])
  from assms(2) obtain sids where b: "begin_snapshot sids d q = (Inr sn, q')" and "distinct sids"
    by (rule BeginStable_cases)
  then have dist: "distinct (map su_session_id (sn_sessions sn))" by (rule begin_snapshot_distinct)
  have tx: "sn_tx sn = d" "\<not> sn_closed sn" using b by (auto elim: begin_snapshot_run)
  from assms(3) obtain sid where sid: "scan_session d sid = Inr (Listed s)"
    by (auto simp: begin_snapshot_lists(1) [OF b])
  then have "su_session_id s = sid" using scan_snapshot_row_Listed(1) by fastforce
  with listed_digest(2) [OF inv sid assms(4)] find_distinct [OF dist assms(3)] tx assms(4) show ?thesis
    by (auto simp: ExportSessionJSONL_def)
qed

text \<open>
  C12. Every session a snapshot lists can be fetched and verified: in any state the archive can reach, whatever the
  order of ingest, identity changes, collection, migration, repairs and (delayed) digest writes, a live session of a
  snapshot exports from that snapshot, and the text has the digest the listing promised. The digest mismatch error is
  never raised.
\<close>

theorem snapshot_exports_verify:
  assumes "archive_reaches n (empty_db\<lparr>sql_now := now\<rparr>, []) (d, ws)"
    and "BeginStableSessionSnapshot jd lower after d q = (Inr sn, q')"
    and "s \<in> set (sn_sessions sn)" and "\<not> su_deleted s"
  shows "\<exists>out. ExportSessionJSONL n sn (su_session_id s) (su_records_sha256 s) = Inr out
    \<and> sha256_hex out = su_records_sha256 s"
  using assms by (rule snapshot_export_digest)

end
