(* ===== verification/Timeline.thy ===== *)
theory Timeline
  imports Turns "HOL-Library.Sublist" "HOL-Library.Multiset"
begin

text \<open>
  The timeline of one request (\<open>internal/archive/timeline.go\<close>): what a stateless request adds to the conversation, found by
  removing the prefix it shares with the request before it and the replay of that request's response. Payloads are
  decoded to \<open>any\<close>: a number out of range is nil.
\<close>

section \<open>Entries\<close>

definition decodedObject :: "string \<Rightarrow> gv" where
  "decodedObject raw =
    (if raw = [] then Null
     else case Decode raw of Some (v, rest) \<Rightarrow> if skip_ws rest = [] then lossy_float v else Null | None \<Rightarrow> Null)"

definition stringValue :: "gv \<Rightarrow> string" where
  "stringValue v = (case v of Str s \<Rightarrow> s | _ \<Rightarrow> [])"

definition firstValue :: "(string \<times> gv) list \<Rightarrow> string list \<Rightarrow> gv" where
  "firstValue item keys =
    (case find (\<lambda>k. item_or_nil item k \<noteq> Null) keys of Some k \<Rightarrow> item_or_nil item k | None \<Rightarrow> Null)"

lemma size_firstValue: "size (firstValue kvs ks) < Suc (size_list (size_prod (\<lambda>x. 0) size) kvs)"
  by (auto simp: firstValue_def dest: size_obj_get split: option.splits)

function contentValue :: "(string \<Rightarrow> nat list) \<Rightarrow> gv \<Rightarrow> string" where
  "contentValue ent v =
    (case v of
       Null \<Rightarrow> []
     | Str s \<Rightarrow> unescapeDisplayText ent s
     | Arr vs \<Rightarrow> Join [CHR 0x0A] (filter (\<lambda>t. t \<noteq> []) (map (contentValue ent) vs))
     | Obj kvs \<Rightarrow>
         if Contains (ToLower (stringValue (item_or_nil kvs ''type''))) ''image'' then ''[attachment]''
         else contentValue ent (firstValue kvs [''text'', ''output_text'', ''input_text'', ''output'', ''content'', ''summary''])
     | _ \<Rightarrow> Marshal v)"
  by pat_completeness auto
termination
  by (relation "measure (\<lambda>(ent, v). size v)") (auto simp: size_in_Arr size_firstValue)

declare contentValue.simps [simp del]

abbreviation field :: "(string \<times> gv) list \<Rightarrow> string \<Rightarrow> string" where
  "field kvs k \<equiv> stringValue (item_or_nil kvs k)"

definition attachment_types :: "string list" where
  "attachment_types = [''input_image'', ''image'', ''input_audio'', ''audio'', ''video'']"

definition message_role :: "string \<Rightarrow> string" where
  "message_role role =
    (if role = ''assistant'' then ''assistant''
     else if role = ''tool'' then ''tool_result''
     else if role \<in> {''system'', ''developer''} then ''system''
     else ''user'')"

function collectTimeline :: "(string \<Rightarrow> nat list) \<Rightarrow> string \<Rightarrow> gv \<Rightarrow> TimelineEntry list" where
  "collectTimeline ent fallback v =
    (case v of
       Arr vs \<Rightarrow> concat (map (collectTimeline ent fallback) vs)
     | Str s \<Rightarrow> if TrimSpace s \<noteq> [] then [entry fallback (unescapeDisplayText ent s) [] []] else []
     | Obj kvs \<Rightarrow>
         let typeName = ToLower (field kvs ''type'');
             role0 = ToLower (field kvs ''role'');
             role = (if role0 = [] then fallback else role0)
         in
           if typeName \<in> {''function_call_output'', ''custom_tool_call_output''}
           then [entry ''tool_result'' (contentValue ent (firstValue kvs [''output'', ''content''])) (field kvs ''name'')
                  (stringValue (firstValue kvs [''call_id'', ''tool_call_id'', ''id'']))]
           else if typeName \<in> {''function_call'', ''custom_tool_call''}
           then [entry ''tool_call'' (contentValue ent (firstValue kvs [''arguments'', ''input'', ''content''])) (field kvs ''name'')
                  (stringValue (firstValue kvs [''call_id'', ''id'']))]
           else if typeName \<in> {''compaction'', ''compaction_trigger''}
           then [entry ''compaction'' (contentValue ent (firstValue kvs [''summary'', ''content''])) [] []]
           else if typeName \<in> set attachment_types then [entry role ''[attachment]'' typeName []]
           else if typeName = ''reasoning'' then []
           else if typeName = ''message'' \<or> field kvs ''role'' \<noteq> []
           then (let txt = contentValue ent (firstValue kvs [''content'', ''text'']) in
                 if txt = [] then [] else [entry (message_role role) txt [] []])
           else collectTimeline ent fallback (firstValue kvs [''output'', ''content''])
     | _ \<Rightarrow> [])"
  by pat_completeness auto
termination
  by (relation "measure (\<lambda>(ent, f, v). size v)") (auto simp: size_in_Arr size_firstValue)

declare collectTimeline.simps [simp del]

definition collectInputEntries :: "(string \<Rightarrow> nat list) \<Rightarrow> gv \<Rightarrow> TimelineEntry list" where
  "collectInputEntries ent root =
    (case root of Obj kvs \<Rightarrow> collectTimeline ent ''user'' (firstValue kvs [''input'', ''messages'']) | _ \<Rightarrow> [])"

definition collectResponseEntries :: "(string \<Rightarrow> nat list) \<Rightarrow> gv \<Rightarrow> TimelineEntry list" where
  "collectResponseEntries ent root =
    (case root of
       Obj kvs0 \<Rightarrow>
         let kvs = (if item_or_nil kvs0 ''type'' = Str ''response.completed''
                    then (case item_or_nil kvs0 ''response'' of Obj nested \<Rightarrow> nested | _ \<Rightarrow> kvs0) else kvs0)
         in collectTimeline ent ''assistant'' (if item_or_nil kvs ''output'' = Null then Obj kvs else item_or_nil kvs ''output'')
     | _ \<Rightarrow> [])"

section \<open>Replay\<close>

definition entrySignature :: "TimelineEntry \<Rightarrow> string" where
  "entrySignature e =
    hex_encode (sha256 (te_Role e @ [CHR 0x0A] @ te_Label e @ [CHR 0x0A] @ te_CallID e @ [CHR 0x0A] @ te_Text e))"

fun commonEntryPrefix :: "TimelineEntry list \<Rightarrow> TimelineEntry list \<Rightarrow> nat" where
  "commonEntryPrefix (x # xs) (y # ys) = (if entrySignature x = entrySignature y then Suc (commonEntryPrefix xs ys) else 0)"
| "commonEntryPrefix _ _ = 0"

text \<open>The counts of the signatures are a map that the loop counts down.\<close>

definition count_up :: "TimelineEntry list \<Rightarrow> string \<Rightarrow> nat" where
  "count_up replay = fold (\<lambda>e counts. counts(entrySignature e := counts (entrySignature e) + 1)) replay (\<lambda>_. 0)"

fun subtract_loop :: "(string \<Rightarrow> nat) \<Rightarrow> TimelineEntry list \<Rightarrow> TimelineEntry list" where
  "subtract_loop counts [] = []"
| "subtract_loop counts (e # es) =
    (let k = entrySignature e in
     if 0 < counts k then subtract_loop (counts(k := counts k - 1)) es else e # subtract_loop counts es)"

definition subtractEntries :: "TimelineEntry list \<Rightarrow> TimelineEntry list \<Rightarrow> TimelineEntry list" where
  "subtractEntries entries replay = subtract_loop (count_up replay) entries"

definition containsRole :: "TimelineEntry list \<Rightarrow> string \<Rightarrow> bool" where
  "containsRole entries role \<longleftrightarrow> list_ex (\<lambda>e. te_Role e = role) entries"

section \<open>The view\<close>

definition requestKind :: "gv \<Rightarrow> string" where
  "requestKind root =
    (case root of
       Obj kvs \<Rightarrow> (case item_or_nil kvs ''client_metadata'' of Obj meta \<Rightarrow> ToLower (field meta ''request_kind'') | _ \<Rightarrow> [])
     | _ \<Rightarrow> [])"

definition requestContextCounts :: "gv \<Rightarrow> nat \<times> nat" where
  "requestContextCounts root =
    (case root of
       Obj kvs \<Rightarrow>
         (length (runes (field kvs ''instructions'')), case item_or_nil kvs ''tools'' of Arr ts \<Rightarrow> length ts | _ \<Rightarrow> 0)
     | _ \<Rightarrow> (0, 0))"

definition timeline_kind ::
  "gv \<Rightarrow> facets \<Rightarrow> bool \<Rightarrow> nat \<Rightarrow> nat \<Rightarrow> TimelineEntry list \<Rightarrow> string" where
  "timeline_kind root fs has_previous inputs common delta =
    (let k0 = requestKind root;
         k1 = (if k0 = [] then firstTimelineFacet fs ''request.kind'' else k0);
         k2 = (if k1 = ''compact'' then ''compaction'' else k1);
         k3 = (if k2 = [] then ''turn'' else k2)
     in if k3 = ''compaction'' \<or> containsRole delta ''compaction'' then ''compaction''
        else if has_previous \<and> 0 < inputs \<and> common = inputs then ''retry''
        else if \<not> has_previous \<and> 24 < inputs then ''history_snapshot''
        else if has_previous \<and> common = 0 \<and> 24 < inputs then ''context_rebuild''
        else if \<not> containsRole delta ''user'' \<and> containsRole delta ''tool_result'' then ''tool_continuation''
        else k3)"

definition cut_entry :: "TimelineEntry \<Rightarrow> TimelineEntry" where
  "cut_entry e = (if 40000 < length (te_Text e) then e\<lparr>te_Text := take 40000 (te_Text e), te_Truncated := True\<rparr> else e)"

record RequestTimelineView = preview_view +
  rv_Error :: string
  rv_InputItems :: nat
  rv_HistoryItems :: nat
  rv_SystemChars :: nat
  rv_ToolDefinitions :: nat

definition previous_record :: "db \<Rightarrow> string \<Rightarrow> nat \<Rightarrow> rec_row option" where
  "previous_record d sid n =
    (case rev (sort_key r_id (filter (\<lambda>r. session_id r = sid \<and> r_id r < n) (records d))) of [] \<Rightarrow> None | r # _ \<Rightarrow> Some r)"

definition timeline_view :: "(string \<Rightarrow> nat list) \<Rightarrow> Record \<Rightarrow> Record option \<Rightarrow> RequestTimelineView" where
  "timeline_view ent current previous =
    (let root = decodedObject (OriginalRequest current);
         input = collectInputEntries ent root;
         before = (case previous of None \<Rightarrow> [] | Some p \<Rightarrow> collectInputEntries ent (decodedObject (OriginalRequest p)));
         replay = (case previous of None \<Rightarrow> [] | Some p \<Rightarrow> collectResponseEntries ent (decodedObject (Response p)));
         common = commonEntryPrefix before input;
         delta0 = subtractEntries (drop common input) replay;
         kind = timeline_kind root (Facets current) (previous \<noteq> None) (length input) common delta0;
         cutting = ((kind = ''history_snapshot'' \<or> kind = ''context_rebuild'') \<and> 24 < length delta0);
         history = (if cutting then common + (length delta0 - 24) else common);
         delta = (if cutting then drop (length delta0 - 24) delta0 else delta0);
         entries = map cut_entry (delta @ collectResponseEntries ent (decodedObject (Response current)));
         counts = requestContextCounts root
     in \<lparr>pv_RequestID = RequestID current, pv_SessionID = SessionID current, pv_KeyID = KeyID current, pv_PrincipalID = PrincipalID current,
         pv_CredentialHash = CredentialHash current, pv_PrincipalAlias = PrincipalAlias current, pv_Summary = Summary current,
         pv_RequestedModel = RequestedModel current, pv_Model = Model current, pv_Outcome = Outcome current,
         pv_StatusCode = StatusCode current, pv_StartedAt = StartedAt current, pv_CompletedAt = CompletedAt current,
         pv_Facets = Facets current, pv_Kind = kind, pv_Entries = entries, rv_Error = Error current, rv_InputItems = length input,
         rv_HistoryItems = history, rv_SystemChars = fst counts, rv_ToolDefinitions = snd counts\<rparr>)"

definition RequestTimeline :: "(string \<Rightarrow> nat list) \<Rightarrow> nat \<Rightarrow> bool \<Rightarrow> db \<Rightarrow> string \<Rightarrow> RequestTimelineView result" where
  "RequestTimeline ent n up d rid =
    bind_res (requestWithQuery n up d rid) (\<lambda>(current, _).
      case find_record d rid of
        None \<Rightarrow> Inl NoRows
      | Some row \<Rightarrow>
          (case previous_record d (SessionID current) (r_id row) of
             None \<Rightarrow> Inr (timeline_view ent current None)
           | Some p \<Rightarrow> bind_res (requestWithQuery n up d (request_id p)) (\<lambda>(item, _). Inr (timeline_view ent current (Some item)))))"

section \<open>What a timeline leaves out\<close>

lemma commonEntryPrefix_prefix:
  "commonEntryPrefix xs ys \<le> length ys \<and> commonEntryPrefix xs ys \<le> length xs
    \<and> map entrySignature (take (commonEntryPrefix xs ys) ys) = map entrySignature (take (commonEntryPrefix xs ys) xs)"
  by (induction xs ys rule: commonEntryPrefix.induct) auto

abbreviation signatures :: "TimelineEntry list \<Rightarrow> string multiset" where
  "signatures es \<equiv> image_mset entrySignature (mset es)"

definition bump :: "TimelineEntry \<Rightarrow> (string \<Rightarrow> nat) \<Rightarrow> string \<Rightarrow> nat" where
  "bump e counts = counts(entrySignature e := counts (entrySignature e) + 1)"

lemma fold_bump: "fold bump es (count M) = count (M + signatures es)"
proof (induction es arbitrary: M)
  case (Cons e es)
  have "bump e (count M) = count (add_mset (entrySignature e) M)" by (auto simp: bump_def)
  with Cons.IH [of "add_mset (entrySignature e) M"] show ?case by (simp del: count_add_mset)
qed simp

lemma count_up_mset: "count_up replay = count (signatures replay)"
  using fold_bump [of replay "{#}"] by (simp add: count_up_def bump_def [abs_def] zero_multiset.rep_eq)

lemma subtract_loop_mset: "signatures (subtract_loop (count M) es) = signatures es - M"
proof (induction es arbitrary: M)
  case (Cons e es)
  let ?k = "entrySignature e"
  show ?case
  proof (cases "?k \<in># M")
    case True
    then obtain N where N: "M = add_mset ?k N" by (rule mset_add)
    have "(count M)(?k := count M ?k - 1) = count N" by (auto simp: N)
    with Cons.IH [of N] True show ?thesis by (simp del: count_add_mset fun_upd_apply add: Let_def N)
  next
    case False
    then have "count M ?k = 0" by (simp add: not_in_iff)
    with Cons.IH [of M] False show ?thesis by (simp add: Let_def)
  qed
qed simp

lemma subtract_loop_subseq: "subseq (subtract_loop counts es) es"
  by (induction es arbitrary: counts) (auto simp: Let_def)

text \<open>Removing a replay removes exactly that many occurrences of each replayed entry and keeps the order of the others.\<close>

lemma subtractEntries_exact:
  "image_mset entrySignature (mset (subtractEntries entries replay)) =
      image_mset entrySignature (mset entries) - image_mset entrySignature (mset replay)
    \<and> subseq (subtractEntries entries replay) entries"
  by (simp add: subtractEntries_def count_up_mset subtract_loop_mset subtract_loop_subseq)

definition input_items :: "(string \<Rightarrow> nat list) \<Rightarrow> Record \<Rightarrow> TimelineEntry list" where
  "input_items ent r = collectInputEntries ent (decodedObject (OriginalRequest r))"

definition output_items :: "(string \<Rightarrow> nat list) \<Rightarrow> Record \<Rightarrow> TimelineEntry list" where
  "output_items ent r = collectResponseEntries ent (decodedObject (Response r))"


end
