(* ===== verification/Training_Export.thy ===== *)
theory Training_Export
  imports Timeline
begin

text \<open>
  The fine-tuning export (\<open>internal/archive/training_export.go\<close>): one conversation per session, from its latest successful
  request. Messages are \<open>map[string]any\<close>. \<open>sprint\<close> is \<open>fmt.Sprint\<close> on the values whose text it does not copy (numbers, lists and maps).
\<close>

section \<open>Sanitizing\<close>

definition sanitizeTrainingText :: "string \<Rightarrow> string" where
  "sanitizeTrainingText v =
    (if \<not> HasPrefix v ''data:'' then v
     else
       (case IndexByte v CHR '','' of
          None \<Rightarrow> ''[attachment omitted]''
        | Some comma \<Rightarrow>
            let header = drop 5 (take comma v) in
            (case b64_decode (drop (comma + 1) v) of
               None \<Rightarrow> ''[attachment omitted: '' @ header @ '']''
             | Some raw \<Rightarrow> ''[attachment omitted: '' @ header @ '' sha256:'' @ hex_encode (sha256 raw) @ '']'')))"

fun sanitizeTrainingValue :: "gv \<Rightarrow> gv" where
  "sanitizeTrainingValue (Str s) = Str (sanitizeTrainingText s)"
| "sanitizeTrainingValue (Arr vs) = Arr (map sanitizeTrainingValue vs)"
| "sanitizeTrainingValue (Obj kvs) = Obj (map (\<lambda>kv. (fst kv, sanitizeTrainingValue (snd kv))) kvs)"
| "sanitizeTrainingValue v = v"

definition firstAny :: "gv list \<Rightarrow> gv" where
  "firstAny vs = (case find (\<lambda>v. v \<noteq> Null) vs of Some v \<Rightarrow> v | None \<Rightarrow> Null)"

definition items :: "(string \<times> gv) list \<Rightarrow> string list \<Rightarrow> gv" where
  "items kvs ks = firstAny (map (item_or_nil kvs) ks)"

lemma items_firstValue: "items kvs ks = firstValue kvs ks"
  by (induction ks) (auto simp: items_def firstAny_def firstValue_def)

lemma size_items: "size (items kvs ks) < Suc (size_list (size_prod (\<lambda>x. 0) size) kvs)"
  by (simp add: items_firstValue size_firstValue)

function trainingString :: "(gv \<Rightarrow> string) \<Rightarrow> gv \<Rightarrow> string" where
  "trainingString sprint v =
    (case v of
       Null \<Rightarrow> []
     | Str s \<Rightarrow> sanitizeTrainingText s
     | Arr vs \<Rightarrow> Join [CHR 0x0A] (filter (\<lambda>t. t \<noteq> []) (map (trainingString sprint) vs))
     | Obj kvs \<Rightarrow>
         if items kvs [''text'', ''output_text'', ''input_text''] \<noteq> Null
         then trainingString sprint (items kvs [''text'', ''output_text'', ''input_text''])
         else if items kvs [''content''] \<noteq> Null then trainingString sprint (items kvs [''content''])
         else Marshal (sanitizeTrainingValue v)
     | _ \<Rightarrow> Sprint sprint v)"
  by pat_completeness auto
termination
  by (relation "measure (\<lambda>(f, v). size v)") (auto simp: size_in_Arr size_items)

declare trainingString.simps [simp del]

section \<open>Messages\<close>

definition array_of :: "gv \<Rightarrow> gv list option" where
  "array_of v = (case v of Arr vs \<Rightarrow> Some vs | _ \<Rightarrow> None)"

abbreviation message :: "(string \<times> gv) list \<Rightarrow> gv" where
  "message kvs \<equiv> Obj (obj_of kvs)"

definition call_message :: "(gv \<Rightarrow> string) \<Rightarrow> (string \<times> gv) list \<Rightarrow> gv" where
  "call_message sprint kvs =
    message [(''role'', Str ''assistant''),
      (''tool_calls'', Arr [message [(''id'', Str (Sprint sprint (items kvs [''call_id'', ''id'']))), (''type'', Str ''function''),
         (''function'', message [(''name'', Str (Sprint sprint (item_or_nil kvs ''name''))),
            (''arguments'', Str (trainingString sprint (items kvs [''arguments'', ''input'', ''content''])))])]])]"

definition output_message :: "(gv \<Rightarrow> string) \<Rightarrow> (string \<times> gv) list \<Rightarrow> gv" where
  "output_message sprint kvs =
    message [(''role'', Str ''tool''), (''tool_call_id'', Str (Sprint sprint (items kvs [''call_id'', ''id'']))),
      (''content'', Str (trainingString sprint (items kvs [''output'', ''content''])))]"

definition calls_message :: "(gv \<Rightarrow> string) \<Rightarrow> gv list \<Rightarrow> (string \<times> gv) list \<Rightarrow> gv" where
  "calls_message sprint calls kvs =
    (let content = trainingString sprint (item_or_nil kvs ''content'') in
     message ([(''role'', Str ''assistant''), (''tool_calls'', sanitizeTrainingValue (Arr calls))]
       @ (if content \<noteq> [] then [(''content'', Str content)] else [])))"

definition tool_message :: "(gv \<Rightarrow> string) \<Rightarrow> (string \<times> gv) list \<Rightarrow> gv" where
  "tool_message sprint kvs =
    (let call = Sprint sprint (items kvs [''tool_call_id'', ''call_id'']); name = Sprint sprint (item_or_nil kvs ''name'') in
     message ([(''role'', Str ''tool''), (''content'', Str (trainingString sprint (items kvs [''content'', ''output''])))]
       @ (if call \<noteq> ''<nil>'' \<and> call \<noteq> [] then [(''tool_call_id'', Str call)] else [])
       @ (if name \<noteq> ''<nil>'' \<and> name \<noteq> [] then [(''name'', Str name)] else [])))"

definition role_message :: "(gv \<Rightarrow> string) \<Rightarrow> string \<Rightarrow> (string \<times> gv) list \<Rightarrow> gv list" where
  "role_message sprint role0 kvs =
    (let role = (if role0 = [] then ''assistant'' else role0);
         content = trainingString sprint (items kvs [''content'', ''text'', ''output_text'', ''input_text''])
     in if content \<noteq> [] \<and> role \<in> {''system'', ''developer'', ''user'', ''assistant''}
        then [message [(''role'', Str (if role = ''developer'' then ''system'' else role)), (''content'', Str content)]]
        else [])"

function appendTrainingItems :: "(gv \<Rightarrow> string) \<Rightarrow> gv \<Rightarrow> gv list" where
  "appendTrainingItems sprint v =
    (case v of
       Arr vs \<Rightarrow> concat (map (appendTrainingItems sprint) vs)
     | Str s \<Rightarrow>
         let t = TrimSpace s in
         if t \<noteq> [] then [message [(''role'', Str ''user''), (''content'', Str (sanitizeTrainingText t))]] else []
     | Obj kvs \<Rightarrow>
         let typeName = ToLower (Sprint sprint (item_or_nil kvs ''type''));
             role = ToLower (Sprint sprint (item_or_nil kvs ''role''))
         in
           if typeName \<in> {''function_call'', ''custom_tool_call''} then [call_message sprint kvs]
           else if typeName \<in> {''function_call_output'', ''custom_tool_call_output''} then [output_message sprint kvs]
           else if typeName \<in> {''reasoning'', ''compaction'', ''compaction_trigger''} then []
           else
             (case array_of (item_or_nil kvs ''tool_calls'') of
                Some calls \<Rightarrow> [calls_message sprint calls kvs]
              | None \<Rightarrow>
                  if role = ''tool'' then [tool_message sprint kvs]
                  else if role \<noteq> [] \<or> typeName = ''message'' then role_message sprint role kvs
                  else appendTrainingItems sprint (items kvs [''output'', ''content'']))
     | _ \<Rightarrow> [])"
  by pat_completeness auto
termination
  by (relation "measure (\<lambda>(f, v). size v)") (auto simp: size_in_Arr size_items)

declare appendTrainingItems.simps [simp del]

fun dedupe_loop :: "string \<Rightarrow> gv list \<Rightarrow> gv list" where
  "dedupe_loop prev [] = []"
| "dedupe_loop prev (x # xs) = (if Marshal x = prev then dedupe_loop prev xs else x # dedupe_loop (Marshal x) xs)"

definition dedupeTrainingMessages :: "gv list \<Rightarrow> gv list" where
  "dedupeTrainingMessages ms = dedupe_loop [] ms"

definition normalize_tool :: "(gv \<Rightarrow> string) \<Rightarrow> gv \<Rightarrow> gv" where
  "normalize_tool sprint raw =
    (case raw of
       Obj tool \<Rightarrow>
         if EqualFold (Sprint sprint (item_or_nil tool ''type'')) ''function'' \<and> item_or_nil tool ''function'' = Null
         then message [(''type'', Str ''function''),
           (''function'', message (concat (map (\<lambda>k. case obj_get tool k of None \<Rightarrow> [] | Some child \<Rightarrow> [(k, sanitizeTrainingValue child)])
              [''name'', ''description'', ''parameters'', ''strict''])))]
         else sanitizeTrainingValue raw
     | _ \<Rightarrow> sanitizeTrainingValue raw)"

definition normalizeTrainingTools :: "(gv \<Rightarrow> string) \<Rightarrow> gv \<Rightarrow> gv" where
  "normalizeTrainingTools sprint v =
    (case v of Arr vs \<Rightarrow> Arr (map (normalize_tool sprint) vs) | _ \<Rightarrow> sanitizeTrainingValue v)"

section \<open>Examples\<close>

record SFTExample =
  sx_Messages :: "gv list"
  sx_Tools :: gv
  sx_ParallelToolCalls :: "bool option"
  sx_PrincipalID :: string
  sx_CredentialHash :: string

definition message_is :: "string \<Rightarrow> gv \<Rightarrow> bool" where
  "message_is role x \<longleftrightarrow> (case x of Obj kvs \<Rightarrow> obj_get kvs ''role'' = Some (Str role) | _ \<Rightarrow> False)"

definition conversation :: "(gv \<Rightarrow> string) \<Rightarrow> (string \<times> gv) list \<Rightarrow> gv \<Rightarrow> gv list" where
  "conversation sprint root response =
    (case item_or_nil root ''instructions'' of
       Str s \<Rightarrow> if TrimSpace s \<noteq> [] then [message [(''role'', Str ''system''), (''content'', Str (sanitizeTrainingText s))]] else []
     | _ \<Rightarrow> [])
    @ appendTrainingItems sprint (items root [''input'', ''messages''])
    @ (let responseRoot = (case response of
             Obj wrapper \<Rightarrow> (case obj_get wrapper ''response'' of Some nested \<Rightarrow> nested | None \<Rightarrow> response)
           | _ \<Rightarrow> response)
       in case responseRoot of Obj payload \<Rightarrow> appendTrainingItems sprint (item_or_nil payload ''output'') | _ \<Rightarrow> [])"

definition trainingExample :: "(gv \<Rightarrow> string) \<Rightarrow> Record \<Rightarrow> SFTExample option" where
  "trainingExample sprint r =
    (case Unmarshal (OriginalRequest r) of
       Some (Obj root) \<Rightarrow>
         let ms = dedupeTrainingMessages (conversation sprint root (decodedObject (Response r)));
             ex = \<lparr>sx_Messages = ms,
                   sx_Tools = (case obj_get root ''tools'' of Some tools \<Rightarrow> normalizeTrainingTools sprint tools | None \<Rightarrow> Null),
                   sx_ParallelToolCalls = (case item_or_nil root ''parallel_tool_calls'' of Bool b \<Rightarrow> Some b | _ \<Rightarrow> None),
                   sx_PrincipalID = [], sx_CredentialHash = []\<rparr>
         in if list_ex (message_is ''user'') ms \<and> list_ex (message_is ''assistant'') ms then Some ex else None
     | _ \<Rightarrow> None)"

definition encode_example :: "SFTExample \<Rightarrow> string" where
  "encode_example ex =
    Encode (Struct ([(''messages'', Arr (sx_Messages ex))] @ omit_nil ''tools'' (sx_Tools ex)
      @ (case sx_ParallelToolCalls ex of Some b \<Rightarrow> [(''parallel_tool_calls'', Bool b)] | None \<Rightarrow> [])
      @ omit_str ''principal_id'' (sx_PrincipalID ex) @ omit_str ''credential_hash'' (sx_CredentialHash ex)))"

definition succeeded :: "rec_row \<Rightarrow> bool" where
  "succeeded r \<longleftrightarrow> outcome r = ''succeeded'' \<and> 200 \<le> status_code r \<and> status_code r \<le> 299"

text \<open>The rows of the query; rows of one session come in table order.\<close>

definition training_rows :: "db \<Rightarrow> string \<Rightarrow> rec_row list" where
  "training_rows d sid =
    sort_key session_id (filter (\<lambda>r. succeeded r \<and> (sid = [] \<or> session_id r = sid)
      \<and> list_all (\<lambda>x. succeeded x \<and> session_id x = session_id r \<longrightarrow> started_at x \<le> started_at r) (records d)) (records d))"

fun emit_examples :: "(gv \<Rightarrow> string) \<Rightarrow> nat \<Rightarrow> bool \<Rightarrow> db \<Rightarrow> rec_row list \<Rightarrow> string \<Rightarrow> string \<times> err option" where
  "emit_examples sprint n up d [] out = (out, None)"
| "emit_examples sprint n up d (r # rs) out =
    (case requestWithQuery n up d (request_id r) of
       Inl e \<Rightarrow> (out, Some e)
     | Inr (x, _) \<Rightarrow>
         (case trainingExample sprint x of
            None \<Rightarrow> emit_examples sprint n up d rs out
          | Some ex \<Rightarrow>
              emit_examples sprint n up d rs
                (out @ encode_example (ex\<lparr>sx_PrincipalID := PrincipalID x, sx_CredentialHash := CredentialHash x\<rparr>))))"

definition ExportTrainingJSONL :: "(gv \<Rightarrow> string) \<Rightarrow> nat \<Rightarrow> bool \<Rightarrow> db \<Rightarrow> string \<Rightarrow> string \<times> err option" where
  "ExportTrainingJSONL sprint n up d sid = emit_examples sprint n up d (training_rows d sid) []"

section \<open>Messages never carry attachments\<close>

abbreviation clean :: "string \<Rightarrow> bool" where
  "clean s \<equiv> \<not> HasPrefix s ''data:''"

lemma sanitize_clean: "clean (sanitizeTrainingText v)"
  by (auto simp: sanitizeTrainingText_def HasPrefix_def Let_def split: option.splits)

lemma clean_join:
  assumes "list_all clean ts" and "list_all (\<lambda>t. t \<noteq> []) ts"
  shows "clean (Join [CHR 0x0A] ts)"
  using assms
proof (induction "[CHR 0x0A]" ts rule: Join.induct)
  case (3 x y xs)
  have "HasPrefix (x @ CHR 0x0A # r) ''data:'' \<Longrightarrow> HasPrefix x ''data:''" for r
    by (cases x; cases "tl x"; cases "tl (tl x)"; cases "tl (tl (tl x))"; cases "tl (tl (tl (tl x)))") (auto simp: HasPrefix_def)
  with 3 show ?case by auto
qed (auto simp: HasPrefix_def)

lemma clean_Marshal_Obj: "clean (Marshal (Obj kvs))"
  by (simp add: HasPrefix_def)

lemma Sprint_clean: "\<forall>v. clean (sprint v) \<Longrightarrow> (\<And>s. v \<noteq> Str s) \<Longrightarrow> clean (Sprint sprint v)"
  by (auto simp: Sprint_def HasPrefix_def split: gv.splits)

lemma trainingString_clean:
  assumes "\<forall>v. clean (sprint v)"
  shows "clean (trainingString sprint v)"
proof (induction v rule: measure_induct_rule [where f = size])
  case (less v)
  show ?case
  proof (cases v)
    case (Arr vs)
    have "clean (trainingString sprint x)" if "x \<in> set vs" for x
      using that Arr by (intro less) (simp add: size_in_Arr)
    then have "clean (Join [CHR 0x0A] (filter (\<lambda>t. t \<noteq> []) (map (trainingString sprint) vs)))"
      by (intro clean_join) (auto simp: list_all_iff)
    then show ?thesis unfolding Arr trainingString.simps [of sprint "Arr vs"] by simp
  next
    case (Obj kvs)
    have "clean (trainingString sprint (items kvs ks))" for ks
      using Obj by (intro less) (simp add: size_items)
    moreover have "clean (Marshal (sanitizeTrainingValue (Obj kvs)))"
      unfolding sanitizeTrainingValue.simps by (rule clean_Marshal_Obj)
    ultimately show ?thesis unfolding Obj trainingString.simps [of sprint "Obj kvs"] by (simp del: marshal.simps sanitizeTrainingValue.simps)
  qed (use assms Sprint_clean [of sprint v] sanitize_clean in \<open>auto simp: trainingString.simps HasPrefix_def\<close>)
qed

text \<open>A message has one of the four roles, and its content, if it has one, is a text that is not a data URL.\<close>

definition training_message :: "gv \<Rightarrow> bool" where
  "training_message m \<longleftrightarrow>
    (case m of
       Obj kvs \<Rightarrow>
         list_ex (\<lambda>r. obj_get kvs ''role'' = Some (Str r)) [''system'', ''user'', ''assistant'', ''tool'']
         \<and> (case obj_get kvs ''content'' of None \<Rightarrow> True | Some (Str s) \<Rightarrow> clean s | _ \<Rightarrow> False)
     | _ \<Rightarrow> False)"

lemma map_of_obj_put: "map_of (obj_put k v kvs) = (map_of kvs)(k \<mapsto> v)"
  by (induction k v kvs rule: obj_put.induct) (auto simp: fun_eq_iff)

lemma map_of_obj_of: "map_of (obj_of kvs) = foldl (\<lambda>m (k, v). m(k \<mapsto> v)) Map.empty kvs"
proof -
  have "map_of (foldl (\<lambda>acc (k, v). obj_put k v acc) acc kvs) = foldl (\<lambda>m (k, v). m(k \<mapsto> v)) (map_of acc) kvs" for acc
    by (induction kvs arbitrary: acc) (auto simp: map_of_obj_put)
  from this [of "[]"] show ?thesis by (simp add: obj_of_def)
qed

lemma training_message_obj:
  "training_message (Obj (obj_of kvs)) \<longleftrightarrow>
    (let m = foldl (\<lambda>m (k, v). m(k \<mapsto> v)) Map.empty kvs in
      list_ex (\<lambda>r. m ''role'' = Some (Str r)) [''system'', ''user'', ''assistant'', ''tool'']
      \<and> (case m ''content'' of None \<Rightarrow> True | Some (Str s) \<Rightarrow> clean s | _ \<Rightarrow> False))"
  by (simp add: training_message_def map_of_obj_of Let_def)

lemma built_messages_ok:
  assumes "\<forall>v. clean (sprint v)"
  shows "training_message (call_message sprint kvs)" "training_message (output_message sprint kvs)"
    "training_message (calls_message sprint calls kvs)" "training_message (tool_message sprint kvs)"
    "list_all training_message (role_message sprint role kvs)"
  using trainingString_clean [OF assms]
  by (simp_all add: training_message_obj Let_def call_message_def output_message_def calls_message_def tool_message_def role_message_def) blast

lemma appendTrainingItems_ok:
  assumes "\<forall>v. clean (sprint v)"
  shows "list_all training_message (appendTrainingItems sprint v)"
proof (induction v rule: measure_induct_rule [where f = size])
  case (less v)
  show ?case
  proof (cases v)
    case (Str s)
    then show ?thesis by (simp add: appendTrainingItems.simps training_message_obj sanitize_clean Let_def)
  next
    case (Arr vs)
    have "list_all training_message (appendTrainingItems sprint x)" if "x \<in> set vs" for x
      using that Arr by (intro less) (simp add: size_in_Arr)
    then show ?thesis unfolding appendTrainingItems.simps [of sprint v] by (auto simp: Arr list_all_iff)
  next
    case (Obj kvs)
    have "list_all training_message (appendTrainingItems sprint (items kvs [''output'', ''content'']))"
      using Obj by (intro less) (simp add: size_items)
    then show ?thesis
      using built_messages_ok [OF assms] by (simp add: Obj appendTrainingItems.simps [of sprint "Obj kvs"] Let_def split: option.split)
  qed (simp_all add: appendTrainingItems.simps)
qed

section \<open>The messages of an example\<close>

lemma dedupe_loop_adj: "p # map Marshal (dedupe_loop p ms) = remdups_adj (p # map Marshal ms)"
  by (induction ms arbitrary: p) auto

lemma training_message_marshal: "training_message m \<Longrightarrow> Marshal m \<noteq> []"
  by (cases m) (auto simp: training_message_def)

lemma dedupe_subset: "set (dedupe_loop p ms) \<subseteq> set ms"
  by (induction ms arbitrary: p) auto

lemma conversation_ok:
  assumes "\<forall>v. clean (sprint v)"
  shows "list_all training_message (conversation sprint root response)"
  using appendTrainingItems_ok [OF assms]
  by (auto simp: conversation_def training_message_obj sanitize_clean Let_def split: gv.splits option.splits)

text \<open>
  C25. A training example is a conversation: it has a user and an assistant message, every message has one of the four
  roles and content that is not an inline attachment, and its messages are those of the conversation with runs of equal
  messages reduced to one. \<open>sprint\<close> formats numbers, lists and maps.
\<close>

theorem trainingExample_conversation:
  assumes "\<forall>v. \<not> HasPrefix (sprint v) ''data:''" and "trainingExample sprint r = Some ex"
  shows "list_all training_message (sx_Messages ex)
    \<and> list_ex (message_is ''user'') (sx_Messages ex) \<and> list_ex (message_is ''assistant'') (sx_Messages ex)
    \<and> (\<exists>root. Unmarshal (OriginalRequest r) = Some (Obj root)
        \<and> map Marshal (sx_Messages ex) = remdups_adj (map Marshal (conversation sprint root (decodedObject (Response r)))))"
proof -
  obtain root where root: "Unmarshal (OriginalRequest r) = Some (Obj root)"
    using assms(2) by (auto simp: trainingExample_def split: option.splits gv.splits)
  let ?c = "conversation sprint root (decodedObject (Response r))"
  have ms: "sx_Messages ex = dedupe_loop [] ?c" "list_ex (message_is ''user'') (sx_Messages ex)"
      "list_ex (message_is ''assistant'') (sx_Messages ex)"
    using assms(2) root by (auto simp: trainingExample_def dedupeTrainingMessages_def Let_def split: if_splits)
  have ok: "list_all training_message ?c" by (rule conversation_ok [OF assms(1)])
  then have "list_all (\<lambda>x. Marshal x \<noteq> []) ?c" by (auto simp: list_all_iff training_message_marshal)
  with dedupe_loop_adj [of "[]" ?c] have "map Marshal (dedupe_loop [] ?c) = remdups_adj (map Marshal ?c)"
    by (cases ?c) (auto simp del: marshal.simps)
  moreover have "list_all training_message (dedupe_loop [] ?c)" using ok dedupe_subset [of "[]" ?c] by (auto simp: list_all_iff)
  ultimately show ?thesis using ms root by auto
qed

section \<open>One line per session\<close>

lemma latest_exists:
  fixes f :: "'a \<Rightarrow> 'b :: linorder"
  assumes "finite A" and "A \<noteq> {}"
  shows "\<exists>x \<in> A. \<forall>y \<in> A. f y \<le> f x"
proof -
  from assms have "Max (f ` A) \<in> f ` A" by simp
  then obtain x where "x \<in> A" "f x = Max (f ` A)" by auto
  with assms show ?thesis by (metis Max_ge finite_imageI imageI)
qed

text \<open>
  The export takes one request per session: when no two successful requests of a session start at the same time, the
  sessions of the selected requests are exactly the sessions with a successful request, each once, in order, and each
  selected request is the latest successful one of its session.
\<close>

theorem training_rows_exact:
  assumes "distinct (map request_id (records d))"
    and "\<And>r x. r \<in> set (records d) \<Longrightarrow> x \<in> set (records d) \<Longrightarrow> succeeded r \<Longrightarrow> succeeded x \<Longrightarrow>
      session_id r = session_id x \<Longrightarrow> started_at r = started_at x \<Longrightarrow> request_id r = request_id x"
  shows "map session_id (training_rows d []) = sorted_list_of_set (session_id ` {r \<in> set (records d). succeeded r})
    \<and> (\<forall>r \<in> set (training_rows d []). r \<in> set (records d) \<and> succeeded r
        \<and> (\<forall>x \<in> set (records d). succeeded x \<and> session_id x = session_id r \<longrightarrow> started_at x \<le> started_at r))"
proof -
  let ?rows = "training_rows d []"
  have mem: "r \<in> set ?rows \<longleftrightarrow> r \<in> set (records d) \<and> succeeded r
      \<and> (\<forall>x \<in> set (records d). succeeded x \<and> session_id x = session_id r \<longrightarrow> started_at x \<le> started_at r)" for r
    by (auto simp: training_rows_def list_all_iff)
  have dr: "distinct (records d)" using assms(1) by (simp add: distinct_map)
  have inj: "inj_on session_id (set ?rows)"
  proof (rule inj_onI)
    fix r x assume "r \<in> set ?rows" "x \<in> set ?rows" "session_id r = session_id x"
    then have m: "r \<in> set (records d)" "x \<in> set (records d)" and "request_id r = request_id x"
      using assms(2) [of r x] by (auto simp: mem intro: antisym)
    then show "r = x" using assms(1) by (auto simp: distinct_map dest: inj_onD)
  qed
  have "distinct ?rows" using dr by (simp add: training_rows_def)
  with inj have dist: "distinct (map session_id ?rows)" by (simp add: distinct_map)
  have sorted: "sorted (map session_id ?rows)" by (simp add: training_rows_def)
  have "session_id ` set ?rows = session_id ` {r \<in> set (records d). succeeded r}"
  proof
    show "session_id ` {r \<in> set (records d). succeeded r} \<subseteq> session_id ` set ?rows"
    proof
      fix sid assume "sid \<in> session_id ` {r \<in> set (records d). succeeded r}"
      then obtain r where "r \<in> {r \<in> set (records d). succeeded r \<and> session_id r = sid}" by auto
      then obtain x where "x \<in> {r \<in> set (records d). succeeded r \<and> session_id r = sid}"
          "\<forall>y \<in> {r \<in> set (records d). succeeded r \<and> session_id r = sid}. started_at y \<le> started_at x"
        using latest_exists [of "{r \<in> set (records d). succeeded r \<and> session_id r = sid}" started_at] by auto
      then have "x \<in> set ?rows" "session_id x = sid" by (auto simp: mem)
      then show "sid \<in> session_id ` set ?rows" by blast
    qed
  qed (auto simp: mem)
  with sorted dist have "map session_id ?rows = sorted_list_of_set (session_id ` {r \<in> set (records d). succeeded r})"
    using sorted_list_of_set.idem_if_sorted_distinct [of "map session_id ?rows"] by simp
  with mem show ?thesis by auto
qed

section \<open>Examples\<close>

definition won_row :: "nat \<Rightarrow> string \<Rightarrow> string \<Rightarrow> string \<Rightarrow> rec_row" where
  "won_row n rq sid start =
    blank_row\<lparr>r_id := n, request_id := rq, session_id := sid, started_at := start, outcome := ''succeeded'', status_code := 200\<rparr>"

lemma won_row_simps [simp]:
  "request_id (won_row n rq sid start) = rq" "session_id (won_row n rq sid start) = sid" "started_at (won_row n rq sid start) = start"
  "succeeded (won_row n rq sid start)"
  by (simp_all add: won_row_def succeeded_def)

definition training_sample :: db where
  "training_sample = empty_db\<lparr>records := [won_row 1 ''p'' ''s'' ''1'', won_row 2 ''q'' ''s'' ''2'', won_row 3 ''r'' ''a'' ''2'']\<rparr>"

lemma records_training_sample [simp]:
  "records training_sample = [won_row 1 ''p'' ''s'' ''1'', won_row 2 ''q'' ''s'' ''2'', won_row 3 ''r'' ''a'' ''2'']"
  by (simp add: training_sample_def)

theorem training_rows_exact_witness:
  "map session_id (training_rows training_sample []) = sorted_list_of_set {''a'', ''s''}"
proof -
  have "session_id ` {r \<in> set (records training_sample). succeeded r} = {''a'', ''s''}" by force
  with training_rows_exact [of training_sample] show ?thesis by fastforce
qed

text \<open>Two requests of a session that start at the same time are both selected: the session gets two lines.\<close>

lemma training_rows_tie:
  "map session_id (training_rows (empty_db\<lparr>records := [won_row 1 ''p'' ''s'' ''1'', won_row 2 ''q'' ''s'' ''1'']\<rparr>) []) = [''s'', ''s'']"
  by (simp add: training_rows_def)

text \<open>A message item without a role is dropped: the role that \<open>fmt.Sprint\<close> gives for a missing key is not empty.\<close>

lemma lower_samples:
  "ToLower ''message'' = ''message''" "ToLower ''<nil>'' = ''<nil>''" "ToLower ''user'' = ''user''" "ToLower ''assistant'' = ''assistant''"
  by (simp_all add: ToLower_ascii lower_rune_def char_of_eq_iff)

lemma roleless_message_dropped:
  assumes "obj_get kvs ''role'' = None" and "obj_get kvs ''type'' = Some (Str ''message'')" and "obj_get kvs ''tool_calls'' = None"
  shows "appendTrainingItems sprint (Obj kvs) = []"
  using assms by (simp add: appendTrainingItems.simps [of sprint "Obj kvs"] Sprint_def role_message_def array_of_def lower_samples)

definition chat_value :: gv where
  "chat_value = Obj [(''input'', Arr [Obj [(''content'', Str ''h''), (''role'', Str ''user'')],
     Obj [(''content'', Str ''i''), (''role'', Str ''assistant'')]])]"

definition chat_record :: Record where
  "chat_record = sample_record\<lparr>OriginalRequest := Marshal chat_value, Response := []\<rparr>"

lemma chat_decoded: "Unmarshal (OriginalRequest chat_record) = Some chat_value"
proof -
  have "wf_value max_depth chat_value" by code_simp
  then have "Decode (Marshal chat_value) = Some (chat_value, [])" by (rule Decode_Marshal)
  then show ?thesis by (simp add: chat_record_def Unmarshal_def chat_value_def skip_ws_def)
qed

lemma chat_conversation:
  "conversation (\<lambda>_. ''0'') [(''input'', Arr [Obj [(''content'', Str ''h''), (''role'', Str ''user'')],
      Obj [(''content'', Str ''i''), (''role'', Str ''assistant'')]])] (decodedObject []) =
    [Obj [(''content'', Str ''h''), (''role'', Str ''user'')], Obj [(''content'', Str ''i''), (''role'', Str ''assistant'')]]"
  by (simp add: conversation_def items_def firstAny_def appendTrainingItems.simps Sprint_def lower_samples array_of_def
      role_message_def trainingString.simps sanitizeTrainingText_def HasPrefix_def obj_of_def decodedObject_def)

theorem trainingExample_conversation_witness:
  "\<exists>ex. trainingExample (\<lambda>_. ''0'') chat_record = Some ex \<and> list_all training_message (sx_Messages ex)"
proof -
  obtain ex where ex: "trainingExample (\<lambda>_. ''0'') chat_record = Some ex"
    using chat_decoded chat_conversation
    by (simp add: trainingExample_def chat_value_def chat_record_def dedupeTrainingMessages_def message_is_def member_text_def quote_def runes_ascii quote_rune_def)
  moreover have "\<forall>v. \<not> HasPrefix ((\<lambda>_. ''0'') v) ''data:''" by (simp add: HasPrefix_def)
  ultimately show ?thesis using trainingExample_conversation [of "\<lambda>_. ''0''" chat_record ex] by blast
qed

end
