(* ===== verification/Tickets.thy ===== *)
theory Tickets
  imports Registry_Safety Snapshot_Digests Training_Export
begin

text \<open>
  Export tickets of the collector (\<open>exportTicket\<close> and \<open>ticketedExport\<close> in \<open>cmd/cpa-session-collector/main.go\<close>,
  \<open>prepareStableSnapshotExport\<close> in \<open>snapshot.go\<close>): a ticket is a random token that names an export for half an hour, and
  redeeming it streams the export as an attachment.

  The registry is shared with the other requests: a snapshot export runs between two critical sections, and
  \<open>others\<close> is what happens to the registry in between. The temporary file of the export holds its output; whether the file
  can be created and whether the request is cancelled or meets its deadline are inputs of the environment.
\<close>

section \<open>Issuing\<close>

record exportTicket =
  tk_SessionID :: string
  tk_Scope :: string
  tk_Format :: string
  tk_Filename :: string
  tk_ExpiresAt :: int
  tk_Snapshot :: string
  tk_RecordsSHA256 :: string
  tk_CursorProtocol :: string

datatype ticket_answer =
    PlainError nat string
  | JsonError nat string
  | Issued string string int "(string \<times> string) option"
  | HeadOk string
  | Attachment string string

record ticket_server =
  tv_registry :: "stableSnapshotRegistry result"
  tv_tickets :: "(string \<times> exportTicket) list"

definition safe_rune :: "nat \<Rightarrow> bool" where
  "safe_rune r \<longleftrightarrow> 97 \<le> r \<and> r \<le> 122 \<or> 65 \<le> r \<and> r \<le> 90 \<or> 48 \<le> r \<and> r \<le> 57 \<or> r = 45 \<or> r = 95"

definition safeFilename :: "string \<Rightarrow> string" where
  "safeFilename v =
    (let b = concat (map (\<lambda>r. if safe_rune (rune_of r) then utf8_encode (rune_of r) else []) (runes v)) in
     if b = [] then ''archive'' else b)"

definition ticket_filename :: "string \<Rightarrow> string \<Rightarrow> string \<Rightarrow> string" where
  "ticket_filename scope sid format =
    ''cpa-'' @ (if scope = ''all'' then ''all-sessions'' else ''session-'' @ safeFilename sid) @ ''-'' @ format @ ''.jsonl''"

text \<open>The snapshot a ticket is bound to: the digest of the session in it and the time it expires.\<close>

definition bind_snapshot ::
  "int \<Rightarrow> string \<Rightarrow> string \<Rightarrow> stableSnapshotRegistry \<Rightarrow> (ticket_answer + string \<times> int) \<times> stableSnapshotRegistry" where
  "bind_snapshot now key sid rg0 =
    (case getForExport now key rg0 of
       (Inl _, rg) \<Rightarrow> (Inl (JsonError 410 ''stable session snapshot expired''), rg)
     | (Inr p, rg) \<Rightarrow>
         let e = rg_heap rg ! p in
         (case Summary_of (en_Snapshot e) sid of
            None \<Rightarrow> (Inl (JsonError 404 ''session not found in snapshot''), rg)
          | Some s \<Rightarrow>
              if su_deleted s then (Inl (JsonError 404 ''session not found in snapshot''), rg)
              else (Inr (su_records_sha256 s, en_ExpiresAt e), rg)))"

definition half_hour :: int where
  "half_hour = 30 * minute"

definition purge_tickets :: "int \<Rightarrow> (string \<times> exportTicket) list \<Rightarrow> (string \<times> exportTicket) list" where
  "purge_tickets now ts = filter (\<lambda>(key, t). \<not> tk_ExpiresAt t + half_hour < now) ts"

definition add_ticket :: "int \<Rightarrow> string \<Rightarrow> exportTicket \<Rightarrow> ticket_server \<Rightarrow> ticket_server" where
  "add_ticket now token t s = s\<lparr>tv_tickets := AList.update token t (purge_tickets now (tv_tickets s))\<rparr>"

definition make_ticket :: "int \<Rightarrow> string \<Rightarrow> string \<Rightarrow> string \<Rightarrow> string \<Rightarrow> (string \<times> int) option \<Rightarrow> exportTicket" where
  "make_ticket now scope sid format snapshotID bound =
    \<lparr>tk_SessionID = sid, tk_Scope = scope, tk_Format = format, tk_Filename = ticket_filename scope sid format,
     tk_ExpiresAt = (case bound of Some (_, e) \<Rightarrow> if e < now + half_hour then e else now + half_hour | None \<Rightarrow> now + half_hour),
     tk_Snapshot = snapshotID, tk_RecordsSHA256 = (case bound of Some (g, _) \<Rightarrow> g | None \<Rightarrow> []),
     tk_CursorProtocol = (if bound = None then [] else StableCursorProtocol)\<rparr>"

text \<open>The last part of the handler: \<open>bound\<close> is the snapshot binding, \<open>random\<close> the bytes drawn, if any.\<close>

definition issue ::
  "int \<Rightarrow> string option \<Rightarrow> string \<Rightarrow> string \<Rightarrow> string \<Rightarrow> string \<Rightarrow> (string \<times> int) option \<Rightarrow> ticket_server \<Rightarrow>
    ticket_answer \<times> ticket_server" where
  "issue now random scope sid format snapshotID bound s =
    (case random of
       None \<Rightarrow> (PlainError 500 ''ticket unavailable'', s)
     | Some rnd \<Rightarrow>
         let token = hex_encode (map byte rnd); ticket = make_ticket now scope sid format snapshotID bound
         in (Issued token (tk_Filename ticket) (tk_ExpiresAt ticket)
               (if bound = None then None else Some (snapshotID, tk_RecordsSHA256 ticket)), add_ticket now token ticket s))"

definition exportTicket_handler ::
  "string \<Rightarrow> http_query \<Rightarrow> db \<Rightarrow> int \<Rightarrow> string option \<Rightarrow> int \<Rightarrow> ticket_server \<Rightarrow> ticket_answer \<times> ticket_server" where
  "exportTicket_handler method q d now1 random now2 s =
    (let sid = TrimSpace (query_get q ''session_id'');
         scope0 = TrimSpace (query_get q ''scope''); scope = (if scope0 = [] then ''session'' else scope0);
         format0 = TrimSpace (query_get q ''format''); format = (if format0 = [] then ''archive'' else format0);
         snapshotID = TrimSpace (query_get q ''snapshot'')
     in
       if method \<noteq> ''GET'' then (PlainError 405 ''method'', s)
       else if scope \<noteq> ''session'' \<and> scope \<noteq> ''all'' then (PlainError 400 ''invalid scope'', s)
       else if format \<noteq> ''archive'' \<and> format \<noteq> ''sft'' then (PlainError 400 ''invalid format'', s)
       else if scope = ''session'' \<and> sid = [] then (PlainError 400 ''session required'', s)
       else if snapshotID \<noteq> []
       then
         (if scope \<noteq> ''session'' \<or> format \<noteq> ''archive'' \<or> 128 < length snapshotID
          then (JsonError 400 ''invalid stable snapshot export'', s)
          else
            (case tv_registry s of
               Inl _ \<Rightarrow> (JsonError 503 ''stable session snapshots are unavailable'', s)
             | Inr rg0 \<Rightarrow>
                 (case bind_snapshot now1 snapshotID sid rg0 of
                    (Inl a, rg) \<Rightarrow> (a, s\<lparr>tv_registry := Inr rg\<rparr>)
                  | (Inr b, rg) \<Rightarrow> issue now2 random scope sid format snapshotID (Some b) (s\<lparr>tv_registry := Inr rg\<rparr>))))
       else if scope = ''session'' \<and> \<not> list_ex (\<lambda>r. session_id r = sid) (records d)
       then (PlainError 404 ''session not found'', s)
       else issue now2 random scope sid format [] None s)"

section \<open>Redeeming\<close>

datatype export_error = Store err | DeadlineExceeded | Cancelled | NoArtifact

definition ticket_lookup :: "string \<Rightarrow> string \<Rightarrow> int \<Rightarrow> (string \<times> exportTicket) list \<Rightarrow> ticket_answer + exportTicket" where
  "ticket_lookup method path now ts =
    (if method \<noteq> ''GET'' \<and> method \<noteq> ''HEAD'' then Inl (JsonError 405 ''method not allowed'')
     else
       (case map_of ts (TrimPrefix path ''/archive-api/v1/exports/'') of
          None \<Rightarrow> Inl (JsonError 404 ''invalid export ticket'')
        | Some t \<Rightarrow> if now < tk_ExpiresAt t then Inr t else Inl (JsonError 410 ''export ticket expired'')))"

definition ticket_error :: "export_error \<Rightarrow> ticket_answer" where
  "ticket_error e =
    (if e = Store SnapshotExpired \<or> e = DeadlineExceeded then JsonError 410 ''stable session snapshot expired''
     else if e = Store SnapshotCursor then JsonError 400 ''invalid stable snapshot export''
     else JsonError 500 ''stable snapshot export failed'')"

definition validateStableSnapshotExport ::
  "int \<Rightarrow> exportTicket \<Rightarrow> stableSnapshotRegistry \<Rightarrow> export_error option \<times> stableSnapshotRegistry" where
  "validateStableSnapshotExport now t rg =
    (let (e, rg') = validateExport now (tk_Snapshot t) (tk_SessionID t) (tk_RecordsSHA256 t) rg in (map_option Store e, rg'))"

text \<open>The export of the registry, from its first critical section to its second.\<close>

definition registry_export ::
  "nat \<Rightarrow> int \<Rightarrow> export_error option \<Rightarrow> int \<Rightarrow> (stableSnapshotRegistry \<Rightarrow> stableSnapshotRegistry) \<Rightarrow> exportTicket \<Rightarrow>
    stableSnapshotRegistry \<Rightarrow> (export_error + string) \<times> stableSnapshotRegistry" where
  "registry_export n now interrupted finishedAt others t rg0 =
    (case export_begin now (tk_Snapshot t) rg0 of
       (Inl e, rg) \<Rightarrow> (Inl (Store e), rg)
     | (Inr p, rg1) \<Rightarrow>
         let rg = others rg1;
             outcome = (case interrupted of
                 Some e \<Rightarrow> Inl e
               | None \<Rightarrow>
                   (case ExportSessionJSONL n (en_Snapshot (rg_heap rg ! p)) (tk_SessionID t) (tk_RecordsSHA256 t) of
                      Inl e \<Rightarrow> Inl (Store e) | Inr out \<Rightarrow> Inr out));
             (err, rg') = export_end finishedAt (tk_Snapshot t) p (case outcome of Inl _ \<Rightarrow> Some Fatal | Inr _ \<Rightarrow> None) rg
         in (case (outcome, err) of (Inr _, Some e) \<Rightarrow> Inl (Store e) | _ \<Rightarrow> outcome, rg'))"

definition prepareStableSnapshotExport ::
  "nat \<Rightarrow> bool \<Rightarrow> int \<Rightarrow> export_error option \<Rightarrow> int \<Rightarrow> (stableSnapshotRegistry \<Rightarrow> stableSnapshotRegistry) \<Rightarrow> exportTicket \<Rightarrow>
    stableSnapshotRegistry \<Rightarrow> (export_error + string) \<times> stableSnapshotRegistry" where
  "prepareStableSnapshotExport n temp_ok now interrupted finishedAt others t rg =
    (if temp_ok then registry_export n now interrupted finishedAt others t rg else (Inl NoArtifact, rg))"

text \<open>The environment of one redemption: clock readings, the temporary file, interruption and the other requests.\<close>

record redemption =
  rd_now :: int
  rd_start :: int
  rd_finished :: int
  rd_temp_ok :: bool
  rd_interrupted :: "export_error option"
  rd_others :: "stableSnapshotRegistry \<Rightarrow> stableSnapshotRegistry"

definition plain_export ::
  "(gz \<Rightarrow> nat) \<Rightarrow> (gv \<Rightarrow> string) \<Rightarrow> nat \<Rightarrow> bool \<Rightarrow> db \<Rightarrow> exportTicket \<Rightarrow> string \<times> err option" where
  "plain_export glen sprint n up d t =
    (let sid = (if tk_Scope t = ''session'' then tk_SessionID t else []) in
     if tk_Format t = ''sft'' then ExportTrainingJSONL sprint n up d sid else ExportArchiveJSONL glen n up d sid)"

definition ticketedExport ::
  "(gz \<Rightarrow> nat) \<Rightarrow> (gv \<Rightarrow> string) \<Rightarrow> nat \<Rightarrow> bool \<Rightarrow> db \<Rightarrow> redemption \<Rightarrow> string \<Rightarrow> string \<Rightarrow> ticket_server \<Rightarrow>
    ticket_answer \<times> ticket_server" where
  "ticketedExport glen sprint n up d env method path s =
    (case ticket_lookup method path (rd_now env) (tv_tickets s) of
       Inl a \<Rightarrow> (a, s)
     | Inr t \<Rightarrow>
         if tk_Snapshot t \<noteq> []
         then
           (case tv_registry s of
              Inl e \<Rightarrow> (ticket_error (Store e), s)
            | Inr rg \<Rightarrow>
                if method = ''HEAD''
                then (case validateStableSnapshotExport (rd_start env) t rg of
                        (Some e, rg') \<Rightarrow> (ticket_error e, s\<lparr>tv_registry := Inr rg'\<rparr>)
                      | (None, rg') \<Rightarrow> (HeadOk (tk_Filename t), s\<lparr>tv_registry := Inr rg'\<rparr>))
                else (case prepareStableSnapshotExport n (rd_temp_ok env) (rd_start env) (rd_interrupted env) (rd_finished env)
                            (rd_others env) t rg of
                        (Inl e, rg') \<Rightarrow> (ticket_error e, s\<lparr>tv_registry := Inr rg'\<rparr>)
                      | (Inr out, rg') \<Rightarrow> (Attachment (tk_Filename t) out, s\<lparr>tv_registry := Inr rg'\<rparr>)))
         else if method = ''HEAD'' then (HeadOk (tk_Filename t), s)
         else (Attachment (tk_Filename t) (fst (plain_export glen sprint n up d t)), s))"

section \<open>What is constant about an entry\<close>

text \<open>Everything an export depends on but the question whether the snapshot is still open.\<close>

definition frame :: "stableSnapshotEntry \<Rightarrow> string \<times> int \<times> StableSessionSnapshot" where
  "frame e = (en_ID e, en_ExpiresAt e, Close (en_Snapshot e))"

definition same_entry :: "nat \<Rightarrow> stableSnapshotRegistry \<Rightarrow> stableSnapshotRegistry \<Rightarrow> bool" where
  "same_entry p rg rg' \<longleftrightarrow>
    (if p < length (rg_heap rg) then p < length (rg_heap rg') \<and> frame (rg_heap rg' ! p) = frame (rg_heap rg ! p) else True)"

lemma same_entry_refl: "same_entry p rg rg"
  by (simp add: same_entry_def)

lemma same_entry_trans: "same_entry p rg rg1 \<Longrightarrow> same_entry p rg1 rg2 \<Longrightarrow> same_entry p rg rg2"
  by (auto simp: same_entry_def split: if_splits)

lemma same_entry_update: "(\<And>e. frame (f e) = frame e) \<Longrightarrow> same_entry p rg (update_entry q f rg)"
  by (auto simp: same_entry_def heap_update)

lemma same_entry_snapshots: "same_entry p rg rg' \<Longrightarrow> same_entry p rg (rg'\<lparr>rg_snapshots := x\<rparr>)"
  by (simp add: same_entry_def)

lemma frame_simps [simp]:
  "frame (close_entry e) = frame e" "frame (e\<lparr>en_LastUsedAt := x\<rparr>) = frame e" "frame (e\<lparr>en_ActiveExports := y\<rparr>) = frame e"
  "frame (e\<lparr>en_LastUsedAt := x, en_ActiveExports := y\<rparr>) = frame e" "frame (e\<lparr>en_LastUsedAt := x, en_CursorState := z\<rparr>) = frame e"
  by (simp_all add: frame_def close_entry_def Close_def)

lemma same_entry_touch: "same_entry p rg (touch now q rg)"
  unfolding touch_def by (rule same_entry_update) simp

lemma same_entry_cleanup: "registry_ok rg run \<Longrightarrow> same_entry p rg (cleanupLocked now rg)"
  by (simp add: same_entry_def cleanup_effect(3,4))

lemma same_entry_export_end: "export_end now k q e rg = (e', rg') \<Longrightarrow> same_entry p rg rg'"
  unfolding export_end_def Let_def
  by (auto simp: touch_def split: if_splits
      intro!: same_entry_update same_entry_trans [OF same_entry_update same_entry_update]
        same_entry_trans [OF same_entry_trans [OF same_entry_update same_entry_update] same_entry_trans [OF same_entry_snapshots [OF same_entry_refl] same_entry_update]])

lemma same_entry_create:
  assumes "registry_ok rg run" and "create_entry jd now random lower after limit d q rg = (res, rg', q')"
  shows "same_entry p rg rg'"
proof -
  have "same_entry p (cleanupLocked now rg) rg'"
    using assms(2) by (auto simp: create_entry_def Let_def same_entry_def nth_append split: if_splits prod.splits sum.splits)
  with same_entry_cleanup [OF assms(1)] show ?thesis by (rule same_entry_trans)
qed

lemmas entry_keepers = same_entry_refl same_entry_touch same_entry_cleanup
  same_entry_trans [OF same_entry_cleanup same_entry_touch] same_entry_create same_entry_export_end

lemma registry_step_frame: "registry_step s s' \<Longrightarrow> registry_ok (fst s) (snd s) \<Longrightarrow> same_entry p (fst s) (fst s')"
proof (induction rule: registry_step.induct)
  case (export_starts now k rg q rg' run)
  then show ?case
    by (auto simp: export_begin_def Let_def intro!: same_entry_trans [OF same_entry_cleanup same_entry_update] split: sum.splits)
next
  case (cursor now1 now2 q claims rg res rg' run)
  then show ?case by (auto simp: cursor_of_def intro!: same_entry_update same_entry_refl split: if_splits)
qed (auto simp: get_entry_def getForExport_def export_begin_def validateExport_def resolveCursor_def diagnostics_def Let_def
    intro: entry_keepers split: sum.splits option.splits if_splits)

lemma registry_steps_frame:
  "registry_step\<^sup>*\<^sup>* s s' \<Longrightarrow> registry_ok (fst s) (snd s) \<Longrightarrow> same_entry p (fst s) (fst s')"
proof (induction rule: rtranclp_induct)
  case (step s1 s2)
  from registry_step_frame [OF step.hyps(2) registry_reach [OF step.hyps(1) step.prems]] step.IH [OF step.prems]
  show ?case by (blast intro: same_entry_trans)
qed (rule same_entry_refl)

section \<open>Downloads of a snapshot are verified\<close>

lemma ExportSessionJSONL_digest: "ExportSessionJSONL n sn sid digest = Inr out \<Longrightarrow> sha256_hex out = digest"
  by (auto simp: ExportSessionJSONL_def bind_res_def split: if_splits option.splits sum.splits)

lemma registry_export_digest:
  "registry_export n now i f others t rg = (Inr out, rg') \<Longrightarrow> sha256_hex out = tk_RecordsSHA256 t"
  by (auto simp: registry_export_def Let_def dest: ExportSessionJSONL_digest split: prod.splits sum.splits option.splits)


section \<open>The life of a ticket\<close>

definition header_char :: "char \<Rightarrow> bool" where
  "header_char c \<longleftrightarrow> safe_rune (byte c) \<or> c = CHR ''.''"

lemma safe_encode: "safe_rune r \<Longrightarrow> utf8_encode r = [char_of r] \<and> r mod 256 = r"
  by (auto simp: safe_rune_def utf8_encode_ascii)

lemma safe_archive: "list_all (\<lambda>c. safe_rune (byte c)) ''archive''"
  by code_simp

lemma safeFilename_safe: "list_all (\<lambda>c. safe_rune (byte c)) (safeFilename v)"
proof -
  have "list_all (\<lambda>c. safe_rune (byte c)) (concat (map (\<lambda>r. if safe_rune (rune_of r) then utf8_encode (rune_of r) else []) rs))" for rs
    by (induction rs) (auto simp: safe_encode)
  with safe_archive show ?thesis unfolding safeFilename_def Let_def by presburger
qed

lemma header_literals:
  "list_all header_char ''cpa-''" "list_all header_char ''all-sessions''" "list_all header_char ''session-''" "list_all header_char ''-''"
  "list_all header_char ''archive''" "list_all header_char ''sft''" "list_all header_char ''.jsonl''"
  by code_simp+

lemma ticket_filename_safe:
  assumes "scope = ''session'' \<or> scope = ''all''" and "format = ''archive'' \<or> format = ''sft''"
  shows "list_all header_char (ticket_filename scope sid format)"
proof -
  have "list_all header_char (safeFilename sid)"
    using safeFilename_safe [of sid] by (rule list.pred_mono_strong) (simp add: header_char_def)
  moreover have "list_all header_char format" using assms(2) header_literals(5,6) by blast
  ultimately show ?thesis unfolding ticket_filename_def list_all_append using header_literals by auto
qed

text \<open>A run of the handler either leaves the table alone or answers with the ticket it added.\<close>

definition proper_ticket :: "int \<Rightarrow> exportTicket \<Rightarrow> bool" where
  "proper_ticket now t \<longleftrightarrow> tk_ExpiresAt t \<le> now + half_hour \<and> list_all header_char (tk_Filename t)"

lemma make_ticket_proper:
  assumes "scope = ''session'' \<or> scope = ''all''" and "format = ''archive'' \<or> format = ''sft''"
  shows "proper_ticket now (make_ticket now scope sid format snapshotID bound)"
  using ticket_filename_safe [OF assms] by (simp add: proper_ticket_def make_ticket_def split: option.split prod.split)

lemma issue_cases:
  assumes "issue now random scope sid format snapshotID bound s = (a, s')" and "scope = ''session'' \<or> scope = ''all''"
    and "format = ''archive'' \<or> format = ''sft''"
  shows "(\<exists>msg. a = PlainError 500 msg \<and> s' = s)
    \<or> (\<exists>rnd t b. random = Some rnd \<and> a = Issued (hex_encode (map byte rnd)) (tk_Filename t) (tk_ExpiresAt t) b
        \<and> s' = add_ticket now (hex_encode (map byte rnd)) t s \<and> proper_ticket now t)"
  using assms(1) make_ticket_proper [OF assms(2,3)] by (auto simp: issue_def Let_def split: option.splits)

lemma exportTicket_handler_cases:
  assumes "exportTicket_handler method q d now1 random now2 s = (a, s')"
  shows "(tv_tickets s' = tv_tickets s \<and> (\<forall>token name e b. a \<noteq> Issued token name e b))
    \<or> (\<exists>rnd t b. random = Some rnd \<and> a = Issued (hex_encode (map byte rnd)) (tk_Filename t) (tk_ExpiresAt t) b \<and> proper_ticket now2 t
        \<and> tv_tickets s' = AList.update (hex_encode (map byte rnd)) t (purge_tickets now2 (tv_tickets s)))"
proof -
  consider "tv_tickets s' = tv_tickets s \<and> (\<forall>token name e b. a \<noteq> Issued token name e b)"
    | scope sid format snap bound s0 where "issue now2 random scope sid format snap bound s0 = (a, s')"
        "scope = ''session'' \<or> scope = ''all''" "format = ''archive'' \<or> format = ''sft''" "tv_tickets s0 = tv_tickets s"
    using assms unfolding exportTicket_handler_def Let_def
    by (auto simp: bind_snapshot_def Let_def split: if_splits sum.splits prod.splits option.splits)
  then show ?thesis
  proof cases
    case 2
    from issue_cases [OF 2(1-3)] 2(4) show ?thesis by (auto simp: add_ticket_def)
  qed blast
qed

text \<open>
  The life of the table: the clock does not run backwards, every token is fresh, and the registry may change at any time.
  The state carries the time of the last step and the tokens issued so far with their expiry.
\<close>

inductive ticket_step :: "ticket_server \<times> int \<times> (string \<times> int) list \<Rightarrow> ticket_server \<times> int \<times> (string \<times> int) list \<Rightarrow> bool" where
  issued: "now \<le> now2 \<Longrightarrow> exportTicket_handler method q d now1 random now2 s = (Issued token name e b, s') \<Longrightarrow>
    token \<notin> fst ` set h \<Longrightarrow> ticket_step (s, now, h) (s', now2, (token, e) # h)"
| refused: "now \<le> now2 \<Longrightarrow> exportTicket_handler method q d now1 random now2 s = (a, s') \<Longrightarrow>
    (\<forall>token name e b. a \<noteq> Issued token name e b) \<Longrightarrow> ticket_step (s, now, h) (s', now2, h)"
| other: "now \<le> now2 \<Longrightarrow> ticket_step (s, now, h) (s\<lparr>tv_registry := r\<rparr>, now2, h)"

definition tickets_ok :: "ticket_server \<Rightarrow> int \<Rightarrow> (string \<times> int) list \<Rightarrow> bool" where
  "tickets_ok s now h \<longleftrightarrow>
    distinct (map fst h) \<and> fst ` set (tv_tickets s) \<subseteq> fst ` set h
    \<and> (\<forall>(token, e) \<in> set h. e + half_hour < now
        \<or> (\<exists>t. map_of (tv_tickets s) token = Some t \<and> tk_ExpiresAt t = e \<and> list_all header_char (tk_Filename t)))"

lemma map_of_purge:
  assumes "map_of ts k = Some t" and "\<not> tk_ExpiresAt t + half_hour < now"
  shows "map_of (purge_tickets now ts) k = Some t"
  using assms by (induction ts) (auto simp: purge_tickets_def split: if_splits)

lemma purge_subset: "fst ` set (purge_tickets now ts) \<subseteq> fst ` set ts"
  by (auto simp: purge_tickets_def)

lemma tickets_ok_keep:
  assumes "tickets_ok s now h" and "now \<le> now2" and "tv_tickets s' = tv_tickets s"
  shows "tickets_ok s' now2 h"
proof -
  have "e + half_hour < now2 \<or> (\<exists>t. map_of (tv_tickets s) token = Some t \<and> tk_ExpiresAt t = e \<and> list_all header_char (tk_Filename t))"
    if "(token, e) \<in> set h" for token e
    using assms(1,2) that unfolding tickets_ok_def by fastforce
  with assms show ?thesis unfolding tickets_ok_def by auto
qed

lemma tickets_ok_add:
  assumes "tickets_ok s now h" and "now \<le> now2" and "token \<notin> fst ` set h" and "proper_ticket now2 t"
    and "tv_tickets s' = AList.update token t (purge_tickets now2 (tv_tickets s))"
  shows "tickets_ok s' now2 ((token, tk_ExpiresAt t) # h)"
proof -
  have get: "map_of (tv_tickets s') = (map_of (purge_tickets now2 (tv_tickets s)))(token \<mapsto> t)"
    by (simp add: assms(5) update_conv')
  have "e + half_hour < now2 \<or> (\<exists>t. map_of (tv_tickets s') tok = Some t \<and> tk_ExpiresAt t = e \<and> list_all header_char (tk_Filename t))"
    if m: "(tok, e) \<in> set h" for tok e
  proof (cases "e + half_hour < now2")
    case False
    with m assms(1,2) obtain u where "map_of (tv_tickets s) tok = Some u" "tk_ExpiresAt u = e" "list_all header_char (tk_Filename u)"
      unfolding tickets_ok_def by fastforce
    moreover have "tok \<noteq> token" using m assms(3) by force
    ultimately show ?thesis using map_of_purge [of "tv_tickets s" tok u now2] False by (auto simp: get)
  qed simp
  moreover have "fst ` set (tv_tickets s') \<subseteq> fst ` set ((token, tk_ExpiresAt t) # h)"
    using assms(1) purge_subset [of now2 "tv_tickets s"] by (auto simp: assms(5) dom_update tickets_ok_def)
  ultimately show ?thesis using assms(1,3,4) by (auto simp: tickets_ok_def get proper_ticket_def)
qed

lemma ticket_step_ok:
  "ticket_step x y \<Longrightarrow> tickets_ok (fst x) (fst (snd x)) (snd (snd x)) \<Longrightarrow> tickets_ok (fst y) (fst (snd y)) (snd (snd y))"
proof (induction rule: ticket_step.induct)
  case (issued now now2 mth q d now1 random s token name e b s' h)
  from exportTicket_handler_cases [OF issued.hyps(2)] obtain t where
    "proper_ticket now2 t" "tk_ExpiresAt t = e" "tv_tickets s' = AList.update token t (purge_tickets now2 (tv_tickets s))" by auto
  with tickets_ok_add [of s now h now2 token t s'] issued show ?case by auto
next
  case (refused now now2 mth q d now1 random s a s' h)
  from exportTicket_handler_cases [OF refused.hyps(2)] refused.hyps(3) have "tv_tickets s' = tv_tickets s" by auto
  with tickets_ok_keep [of s now h now2 s'] refused show ?case by auto
qed (auto intro: tickets_ok_keep)

lemma ticket_steps_ok:
  "ticket_step\<^sup>*\<^sup>* x y \<Longrightarrow> tickets_ok (fst x) (fst (snd x)) (snd (snd x)) \<Longrightarrow> tickets_ok (fst y) (fst (snd y)) (snd (snd y))"
  by (induction rule: rtranclp_induct) (auto dest: ticket_step_ok)

definition redeem :: "string \<Rightarrow> int \<Rightarrow> ticket_server \<Rightarrow> ticket_answer + exportTicket" where
  "redeem token t s = ticket_lookup ''GET'' (''/archive-api/v1/exports/'' @ token) t (tv_tickets s)"

lemma redeem_token: "redeem token t s =
    (case map_of (tv_tickets s) token of
       None \<Rightarrow> Inl (JsonError 404 ''invalid export ticket'')
     | Some k \<Rightarrow> if t < tk_ExpiresAt k then Inr k else Inl (JsonError 410 ''export ticket expired''))"
  by (simp add: redeem_def ticket_lookup_def TrimPrefix_def HasPrefix_def)

text \<open>
  C28. A ticket can be redeemed until it expires and is answered as expired for another half hour, whatever tickets are
  issued meanwhile; a token that was never issued is answered as invalid. The file name of a ticket contains only
  letters, digits, hyphens, underscores and dots.
\<close>

theorem ticket_lifetime:
  assumes "tv_tickets s0 = []" and "ticket_step\<^sup>*\<^sup>* (s0, start, []) (s, now, h)" and "now \<le> t"
  shows "\<forall>token e. ((token, e) \<in> set h \<and> t \<le> e + half_hour \<longrightarrow>
        (if t < e then \<exists>k. redeem token t s = Inr k
            \<and> tk_ExpiresAt k = e \<and> list_all header_char (tk_Filename k)
         else redeem token t s = Inl (JsonError 410 ''export ticket expired'')))
    \<and> (token \<notin> fst ` set h \<longrightarrow>
        redeem token t s = Inl (JsonError 404 ''invalid export ticket''))"
proof (intro allI conjI impI)
  have "tickets_ok s0 start []" using assms(1) by (simp add: tickets_ok_def)
  with ticket_steps_ok [OF assms(2)] have ok: "tickets_ok s now h" by simp
  fix token e
  show "redeem token t s = Inl (JsonError 404 ''invalid export ticket'')"
    if "token \<notin> fst ` set h"
  proof -
    have "map_of (tv_tickets s) token = None" using that ok by (auto simp: tickets_ok_def map_of_eq_None_iff)
    then show ?thesis by (simp only: redeem_token option.case)
  qed
  assume "(token, e) \<in> set h \<and> t \<le> e + half_hour"
  moreover from this have "\<not> e + half_hour < now" using assms(3) by simp
  ultimately obtain k where "map_of (tv_tickets s) token = Some k" "tk_ExpiresAt k = e" "list_all header_char (tk_Filename k)"
    using ok unfolding tickets_ok_def by fastforce
  then show "if t < e then \<exists>k. redeem token t s = Inr k
        \<and> tk_ExpiresAt k = e \<and> list_all header_char (tk_Filename k)
     else redeem token t s = Inl (JsonError 410 ''export ticket expired'')"
    by (simp only: redeem_token option.case) simp
qed

section \<open>Examples\<close>

definition ticket_start :: ticket_server where
  "ticket_start = \<lparr>tv_registry = Inl Fatal, tv_tickets = []\<rparr>"

lemma ticket_all_issued:
  "\<exists>s. exportTicket_handler ''GET'' [(''scope'', [''all''])] empty_db 0 (Some ''a'') 0 ticket_start =
    (Issued ''61'' ''cpa-all-sessions-archive.jsonl'' half_hour None, s)"
proof -
  have "TrimSpace ''all'' = ''all''" "TrimSpace [] = []" by (simp_all add: TrimSpace_def runes_ascii rune_of_ascii is_space_def)
  moreover have "hex_encode (map byte ''a'') = ''61''" by code_simp
  ultimately show ?thesis
    by (simp add: exportTicket_handler_def query_get_def issue_def make_ticket_def ticket_filename_def Let_def)
qed

theorem ticket_lifetime_witness:
  "\<exists>s. redeem ''61'' (half_hour + 1) s = Inl (JsonError 410 ''export ticket expired'')
    \<and> redeem ''62'' (half_hour + 1) s = Inl (JsonError 404 ''invalid export ticket'')"
proof -
  obtain s where s: "exportTicket_handler ''GET'' [(''scope'', [''all''])] empty_db 0 (Some ''a'') 0 ticket_start =
      (Issued ''61'' ''cpa-all-sessions-archive.jsonl'' half_hour None, s)"
    using ticket_all_issued by blast
  have "ticket_step\<^sup>*\<^sup>* (ticket_start, 0, []) (s, 0, [(''61'', half_hour)])"
    by (rule r_into_rtranclp) (rule ticket_step.issued [OF _ s], simp_all)
  note l = ticket_lifetime [OF _ this, of "half_hour + 1", rule_format]
  have "(0 :: int) < half_hour" by (simp add: half_hour_def minute_def second_def)
  with l [of "''61''" half_hour] l [of "''62''" half_hour] show ?thesis
    by (intro exI [of _ s]) (simp add: ticket_start_def)
qed

end
