(* ===== verification/Snapshot_Delta.thy ===== *)
theory Snapshot_Delta
  imports Snapshot_Digests
begin

text \<open>
  Incremental snapshots are complete: what a client holds from an earlier full snapshot, updated with the incremental
  snapshot taken after its fence, is the present full snapshot.
\<close>

section \<open>Histories\<close>

lemma archive_step_logged: "archive_step n s s' \<Longrightarrow> logged (fst s) (fst s')"
  using archive_step_cases [of n s s'] refresh_write_eq
  by (auto simp: evolves_def intro: logged_same) (metis logged_same db.select_convs db.surjective db.update_convs)

lemma log_fence_mono:
  assumes "logged d d'"
  shows "log_fence d sid \<le> log_fence d' sid"
proof -
  obtain new where "ingest_events d' = ingest_events d @ new" using assms by (auto simp: logged_def)
  then have "log_fence d' sid = fold max (map ev_sequence (filter (mentions sid) new)) (log_fence d sid)"
    by (simp add: log_fence_def)
  then show ?thesis by (simp add: fold_max_ge(2))
qed

text \<open>An export stays the same as long as no event names its session.\<close>

lemma export_unchanged:
  assumes "archive_reaches n s s'" and "digests_inv n s" and "exportStableSessionJSONL n (fst s) sid = Inr out"
    and "log_fence (fst s') sid \<le> ingest_clock (fst s)"
  shows "exportStableSessionJSONL n (fst s') sid = Inr out \<and> logged (fst s) (fst s')"
  using assms(1,4) unfolding archive_reaches_def
proof (induction rule: rtranclp_induct)
  case base
  then show ?case by (simp add: assms(3) logged_same)
next
  case (step s1 s2)
  have l12: "logged (fst s1) (fst s2)" by (rule archive_step_logged [OF step.hyps(2)])
  with step.prems have "log_fence (fst s1) sid \<le> ingest_clock (fst s)" using log_fence_mono order_trans by blast
  with step.IH have e1: "exportStableSessionJSONL n (fst s1) sid = Inr out" and l1: "logged (fst s) (fst s1)" by auto
  have inv1: "digests_inv n s1"
    by (rule digests_inv_reaches [OF step.hyps(1) [folded archive_reaches_def] assms(2)])
  have "exportStableSessionJSONL n (fst s2) sid = Inr out"
    using archive_step_cases [OF step.hyps(2)]
  proof (elim disjE exE bexE conjE)
    assume ev: "evolves n (fst s1) (fst s2)"
    have fence: "log_fence (fst s2) sid \<le> ingest_clock (fst s1)"
      using step.prems l1 by (auto simp: logged_def)
    have ok: "log_ok (fst s1)" "unique_requests (fst s1)" using inv1 by (simp_all add: digests_inv_def)
    show ?thesis by (rule export_evolves [OF ev ok(2) untouched(1) [OF l12 ok(1) fence] e1])
  next
    fix w assume "s2 = (refresh_write w (fst s1), remove1 w (snd s1))"
    then obtain gs where "fst s2 = (fst s1)\<lparr>export_digests := gs\<rparr>" using refresh_write_eq [of w "fst s1"] by auto
    then show ?thesis using e1 by (simp add: export_digests_irrelevant)
  qed (use e1 in auto)
  with l1 l12 show ?case by (blast intro: logged_trans)
qed

section \<open>Mirrors\<close>

text \<open>What a client holds of a full snapshot, and how it applies an incremental one.\<close>

definition live_map :: "StableSessionSummary list \<Rightarrow> string \<rightharpoonup> StableSessionSummary" where
  "live_map ss = map_of (map (\<lambda>s. (su_session_id s, s)) (filter (\<lambda>s. \<not> su_deleted s) ss))"

definition apply_delta :: "(string \<rightharpoonup> StableSessionSummary) \<Rightarrow> StableSessionSummary list \<Rightarrow> string \<rightharpoonup> StableSessionSummary" where
  "apply_delta m ss sid =
    (case find (\<lambda>s. su_session_id s = sid) ss of
       None \<Rightarrow> m sid
     | Some s \<Rightarrow> if su_deleted s then None else Some s)"

lemma begin_lookup:
  assumes "begin_snapshot sids d q = (Inr sn, q')" and "distinct sids"
  shows "find (\<lambda>s. su_session_id s = sid) (sn_sessions sn) =
    (if sid \<in> set sids then (case scan_session d sid of Inr (Listed s) \<Rightarrow> Some s | _ \<Rightarrow> None) else None)"
proof (cases "sid \<in> set sids")
  case True
  with begin_snapshot_lists(2) [OF assms(1)] obtain s where s: "s \<in> set (sn_sessions sn)" "scan_session d sid = Inr (Listed s)"
    by blast
  then have "su_session_id s = sid" using scan_snapshot_row_Listed(1) by fastforce
  with find_distinct [OF begin_snapshot_distinct [OF assms] s(1)] True s(2) show ?thesis by simp
next
  case False
  have "su_session_id s \<noteq> sid" if "s \<in> set (sn_sessions sn)" for s
    using that False scan_snapshot_row_Listed(1) by (fastforce simp: begin_snapshot_lists(1) [OF assms(1)])
  then have "find (\<lambda>s. su_session_id s = sid) (sn_sessions sn) = None" by (simp add: find_None_iff)
  with False show ?thesis by simp
qed

lemma live_map_find:
  "distinct (map su_session_id ss) \<Longrightarrow>
    live_map ss sid = (case find (\<lambda>s. su_session_id s = sid) ss of
      None \<Rightarrow> None | Some s \<Rightarrow> if su_deleted s then None else Some s)"
proof (induction ss)
  case (Cons s ss)
  have "find (\<lambda>x. su_session_id x = su_session_id s) ss = None" using Cons.prems by (auto simp: find_None_iff) (metis image_eqI)
  with Cons show ?case by (auto simp: live_map_def split: option.splits)
qed (simp add: live_map_def)

text \<open>A full snapshot holds exactly the sessions that have records.\<close>

lemma full_mirror:
  assumes "BeginStableSessionSnapshot jd lower None d q = (Inr sn, q')"
  shows "live_map (sn_sessions sn) sid =
    (if session_rows d sid = [] then None
     else case scan_session d sid of Inr (Listed s) \<Rightarrow> Some s | _ \<Rightarrow> None)"
    and "session_rows d sid \<noteq> [] \<Longrightarrow> \<exists>s. scan_session d sid = Inr (Listed s) \<and> \<not> su_deleted s"
proof -
  have b: "begin_snapshot (full_sessions d) d q = (Inr sn, q')"
    using assms by (simp add: BeginStableSessionSnapshot_def)
  have mem: "sid \<in> set (full_sessions d) \<longleftrightarrow> session_rows d sid \<noteq> []"
    by (auto simp: full_sessions_def session_rows_def filter_empty_conv)
  note d = begin_snapshot_distinct [OF b distinct_selected(1)]
  show ex: "\<exists>s. scan_session d sid = Inr (Listed s) \<and> \<not> su_deleted s" if "session_rows d sid \<noteq> []"
    using begin_snapshot_lists(2) [OF b, of sid] that mem scan_snapshot_row_Listed(2) by fastforce
  show "live_map (sn_sessions sn) sid =
    (if session_rows d sid = [] then None
     else case scan_session d sid of Inr (Listed s) \<Rightarrow> Some s | _ \<Rightarrow> None)"
    unfolding live_map_find [OF d] begin_lookup [OF b distinct_selected(1)] mem
    using ex by (cases "session_rows d sid = []") auto
qed

section \<open>Equal sessions have equal summaries\<close>

lemma fold_min_Min: "fold min xs (x::'a::linorder) = Min (insert x (set xs))"
  using Min.set_eq_fold [of x xs] by simp

lemma min_text_set: "set xs = set ys \<Longrightarrow> min_text xs = min_text ys"
  by (cases xs; cases ys) (auto simp: min_text_def fold_min_Min)

lemma fold_max_Max: "fold max xs (x::'a::linorder) = Max (insert x (set xs))"
  using Max.set_eq_fold [of x xs] by simp

lemma max_text_set: "set xs = set ys \<Longrightarrow> max_text xs = max_text ys"
  by (simp add: max_text_def fold_max_Max)

lemma same_rows_summary:
  assumes "digests_inv n (d, ws)" and "digests_inv n (d', ws')"
    and rows: "set (session_rows d' sid) = set (session_rows d sid)"
    and s: "scan_session d sid = Inr (Listed s)" "\<not> su_deleted s"
    and s': "scan_session d' sid = Inr (Listed s')" "\<not> su_deleted s'"
    and "exportStableSessionJSONL n d' sid = exportStableSessionJSONL n d sid"
  shows "s' = s"
proof -
  have sha: "su_records_sha256 s' = su_records_sha256 s"
    using listed_digest(2) [OF assms(1) s] listed_digest(2) [OF assms(2) s'] assms(8) by auto
  have dist: "distinct (session_rows e sid)" if "digests_inv n (e, w)" for e w
    using that by (auto simp: digests_inv_def unique_requests_def session_rows_def distinct_map)
  have len: "length (session_rows d' sid) = length (session_rows d sid)"
    using rows distinct_card [OF dist [OF assms(1)]] distinct_card [OF dist [OF assms(2)]] by simp
  have "min_text (map started_at (session_rows d' sid)) = min_text (map started_at (session_rows d sid))"
    "max_text (map completed_at (session_rows d' sid)) = max_text (map completed_at (session_rows d sid))"
    using rows by (auto intro: min_text_set max_text_set)
  then have row: "sr_first_at (snapshot_row_of d' (ingest_clock d') sid) = sr_first_at (snapshot_row_of d (ingest_clock d) sid)"
    "sr_last_at (snapshot_row_of d' (ingest_clock d') sid) = sr_last_at (snapshot_row_of d (ingest_clock d) sid)"
    by (simp_all add: snapshot_row_of_def Let_def)
  show ?thesis
    using s s' sha len row
    by (auto simp: scan_snapshot_row_def split: if_splits option.splits)
qed

section \<open>Incremental snapshots are complete\<close>

lemma changed_mentions:
  assumes "logged d d'" and "log_ok d'" and "sid \<notin> set (changed_sessions d' (ingest_clock d) (ingest_clock d'))"
    and "sid \<noteq> []"
  shows "log_fence d' sid \<le> ingest_clock d"
  unfolding log_fence_def
proof (rule fold_max_le_all)
  fix k assume "k \<in> set (map ev_sequence (filter (mentions sid) (ingest_events d')))"
  then obtain e where e: "e \<in> set (ingest_events d')" "mentions sid e" "k = ev_sequence e" by auto
  with assms(2) have "ev_sequence e \<le> ingest_clock d'" by (simp add: log_ok_def)
  then show "k \<le> ingest_clock d"
    using assms(3,4) e by (fastforce simp: changed_sessions_def Let_def mentions_def)
qed simp

lemma archive_reaches_logged: "archive_reaches n s s' \<Longrightarrow> logged (fst s) (fst s')"
  unfolding archive_reaches_def
  by (induction rule: rtranclp_induct) (auto intro: logged_same logged_trans archive_step_logged)

text \<open>A session without an id is on neither list, and one that did not change is on both as it was.\<close>

lemma mirror_blank:
  assumes "BeginStableSessionSnapshot jd lower None d q = (Inr old, q')" and "BeginStableSessionSnapshot jd lower None d' q2 = (Inr new, q2')"
  shows "live_map (sn_sessions old) [] = live_map (sn_sessions new) []"
proof -
  have "\<not> validStableSessionID []" by (simp add: validStableSessionID_def)
  then have "session_rows d [] = []" "session_rows d' [] = []"
    using full_mirror(2) [OF assms(1), of "[]"] full_mirror(2) [OF assms(2), of "[]"] scan_snapshot_row_Listed(3)
    by fastforce+
  then show ?thesis unfolding full_mirror(1) [OF assms(1)] full_mirror(1) [OF assms(2)] by simp
qed

lemma mirror_unchanged:
  assumes inv: "digests_inv n (d, ws)" and inv': "digests_inv n (d', ws')" and log: "logged d d'"
    and run: "archive_reaches n (d, ws) (d', ws')"
    and old: "BeginStableSessionSnapshot jd lower None d q = (Inr old, q')"
    and new: "BeginStableSessionSnapshot jd lower None d' q2 = (Inr new, q2')"
    and ne: "sid \<noteq> []" and same: "sid \<notin> set (changed_sessions d' (ingest_clock d) (ingest_clock d'))"
  shows "live_map (sn_sessions old) sid = live_map (sn_sessions new) sid"
proof -
  have f: "log_fence d' sid \<le> ingest_clock d"
    using inv' by (intro changed_mentions [OF log _ same ne]) (simp add: digests_inv_def)
  have rows: "set (session_rows d' sid) = set (session_rows d sid)"
    using inv by (intro untouched(1) [OF log _ f]) (simp add: digests_inv_def)
  then have empty: "session_rows d' sid = [] \<longleftrightarrow> session_rows d sid = []" by (metis set_empty)
  show ?thesis
  proof (cases "session_rows d sid = []")
    case True
    with empty show ?thesis unfolding full_mirror(1) [OF old] full_mirror(1) [OF new] by simp
  next
    case live: False
    from full_mirror(2) [OF old live] obtain s where s: "scan_session d sid = Inr (Listed s)" "\<not> su_deleted s" by blast
    from full_mirror(2) [OF new] live empty obtain s' where
      s': "scan_session d' sid = Inr (Listed s')" "\<not> su_deleted s'" by blast
    obtain out where out: "exportStableSessionJSONL n d sid = Inr out" using listed_digest(2) [OF inv s] by blast
    with export_unchanged [OF run inv, of sid out] f have "exportStableSessionJSONL n d' sid = Inr out" by simp
    with out have "s' = s" by (intro same_rows_summary [OF inv inv' rows s s']) simp
    with s s' live empty show ?thesis unfolding full_mirror(1) [OF old] full_mirror(1) [OF new] by simp
  qed
qed

text \<open>
  C11. Incremental snapshots are complete. Take a full snapshot, let the archive run on, take an incremental snapshot after
  the fence of the first and a full one of the same state: the first listing with every session of the increment replaced,
  and its tombstones removed, is exactly the second listing, digests included. No change and no deletion is missed, whatever
  the lower bound on completion times.
\<close>

theorem delta_completes_mirror:
  assumes "archive_reaches n (empty_db\<lparr>sql_now := now\<rparr>, []) (d, ws)" and "archive_reaches n (d, ws) (d', ws')"
    and "BeginStableSessionSnapshot jd lower None d q = (Inr old, q')"
    and "BeginStableSessionSnapshot jd lower (Some (int (sn_ingestFence old))) d' q1 = (Inr delta, q1')"
    and "BeginStableSessionSnapshot jd lower None d' q2 = (Inr new, q2')"
  shows "apply_delta (live_map (sn_sessions old)) (sn_sessions delta) = live_map (sn_sessions new)"
proof
  fix sid
  have inv: "digests_inv n (d, ws)" by (rule digests_inv_reaches [OF assms(1) digests_inv_empty])
  have inv': "digests_inv n (d', ws')" by (rule digests_inv_reaches [OF assms(2) inv])
  have log: "logged d d'" using archive_reaches_logged [OF assms(2)] by simp
  have fence: "sn_ingestFence old = ingest_clock d"
    using assms(3) by (auto simp: BeginStableSessionSnapshot_def elim: begin_snapshot_run)
  let ?ids = "delta_sessions jd (canonicalTimestamp lower) d' (ingest_clock d) (ingest_clock d')"
  have b: "begin_snapshot ?ids d' q1 = (Inr delta, q1')"
    using assms(4) by (auto simp: BeginStableSessionSnapshot_def fence split: if_splits)
  note find = begin_lookup [OF b distinct_selected(2), of sid]
  show "apply_delta (live_map (sn_sessions old)) (sn_sessions delta) sid = live_map (sn_sessions new) sid"
  proof (cases "sid \<in> set ?ids")
    case True
    from begin_snapshot_lists(2) [OF b True] obtain s where s: "scan_session d' sid = Inr (Listed s)" by blast
    have "su_deleted s \<longleftrightarrow> session_rows d' sid = []" using scan_snapshot_row_Listed(2) [OF s] by simp
    then show ?thesis
      unfolding apply_delta_def find full_mirror(1) [OF assms(5)] using True by (simp add: s)
  next
    case False
    then have eq: "apply_delta (live_map (sn_sessions old)) (sn_sessions delta) sid = live_map (sn_sessions old) sid"
      by (simp add: apply_delta_def find)
    have "sid \<notin> set (changed_sessions d' (ingest_clock d) (ingest_clock d'))"
      using False by (auto simp: delta_sessions_def Let_def)
    with eq show ?thesis
      using mirror_blank [OF assms(3,5)] mirror_unchanged [OF inv inv' log assms(2,3,5)] by (cases "sid = []") simp_all
  qed
qed

section \<open>Witnesses\<close>

definition timed_record :: Record where
  "timed_record = sample_record\<lparr>StartedAt := ''2026-01-02T03:04:05Z'', CompletedAt := ''2026-01-02T03:04:05Z''\<rparr>"

lemma timed_record_row:
  assumes "r = resolveIdentity (\<lambda>_. []) idx timed_record"
  shows "RequestID r = ''q''" "SessionID r = ''s''" "StartedAt r = ''2026-01-02T03:04:05Z''"
    "CompletedAt r = ''2026-01-02T03:04:05Z''" "OriginalRequest r = []" "UpstreamRequest r = []" "Response r = []"
proof -
  have "anonymous r = anonymous timed_record" using assms by (simp add: resolveIdentity_anonymous)
  then have "StartedAt (anonymous r) = StartedAt (anonymous timed_record)"
    "CompletedAt (anonymous r) = CompletedAt (anonymous timed_record)" by simp_all
  then show "StartedAt r = ''2026-01-02T03:04:05Z''" "CompletedAt r = ''2026-01-02T03:04:05Z''"
    by (simp_all add: anonymous_def timed_record_def)
qed (simp_all add: assms resolveIdentity_keeps timed_record_def sample_record_def blank_record_def)

lemma timed_batch:
  obtains d row where "PutBatch (\<lambda>_. []) False [timed_record] empty_db = Inr d" and "records d = [row]"
    and "session_id row = ''s''" and "request_id row = ''q''" and "started_at row = ''2026-01-02T03:04:05Z''"
    and "completed_at row = ''2026-01-02T03:04:05Z''" and "original_ref row = []" and "upstream_ref row = []"
    and "response_ref row = []" and "ingest_clock d = 1" and "export_digests d = []" and "tombstone_safe_after d = 0"
    and "map (\<lambda>e. (ev_sequence e, ev_session_id e, ev_previous_session_id e)) (ingest_events d) = [(1, ''s'', [])]"
proof -
  define r where "r = resolveIdentity (\<lambda>_. []) (credentialPrincipalIndex empty_db) timed_record"
  note r = timed_record_row [OF r_def]
  define row where "row = row_of r [] [] []"
  define d4 where "d4 = insert_record row empty_db"
  have e: "putPayload [] d = ([], d)" for d by (simp add: putPayload_def)
  have up: "upsert_record (merge_record row) row empty_db = d4" by (simp add: upsert_record_def d4_def empty_db_def)
  obtain ts where ts: "put_turn ''q'' (compactTurnFacets (Facets r)) d4 = Inr (d4\<lparr>turn_records := ts\<rparr>)"
  proof -
    have "turn_records d4 = []" by (simp add: d4_def insert_record_fires row_simps empty_db_def del: fires_simps)
    then have "\<exists>x. put_turn ''q'' (compactTurnFacets (Facets r)) d4 = Inr x"
      by (simp add: put_turn_def split: option.split)
    then show ?thesis using that put_turn_only_turns by blast
  qed
  let ?d = "indexSessionRecord r (put_record_facets ''q'' (Facets r) (d4\<lparr>turn_records := ts\<rparr>))"
  have run: "PutBatch (\<lambda>_. []) False [timed_record] empty_db = Inr ?d"
    by (simp add: PutBatch_def put_record_def Let_def r r_def [symmetric] e row_def [symmetric] up ts)
  have k: "records ?d = [row\<lparr>r_id := 1\<rparr>]" "ingest_clock ?d = 1"
    "map (\<lambda>e. (ev_sequence e, ev_session_id e, ev_previous_session_id e)) (ingest_events ?d) = [(1, session_id row, [])]"
    by (simp_all add: row_simps put_record_facets_def d4_def insert_record_def empty_db_def next_id_def)
  have "export_digests ?d = []" "tombstone_safe_after ?d = 0"
    by (simp_all add: indexSessionRecord_def put_record_facets_def d4_def insert_record_def empty_db_def row_simps)
  then show thesis using that [OF run k(1) _ _ _ _ _ _ _ k(2)] k(3) r by (simp add: row_def row_of_def)
qed

lemma timed_history:
  obtains d full delta where "archive_reaches 0 (empty_db, []) (d, [])" and "ingest_clock d = 1"
    and "BeginStableSessionSnapshot (\<lambda>_ _. False) zero_time None d [] = (Inr full, [])"
    and "BeginStableSessionSnapshot (\<lambda>_ _. False) zero_time (Some 0) d [] = (Inr delta, [])"
    and "\<exists>s \<in> set (sn_sessions full). \<not> su_deleted s \<and> su_session_id s = ''s''"
proof -
  from timed_batch obtain d row where b: "PutBatch (\<lambda>_. []) False [timed_record] empty_db = Inr d" and "records d = [row]"
    and row: "session_id row = ''s''" "request_id row = ''q''" "started_at row = ''2026-01-02T03:04:05Z''"
     "completed_at row = ''2026-01-02T03:04:05Z''" "original_ref row = []" "upstream_ref row = []"
     "response_ref row = []" and clock: "ingest_clock d = 1" "export_digests d = []" "tombstone_safe_after d = 0"
    and ev: "map (\<lambda>e. (ev_sequence e, ev_session_id e, ev_previous_session_id e)) (ingest_events d) = [(1, ''s'', [])]"
    by blast
  note recs = \<open>records d = [row]\<close>
  from ev obtain e where e: "ingest_events d = [e]" "ev_sequence e = 1" "ev_session_id e = ''s''" "ev_previous_session_id e = []"
    by auto
  have rows: "session_rows d ''s'' = [row]" by (simp add: session_rows_def recs row)
  have "\<exists>out. exportStableSessionJSONL 0 d ''s'' = Inr out"
    by (simp add: exportStableSessionJSONL_def rows requestWithQuery_def find_record_def recs row load_row_def
        column_payload_def)
  then obtain out where out: "exportStableSessionJSONL 0 d ''s'' = Inr out" by blast
  define g where "g = \<lparr>dg_session_id = ''s'', dg_requests = 1, dg_first_at = started_at row, dg_last_at = max_text [completed_at row],
    dg_records_sha256 = sha256_hex out, dg_max_ingest_sequence = 1\<rparr>"
  have read: "refresh_read 0 d ''s'' = Inr (StoreDigest g)"
    by (simp add: refresh_read_def rows out e mentions_def g_def min_text_def)
  let ?d = "d\<lparr>export_digests := [g]\<rparr>"
  have wr: "refresh_write (StoreDigest g) d = ?d"
    by (simp add: refresh_write_def g_def e mentions_def upsert_def clock)
  have "archive_step 0 (empty_db, []) (d, [])" using b by (rule archive_step.batch)
  moreover have "archive_step 0 (d, []) (d, [StoreDigest g])" using read by (rule archive_step.digest_read)
  moreover have "archive_step 0 (d, [StoreDigest g]) (?d, [])"
    using archive_step.digest_write [of "StoreDigest g" "[StoreDigest g]" 0 d] by (simp add: wr)
  ultimately have reach: "archive_reaches 0 (empty_db, []) (?d, [])"
    unfolding archive_reaches_def by (meson r_into_rtranclp rtranclp_trans)
  obtain t where t: "Parse_time ''2026-01-02T03:04:05Z'' = Some t" using one_session_time by blast
  have srow: "snapshot_row_of ?d 1 ''s'' =
      \<lparr>sr_session_id = ''s'', sr_requests = 1, sr_first_at = ''2026-01-02T03:04:05Z'', sr_last_at = ''2026-01-02T03:04:05Z'',
       sr_session_fence = 1, sr_records_sha256 = sha256_hex out, sr_digest_fence = 1, sr_deleted = False,
       sr_changed_at = ev_recorded_at e\<rparr>"
    by (simp add: snapshot_row_of_def session_rows_def recs row session_fence_def session_events_def mentions_def e
        find_digest_def g_def min_text_def max_text_def max_def)
  have ids: "full_sessions ?d = [''s'']"
    "delta_sessions (\<lambda>_ _. False) (canonicalTimestamp zero_time) ?d 0 1 = [''s'']"
    by (simp_all add: full_sessions_def recs row delta_sessions_def changed_sessions_def e)
  have "\<exists>sn. begin_snapshot [''s''] ?d [] = (Inr sn, [])
      \<and> (\<exists>s \<in> set (sn_sessions sn). \<not> su_deleted s \<and> su_session_id s = ''s'')"
    by (simp add: begin_snapshot_def clock srow sort_by_def scan_snapshot_row_def validStableSessionID_def t
        length_sha256_hex hex_valid_sha256_hex missing_def listed_def List.map_filter_def Let_def
        del: One_nat_def snapshot_row_of_simps)
  then obtain sn where sn: "begin_snapshot [''s''] ?d [] = (Inr sn, [])"
    "\<exists>s \<in> set (sn_sessions sn). \<not> su_deleted s \<and> su_session_id s = ''s''" by blast
  show thesis
    by (rule that [OF reach, of sn sn])
      (use sn ids clock in \<open>simp_all add: BeginStableSessionSnapshot_def del: One_nat_def\<close>)
qed

theorem snapshot_exports_verify_witness:
  "\<exists>sn s out. s \<in> set (sn_sessions sn) \<and> su_session_id s = ''s''
    \<and> ExportSessionJSONL 0 sn ''s'' (su_records_sha256 s) = Inr out \<and> sha256_hex out = su_records_sha256 s"
proof -
  obtain d full delta where h: "archive_reaches 0 (empty_db, []) (d, [])" and "ingest_clock d = 1"
    and f: "BeginStableSessionSnapshot (\<lambda>_ _. False) zero_time None d [] = (Inr full, [])"
    and "BeginStableSessionSnapshot (\<lambda>_ _. False) zero_time (Some 0) d [] = (Inr delta, [])"
    and ex: "\<exists>s \<in> set (sn_sessions full). \<not> su_deleted s \<and> su_session_id s = ''s''"
    by (rule timed_history)
  from ex obtain s where s: "s \<in> set (sn_sessions full)" "\<not> su_deleted s" "su_session_id s = ''s''" by blast
  have "empty_db\<lparr>sql_now := sql_now empty_db\<rparr> = empty_db" by simp
  with snapshot_exports_verify [of 0 "sql_now empty_db" d "[]", OF _ f s(1,2)] h s show ?thesis by auto
qed

theorem delta_completes_mirror_witness:
  "\<exists>(delta :: StableSessionSnapshot) (full :: StableSessionSnapshot).
    apply_delta Map.empty (sn_sessions delta) = live_map (sn_sessions full) \<and> live_map (sn_sessions full) \<noteq> Map.empty"
proof -
  obtain d full delta where h: "archive_reaches 0 (empty_db, []) (d, [])" "ingest_clock d = 1"
    "BeginStableSessionSnapshot (\<lambda>_ _. False) zero_time None d [] = (Inr full, [])"
    "BeginStableSessionSnapshot (\<lambda>_ _. False) zero_time (Some 0) d [] = (Inr delta, [])"
    "\<exists>s \<in> set (sn_sessions full). \<not> su_deleted s \<and> su_session_id s = ''s''" by (rule timed_history)
  have empty: "\<exists>old. BeginStableSessionSnapshot (\<lambda>_ _. False) zero_time None empty_db [] = (Inr old, [])
      \<and> sn_ingestFence old = 0 \<and> sn_sessions old = []"
    by (simp add: BeginStableSessionSnapshot_def begin_snapshot_def full_sessions_def empty_db_def sort_by_def missing_def
        listed_def List.map_filter_def)
  then obtain old where old: "BeginStableSessionSnapshot (\<lambda>_ _. False) zero_time None empty_db [] = (Inr old, [])"
    "sn_ingestFence old = 0" "sn_sessions old = []" by blast
  have e: "empty_db\<lparr>sql_now := sql_now empty_db\<rparr> = empty_db" by simp
  have "archive_reaches 0 (empty_db, []) (empty_db, [])" by (simp add: archive_reaches_def)
  with delta_completes_mirror [of 0 "sql_now empty_db" empty_db "[]", OF _ h(1) old(1) _ h(3), of "[]" delta "[]"] h(4)
  have eq: "apply_delta (live_map (sn_sessions old)) (sn_sessions delta) = live_map (sn_sessions full)"
    by (simp add: old(2) e)
  from h(5) obtain s where "s \<in> set (sn_sessions full)" "\<not> su_deleted s" by blast
  then have "live_map (sn_sessions full) \<noteq> Map.empty" by (auto simp: live_map_def filter_empty_conv)
  moreover have "live_map (sn_sessions old) = Map.empty" by (simp add: old(3) live_map_def)
  ultimately show ?thesis using eq by (intro exI [of _ delta] exI [of _ full]) simp
qed

end
