(* ===== verification/Endpoint_Walk.thy ===== *)
theory Endpoint_Walk
  imports Registry_Safety
begin

text \<open>
  A client that follows the \<open>next_cursor\<close> of the endpoint: the tokens it receives lead it through the whole snapshot.
\<close>

section \<open>Tokens are acceptable cursors\<close>

lemma b64_encode_length: "length (b64_encode s) = 4 * ((length s + 2) div 3)"
proof (induction s rule: b64_encode.induct)
  case (4 a b c rest)
  have "(5 + length rest) div 3 = Suc ((2 + length rest) div 3)" by presburger
  with 4 show ?case by (simp add: Let_def)
qed (simp_all add: Let_def)

lemma b64_encode_first: "s \<noteq> [] \<Longrightarrow> \<exists>c rest. b64_encode s = c # rest \<and> c \<noteq> CHR ''=''"
  by (cases s rule: b64_encode.cases)
    (auto simp: Let_def intro!: b64char_not_pad less_mult_imp_div_less order.strict_trans2 [OF byte_less_256])

lemma b64_rawurl_ok: "length s = 32 \<Longrightarrow> b64_rawurl s \<noteq> [] \<and> length (b64_rawurl s) \<le> 128"
proof -
  assume l: "length s = 32"
  then obtain c rest where "b64_encode s = c # rest" "c \<noteq> CHR ''=''" using b64_encode_first [of s] by force
  then have "b64_rawurl s \<noteq> []" by (simp add: b64_rawurl_def)
  moreover have "length (b64_rawurl s) \<le> length (b64_encode s)"
    by (simp add: b64_rawurl_def length_filter_le)
  ultimately show ?thesis using l b64_encode_length [of s] by simp
qed

lemma cursor_token_ok: "cursor_token rg claims \<noteq> [] \<and> length (cursor_token rg claims) \<le> 128"
  unfolding cursor_token_def by (rule b64_rawurl_ok) (simp add: hmac_sha256_def length_sha256)

section \<open>Following the tokens\<close>

text \<open>\<open>clock k\<close> are the readings of the request with \<open>k\<close> requests to go.\<close>

fun follow :: "nat \<Rightarrow> (nat \<Rightarrow> nat \<Rightarrow> int) \<Rightarrow> nat \<Rightarrow> stable_query \<Rightarrow> stableSnapshotRegistry \<Rightarrow> StableSessionSummary list list option" where
  "follow 0 clock p sq rg = None"
| "follow (Suc k) clock p sq rg =
    (case answer_page (clock k) p sq rg of
       (PageResponse md page True nxt, rg') \<Rightarrow> Some [page]
     | (PageResponse md page False (Some token), rg') \<Rightarrow>
         map_option (\<lambda>pages. page # pages) (follow k clock p (sq\<lparr>sq_cursor := token\<rparr>) rg')
     | _ \<Rightarrow> None)"

text \<open>What the walk relies on: the entry is registered, has not expired, and lists distinct sessions.\<close>

definition served :: "stableSnapshotRegistry \<Rightarrow> nat \<Rightarrow> stableSnapshotEntry \<Rightarrow> bool" where
  "served rg p e \<longleftrightarrow>
    p < length (rg_heap rg) \<and> map_of (rg_snapshots rg) (en_ID e) = Some p \<and>
    en_ID (rg_heap rg ! p) = en_ID e \<and> en_LowerBound (rg_heap rg ! p) = en_LowerBound e
    \<and> en_AfterFence (rg_heap rg ! p) = en_AfterFence e \<and> en_Limit (rg_heap rg ! p) = en_Limit e
    \<and> en_ExpiresAt (rg_heap rg ! p) = en_ExpiresAt e \<and> en_Snapshot (rg_heap rg ! p) = en_Snapshot e"

lemma served_update:
  assumes "served rg p e" and "harmless f"
    and "\<And>x. en_LowerBound (f x) = en_LowerBound x \<and> en_AfterFence (f x) = en_AfterFence x \<and> en_Limit (f x) = en_Limit x
      \<and> en_ExpiresAt (f x) = en_ExpiresAt x"
  shows "served (update_entry p f rg) p e"
  using assms by (simp add: served_def heap_update harmless_def)

lemma served_live: "served rg p e \<Longrightarrow> now < en_ExpiresAt e \<Longrightarrow> \<not> entry_gone now p rg"
  by (simp add: served_def entry_gone_def)

lemma next_claims_served: "served rg p e \<Longrightarrow> next_claims (rg_heap rg ! p) s = next_claims e s"
  by (simp add: next_claims_def served_def)

text \<open>The cursor with which page \<open>i\<close> is asked for is known to the entry.\<close>

definition knows :: "stableSnapshotRegistry \<Rightarrow> nat \<Rightarrow> stableSnapshotEntry \<Rightarrow> nat \<Rightarrow> string \<Rightarrow> bool" where
  "knows rg p e i cur \<longleftrightarrow>
    (if i = 0 then cur = []
     else cur \<noteq> [] \<and> length cur \<le> 128
       \<and> map_of (en_CursorState (rg_heap rg ! p)) cur = Some (next_claims e (sn_sessions (en_Snapshot e) ! (i - 1))))"

lemma position_known:
  assumes "served rg p e" and "knows rg p e i cur" and "\<forall>j. clock j < en_ExpiresAt e"
  shows "\<exists>rg'. cursor_position clock p cur rg = (Inr (cursor_at (sn_sessions (en_Snapshot e)) i), rg') \<and> served rg' p e
    \<and> rg_secret rg' = rg_secret rg"
proof (cases "i = 0")
  case True
  with assms(1,2) show ?thesis by (simp add: knows_def cursor_position_def cursor_at_def)
next
  case False
  have s: "served (touch (clock 2) p rg) p e"
    unfolding touch_def by (rule served_update [OF assms(1) harmless_touch]) simp
  have "resolveCursor (clock 1) (clock 2) p cur rg =
      (Inr (next_claims e (sn_sessions (en_Snapshot e) ! (i - 1))), touch (clock 2) p rg)"
    using False assms(2) served_live [OF assms(1)] assms(3) by (simp add: resolveCursor_def knows_def)
  moreover have "cur \<noteq> []" using False assms(2) by (simp add: knows_def)
  ultimately show ?thesis
    using s False by (simp add: cursor_position_def served_def next_claims_def cursor_at_def touch_def)
qed

lemma follow_from:
  assumes "\<forall>k j. clock k j < en_ExpiresAt e" and "\<not> sn_closed (en_Snapshot e)" and "1 \<le> en_Limit e"
    and "distinct (map su_session_id (sn_sessions (en_Snapshot e)))"
    and "[] \<notin> su_session_id ` set (sn_sessions (en_Snapshot e))"
  shows "served rg p e \<Longrightarrow> knows rg p e i (sq_cursor sq) \<Longrightarrow> sq_limit sq = en_Limit e \<Longrightarrow> \<not> sq_metadataTouch sq \<Longrightarrow>
    i \<le> length (sn_sessions (en_Snapshot e)) \<Longrightarrow> length (sn_sessions (en_Snapshot e)) - i < k \<Longrightarrow>
    \<exists>pages. follow k clock p sq rg = Some pages \<and> concat pages = drop i (sn_sessions (en_Snapshot e))"
proof (induction k arbitrary: rg i sq)
  case (Suc k)
  let ?ss = "sn_sessions (en_Snapshot e)"
  let ?j = "i + nat (en_Limit e)"
  have clock: "\<forall>j. clock k j < en_ExpiresAt e" using assms(1) by blast
  obtain rg1 where pos: "cursor_position (clock k) p (sq_cursor sq) rg = (Inr (cursor_at ?ss i), rg1)" and s1: "served rg1 p e"
    using position_known [OF Suc.prems(1,2) clock] by blast
  have snap: "en_Snapshot (rg_heap rg1 ! p) = en_Snapshot e" using s1 by (simp add: served_def)
  note page = Page_at [OF assms(2,3) Suc.prems(5) assms(4,5)]
  show ?case
  proof (cases "length ?ss \<le> ?j")
    case True
    with page pos snap Suc.prems(3,4) show ?thesis
      by (cases "cursor_at ?ss i") (simp add: answer_page_def Let_def)
  next
    case False
    let ?s = "?ss ! (?j - 1)"
    let ?tok = "cursor_token rg1 (next_claims e ?s)"
    let ?f = "\<lambda>x. x\<lparr>en_LastUsedAt := clock k 4, en_CursorState := AList.update ?tok (next_claims e ?s) (en_CursorState x)\<rparr>"
    let ?rg2 = "update_entry p ?f rg1"
    have cur: "cursor_of (clock k 3) (clock k 4) p (next_claims e ?s) rg1 = (Inr ?tok, ?rg2)"
      using served_live [OF s1] clock by (simp add: cursor_of_def)
    have ans: "answer_page (clock k) p sq rg =
        (PageResponse (Obj (stableSnapshotMetadata (rg_heap rg1 ! p))) (take (nat (en_Limit e)) (drop i ?ss)) False (Some ?tok), ?rg2)"
      using False page pos snap Suc.prems(3,4) cur
      by (cases "cursor_at ?ss i") (simp add: answer_page_def Let_def next_claims_served [OF s1])
    have s2: "served ?rg2 p e" by (rule served_update [OF s1 harmless_cursor]) simp
    have "knows ?rg2 p e ?j ?tok"
      using cursor_token_ok [of rg1 "next_claims e ?s"] s1 assms(3)
      by (simp add: knows_def served_def heap_update update_conv)
    moreover have "length ?ss - ?j < k" using False Suc.prems(6) assms(3) by linarith
    ultimately obtain pages where "follow k clock p (sq\<lparr>sq_cursor := ?tok\<rparr>) ?rg2 = Some pages" "concat pages = drop ?j ?ss"
      using Suc.IH [OF s2, of ?j "sq\<lparr>sq_cursor := ?tok\<rparr>"] Suc.prems(3,4) False by auto
    moreover have "take (nat (en_Limit e)) (drop i ?ss) @ drop ?j ?ss = drop i ?ss"
      by (metis add.commute append_take_drop_id drop_drop)
    ultimately show ?thesis by (simp add: ans)
  qed
qed simp


section \<open>Witnesses\<close>

definition sample_registry :: stableSnapshotRegistry where
  "sample_registry = \<lparr>rg_secret = ''k'', rg_ttl = 15 * minute, rg_idleTTL = 2 * minute, rg_maxActive = 1,
     rg_heap = [], rg_snapshots = []\<rparr>"

lemma sample_registry_new: "newStableSnapshotRegistry ''k'' (15 * minute) (2 * minute) 1 = Inr sample_registry"
  by (simp add: newStableSnapshotRegistry_def sample_registry_def minute_def hour_def second_def)

lemma sample_create:
  obtains rg where "create_entry (\<lambda>_ _. False) 0 ''r'' zero_time (Some 0) 1 one_session_db [] sample_registry = (Inr 0, rg, [])"
    and "en_ExpiresAt (rg_heap rg ! 0) = 15 * minute" and "map_of (rg_snapshots rg) (b64_rawurl ''r'') = Some 0"
proof -
  obtain sn where "BeginStableSessionSnapshot (\<lambda>_ _. False) zero_time (Some 0) one_session_db [] = (Inr sn, [])"
    using one_session_begin by blast
  then obtain rg where "create_entry (\<lambda>_ _. False) 0 ''r'' zero_time (Some 0) 1 one_session_db [] sample_registry = (Inr 0, rg, [])"
    and "en_ExpiresAt (rg_heap rg ! 0) = 15 * minute \<and> map_of (rg_snapshots rg) (b64_rawurl ''r'') = Some 0"
    by (auto simp add: create_entry_def cleanupLocked_def sample_registry_def Let_def)
  then show thesis using that by blast
qed



end
