(* ===== verification/Ticket_Redeem.thy ===== *)
theory Ticket_Redeem
  imports Tickets Snapshot_Delta Endpoint_Walk
begin

text \<open>
  The composition of archive, digests, snapshots, registry and tickets: a ticket that is issued for a session of a snapshot
  is redeemed with the bytes whose digest the snapshot lists.
\<close>

lemma find_member: "find P xs = Some x \<Longrightarrow> P x \<and> x \<in> set xs"
  by (auto simp: find_Some_iff)

lemma open_Close_eq: "Close a = Close b \<Longrightarrow> \<not> sn_closed a \<Longrightarrow> \<not> sn_closed b \<Longrightarrow> a = b"
  by (cases a; cases b) (simp add: Close_def)

lemma stable_ticket_issued:
  assumes "exportTicket_handler method q d now1 random now2 s = (Issued token name e (Some (key, digest)), s1)"
    and "tv_registry s = Inr rg"
  obtains rg1 ex t where "key \<noteq> []" "bind_snapshot now1 key (tk_SessionID t) rg = (Inr (digest, ex), rg1)"
    "s1 = add_ticket now2 token t (s\<lparr>tv_registry := Inr rg1\<rparr>)"
    "tk_Snapshot t = key" "tk_RecordsSHA256 t = digest" "tk_Filename t = name" "tk_ExpiresAt t = e"
proof -
  from assms(1) have m: "method = ''GET''" unfolding exportTicket_handler_def Let_def by (auto split: if_splits)
  have none: "issue now2 random scope sid format [] None s \<noteq> (Issued token name e (Some (key, digest)), s1)" for scope sid format
    by (auto simp: issue_def Let_def split: option.splits)
  let ?sid = "TrimSpace (query_get q ''session_id'')" and ?snap = "TrimSpace (query_get q ''snapshot'')"
  from assms none obtain rg1 digest' ex where
    b: "?snap \<noteq> []" "bind_snapshot now1 ?snap ?sid rg = (Inr (digest', ex), rg1)"
    and i: "issue now2 random ''session'' ?sid ''archive'' ?snap (Some (digest', ex)) (s\<lparr>tv_registry := Inr rg1\<rparr>)
      = (Issued token name e (Some (key, digest)), s1)"
    unfolding exportTicket_handler_def Let_def
    by (fastforce simp: bind_snapshot_def Let_def split: if_splits sum.splits prod.splits option.splits)
  let ?t = "make_ticket now2 ''session'' ?sid ''archive'' ?snap (Some (digest', ex))"
  from i have "key = ?snap" "digest = digest'" "s1 = add_ticket now2 token ?t (s\<lparr>tv_registry := Inr rg1\<rparr>)"
    "tk_Filename ?t = name" "tk_ExpiresAt ?t = e"
    by (auto simp: issue_def Let_def make_ticket_def split: option.splits)
  moreover have "tk_Snapshot ?t = ?snap" "tk_RecordsSHA256 ?t = digest'" "tk_SessionID ?t = ?sid" by (simp_all add: make_ticket_def)
  ultimately show thesis using b that [of ?t ex rg1] by simp
qed

lemma cleanup_lookup:
  assumes "registry_ok rg run" and "map_of (rg_snapshots rg) key = Some p"
  shows "lookup_live now key (cleanupLocked now rg) =
    (if \<not> stale rg now (rg_heap rg ! p) \<and> now < en_ExpiresAt (rg_heap rg ! p) then Inr p else Inl SnapshotExpired)"
    and "\<not> stale rg now (rg_heap rg ! p) \<Longrightarrow> rg_heap (cleanupLocked now rg) ! p = rg_heap rg ! p"
    and "\<not> stale rg now (rg_heap rg ! p) \<Longrightarrow> map_of (rg_snapshots (cleanupLocked now rg)) key = Some p"
    and "p < length (rg_heap rg)"
proof -
  note eff = cleanup_effect [OF assms(1), where now = now] and D = registry_okD [OF assms(1)]
  from assms(2) have mem: "(key, p) \<in> set (rg_snapshots rg)" by (rule map_of_SomeD)
  then show p: "p < length (rg_heap rg)" using D(2) by blast
  show heap: "\<not> stale rg now (rg_heap rg ! p) \<Longrightarrow> rg_heap (cleanupLocked now rg) ! p = rg_heap rg ! p"
    using eff(4) [OF p] by simp
  have d: "distinct (map fst (rg_snapshots (cleanupLocked now rg)))"
    using registry_okD(1) [OF registry_ok_cleanup [OF assms(1)]] .
  show map: "map_of (rg_snapshots (cleanupLocked now rg)) key = Some p" if "\<not> stale rg now (rg_heap rg ! p)"
    using d mem that by (simp add: eff(1))
  have "map_of (rg_snapshots (cleanupLocked now rg)) key = None" if "stale rg now (rg_heap rg ! p)"
  proof (rule ccontr)
    assume "map_of (rg_snapshots (cleanupLocked now rg)) key \<noteq> None"
    then obtain p' where "map_of (rg_snapshots (cleanupLocked now rg)) key = Some p'" by blast
    then have "(key, p') \<in> set (rg_snapshots (cleanupLocked now rg))" by (rule map_of_SomeD)
    then have "(key, p') \<in> set (rg_snapshots rg)" "\<not> stale rg now (rg_heap rg ! p')" by (simp_all add: eff(1))
    with mem D(1) that show False by (metis eq_key_imp_eq_value)
  qed
  with heap map show "lookup_live now key (cleanupLocked now rg) =
      (if \<not> stale rg now (rg_heap rg ! p) \<and> now < en_ExpiresAt (rg_heap rg ! p) then Inr p else Inl SnapshotExpired)"
    by (cases "stale rg now (rg_heap rg ! p)") (simp_all add: lookup_live_def)
qed

lemma bind_snapshot_bound:
  assumes "registry_ok rg run" and "map_of (rg_snapshots rg) key = Some p" and "bind_snapshot now key sid rg = (Inr (digest, ex), rg1)"
  shows "rg1 = touch now p (cleanupLocked now rg)" and "\<not> stale rg now (rg_heap rg ! p)" and "ex = en_ExpiresAt (rg_heap rg ! p)"
    and "\<exists>su. su \<in> set (sn_sessions (en_Snapshot (rg_heap rg ! p))) \<and> \<not> su_deleted su \<and> su_session_id su = sid \<and> su_records_sha256 su = digest"
proof -
  note c = cleanup_lookup(1-3) [OF assms(1,2), where now = now] cleanup_lookup(4) [OF assms(1,2)]
  have t: "en_Snapshot (rg_heap (touch now p r) ! p) = en_Snapshot (rg_heap r ! p)"
    "en_ExpiresAt (rg_heap (touch now p r) ! p) = en_ExpiresAt (rg_heap r ! p)" if "p < length (rg_heap r)" for r
    using that by (simp_all add: touch_def heap_update)
  have len: "p < length (rg_heap (cleanupLocked now rg))" using c(4) cleanup_effect(3) [OF assms(1)] by simp
  from assms(3) have n: "\<not> stale rg now (rg_heap rg ! p)"
    by (auto simp: bind_snapshot_def getForExport_def Let_def c(1) split: if_splits)
  have g: "getForExport now key rg = (Inr p, rg1)"
    using assms(3) by (auto simp: bind_snapshot_def getForExport_def Let_def c(1) split: if_splits option.splits)
  then show rg1: "rg1 = touch now p (cleanupLocked now rg)" by (auto simp: getForExport_def Let_def c(1) split: if_splits)
  from n show "\<not> stale rg now (rg_heap rg ! p)" .
  show "ex = en_ExpiresAt (rg_heap rg ! p)"
    "\<exists>su. su \<in> set (sn_sessions (en_Snapshot (rg_heap rg ! p))) \<and> \<not> su_deleted su \<and> su_session_id su = sid \<and> su_records_sha256 su = digest"
    using assms(3) g t [OF len] c(2) [OF n]
    by (auto simp: bind_snapshot_def Let_def rg1 Summary_of_def split: option.splits if_splits dest: find_member)
qed

lemma export_end_live:
  assumes "finished < en_ExpiresAt (rg_heap rg ! p)" and "p < length (rg_heap rg)"
  shows "fst (export_end finished key p None rg) = None"
  using assms by (simp add: export_end_def Let_def heap_update split: if_splits)

lemma idleTTL_cleanup: "rg_idleTTL (cleanupLocked now rg) = rg_idleTTL rg"
proof -
  have "rg_idleTTL (fold (\<lambda>(k, p). update_entry p close_entry) ds rg) = rg_idleTTL rg" for ds
    by (induction ds arbitrary: rg) (auto split: prod.splits)
  then show ?thesis by (simp add: cleanupLocked_def Let_def)
qed

text \<open>From the binding of the ticket to the start of the export the entry stays registered, and it is pinned.\<close>

lemma bound_export_begins:
  assumes "registry_ok rg run" and "map_of (rg_snapshots rg) key = Some p" and "bind_snapshot now1 key sid rg = (Inr (digest, ex), rg1)"
    and "start - now1 < rg_idleTTL rg" and "start < en_ExpiresAt (rg_heap rg ! p)"
  obtains rg2 where "export_begin start key rg1 = (Inr p, rg2)" "registry_ok rg2 ((key, p) # run)" "same_entry p rg rg2"
proof -
  note b = bind_snapshot_bound [OF assms(1-3)]
  note c = cleanup_lookup(2,3) [OF assms(1,2), where now = now1] cleanup_lookup(4) [OF assms(1,2)]
  have ok1: "registry_ok rg1 run" unfolding b(1) by (rule registry_ok_touch [OF registry_ok_cleanup [OF assms(1)]])
  have map1: "map_of (rg_snapshots rg1) key = Some p" using c(2) b(2) by (simp add: b(1) touch_def)
  have heap1: "rg_heap rg1 ! p = (rg_heap rg ! p)\<lparr>en_LastUsedAt := now1\<rparr>"
    using c(1,3) b(2) cleanup_effect(3) [OF assms(1)] by (simp add: b(1) touch_def heap_update)
  have "\<not> stale rg1 start (rg_heap rg1 ! p)"
    using assms(4,5) by (simp add: stale_def heap1) (simp add: b(1) touch_def idleTTL_cleanup)
  moreover have "start < en_ExpiresAt (rg_heap rg1 ! p)" using assms(5) by (simp add: heap1)
  ultimately obtain rg2 where e: "export_begin start key rg1 = (Inr p, rg2)"
    using cleanup_lookup(1) [OF ok1 map1] by (auto simp: export_begin_def Let_def)
  then have st: "registry_step (rg1, run) (rg2, (key, p) # run)" by (rule registry_step.export_starts)
  have "same_entry p rg rg1" unfolding b(1) by (rule same_entry_trans [OF same_entry_cleanup [OF assms(1)] same_entry_touch])
  with registry_step_frame [OF st] ok1 have "same_entry p rg rg2" by (auto intro: same_entry_trans)
  with e registry_ok_step [OF st] ok1 that show thesis by simp
qed

lemma redeem_issued:
  assumes "archive_reaches n (empty_db\<lparr>sql_now := now0\<rparr>, []) (d0, ws)"
    and "BeginStableSessionSnapshot jd lower after d0 qs = (Inr sn, qs')"
    and "newStableSnapshotRegistry secret ttl idle maxActive = Inr rg0" and "registry_step\<^sup>*\<^sup>* (rg0, []) (rg, run)"
    and "tv_registry s = Inr rg" and "map_of (rg_snapshots rg) key = Some p" and "en_Snapshot (rg_heap rg ! p) = sn"
    and "exportTicket_handler method q d now1 random now2 s = (Issued token name e (Some (key, digest)), s1)"
    and "rd_now env < e" and "rd_start env - now1 < rg_idleTTL rg"
    and "rd_start env < en_ExpiresAt (rg_heap rg ! p)" and "rd_finished env < en_ExpiresAt (rg_heap rg ! p)"
    and "rd_temp_ok env" and "rd_interrupted env = None"
    and "\<And>rg1 rg2. tv_registry s1 = Inr rg1 \<Longrightarrow> export_begin (rd_start env) key rg1 = (Inr p, rg2) \<Longrightarrow>
      \<exists>run'. registry_step\<^sup>*\<^sup>* (rg2, (key, p) # run) (rd_others env rg2, run') \<and> (key, p) \<in> set run'"
  shows "\<exists>out s2. ticketedExport glen sprint n up d env ''GET'' (''/archive-api/v1/exports/'' @ token) s1 = (Attachment name out, s2)
    \<and> sha256_hex out = digest"
proof -
  have ok: "registry_ok rg run" using registry_reach [OF assms(4)] registry_ok_new [OF assms(3)] by simp
  obtain rg1 ex t where t: "key \<noteq> []" "bind_snapshot now1 key (tk_SessionID t) rg = (Inr (digest, ex), rg1)"
      "s1 = add_ticket now2 token t (s\<lparr>tv_registry := Inr rg1\<rparr>)"
      "tk_Snapshot t = key" "tk_RecordsSHA256 t = digest" "tk_Filename t = name" "tk_ExpiresAt t = e"
    by (rule stable_ticket_issued [OF assms(8,5)])
  obtain rg2 where rg2: "export_begin (rd_start env) key rg1 = (Inr p, rg2)" "registry_ok rg2 ((key, p) # run)" "same_entry p rg rg2"
    by (rule bound_export_begins [OF ok assms(6) t(2) assms(10,11)])
  have reg1: "tv_registry s1 = Inr rg1" by (simp add: t(3) add_ticket_def)
  let ?rg3 = "rd_others env rg2"
  from assms(15) [OF reg1 rg2(1)] obtain run' where
    r: "registry_step\<^sup>*\<^sup>* (rg2, (key, p) # run) (?rg3, run')" "(key, p) \<in> set run'" by blast
  have ok3: "registry_ok ?rg3 run'" using registry_reach [OF r(1)] rg2(2) by simp
  have same: "same_entry p rg ?rg3" using rg2(3) registry_steps_frame [OF r(1), of p] rg2(2) by (auto intro: same_entry_trans)
  have p: "p < length (rg_heap rg)" by (rule cleanup_lookup(4) [OF ok assms(6)])
  with same have p3: "p < length (rg_heap ?rg3)" and f: "frame (rg_heap ?rg3 ! p) = frame (rg_heap rg ! p)"
    by (simp_all add: same_entry_def)
  have "open_at rg p" using registry_okD(2,4) [OF ok] map_of_SomeD [OF assms(6)] p by metis
  moreover have "open_at ?rg3 p"
    using registry_okD(2) [OF ok3, of key p] registry_okD(4) [OF ok3 p3] registry_okD(6) [OF ok3] r(2) by auto
  ultimately have sn: "en_Snapshot (rg_heap ?rg3 ! p) = sn"
    using f assms(7) by (auto simp: frame_def intro: open_Close_eq)
  from bind_snapshot_bound(4) [OF ok assms(6) t(2)] assms(7) obtain su where
    su: "su \<in> set (sn_sessions sn)" "\<not> su_deleted su" "su_session_id su = tk_SessionID t" "su_records_sha256 su = digest" by auto
  from snapshot_export_digest [OF assms(1,2) su(1,2)] su(3,4) obtain out where
    out: "ExportSessionJSONL n sn (tk_SessionID t) digest = Inr out" "sha256_hex out = digest" by auto
  have fin: "fst (export_end (rd_finished env) key p None ?rg3) = None"
    using f assms(12) by (intro export_end_live [OF _ p3]) (simp add: frame_def)
  have "\<exists>rg4. registry_export n (rd_start env) None (rd_finished env) (rd_others env) t rg1 = (Inr out, rg4)"
    using out(1) fin sn by (auto simp: registry_export_def rg2(1) t(4,5) Let_def split: prod.split)
  moreover have "redeem token (rd_now env) s1 = Inr t"
    using assms(9) by (simp add: redeem_token t(3,7) add_ticket_def update_conv')
  ultimately show ?thesis
    using out(2) t(1,4,6) reg1 assms(13,14) by (auto simp: ticketedExport_def redeem_def prepareStableSnapshotExport_def)
qed

text \<open>
  C26. A ticket that the collector issues for a session of a snapshot is good for the bytes the snapshot lists: redeemed
  within the idle time of the snapshot and finished before its expiry, without interruption, it is answered with an
  attachment whose digest is the one in the ticket, whatever other requests do to the registry while the export runs
  and whatever was archived, migrated or collected before the snapshot was taken.
\<close>

theorem issued_ticket_redeemed:
  assumes "archive_reaches n (empty_db\<lparr>sql_now := now0\<rparr>, []) (d0, ws)"
    and "BeginStableSessionSnapshot jd lower after d0 qs = (Inr sn, qs')"
    and "newStableSnapshotRegistry secret ttl idle maxActive = Inr rg0" and "registry_step\<^sup>*\<^sup>* (rg0, []) (rg, run)"
    and "tv_registry s = Inr rg" and "map_of (rg_snapshots rg) key = Some p" and "en_Snapshot (rg_heap rg ! p) = sn"
    and "exportTicket_handler method q d now1 random now2 s = (Issued token name e (Some (key, digest)), s1)"
    and "rd_now env < e" and "rd_start env - now1 < rg_idleTTL rg"
    and "rd_start env < en_ExpiresAt (rg_heap rg ! p)" and "rd_finished env < en_ExpiresAt (rg_heap rg ! p)"
    and "rd_temp_ok env" and "rd_interrupted env = None"
    and "\<And>rg1 rg2. tv_registry s1 = Inr rg1 \<Longrightarrow> export_begin (rd_start env) key rg1 = (Inr p, rg2) \<Longrightarrow>
      \<exists>run'. registry_step\<^sup>*\<^sup>* (rg2, (key, p) # run) (rd_others env rg2, run') \<and> (key, p) \<in> set run'"
  shows "\<exists>out s2. ticketedExport glen sprint n up d env ''GET'' (''/archive-api/v1/exports/'' @ token) s1 = (Attachment name out, s2)
    \<and> sha256_hex out = digest"
  using assms by (rule redeem_issued)

section \<open>An example\<close>

lemma sample_key: "b64_rawurl ''r'' = ''cg''"
  by code_simp

lemma ticket_trims: "TrimSpace ''s'' = ''s''" "TrimSpace ''cg'' = ''cg''" "TrimSpace [] = []"
  by (simp_all add: TrimSpace_def runes_ascii rune_of_ascii is_space_def)

lemma sample_full_entry:
  assumes "BeginStableSessionSnapshot (\<lambda>_ _. False) zero_time None d [] = (Inr sn, [])"
  obtains rg where "create_entry (\<lambda>_ _. False) 0 ''r'' zero_time None 1 d [] sample_registry = (Inr 0, rg, [])"
    "registry_step\<^sup>*\<^sup>* (sample_registry, []) (rg, [])" "map_of (rg_snapshots rg) ''cg'' = Some 0" "en_Snapshot (rg_heap rg ! 0) = sn"
    "rg_idleTTL rg = 2 * minute" "en_ExpiresAt (rg_heap rg ! 0) = 15 * minute" "en_LastUsedAt (rg_heap rg ! 0) = 0"
proof -
  obtain rg where c: "create_entry (\<lambda>_ _. False) 0 ''r'' zero_time None 1 d [] sample_registry = (Inr 0, rg, [])"
    and rg: "rg_snapshots rg = [(''cg'', 0)] \<and> en_Snapshot (rg_heap rg ! 0) = sn \<and> rg_idleTTL rg = 2 * minute
      \<and> en_ExpiresAt (rg_heap rg ! 0) = 15 * minute \<and> en_LastUsedAt (rg_heap rg ! 0) = 0"
    using assms by (auto simp: create_entry_def cleanupLocked_def sample_registry_def sample_key Let_def)
  have "registry_step (sample_registry, []) (rg, [])"
    by (rule registry_step.create [OF _ c]) (simp add: sample_registry_def)
  with c rg that show thesis by auto
qed

lemma sample_ticket:
  assumes "registry_ok rg run" and "map_of (rg_snapshots rg) ''cg'' = Some 0" and "en_Snapshot (rg_heap rg ! 0) = sn"
    and "rg_idleTTL rg = 2 * minute" and "en_ExpiresAt (rg_heap rg ! 0) = 15 * minute" and "en_LastUsedAt (rg_heap rg ! 0) = 0"
    and "Summary_of sn ''s'' = Some su" and "\<not> su_deleted su"
  shows "\<exists>name s1. exportTicket_handler ''GET'' [(''session_id'', [''s'']), (''snapshot'', [''cg''])] d 0 (Some ''a'') 0
      \<lparr>tv_registry = Inr rg, tv_tickets = []\<rparr> = (Issued ''61'' name (15 * minute) (Some (''cg'', su_records_sha256 su)), s1)"
proof -
  have pos: "0 < minute" "15 * minute < half_hour" by (simp_all add: half_hour_def minute_def second_def)
  have n: "\<not> stale rg 0 (rg_heap rg ! 0)" using assms(4-6) pos by (simp add: stale_def)
  note c = cleanup_lookup(1-3) [OF assms(1,2), where now = 0] cleanup_lookup(4) [OF assms(1,2)]
  have len: "0 < length (rg_heap (cleanupLocked 0 rg))" using c(4) cleanup_effect(3) [OF assms(1)] by simp
  have h: "rg_heap (touch 0 0 (cleanupLocked 0 rg)) ! 0 = (rg_heap rg ! 0)\<lparr>en_LastUsedAt := 0\<rparr>"
    using len c(2) [OF n] by (simp add: touch_def heap_update)
  have b: "bind_snapshot 0 ''cg'' ''s'' rg = (Inr (su_records_sha256 su, 15 * minute), touch 0 0 (cleanupLocked 0 rg))"
    using c(1) n assms pos by (simp add: bind_snapshot_def getForExport_def Let_def h)
  have "hex_encode (map byte ''a'') = ''61''" by code_simp
  then show ?thesis
    using pos by (simp add: exportTicket_handler_def query_get_def ticket_trims b issue_def make_ticket_def Let_def)
qed

lemma sample_scenario:
  obtains d full rg digest name s1 where "archive_reaches 0 (empty_db\<lparr>sql_now := sql_now empty_db\<rparr>, []) (d, [])"
    "BeginStableSessionSnapshot (\<lambda>_ _. False) zero_time None d [] = (Inr full, [])"
    "registry_step\<^sup>*\<^sup>* (sample_registry, []) (rg, [])" "map_of (rg_snapshots rg) ''cg'' = Some 0" "en_Snapshot (rg_heap rg ! 0) = full"
    "rg_idleTTL rg = 2 * minute" "en_ExpiresAt (rg_heap rg ! 0) = 15 * minute"
    "exportTicket_handler ''GET'' [(''session_id'', [''s'']), (''snapshot'', [''cg''])] d 0 (Some ''a'') 0
      \<lparr>tv_registry = Inr rg, tv_tickets = []\<rparr> = (Issued ''61'' name (15 * minute) (Some (''cg'', digest)), s1)"
proof -
  obtain d full delta where h: "archive_reaches 0 (empty_db, []) (d, [])" and "ingest_clock d = 1"
    and f: "BeginStableSessionSnapshot (\<lambda>_ _. False) zero_time None d [] = (Inr full, [])"
    and "BeginStableSessionSnapshot (\<lambda>_ _. False) zero_time (Some 0) d [] = (Inr delta, [])"
    and ex: "\<exists>s \<in> set (sn_sessions full). \<not> su_deleted s \<and> su_session_id s = ''s''"
    by (rule timed_history)
  obtain rg where rg: "create_entry (\<lambda>_ _. False) 0 ''r'' zero_time None 1 d [] sample_registry = (Inr 0, rg, [])"
    "registry_step\<^sup>*\<^sup>* (sample_registry, []) (rg, [])" "map_of (rg_snapshots rg) ''cg'' = Some 0" "en_Snapshot (rg_heap rg ! 0) = full"
    "rg_idleTTL rg = 2 * minute" "en_ExpiresAt (rg_heap rg ! 0) = 15 * minute" "en_LastUsedAt (rg_heap rg ! 0) = 0"
    by (rule sample_full_entry [OF f])
  have ok: "registry_ok rg []" using registry_reach [OF rg(2)] registry_ok_new [OF sample_registry_new] by simp
  from ex obtain su where su: "su \<in> set (sn_sessions full)" "\<not> su_deleted su" "su_session_id su = ''s''" by blast
  obtain sids where b: "begin_snapshot sids d [] = (Inr full, [])" "distinct sids" using f by (rule BeginStable_cases)
  have "\<not> sn_closed full" using b(1) by (auto elim: begin_snapshot_run)
  with find_distinct [OF begin_snapshot_distinct [OF b] su(1)] su(3) have "Summary_of full ''s'' = Some su"
    by (simp add: Summary_of_def)
  from sample_ticket [OF ok rg(3-7) this su(2), of d] obtain name s1 where
    i: "exportTicket_handler ''GET'' [(''session_id'', [''s'']), (''snapshot'', [''cg''])] d 0 (Some ''a'') 0
      \<lparr>tv_registry = Inr rg, tv_tickets = []\<rparr> = (Issued ''61'' name (15 * minute) (Some (''cg'', su_records_sha256 su)), s1)" by blast
  have "archive_reaches 0 (empty_db\<lparr>sql_now := sql_now empty_db\<rparr>, []) (d, [])" using h by simp
  then show thesis by (rule that [OF _ f rg(2-6) i])
qed

definition sample_env :: redemption where
  "sample_env = \<lparr>rd_now = 0, rd_start = 0, rd_finished = 0, rd_temp_ok = True, rd_interrupted = None, rd_others = \<lambda>r. r\<rparr>"

lemma minute_pos: "0 < minute"
  by (simp add: minute_def second_def)

theorem issued_ticket_redeemed_witness:
  "\<exists>s q d name out s1 s2 digest. exportTicket_handler ''GET'' q d 0 (Some ''a'') 0 s = (Issued ''61'' name (15 * minute) (Some (''cg'', digest)), s1)
    \<and> ticketedExport (\<lambda>_. 0) (\<lambda>_. []) 0 True d sample_env ''GET'' (''/archive-api/v1/exports/'' @ ''61'') s1 = (Attachment name out, s2)
    \<and> sha256_hex out = digest"
proof -
  obtain d full rg digest name s1 where c: "archive_reaches 0 (empty_db\<lparr>sql_now := sql_now empty_db\<rparr>, []) (d, [])"
    "BeginStableSessionSnapshot (\<lambda>_ _. False) zero_time None d [] = (Inr full, [])"
    "registry_step\<^sup>*\<^sup>* (sample_registry, []) (rg, [])" "map_of (rg_snapshots rg) ''cg'' = Some 0" "en_Snapshot (rg_heap rg ! 0) = full"
    "rg_idleTTL rg = 2 * minute" "en_ExpiresAt (rg_heap rg ! 0) = 15 * minute"
    "exportTicket_handler ''GET'' [(''session_id'', [''s'']), (''snapshot'', [''cg''])] d 0 (Some ''a'') 0
      \<lparr>tv_registry = Inr rg, tv_tickets = []\<rparr> = (Issued ''61'' name (15 * minute) (Some (''cg'', digest)), s1)"
    by (rule sample_scenario)
  have "\<exists>out s2. ticketedExport (\<lambda>_. 0) (\<lambda>_. []) 0 True d sample_env ''GET'' (''/archive-api/v1/exports/'' @ ''61'') s1 = (Attachment name out, s2)
      \<and> sha256_hex out = digest"
    by (rule issued_ticket_redeemed [OF c(1,2) sample_registry_new c(3) _ c(4,5,8)]) (use minute_pos c in \<open>auto simp: sample_env_def\<close>)
  with c(8) show ?thesis by blast
qed


end
