(* ===== verification/Backup.thy ===== *)
theory Backup
  imports Records
begin

text \<open>
  The online backup tool (\<open>cmd/cpa-session-archive-backup\<close>): copying a live database to a temporary file, checking it, and
  publishing it under its final name by a hard link.

  The file system maps names to inodes and inodes to contents; other processes may change it between any two
  operations of the tool. SQLite is a parameter: the reports of its backup object, the content of the copy, and the
  database a file holds. Whether an operation of the system succeeds is an input.
\<close>

section \<open>Options and errors\<close>

record backupOptions =
  bo_Source :: string
  bo_Destination :: string
  bo_Timeout :: int
  bo_RetryInterval :: int
  bo_PagesPerStep :: int

record backupResult =
  br_SchemaVersion :: nat
  br_Records :: nat
  br_Sessions :: nat
  br_SourceIngestFence :: nat
  br_ContentSHA256 :: string
  br_SizeBytes :: nat

datatype backup_error =
    errInvalidArguments | errInvalidSource | errUnsafeDestination | errBackupFailed | errBackupTimeout
  | errIntegrityCheck | errBackupVerification

definition backupSchemaVersion :: nat where
  "backupSchemaVersion = 1"

definition maxPagesPerStep :: int where
  "maxPagesPerStep = 4096"

definition validateOptions :: "backupOptions \<Rightarrow> bool" where
  "validateOptions opts \<longleftrightarrow>
    \<not> (bo_Source opts = [] \<or> bo_Destination opts = [] \<or> bo_Timeout opts \<le> 0 \<or> bo_RetryInterval opts \<le> 0
       \<or> bo_PagesPerStep opts \<le> 0 \<or> maxPagesPerStep < bo_PagesPerStep opts)"

text \<open>\<open>absolute\<close> is \<open>filepath.Abs\<close> followed by \<open>filepath.Clean\<close>.\<close>

definition sameResolvedPath :: "(string \<Rightarrow> string option) \<Rightarrow> string \<Rightarrow> string \<Rightarrow> bool" where
  "sameResolvedPath absolute source destination =
    (case (absolute source, absolute destination) of (Some a, Some b) \<Rightarrow> a = b | _ \<Rightarrow> True)"

definition publicFailure :: "backup_error \<Rightarrow> string" where
  "publicFailure e =
    (case e of
       errInvalidArguments \<Rightarrow> ''invalid arguments''
     | errInvalidSource \<Rightarrow> ''source database is unavailable or invalid''
     | errUnsafeDestination \<Rightarrow> ''destination already exists or is unsafe''
     | errBackupTimeout \<Rightarrow> ''online backup timed out''
     | errIntegrityCheck \<Rightarrow> ''backup integrity check failed''
     | errBackupVerification \<Rightarrow> ''backup verification failed''
     | errBackupFailed \<Rightarrow> ''online backup failed'')"

section \<open>The copy loop\<close>

datatype step_report = StepFailed | StepDone | StepMore nat nat

datatype copy_end = CopyOk | CopyFailed | CopyContext

text \<open>\<open>waitForRetry\<close>: the time after the wait, unless the context ends first.\<close>

definition waitForRetry :: "int \<Rightarrow> int \<Rightarrow> int \<Rightarrow> int option" where
  "waitForRetry deadline retryInterval now = (if now + retryInterval < deadline then Some (now + retryInterval) else None)"

text \<open>
  One call of \<open>Step\<close> reports failure, the end, or the pages that remain and the page count. \<open>reports\<close> gives the report of
  each call and the time it takes; \<open>None\<close> is a loop that has not ended after \<open>fuel\<close> calls. \<open>remaining\<close> is what the
  backup object reports before the call.
\<close>

fun stepSQLiteBackup :: "nat \<Rightarrow> (nat \<Rightarrow> step_report \<times> nat) \<Rightarrow> int \<Rightarrow> int \<Rightarrow> nat \<Rightarrow> nat \<Rightarrow> int \<Rightarrow> (copy_end \<times> int) option" where
  "stepSQLiteBackup 0 reports deadline retryInterval i remaining now = None"
| "stepSQLiteBackup (Suc fuel) reports deadline retryInterval i remaining now =
    (if deadline \<le> now then Some (CopyContext, now)
     else
       let later = now + int (snd (reports i)) in
       (case fst (reports i) of
          StepFailed \<Rightarrow> Some (CopyFailed, later)
        | StepDone \<Rightarrow> Some (CopyOk, later)
        | StepMore after count \<Rightarrow>
            if after < remaining \<or> (remaining = 0 \<and> after < count)
            then stepSQLiteBackup fuel reports deadline retryInterval (Suc i) after later
            else (case waitForRetry deadline retryInterval later of
                    None \<Rightarrow> Some (CopyContext, deadline)
                  | Some t \<Rightarrow> stepSQLiteBackup fuel reports deadline retryInterval (Suc i) after t)))"

text \<open>Connecting to a database and opening the backup object are retried while SQLite is busy or locked.\<close>

datatype attempt = Ready | Busy | Broken | Ended

fun retry_busy :: "nat \<Rightarrow> (nat \<Rightarrow> attempt \<times> nat) \<Rightarrow> int \<Rightarrow> int \<Rightarrow> nat \<Rightarrow> int \<Rightarrow> (copy_end \<times> int) option" where
  "retry_busy 0 attempts deadline retryInterval i now = None"
| "retry_busy (Suc fuel) attempts deadline retryInterval i now =
    (let later = now + int (snd (attempts i)) in
     case fst (attempts i) of
       Ready \<Rightarrow> Some (CopyOk, later)
     | Broken \<Rightarrow> Some (CopyFailed, later)
     | Ended \<Rightarrow> Some (CopyContext, later)
     | Busy \<Rightarrow>
         (case waitForRetry deadline retryInterval later of
            None \<Rightarrow> Some (CopyContext, deadline)
          | Some t \<Rightarrow> retry_busy fuel attempts deadline retryInterval (Suc i) t))"

definition and_then :: "(copy_end \<times> int) option \<Rightarrow> (int \<Rightarrow> (copy_end \<times> int) option) \<Rightarrow> (copy_end \<times> int) option" where
  "and_then x f = (case x of Some (CopyOk, t) \<Rightarrow> f t | _ \<Rightarrow> x)"

record sqlite =
  sq_source :: "nat \<Rightarrow> attempt \<times> nat"
  sq_target :: "nat \<Rightarrow> attempt \<times> nat"
  sq_begin :: "nat \<Rightarrow> attempt \<times> nat"
  sq_steps :: "nat \<Rightarrow> step_report \<times> nat"
  sq_content :: string

definition copySQLiteOnline :: "nat \<Rightarrow> sqlite \<Rightarrow> int \<Rightarrow> int \<Rightarrow> int \<Rightarrow> (copy_end \<times> int) option" where
  "copySQLiteOnline fuel lib deadline retryInterval now =
    and_then (retry_busy fuel (sq_source lib) deadline retryInterval 0 now) (\<lambda>t1.
    and_then (retry_busy fuel (sq_target lib) deadline retryInterval 0 t1) (\<lambda>t2.
    and_then (retry_busy fuel (sq_begin lib) deadline retryInterval 0 t2) (\<lambda>t3.
      stepSQLiteBackup fuel (sq_steps lib) deadline retryInterval 0 0 t3)))"

section \<open>The file system\<close>

record fs =
  fs_names :: "string \<Rightarrow> nat option"
  fs_data :: "nat \<Rightarrow> string"

definition fs_create :: "string \<Rightarrow> nat \<Rightarrow> fs \<Rightarrow> fs" where
  "fs_create path inode f = f\<lparr>fs_names := (fs_names f)(path \<mapsto> inode), fs_data := (fs_data f)(inode := [])\<rparr>"

definition fs_write :: "string \<Rightarrow> string \<Rightarrow> fs \<Rightarrow> fs" where
  "fs_write path content f =
    (case fs_names f path of Some i \<Rightarrow> f\<lparr>fs_data := (fs_data f)(i := content)\<rparr> | None \<Rightarrow> f)"

definition fs_read :: "fs \<Rightarrow> string \<Rightarrow> string option" where
  "fs_read f path = map_option (fs_data f) (fs_names f path)"

definition fs_link :: "string \<Rightarrow> string \<Rightarrow> fs \<Rightarrow> fs option" where
  "fs_link old new f =
    (case (fs_names f old, fs_names f new) of
       (Some i, None) \<Rightarrow> Some (f\<lparr>fs_names := (fs_names f)(new \<mapsto> i)\<rparr>)
     | _ \<Rightarrow> None)"

definition fs_remove :: "string \<Rightarrow> fs \<Rightarrow> fs" where
  "fs_remove path f = f\<lparr>fs_names := (fs_names f)(path := None)\<rparr>"

section \<open>Inspection\<close>

text \<open>\<open>open_db\<close> is what SQLite finds in a file: the rows of the integrity check and the tables; an error is \<open>None\<close>.\<close>

definition inspectBackup :: "(string \<Rightarrow> (string list \<times> db option) option) \<Rightarrow> string \<Rightarrow> backup_error + backupResult" where
  "inspectBackup open_db content =
    (case open_db content of
       None \<Rightarrow> Inl errIntegrityCheck
     | Some (checks, tables) \<Rightarrow>
         if \<not> list_all (\<lambda>c. c = ''ok'') checks \<or> length checks \<noteq> 1 then Inl errIntegrityCheck
         else
           (case tables of
              None \<Rightarrow> Inl errBackupVerification
            | Some d \<Rightarrow>
                Inr \<lparr>br_SchemaVersion = backupSchemaVersion, br_Records = length (records d),
                     br_Sessions = length (remdups (map session_id (records d))), br_SourceIngestFence = ingest_clock d,
                     br_ContentSHA256 = [], br_SizeBytes = 0\<rparr>))"

section \<open>The backup\<close>

text \<open>The environment of a run: results of the system and what other processes do before each operation of the tool.\<close>

record backup_env =
  be_now :: int
  be_source_regular :: bool
  be_lstat_fails :: bool
  be_absolute :: "string \<Rightarrow> string option"
  be_temp :: "(string \<times> nat) option"
  be_chmod_ok :: bool
  be_close_ok :: bool
  be_sqlite :: sqlite
  be_open_db :: "string \<Rightarrow> (string list \<times> db option) option"
  be_sync_ok :: bool
  be_syncdir1_ok :: bool
  be_remove_ok :: bool
  be_syncdir2_ok :: bool
  be_others :: "nat \<Rightarrow> fs \<Rightarrow> fs"

text \<open>The outcome, the file system, and the file systems before and after each of the tool's own changes.\<close>

type_synonym backup_run = "(backup_error + backupResult) \<times> fs \<times> (fs \<times> fs) list"

text \<open>The deferred removal of the temporary file, which runs on every return before \<open>cleanupTemporary\<close> is cleared.\<close>

definition give_up :: "backup_env \<Rightarrow> string \<Rightarrow> backup_error \<Rightarrow> fs \<Rightarrow> (fs \<times> fs) list \<Rightarrow> backup_run" where
  "give_up env tmp e f trace =
    (let f1 = be_others env 9 f; f2 = (if be_remove_ok env then fs_remove tmp f1 else f1) in (Inl e, f2, trace @ [(f1, f2)]))"

definition publish :: "backup_env \<Rightarrow> string \<Rightarrow> string \<Rightarrow> backupResult \<Rightarrow> fs \<Rightarrow> (fs \<times> fs) list \<Rightarrow> backup_run" where
  "publish env tmp dest r f0 trace0 =
    (let f = be_others env 3 f0 in
     case fs_link tmp dest f of
       None \<Rightarrow> give_up env tmp errUnsafeDestination f trace0
     | Some g \<Rightarrow>
         let trace = trace0 @ [(f, g)] in
         if \<not> be_syncdir1_ok env then give_up env tmp errBackupVerification g trace
         else
           let g1 = be_others env 4 g in
           if \<not> be_remove_ok env then give_up env tmp errBackupVerification g1 trace
           else
             let g2 = fs_remove tmp g1; trace' = trace @ [(g1, g2)] in
             if be_syncdir2_ok env then (Inr r, g2, trace') else (Inl errBackupVerification, g2, trace'))"

definition verify_and_publish :: "backup_env \<Rightarrow> string \<Rightarrow> string \<Rightarrow> fs \<Rightarrow> (fs \<times> fs) list \<Rightarrow> backup_run" where
  "verify_and_publish env tmp dest f trace =
    (case fs_read f tmp of
       None \<Rightarrow> give_up env tmp errIntegrityCheck f trace
     | Some content \<Rightarrow>
         (case inspectBackup (be_open_db env) content of
            Inl e \<Rightarrow> give_up env tmp e f trace
          | Inr r \<Rightarrow>
              if \<not> be_sync_ok env then give_up env tmp errBackupVerification f trace
              else
                let f' = be_others env 2 f in
                (case fs_read f' tmp of
                   None \<Rightarrow> give_up env tmp errBackupVerification f' trace
                 | Some hashed \<Rightarrow>
                     publish env tmp dest (r\<lparr>br_ContentSHA256 := sha256_hex hashed, br_SizeBytes := length hashed\<rparr>) f' trace)))"

definition copy_error :: "int \<Rightarrow> copy_end \<times> int \<Rightarrow> backup_error" where
  "copy_error deadline r = (if fst r = CopyContext \<or> deadline \<le> snd r then errBackupTimeout else errBackupFailed)"

definition copy_and_publish :: "nat \<Rightarrow> backup_env \<Rightarrow> backupOptions \<Rightarrow> string \<Rightarrow> fs \<Rightarrow> (fs \<times> fs) list \<Rightarrow> backup_run option" where
  "copy_and_publish fuel env opts tmp f trace =
    (let deadline = be_now env + bo_Timeout opts in
     map_option (\<lambda>r.
         if fst r \<noteq> CopyOk then give_up env tmp (copy_error deadline r) f trace
         else
           let f1 = be_others env 1 f; f2 = fs_write tmp (sq_content (be_sqlite env)) f1 in
           verify_and_publish env tmp (bo_Destination opts) f2 (trace @ [(f1, f2)]))
       (copySQLiteOnline fuel (be_sqlite env) deadline (bo_RetryInterval opts) (be_now env)))"

definition createOnlineBackup :: "nat \<Rightarrow> backup_env \<Rightarrow> backupOptions \<Rightarrow> fs \<Rightarrow> backup_run option" where
  "createOnlineBackup fuel env opts f =
    (if \<not> validateOptions opts then Some (Inl errInvalidArguments, f, [])
     else if \<not> be_source_regular env then Some (Inl errInvalidSource, f, [])
     else if be_lstat_fails env \<or> fs_names f (bo_Destination opts) \<noteq> None then Some (Inl errUnsafeDestination, f, [])
     else if sameResolvedPath (be_absolute env) (bo_Source opts) (bo_Destination opts) then Some (Inl errUnsafeDestination, f, [])
     else
       (case be_temp env of
          None \<Rightarrow> Some (Inl errUnsafeDestination, f, [])
        | Some (tmp, inode) \<Rightarrow>
            let f0 = be_others env 0 f; f1 = fs_create tmp inode f0; trace = [(f0, f1)] in
            if \<not> be_chmod_ok env \<or> \<not> be_close_ok env then Some (give_up env tmp errUnsafeDestination f1 trace)
            else copy_and_publish fuel env opts tmp f1 trace))"

section \<open>The command\<close>

definition encodeResult :: "backupResult \<Rightarrow> string" where
  "encodeResult r =
    Encode (Struct [(''schema_version'', Num (Itoa (br_SchemaVersion r))), (''records'', Num (Itoa (br_Records r))),
      (''sessions'', Num (Itoa (br_Sessions r))), (''source_ingest_fence'', Num (Itoa (br_SourceIngestFence r))),
      (''content_sha256'', Str (br_ContentSHA256 r)), (''size_bytes'', Num (Itoa (br_SizeBytes r)))])"

text \<open>The exit code, the standard output and the standard error, from the parsed flags; \<open>write_ok\<close> is whether the output can be written.\<close>

definition run_command :: "backupOptions option \<Rightarrow> (backupOptions \<Rightarrow> backup_error + backupResult) \<Rightarrow> bool \<Rightarrow> nat \<times> string \<times> string" where
  "run_command flags backup write_ok =
    (case flags of
       None \<Rightarrow> (2, [], publicFailure errInvalidArguments @ [CHR 0x0A])
     | Some opts \<Rightarrow>
         (case backup opts of
            Inl e \<Rightarrow> (1, [], publicFailure e @ [CHR 0x0A])
          | Inr r \<Rightarrow> if write_ok then (0, encodeResult r, []) else (1, [], publicFailure errBackupVerification @ [CHR 0x0A])))"

section \<open>The loops end\<close>

lemma retry_busy_mono: "retry_busy fuel a dl r i t = Some x \<Longrightarrow> fuel \<le> fuel' \<Longrightarrow> retry_busy fuel' a dl r i t = Some x"
proof (induction fuel arbitrary: fuel' i t)
  case (Suc fuel)
  then obtain k where "fuel' = Suc k" "fuel \<le> k" by (cases fuel') auto
  with Suc show ?case by (auto simp: Let_def split: attempt.splits option.splits)
qed simp

lemma stepSQLiteBackup_mono:
  "stepSQLiteBackup fuel a dl r i rem t = Some x \<Longrightarrow> fuel \<le> fuel' \<Longrightarrow> stepSQLiteBackup fuel' a dl r i rem t = Some x"
proof (induction fuel arbitrary: fuel' i rem t)
  case (Suc fuel)
  then obtain k where "fuel' = Suc k" "fuel \<le> k" by (cases fuel') auto
  with Suc show ?case by (auto simp: Let_def split: step_report.splits option.splits if_splits)
qed simp

lemma waitForRetry_later: "0 < r \<Longrightarrow> waitForRetry dl r t = Some t' \<Longrightarrow> t < t' \<and> t' < dl"
  by (auto simp: waitForRetry_def split: if_splits)

lemma retry_busy_ends:
  assumes "0 < r"
  shows "\<exists>fuel x. retry_busy fuel a dl r i t = Some x"
proof (induction "nat (dl - t)" arbitrary: i t rule: less_induct)
  case less
  let ?t = "t + int (snd (a i))"
  show ?case
  proof (cases "\<exists>t'. fst (a i) = Busy \<and> waitForRetry dl r ?t = Some t'")
    case True
    then obtain t' where t': "fst (a i) = Busy" "waitForRetry dl r ?t = Some t'" by blast
    with waitForRetry_later [OF assms] have "nat (dl - t') < nat (dl - t)" by fastforce
    from less [OF this] obtain fuel x where "retry_busy fuel a dl r (Suc i) t' = Some x" by blast
    with t' have "retry_busy (Suc fuel) a dl r i t = Some x" by simp
    then show ?thesis by blast
  next
    case False
    then have "\<exists>x. retry_busy (Suc 0) a dl r i t = Some x"
      by (cases "fst (a i)"; cases "waitForRetry dl r ?t") auto
    then show ?thesis by blast
  qed
qed

text \<open>
  What the documentation of SQLite says of the reports: a call that leaves no page is the last one, and the page count
  of the database is bounded.
\<close>

definition paged :: "nat \<Rightarrow> (nat \<Rightarrow> step_report \<times> nat) \<Rightarrow> bool" where
  "paged N a \<longleftrightarrow> (\<forall>i after count. fst (a i) = StepMore after count \<longrightarrow> 0 < after \<and> count \<le> N)"

lemma stepSQLiteBackup_ends:
  assumes "0 < r" and "paged N a"
  shows "\<exists>fuel x. stepSQLiteBackup fuel a dl r i rem t = Some x"
proof (induction "(nat (dl - t), if rem = 0 then Suc N else rem)" arbitrary: i rem t rule: wf_induct_rule [OF wf_lex_prod [OF wf_less_than wf_less_than]])
  case less: 1
  let ?t = "t + int (snd (a i))"
  show ?case
  proof (cases "\<exists>after count. t < dl \<and> fst (a i) = StepMore after count")
    case True
    then obtain after count where a: "t < dl" "fst (a i) = StepMore after count" by blast
    then have pos: "0 < after" "count \<le> N" using assms(2) by (auto simp: paged_def)
    show ?thesis
    proof (cases "after < rem \<or> rem = 0 \<and> after < count")
      case True
      then have "((nat (dl - ?t), if after = 0 then Suc N else after), (nat (dl - t), if rem = 0 then Suc N else rem)) \<in> less_than <*lex*> less_than"
        using pos by auto
      from less [OF this] obtain fuel x where "stepSQLiteBackup fuel a dl r (Suc i) after ?t = Some x" by blast
      with True a have "stepSQLiteBackup (Suc fuel) a dl r i rem t = Some x" by (simp add: Let_def)
      then show ?thesis by blast
    next
      case False
      show ?thesis
      proof (cases "waitForRetry dl r ?t")
        case None
        with False a have "stepSQLiteBackup (Suc 0) a dl r i rem t = Some (CopyContext, dl)" by (auto simp: Let_def)
        then show ?thesis by blast
      next
        case (Some t')
        with waitForRetry_later [OF assms(1)] have "nat (dl - t') < nat (dl - t)" by fastforce
        then have "((nat (dl - t'), if after = 0 then Suc N else after), (nat (dl - t), if rem = 0 then Suc N else rem)) \<in> less_than <*lex*> less_than"
          by simp
        from less [OF this] obtain fuel x where "stepSQLiteBackup fuel a dl r (Suc i) after t' = Some x" by blast
        with False Some a have "stepSQLiteBackup (Suc fuel) a dl r i rem t = Some x" by (auto simp: Let_def)
        then show ?thesis by blast
      qed
    qed
  next
    case False
    then have "\<exists>x. stepSQLiteBackup (Suc 0) a dl r i rem t = Some x"
      by (cases "fst (a i)") (auto simp: Let_def)
    then show ?thesis by blast
  qed
qed

lemma and_then_ends:
  fixes x :: "nat \<Rightarrow> (copy_end \<times> int) option"
  assumes "\<exists>fuel. \<forall>fuel' \<ge> fuel. x fuel' = Some r" and "\<And>t. \<exists>fuel r. \<forall>fuel' \<ge> fuel. g t fuel' = Some r"
  shows "\<exists>fuel r. \<forall>fuel' \<ge> fuel. and_then (x fuel') (\<lambda>t. g t fuel') = Some r"
proof -
  obtain c t where ct: "r = (c, t)" by (cases r)
  from assms(1) obtain f1 where f1: "\<And>f. f1 \<le> f \<Longrightarrow> x f = Some (c, t)" unfolding ct by blast
  from assms(2) [of t] obtain f2 r2 where f2: "\<And>f. f2 \<le> f \<Longrightarrow> g t f = Some r2" by blast
  have "and_then (x f) (\<lambda>t. g t f) = Some (if c = CopyOk then r2 else (c, t))" if "max f1 f2 \<le> f" for f
  proof -
    from that have "f1 \<le> f" "f2 \<le> f" by simp_all
    then have "x f = Some (c, t)" "g t f = Some r2" using f1 f2 by blast+
    then show ?thesis by (cases c) (simp_all add: and_then_def)
  qed
  then show ?thesis by blast
qed

lemma retry_busy_settles:
  assumes "0 < r"
  shows "\<exists>x. \<exists>fuel. \<forall>fuel' \<ge> fuel. retry_busy fuel' a dl r i t = Some x"
  using retry_busy_ends [OF assms, of a dl i t] retry_busy_mono by blast

lemma copySQLiteOnline_ends:
  assumes "0 < r" and "paged N (sq_steps lib)"
  shows "\<exists>fuel x. \<forall>fuel' \<ge> fuel. copySQLiteOnline fuel' lib dl r now = Some x"
proof -
  have steps: "\<exists>fuel x. \<forall>fuel' \<ge> fuel. stepSQLiteBackup fuel' (sq_steps lib) dl r 0 0 t = Some x" for t
    using stepSQLiteBackup_ends [OF assms, of dl 0 0 t] stepSQLiteBackup_mono by blast
  have chain: "\<exists>fuel x. \<forall>fuel' \<ge> fuel. and_then (retry_busy fuel' a dl r 0 t) (\<lambda>t. g t fuel') = Some x"
    if "\<And>t. \<exists>fuel x. \<forall>fuel' \<ge> fuel. g t fuel' = Some x" for a t and g :: "int \<Rightarrow> nat \<Rightarrow> (copy_end \<times> int) option"
  proof -
    from retry_busy_settles [OF assms(1)] obtain x where "\<exists>fuel. \<forall>fuel' \<ge> fuel. retry_busy fuel' a dl r 0 t = Some x" by blast
    from and_then_ends [of "\<lambda>fuel. retry_busy fuel a dl r 0 t" x g, OF this that] show ?thesis .
  qed
  show ?thesis
    unfolding copySQLiteOnline_def
    by (rule chain [where g = "\<lambda>t1 fuel. and_then (retry_busy fuel (sq_target lib) dl r 0 t1) (\<lambda>t2.
        and_then (retry_busy fuel (sq_begin lib) dl r 0 t2) (\<lambda>t3. stepSQLiteBackup fuel (sq_steps lib) dl r 0 0 t3))"],
      rule chain [where g = "\<lambda>t2 fuel. and_then (retry_busy fuel (sq_begin lib) dl r 0 t2) (\<lambda>t3. stepSQLiteBackup fuel (sq_steps lib) dl r 0 0 t3)"],
      rule chain [where g = "\<lambda>t3 fuel. stepSQLiteBackup fuel (sq_steps lib) dl r 0 0 t3"], rule steps)
qed


section \<open>Publication\<close>

definition keeps_name :: "string \<Rightarrow> fs \<times> fs \<Rightarrow> bool" where
  "keeps_name path = (\<lambda>(a, b). case fs_names a path of Some i \<Rightarrow> fs_names b path = Some i | None \<Rightarrow> True)"

lemma keeps_name_ops:
  "tmp \<noteq> dest \<Longrightarrow> keeps_name dest (a, fs_create tmp i a)" "keeps_name dest (a, fs_write tmp c a)"
  "tmp \<noteq> dest \<Longrightarrow> keeps_name dest (a, fs_remove tmp a)" "keeps_name dest (a, a)" "fs_link tmp dest a = Some b \<Longrightarrow> keeps_name dest (a, b)"
  by (auto simp: keeps_name_def fs_create_def fs_write_def fs_remove_def fs_link_def split: option.splits)

lemma fs_names_remove: "fs_names (fs_remove tmp f) tmp = None"
  by (simp add: fs_remove_def)

lemma give_up_ok:
  assumes "tmp \<noteq> dest" and "list_all (keeps_name dest) trace" and "give_up env tmp e f trace = (res, f', trace')"
  shows "res = Inl e \<and> list_all (keeps_name dest) trace' \<and> (be_remove_ok env \<longrightarrow> fs_names f' tmp = None)"
  using assms by (auto simp: give_up_def Let_def keeps_name_ops fs_names_remove)

text \<open>Other processes that leave the temporary file alone.\<close>

definition quiet :: "backup_env \<Rightarrow> string \<Rightarrow> bool" where
  "quiet env tmp \<longleftrightarrow> (\<forall>k f. fs_names (be_others env k f) tmp = fs_names f tmp
    \<and> (case fs_names f tmp of Some i \<Rightarrow> fs_data (be_others env k f) i = fs_data f i | None \<Rightarrow> True))"

lemma quiet_read: "quiet env tmp \<Longrightarrow> fs_read (be_others env k f) tmp = fs_read f tmp"
  unfolding quiet_def fs_read_def by (cases "fs_names f tmp") (metis option.map(1), metis (mono_tags) option.case(2) option.map(2))

text \<open>The file that the link published: a complete, checked copy under a name that was free.\<close>

definition published :: "backup_env \<Rightarrow> string \<Rightarrow> backupResult \<Rightarrow> fs \<times> fs \<Rightarrow> bool" where
  "published env dest r = (\<lambda>(a, b). fs_names a dest = None \<and>
    (case fs_read b dest of
       None \<Rightarrow> False
     | Some content \<Rightarrow>
         content = sq_content (be_sqlite env) \<and> br_ContentSHA256 r = sha256_hex content \<and> br_SizeBytes r = length content
         \<and> (case be_open_db env content of
              Some ([c], Some d) \<Rightarrow> c = ''ok'' \<and> br_Records r = length (records d)
                \<and> br_Sessions r = card (session_id ` set (records d)) \<and> br_SourceIngestFence r = ingest_clock d
            | _ \<Rightarrow> False)))"

lemma inspectBackup_Inr:
  assumes "inspectBackup open_db content = Inr r"
  obtains d where "open_db content = Some ([''ok''], Some d)" "br_Records r = length (records d)"
    "br_Sessions r = card (session_id ` set (records d))" "br_SourceIngestFence r = ingest_clock d"
proof -
  from assms obtain checks d where d: "open_db content = Some (checks, Some d)" "list_all (\<lambda>c. c = ''ok'') checks" "length checks = 1"
      "br_Records r = length (records d)" "br_Sessions r = length (remdups (map session_id (records d)))" "br_SourceIngestFence r = ingest_clock d"
    by (auto simp: inspectBackup_def split: option.splits if_splits)
  then have "checks = [''ok'']" by (cases checks) auto
  moreover have "length (remdups (map session_id (records d))) = card (session_id ` set (records d))"
    by (simp add: length_remdups_card_conv)
  ultimately show thesis using d that by simp
qed

lemma give_up_Inl: "give_up env tmp e f trace = (res, f', trace') \<Longrightarrow> \<exists>x. res = Inl x"
  by (auto simp: give_up_def Let_def)

lemma publish_ok:
  assumes "tmp \<noteq> dest" and "list_all (keeps_name dest) trace" and "publish env tmp dest r f trace = (res, f', trace')"
  shows "list_all (keeps_name dest) trace' \<and> (be_remove_ok env \<longrightarrow> fs_names f' tmp = None)
    \<and> (case res of Inl _ \<Rightarrow> True | Inr r' \<Rightarrow> r' = r \<and> be_remove_ok env
        \<and> (\<exists>a b. (a, b) \<in> set trace' \<and> fs_link tmp dest a = Some b \<and> a = be_others env 3 f))"
proof (cases "fs_link tmp dest (be_others env 3 f)")
  case None
  with assms(3) have "give_up env tmp errUnsafeDestination (be_others env 3 f) trace = (res, f', trace')" by (simp add: publish_def Let_def)
  from give_up_ok [OF assms(1,2) this] show ?thesis by auto
next
  case (Some g)
  let ?t = "trace @ [(be_others env 3 f, g)]"
  have t: "list_all (keeps_name dest) ?t" using assms(2) keeps_name_ops(5) [OF Some] by simp
  show ?thesis
    using assms(3) Some give_up_ok [OF assms(1) t] t keeps_name_ops(3) [OF assms(1)]
    by (auto simp: publish_def Let_def fs_names_remove dest: give_up_Inl split: if_splits)
qed

definition run_ok :: "backup_env \<Rightarrow> string \<Rightarrow> string \<Rightarrow> backup_run \<Rightarrow> bool" where
  "run_ok env tmp dest = (\<lambda>(res, f, trace).
    list_all (keeps_name dest) trace \<and> (be_remove_ok env \<longrightarrow> fs_names f tmp = None)
    \<and> (quiet env tmp \<longrightarrow> (case res of Inl _ \<Rightarrow> True | Inr r \<Rightarrow> list_ex (published env dest r) trace)))"

lemma run_ok_give_up:
  assumes "tmp \<noteq> dest" and "list_all (keeps_name dest) trace"
  shows "run_ok env tmp dest (give_up env tmp e f trace)"
proof -
  obtain res f' trace' where g: "give_up env tmp e f trace = (res, f', trace')" by (metis prod_cases3)
  from give_up_ok [OF assms g] show ?thesis by (simp add: g run_ok_def)
qed

lemma run_ok_publish:
  assumes "tmp \<noteq> dest" and "list_all (keeps_name dest) trace" and "inspectBackup (be_open_db env) content = Inr r"
    and "quiet env tmp \<Longrightarrow> fs_read f tmp = Some (sq_content (be_sqlite env)) \<and> hashed = content \<and> content = sq_content (be_sqlite env)"
  shows "run_ok env tmp dest (publish env tmp dest (r\<lparr>br_ContentSHA256 := sha256_hex hashed, br_SizeBytes := length hashed\<rparr>) f trace)"
proof -
  let ?r = "r\<lparr>br_ContentSHA256 := sha256_hex hashed, br_SizeBytes := length hashed\<rparr>"
  obtain res f' trace' where g: "publish env tmp dest ?r f trace = (res, f', trace')" by (metis prod_cases3)
  note p = publish_ok [OF assms(1,2) g]
  have "list_ex (published env dest r') trace'" if q: "quiet env tmp" and res: "res = Inr r'" for r'
  proof -
    from p res obtain a b where ab: "(a, b) \<in> set trace'" "fs_link tmp dest a = Some b" "a = be_others env 3 f" and r': "r' = ?r" by auto
    have "fs_read a tmp = Some content" using assms(4) [OF q] quiet_read [OF q] ab(3) by simp
    with ab(2) have "fs_names a dest = None" "fs_read b dest = Some content"
      by (auto simp: fs_link_def fs_read_def split: option.splits)
    then have "published env dest r' (a, b)"
      using assms(4) [OF q] assms(3) by (auto simp: published_def r' elim!: inspectBackup_Inr)
    with ab(1) show ?thesis by (auto simp: list_ex_iff)
  qed
  with p show ?thesis by (auto simp: g run_ok_def split: sum.splits)
qed

lemma run_ok_verify:
  assumes "tmp \<noteq> dest" and "list_all (keeps_name dest) trace"
    and "quiet env tmp \<Longrightarrow> fs_read f tmp = Some (sq_content (be_sqlite env))"
  shows "run_ok env tmp dest (verify_and_publish env tmp dest f trace)"
proof -
  have "run_ok env tmp dest (publish env tmp dest (r\<lparr>br_ContentSHA256 := sha256_hex hashed, br_SizeBytes := length hashed\<rparr>) (be_others env 2 f) trace)"
    if "fs_read f tmp = Some content" "inspectBackup (be_open_db env) content = Inr r" "fs_read (be_others env 2 f) tmp = Some hashed" for content r hashed
    using that assms(3) quiet_read [of env tmp 2 f] by (intro run_ok_publish [OF assms(1,2) that(2)]) auto
  with run_ok_give_up [OF assms(1,2)] show ?thesis
    by (simp add: verify_and_publish_def Let_def split: option.split sum.split)
qed

text \<open>
  C29. A backup never replaces or removes a file that has the destination's name, even when another process creates it
  while the backup runs; it leaves no temporary file behind if files can be removed; and when it reports success
  and nobody else touched its temporary file, the name was free and now names a complete copy that passed the
  integrity check, with the digest, size, counts and fence that are reported.
\<close>

theorem backup_publishes_safely:
  assumes "createOnlineBackup fuel env opts f = Some (res, f', trace)" and "be_temp env = Some (tmp, inode)"
    and "tmp \<noteq> bo_Destination opts" and "fs_names f tmp = None"
  shows "list_all (keeps_name (bo_Destination opts)) trace
    \<and> (be_remove_ok env \<longrightarrow> fs_names f' tmp = None)
    \<and> (quiet env tmp \<longrightarrow> (case res of Inl _ \<Rightarrow> True | Inr r \<Rightarrow> list_ex (published env (bo_Destination opts) r) trace))"
proof -
  let ?d = "bo_Destination opts"
  have early: "run_ok env tmp ?d (Inl e, f, [])" for e using assms(4) by (simp add: run_ok_def)
  let ?f0 = "be_others env 0 f"
  let ?f1 = "fs_create tmp inode ?f0"
  have t: "list_all (keeps_name ?d) [(?f0, ?f1)]" using keeps_name_ops(1) [OF assms(3)] by simp
  let ?g = "be_others env 1 ?f1"
  let ?f2 = "fs_write tmp (sq_content (be_sqlite env)) ?g"
  have "fs_names ?f1 tmp = Some inode" by (simp add: fs_create_def)
  then have "fs_read ?f2 tmp = Some (sq_content (be_sqlite env))" if "quiet env tmp"
    using that by (simp add: quiet_def fs_write_def fs_read_def)
  then have v: "run_ok env tmp ?d (verify_and_publish env tmp ?d ?f2 [(?f0, ?f1), (?g, ?f2)])"
    using t keeps_name_ops(2) by (intro run_ok_verify [OF assms(3)]) simp_all
  have g: "run_ok env tmp ?d (res, f', trace)" if "give_up env tmp e x [(?f0, ?f1)] = (res, f', trace)" for e x
    using run_ok_give_up [OF assms(3) t, of env e x] unfolding that .
  have "run_ok env tmp ?d (res, f', trace)"
    using assms(1,2) early v
    by (auto simp: createOnlineBackup_def copy_and_publish_def Let_def intro: g split: if_splits)
  then show ?thesis by (simp add: run_ok_def)
qed

section \<open>Examples\<close>

definition quiet_sqlite :: sqlite where
  "quiet_sqlite = \<lparr>sq_source = \<lambda>_. (Ready, 0), sq_target = \<lambda>_. (Ready, 0), sq_begin = \<lambda>_. (Ready, 0),
     sq_steps = \<lambda>i. (if i = 0 then StepMore 3 5 else StepDone, 1), sq_content = ''copy''\<rparr>"

definition quiet_env :: backup_env where
  "quiet_env = \<lparr>be_now = 0, be_source_regular = True, be_lstat_fails = False, be_absolute = Some, be_temp = Some (''tmp'', 7), be_chmod_ok = True,
     be_close_ok = True, be_sqlite = quiet_sqlite, be_open_db = \<lambda>_. Some ([''ok''], Some empty_db), be_sync_ok = True, be_syncdir1_ok = True,
     be_remove_ok = True, be_syncdir2_ok = True, be_others = \<lambda>_ f. f\<rparr>"

definition sample_options :: backupOptions where
  "sample_options = \<lparr>bo_Source = ''a'', bo_Destination = ''b'', bo_Timeout = 10, bo_RetryInterval = 1, bo_PagesPerStep = 2\<rparr>"

definition bare_fs :: fs where
  "bare_fs = \<lparr>fs_names = Map.empty, fs_data = \<lambda>_. []\<rparr>"

lemma quiet_run: "\<exists>r f trace. createOnlineBackup 3 quiet_env sample_options bare_fs = Some (Inr r, f, trace)"
  by (simp add: createOnlineBackup_def quiet_env_def sample_options_def bare_fs_def validateOptions_def maxPagesPerStep_def
      sameResolvedPath_def copy_and_publish_def copySQLiteOnline_def quiet_sqlite_def and_then_def eval_nat_numeral Let_def
      verify_and_publish_def fs_read_def fs_write_def fs_create_def inspectBackup_def publish_def fs_link_def)

theorem backup_publishes_safely_witness:
  "\<exists>r f trace. createOnlineBackup 3 quiet_env sample_options bare_fs = Some (Inr r, f, trace)
    \<and> list_ex (published quiet_env ''b'' r) trace \<and> list_all (keeps_name ''b'') trace \<and> fs_names f ''tmp'' = None"
proof -
  obtain r f trace where run: "createOnlineBackup 3 quiet_env sample_options bare_fs = Some (Inr r, f, trace)" using quiet_run by blast
  have "be_temp quiet_env = Some (''tmp'', 7)" "''tmp'' \<noteq> bo_Destination sample_options" "fs_names bare_fs ''tmp'' = None"
    "quiet quiet_env ''tmp''" "be_remove_ok quiet_env" "bo_Destination sample_options = ''b''"
    by (simp_all add: quiet_env_def sample_options_def bare_fs_def quiet_def split: option.split)
  with backup_publishes_safely [OF run, of "''tmp''" 7] run show ?thesis by auto
qed


end
