(* ===== verification/Startup.thy ===== *)
theory Startup
  imports Turn_Projection
begin

text \<open>
  The start of the collector (\<open>main\<close>, \<open>startStartupTasks\<close>, \<open>retryStartup\<close> and the health endpoints in
  \<open>cmd/cpa-session-collector/main.go\<close>): the repairs in their order, each tried three times, and readiness, which is announced when
  all of them have succeeded.

  Which attempts SQLite lets fail belongs to the environment: \<open>fault name k\<close> is the error of attempt \<open>k\<close> of the task
  \<open>name\<close>, which then has changed nothing. \<open>busy\<close> is the parameter of the facet projection. \<open>getenv\<close> is \<open>os.Getenv\<close>.
  The records that arrive meanwhile are the subject of \<open>archive_step\<close>; here the archive is otherwise at rest.
\<close>

section \<open>Definitions\<close>

definition env :: "(string \<Rightarrow> string) \<Rightarrow> string \<Rightarrow> string \<Rightarrow> string" where
  "env getenv k dflt = (if getenv k \<noteq> [] then getenv k else dflt)"

type_synonym task = "db \<Rightarrow> err option \<times> db"

definition startupMaxAttempts :: nat where
  "startupMaxAttempts = 3"

text \<open>The attempts from number \<open>k\<close> on; \<open>left\<close> more may follow the present one.\<close>

fun retry_from :: "nat \<Rightarrow> nat \<Rightarrow> (nat \<Rightarrow> task) \<Rightarrow> task" where
  "retry_from k left run d =
    (case run k d of
       (None, d') \<Rightarrow> (None, d')
     | (Some e, d') \<Rightarrow> (case left of 0 \<Rightarrow> (Some e, d') | Suc left' \<Rightarrow> retry_from (Suc k) left' run d'))"

definition retryStartupWithPolicy :: "int \<Rightarrow> (nat \<Rightarrow> task) \<Rightarrow> task" where
  "retryStartupWithPolicy attempts run = retry_from 0 (nat (max 1 attempts) - 1) run"

definition retryStartup :: "(string \<Rightarrow> nat \<Rightarrow> err option) \<Rightarrow> string \<Rightarrow> task \<Rightarrow> task" where
  "retryStartup fault name run =
    retryStartupWithPolicy (int startupMaxAttempts)
      (\<lambda>k d. case fault name k of Some e \<Rightarrow> (Some e, d) | None \<Rightarrow> run d)"

text \<open>Tasks one after the other, up to the first that fails.\<close>

fun in_order :: "task list \<Rightarrow> task" where
  "in_order [] d = (None, d)"
| "in_order (t # ts) d = (case t d of (Some e, d') \<Rightarrow> (Some e, d') | (None, d') \<Rightarrow> in_order ts d')"

definition enabled :: "(string \<Rightarrow> string) \<Rightarrow> string \<Rightarrow> string \<Rightarrow> task \<Rightarrow> task" where
  "enabled getenv key dflt t d = (if env getenv key dflt = ''true'' then t d else (None, d))"

definition canonical_task :: "(string list \<Rightarrow> string) \<Rightarrow> task" where
  "canonical_task pick d =
    (case RepairCanonicalSessions pick d of (Inl e, d') \<Rightarrow> (Some e, d') | (Inr changed, d') \<Rightarrow> (None, d'))"

definition facets_task :: "(nat \<Rightarrow> nat \<Rightarrow> string option) \<Rightarrow> task" where
  "facets_task busy d =
    (case BackfillTurnFacetProjection busy 64 d of
       (Some m, d') \<Rightarrow> (Some (if isSQLiteBusy (Some m) then Locked else Fatal), d') | (None, d') \<Rightarrow> (None, d'))"

definition repairChain ::
  "library \<Rightarrow> nat \<Rightarrow> (string list \<Rightarrow> string) \<Rightarrow> (string \<Rightarrow> nat \<Rightarrow> err option) \<Rightarrow> (string \<Rightarrow> string) \<Rightarrow> bool \<Rightarrow> task" where
  "repairChain lib n pick fault getenv storeUpstream =
    in_order
      [enabled getenv ''ARCHIVE_MIGRATE_LEGACY'' ''false''
         (retryStartup fault ''legacy archive migration'' (MigrateLegacy storeUpstream)),
       enabled getenv ''ARCHIVE_REPAIR_CANONICAL_SESSIONS'' ''true''
         (retryStartup fault ''canonical session repair'' (canonical_task pick)),
       enabled getenv ''ARCHIVE_BACKFILL_SESSION_INDEX'' ''true''
         (retryStartup fault ''session index backfill'' BackfillSessionIndex),
       enabled getenv ''ARCHIVE_REPAIR_SESSION_SUMMARIES'' ''true''
         (retryStartup fault ''session summary repair'' (RepairSessionSummaries lib n)),
       enabled getenv ''ARCHIVE_REPAIR_RECORD_PREVIEWS'' ''true''
         (retryStartup fault ''request preview repair'' (RepairRecordPreviews lib n)),
       enabled getenv ''ARCHIVE_NORMALIZE_SSE'' ''true''
         (retryStartup fault ''historical SSE normalization'' NormalizeHistoricalSSE)]"

text \<open>A task without a function is skipped. The first component tells whether readiness is announced.\<close>

fun startStartupTasks :: "task option list \<Rightarrow> db \<Rightarrow> bool \<times> db" where
  "startStartupTasks [] d = (True, d)"
| "startStartupTasks (None # ts) d = startStartupTasks ts d"
| "startStartupTasks (Some t # ts) d =
    (case t d of (Some e, d') \<Rightarrow> (False, d') | (None, d') \<Rightarrow> startStartupTasks ts d')"

definition startup_tasks ::
  "library \<Rightarrow> nat \<Rightarrow> (string list \<Rightarrow> string) \<Rightarrow> (string \<Rightarrow> nat \<Rightarrow> err option) \<Rightarrow> (nat \<Rightarrow> nat \<Rightarrow> string option) \<Rightarrow>
    (string \<Rightarrow> string) \<Rightarrow> task option list" where
  "startup_tasks lib n pick fault busy getenv =
    (let project = env getenv ''ARCHIVE_BACKFILL_TURN_PROJECTION'' ''true'' = ''true'';
         storeUpstream = (env getenv ''STORE_UPSTREAM_REQUEST'' ''false'' = ''true'')
     in [Some (repairChain lib n pick fault getenv storeUpstream),
         if project then Some (retryStartup fault ''turn projection backfill'' (BackfillTurnProjection 64)) else None,
         if project then Some (retryStartup fault ''turn facet projection backfill'' (facets_task busy)) else None])"

text \<open>Status and message of the two probes; \<open>ping\<close> is whether the database answers.\<close>

definition health :: "bool \<Rightarrow> nat \<times> string" where
  "health ping = (if \<not> ping then (503, ''unhealthy'') else (200, ''ok''))"

definition ready :: "bool \<Rightarrow> bool \<Rightarrow> nat \<times> string" where
  "ready startupReady ping =
    (if \<not> startupReady then (503, ''not ready'') else if \<not> ping then (503, ''not ready'') else (200, ''ok''))"

section \<open>Retries\<close>

text \<open>A task that succeeds whenever SQLite lets it run succeeds within the three attempts.\<close>

lemma retry_succeeds:
  assumes "run d = (None, d')" and "\<exists>k\<le>left. f (a + k) = None"
  shows "retry_from a left (\<lambda>k d. case f k of Some e \<Rightarrow> (Some e, d) | None \<Rightarrow> run d) d = (None, d')"
  using assms(2)
proof (induction left arbitrary: a)
  case 0
  with assms(1) show ?case by simp
next
  case (Suc left)
  then obtain k where k: "k \<le> Suc left" "f (a + k) = None" by blast
  show ?case
  proof (cases "f a")
    case None
    with assms(1) show ?thesis by simp
  next
    case (Some e)
    with k obtain m where "m \<le> left" "f (Suc a + m) = None" by (cases k) auto
    with Suc.IH [of "Suc a"] Some show ?thesis by auto
  qed
qed

definition recovers :: "(string \<Rightarrow> nat \<Rightarrow> err option) \<Rightarrow> bool" where
  "recovers fault \<longleftrightarrow> (\<forall>name. \<exists>k < startupMaxAttempts. fault name k = None)"

lemma retryStartup_succeeds:
  assumes "recovers fault" and "fst (run d) = None"
  shows "retryStartup fault name run d = run d"
proof -
  have "\<exists>k\<le>2. fault name (0 + k) = None"
    using assms(1) by (auto simp: recovers_def startupMaxAttempts_def less_Suc_eq_le numeral_3_eq_3 numeral_2_eq_2)
  moreover have "run d = (None, snd (run d))" using assms(2) by (simp add: prod_eq_iff)
  ultimately show ?thesis
    using retry_succeeds [of run d "snd (run d)" 2 "fault name" 0]
    by (simp add: retryStartup_def retryStartupWithPolicy_def startupMaxAttempts_def del: retry_from.simps)
qed

text \<open>Readiness is announced exactly when every task has returned without error.\<close>

lemma ready_iff_all: "startStartupTasks ts d = (True, d') \<longleftrightarrow> in_order (List.map_filter id ts) d = (None, d')"
  by (induction ts d rule: startStartupTasks.induct) (auto simp: map_filter_simps split: prod.splits option.splits)

section \<open>What the repairs leave alone\<close>

definition row_refs :: "db \<Rightarrow> (nat \<times> string \<times> string \<times> string) list" where
  "row_refs d = map (\<lambda>r. (r_id r, request_id r, original_ref r, response_ref r)) (records d)"

definition row_filings :: "db \<Rightarrow> (string \<times> string) list" where
  "row_filings d = map (\<lambda>r. (request_id r, session_id r)) (records d)"

definition turn_filings :: "db \<Rightarrow> (string \<times> string) list" where
  "turn_filings d = map (\<lambda>t. (t_request_id t, t_session_id t)) (turn_records d)"

lemma turns_filed_filings:
  "turns_filed d \<longleftrightarrow> (\<forall>(q, s) \<in> set (turn_filings d). \<forall>(p, s') \<in> set (row_filings d). p = q \<longrightarrow> s = s')"
  by (auto simp: turns_filed_def turn_filings_def row_filings_def)

lemma fully_indexed_filings:
  "fully_indexed d \<longleftrightarrow> (\<forall>(q, s) \<in> set (row_filings d). q \<noteq> [] \<and> s \<noteq> [] \<longrightarrow> q \<in> fst ` set (session_indexed_requests d))"
  by (auto simp: fully_indexed_def rec_keys_def row_filings_def)

text \<open>A repair that moves no record.\<close>

definition in_place :: "db \<Rightarrow> db \<Rightarrow> bool" where
  "in_place d d' \<longleftrightarrow>
    grows d d' \<and> keeps_ids d d' \<and> row_filings d' = row_filings d \<and> turn_filings d' = turn_filings d"

lemma in_place_refl: "in_place d d"
  by (simp add: in_place_def grows_refl keeps_ids_refl)

lemma in_place_trans: "in_place d d' \<Longrightarrow> in_place d' d'' \<Longrightarrow> in_place d d''"
  by (auto simp: in_place_def intro: grows_trans keeps_ids_trans)

lemma in_place_keeps:
  assumes "in_place d d'"
  shows "archive_ok d \<Longrightarrow> archive_ok d'" and "turns_filed d' = turns_filed d" and "fully_indexed d' = fully_indexed d"
    and "row_ids d' = row_ids d" and "session_indexed_requests d' = session_indexed_requests d"
  using assms by (auto simp: in_place_def turns_filed_filings fully_indexed_filings keeps_ids_def intro: archive_ok_keeps)

lemma set_version_in_place: "in_place d (set_version name v d)"
  by (simp add: in_place_def set_version_grows keeps_ids_def row_ids_def turn_ids_def row_filings_def turn_filings_def row_simps)

lemma normalize_one_in_place: "normalize_one q d = Inr d' \<Longrightarrow> in_place d d'"
  by (frule normalize_one_grows, frule normalize_one_keeps, erule normalize_one_run)
    (simp add: in_place_def row_filings_def turn_filings_def set_response_ref_def if_distrib cong: if_cong)

lemma preview_one_in_place: "preview_one lib n item d = Inr d' \<Longrightarrow> in_place d d' \<and> row_refs d' = row_refs d"
  by (frule preview_one_keeps, erule preview_one_run)
    (simp add: in_place_def row_filings_def turn_filings_def row_refs_def preview_turn_def preview_row_def)

lemma resummarize_one_in_place:
  "resummarize_one lib n item d = Inr d' \<Longrightarrow> in_place d d' \<and> records d' = records d \<and> previewed_requests d' = previewed_requests d"
  using summaries.op_keeps [of lib n item d d'] summaries.op_grows [of lib n item d d']
  by (auto dest!: resummarize_one_shape simp: in_place_def row_filings_def turn_filings_def)

section \<open>Records that can be repaired\<close>

definition original_ready :: "library \<Rightarrow> nat \<Rightarrow> db \<Rightarrow> string \<Rightarrow> bool" where
  "original_ready lib n d ref \<longleftrightarrow> ref = [] \<or>
    (\<exists>body cs. LoadPayload n d ref = Inr body \<and> extractConversationSummaries (lib_entities lib) (gstr lib) body = Inr cs)"

text \<open>Both payloads of a record load, its texts are extracted without a panic, and the parts of its response are there.\<close>

definition row_ready :: "library \<Rightarrow> nat \<Rightarrow> db \<Rightarrow> nat \<times> string \<times> string \<times> string \<Rightarrow> bool" where
  "row_ready lib n d x =
    (case x of (i, q, orig, resp) \<Rightarrow>
       original_ready lib n d orig \<and> (resp = [] \<or> (\<exists>body. LoadPayload n d resp = Inr body)) \<and> response_readable d resp)"

lemma row_ready_grows: "grows d d' \<Longrightarrow> row_ready lib n d x \<Longrightarrow> row_ready lib n d' x"
  using LoadPayload_mono [of d d'] response_readable_grows [of d d']
  by (fastforce simp: row_ready_def original_ready_def grows_def split: prod.splits)

lemma resummarize_ready:
  assumes "\<forall>item \<in> set items. original_ready lib n d (snd item)"
  shows "\<exists>d'. foldM_res (resummarize_one lib n) items d = Inr d' \<and> in_place d d' \<and> records d' = records d
    \<and> previewed_requests d' = previewed_requests d"
  using assms
proof (induction items arbitrary: d)
  case (Cons x xs)
  have one: "\<exists>d1. resummarize_one lib n y d = Inr d1" if "original_ready lib n d (snd y)" for y
    using that by (auto simp: original_ready_def resummarize_one_def extractConversationSummaryFirst_def)
  have "original_ready lib n d (snd x)" using Cons.prems by simp
  from one [OF this] obtain d1 where d1: "resummarize_one lib n x d = Inr d1" by blast
  note p1 = resummarize_one_in_place [OF d1]
  have "original_ready lib n d1 ref" if "original_ready lib n d ref" for ref
    using that p1 LoadPayload_mono [of d d1] by (auto simp: original_ready_def in_place_def grows_def)
  with Cons.prems have "\<forall>item \<in> set xs. original_ready lib n d1 (snd item)" by simp
  from Cons.IH [OF this] obtain d2 where d2: "foldM_res (resummarize_one lib n) xs d1 = Inr d2" "in_place d1 d2"
    "records d2 = records d1" "previewed_requests d2 = previewed_requests d1"
    by blast
  with p1 d1 in_place_trans [of d d1 d2] show ?case by (intro exI [of _ d2]) simp
qed (simp add: in_place_refl)

lemma summaries_run:
  assumes "\<forall>x \<in> set (row_refs d). row_ready lib n d x"
  shows "\<exists>d'. RepairSessionSummaries lib n d = (None, d') \<and> in_place d d' \<and> records d' = records d"
proof -
  have "original_ready lib n d (first_original d sid)" for sid
  proof (cases "sort_key started_at (filter (\<lambda>r. session_id r = sid) (records d))")
    case Nil
    then show ?thesis by (simp add: first_original_def original_ready_def)
  next
    case (Cons r rs)
    then have "r \<in> set (sort_key started_at (filter (\<lambda>r. session_id r = sid) (records d)))" by simp
    then have "r \<in> set (records d)" by simp
    with assms Cons show ?thesis by (auto simp: first_original_def row_refs_def row_ready_def)
  qed
  then have "\<forall>item \<in> set (summary_candidates d). original_ready lib n d (snd item)"
    by (auto simp: summary_candidates_def)
  from resummarize_ready [OF this] obtain d1 where d1: "foldM_res (resummarize_one lib n) (summary_candidates d) d = Inr d1"
    "in_place d d1" "records d1 = records d"
    by blast
  have "run_batches (foldM_res (resummarize_one lib n)) (chunks 1 (summary_candidates d)) d = (None, d1)"
    using d1(1) by (intro run_batches_all) (simp add: concat_chunks)
  then have "RepairSessionSummaries lib n d = (None, set_version ''session_summary'' 3 d1)"
    by (simp add: RepairSessionSummaries_def)
  moreover have "in_place d (set_version ''session_summary'' 3 d1)" using d1(2) set_version_in_place by (rule in_place_trans)
  ultimately show ?thesis using d1(3) by (simp add: row_simps)
qed

section \<open>The single steps\<close>

lemma move_one_filed:
  assumes "move_one x d = Inr d'"
  shows "turns_filed d \<longrightarrow> turns_filed d'" and "row_refs d' = row_refs d"
proof -
  let ?f = "\<lambda>(q, s). (q, if q = cr_requestID x then cr_newID x else s)"
  let ?js = "facetsJSON (moved_facets x)"
  obtain c es where u: "update_records (\<lambda>r. request_id r = cr_requestID x) (move_row (cr_newID x) ?js) d =
      d\<lparr>records := map (\<lambda>r. if request_id r = cr_requestID x then move_row (cr_newID x) ?js r else r) (records d),
        ingest_clock := c, ingest_events := es\<rparr>"
    using update_records_shape by blast
  have "row_filings d' = map ?f (row_filings d)" "turn_filings d' = map ?f (turn_filings d)"
    using assms by (auto simp: move_one_def Let_def u row_filings_def turn_filings_def move_turn_def split: if_splits)
  then show "turns_filed d \<longrightarrow> turns_filed d'" unfolding turns_filed_filings by auto
  show "row_refs d' = row_refs d"
    using assms by (auto simp: move_one_def Let_def u row_refs_def move_row_def split: if_splits)
qed

lemma rebuild_index_rows:
  "records (rebuild_index d) = records d" "turn_records (rebuild_index d) = turn_records d"
proof -
  have "records (fold (\<lambda>r. indexSessionRecord (rebuilt_record r)) rs e) = records e \<and>
      turn_records (fold (\<lambda>r. indexSessionRecord (rebuilt_record r)) rs e) = turn_records e" for rs e
    by (induction rs arbitrary: e) (simp_all add: row_simps)
  then show "records (rebuild_index d) = records d" "turn_records (rebuild_index d) = turn_records d"
    by (simp_all add: rebuild_index_def)
qed

lemma RepairCanonicalSessions_filed:
  assumes "RepairCanonicalSessions pick d = (Inr k, d')"
  shows "turns_filed d \<longrightarrow> turns_filed d'" and "row_refs d' = row_refs d" and "grows d d'"
proof -
  have *: "(turns_filed d \<longrightarrow> turns_filed d1) \<and> row_refs d1 = row_refs d \<and> grows d d1" if "canonical_tx xs d = Inr d1" for xs d1
  proof -
    from that obtain e where e: "foldM_res move_one xs d = Inr e" "d1 = rebuild_index e"
      by (auto simp: canonical_tx_def bind_res_Inr_iff)
    from e(1) have "(turns_filed d \<longrightarrow> turns_filed e) \<and> row_refs e = row_refs d"
      by (rule foldM_res_rel [where Q = "\<lambda>d e. (turns_filed d \<longrightarrow> turns_filed e) \<and> row_refs e = row_refs d"])
        (use move_one_filed in auto)
    with canonical_tx_grows [OF that] show ?thesis
      by (simp add: e(2) turns_filed_def row_refs_def rebuild_index_rows)
  qed
  have v: "turns_filed (set_version name v e) = turns_filed e" "row_refs (set_version name v e) = row_refs e" for name v e
    by (simp_all add: turns_filed_def row_refs_def row_simps)
  from assms consider "d' = d" | "d' = set_version ''canonical_session'' 1 d"
    | d1 where "canonical_tx (canonical_repairs pick d) d = Inr d1" "d' = set_version ''canonical_session'' 1 d1"
    by (auto simp: RepairCanonicalSessions_def Let_def split: if_splits sum.splits)
  then have "(turns_filed d \<longrightarrow> turns_filed d') \<and> row_refs d' = row_refs d \<and> grows d d'"
    by cases (auto simp: v grows_refl set_version_grows dest!: * intro: grows_trans [OF _ set_version_grows])
  then show "turns_filed d \<longrightarrow> turns_filed d'" "row_refs d' = row_refs d" "grows d d'" by simp_all
qed

lemma canonical_step:
  assumes "archive_ok d" and "turns_filed d" and "\<forall>r \<in> set (records d). \<not> null_facets (facets_json r)"
  shows "\<exists>d'. canonical_task pick d = (None, d') \<and> archive_ok d' \<and> grows d d' \<and> turns_filed d' \<and> row_refs d' = row_refs d
    \<and> (repair_version ''canonical_session'' d = 0 \<longrightarrow>
         (\<forall>(q, s) \<in> set (row_filings d'). stableWindowID (canonical_facet pick d q) \<in> {[], s}))"
proof (cases "repair_version ''canonical_session'' d = 0")
  case True
  from canonical_repair_run [OF assms(1) True assms(3), of pick] obtain k d' where
    d': "RepairCanonicalSessions pick d = (Inr k, d')" "archive_ok d'"
    "\<forall>r \<in> set (records d'). stableWindowID (canonical_facet pick d (request_id r)) \<in> {[], session_id r}"
    by (elim exE conjE)
  have "canonical_task pick d = (None, d')" by (simp add: canonical_task_def d'(1))
  moreover have "\<forall>(q, s) \<in> set (row_filings d'). stableWindowID (canonical_facet pick d q) \<in> {[], s}"
    using d'(3) by (auto simp: row_filings_def)
  ultimately show ?thesis
    using d'(2) RepairCanonicalSessions_filed [OF d'(1)] assms(2) by (intro exI [of _ d']) simp
next
  case False
  then have "canonical_task pick d = (None, d)" by (simp add: canonical_task_def RepairCanonicalSessions_def)
  with False assms(1,2) show ?thesis by (intro exI [of _ d]) (simp add: grows_refl)
qed

lemma backfill_step:
  assumes "archive_ok d" and "turns_filed d"
  shows "\<exists>d'. BackfillSessionIndex d = (None, d') \<and> archive_ok d' \<and> grows d d' \<and> turns_filed d' \<and> records d' = records d
    \<and> fully_indexed d'"
proof -
  from session_backfill_run [OF assms(1)] obtain d' where
    d': "BackfillSessionIndex d = (None, d')" "archive_ok d'" "fully_indexed d'" "records d' = records d"
    by blast
  have "turn_records d' = turn_records d"
  proof -
    have one: "turn_records e' = turn_records e" if "backfill_one q e = Inr e'" for q e e'
      using that by (auto simp: backfill_one_def row_simps split: option.splits)
    have "turn_records (snd (BackfillSessionIndex d)) = turn_records d"
      unfolding BackfillSessionIndex_def
    proof (rule run_batches_rel [where Q = "\<lambda>d d'. turn_records d' = turn_records d"])
      show "turn_records e' = turn_records e" if "foldM_res backfill_one b e = Inr e'" for b e e'
        using that by (rule foldM_res_rel) (use one in auto)
    qed simp_all
    with d'(1) show ?thesis by simp
  qed
  then have "turns_filed d'" using assms(2) d'(4) by (simp add: turns_filed_def)
  with d' BackfillSessionIndex_grows [of d] show ?thesis by (intro exI [of _ d']) simp
qed

lemma preview_candidates_empty: "preview_candidates d = [] \<longleftrightarrow> (\<forall>q \<in> snd ` set (row_ids d). \<not> unpreviewed d q)"
proof -
  have "preview_candidates d = [] \<longleftrightarrow> set (sort_key r_id (filter (\<lambda>r. unpreviewed d (request_id r)) (records d))) = {}"
    by (simp add: preview_candidates_def del: set_sort)
  also have "\<dots> \<longleftrightarrow> (\<forall>q \<in> snd ` set (row_ids d). \<not> unpreviewed d q)" by (auto simp: row_ids_def)
  finally show ?thesis .
qed

lemma preview_step:
  assumes "archive_ok d" and "\<forall>x \<in> set (row_refs d). row_ready lib n d x"
  shows "\<exists>d'. RepairRecordPreviews lib n d = (None, d') \<and> in_place d d' \<and> row_refs d' = row_refs d \<and> preview_candidates d' = []"
proof -
  have "\<exists>t. preview_texts lib n d item = Inr t" if item: "item \<in> set (preview_candidates d)" for item
  proof -
    from item obtain r where r: "r \<in> set (records d)" "pi_originalRef item = original_ref r" "pi_responseRef item = response_ref r"
      by (auto simp: preview_candidates_def)
    with assms(2) have "original_ready lib n d (pi_originalRef item)"
      "pi_responseRef item = [] \<or> (\<exists>body. LoadPayload n d (pi_responseRef item) = Inr body)"
      by (auto simp: row_refs_def row_ready_def)
    then show ?thesis by (auto simp: preview_texts_def original_ready_def extractConversationSummary_def)
  qed
  with previews_run [OF assms(1), of lib n] obtain d' where
    d': "RepairRecordPreviews lib n d = (None, d')" "preview_candidates d' = []"
    by blast
  let ?Q = "\<lambda>d d'. in_place d d' \<and> row_refs d' = row_refs d"
  have loop: "?Q e e'" if "foldM_res (preview_one lib n) b e = Inr e'" for b e e'
    using that by (rule foldM_res_rel) (use preview_one_in_place in_place_refl in_place_trans in auto)
  let ?run = "snd (run_batches (foldM_res (preview_one lib n)) (chunks 16 (preview_candidates d)) d)"
  have q: "?Q d ?run"
    by (rule run_batches_rel) (use loop in_place_refl in_place_trans in auto)
  have "d' = set_version ''record_preview'' previewVersion ?run"
    using d'(1) by (auto simp: RepairRecordPreviews_def split: prod.splits option.splits)
  with q set_version_in_place [of ?run] in_place_trans [of d ?run d'] have "?Q d d'" by (simp add: row_refs_def row_simps)
  with d' show ?thesis by blast
qed

lemma normalize_one_previewed: "normalize_one q d = Inr d' \<Longrightarrow> previewed_requests d' = previewed_requests d"
  by (erule normalize_one_run) simp

lemma normalize_step:
  assumes "archive_ok d" and "\<forall>x \<in> set (row_refs d). row_ready lib n d x"
  shows "\<exists>d'. NormalizeHistoricalSSE d = (None, d') \<and> in_place d d' \<and> unnormalized d' = []
    \<and> previewed_requests d' = previewed_requests d"
proof -
  have "\<forall>r \<in> set (records d). response_readable d (response_ref r)"
    using assms(2) by (auto simp: row_refs_def row_ready_def)
  from normalization_run [OF assms(1) this] obtain d' where
    d': "NormalizeHistoricalSSE d = (None, d')" "unnormalized d' = []"
    by blast
  let ?Q = "\<lambda>d d'. in_place d d' \<and> previewed_requests d' = previewed_requests d"
  have one: "?Q e e'" if "normalize_one q e = Inr e'" for q e e'
    using normalize_one_in_place [OF that] normalize_one_previewed [OF that] by (rule conjI)
  have loop: "?Q e e'" if "foldM_res normalize_one b e = Inr e'" for b e e'
    using that by (rule foldM_res_rel) (use one in_place_refl in_place_trans in auto)
  have "?Q d (snd (NormalizeHistoricalSSE d))"
    unfolding NormalizeHistoricalSSE_def by (rule run_batches_rel) (use loop in_place_refl in_place_trans in auto)
  with d' show ?thesis by simp
qed

section \<open>The collector becomes ready\<close>

lemma env_default: "env (\<lambda>_. []) k dflt = dflt"
  by (simp add: env_def)

text \<open>The repair chain in its default configuration.\<close>

lemma repair_chain_runs:
  assumes ok: "archive_ok d" and filed: "turns_filed d" and null: "\<forall>r \<in> set (records d). \<not> null_facets (facets_json r)"
    and rdy: "\<forall>x \<in> set (row_refs d). row_ready lib n d x" and rec: "recovers fault"
  shows "\<exists>d'. repairChain lib n pick fault (\<lambda>_. []) up d = (None, d') \<and> archive_ok d' \<and> grows d d' \<and> turns_filed d'
    \<and> fully_indexed d' \<and> unnormalized d' = [] \<and> preview_candidates d' = [] \<and> row_ids d' = row_ids d
    \<and> (repair_version ''canonical_session'' d = 0 \<longrightarrow>
         (\<forall>(q, s) \<in> set (row_filings d'). stableWindowID (canonical_facet pick d q) \<in> {[], s}))"
proof -
  note retry = retryStartup_succeeds [OF rec]
  from canonical_step [OF ok filed null, of pick] obtain d1 where
    d1: "canonical_task pick d = (None, d1)" "archive_ok d1" "grows d d1" "turns_filed d1" "row_refs d1 = row_refs d"
    "repair_version ''canonical_session'' d = 0 \<longrightarrow>
       (\<forall>(q, s) \<in> set (row_filings d1). stableWindowID (canonical_facet pick d q) \<in> {[], s})"
    by (elim exE conjE)
  from backfill_step [OF d1(2,4)] obtain d2 where
    d2: "BackfillSessionIndex d1 = (None, d2)" "archive_ok d2" "grows d1 d2" "turns_filed d2" "records d2 = records d1" "fully_indexed d2"
    by (elim exE conjE)
  have g2: "grows d d2" using d1(3) d2(3) by (rule grows_trans)
  have refs2: "row_refs d2 = row_refs d" using d1(5) d2(5) by (simp add: row_refs_def)
  then have rdy2: "\<forall>x \<in> set (row_refs d2). row_ready lib n d2 x" using rdy row_ready_grows [OF g2] by simp
  from summaries_run [OF rdy2] obtain d3 where
    d3: "RepairSessionSummaries lib n d2 = (None, d3)" "in_place d2 d3" "records d3 = records d2"
    by (elim exE conjE)
  note k3 = in_place_keeps [OF d3(2)]
  have refs3: "row_refs d3 = row_refs d2" using d3(3) by (simp add: row_refs_def)
  have rdy3: "\<forall>x \<in> set (row_refs d3). row_ready lib n d3 x"
    using rdy2 row_ready_grows [of d2 d3] d3(2) by (simp add: refs3 in_place_def)
  from preview_step [OF k3(1) [OF d2(2)] rdy3] obtain d4 where
    d4: "RepairRecordPreviews lib n d3 = (None, d4)" "in_place d3 d4" "row_refs d4 = row_refs d3" "preview_candidates d4 = []"
    by (elim exE conjE)
  note k4 = in_place_keeps [OF d4(2)]
  have rdy4: "\<forall>x \<in> set (row_refs d4). row_ready lib n d4 x"
    using rdy3 row_ready_grows [of d3 d4] d4(2) by (simp add: d4(3) in_place_def)
  from normalize_step [OF k4(1) [OF k3(1) [OF d2(2)]] rdy4] obtain d5 where
    d5: "NormalizeHistoricalSSE d4 = (None, d5)" "in_place d4 d5" "unnormalized d5 = []" "previewed_requests d5 = previewed_requests d4"
    by (elim exE conjE)
  note k5 = in_place_keeps [OF d5(2)]
  have p25: "in_place d2 d5" using d3(2) d4(2) d5(2) by (blast intro: in_place_trans)
  have ids: "row_ids d2 = row_ids d"
  proof -
    have "row_ids e = map (\<lambda>(i, q, _). (i, q)) (row_refs e)" for e by (simp add: row_ids_def row_refs_def)
    with refs2 show ?thesis by simp
  qed
  have "repairChain lib n pick fault (\<lambda>_. []) up d = (None, d5)"
    by (simp add: repairChain_def enabled_def env_default retry d1(1) d2(1) d3(1) d4(1) d5(1))
  moreover have "preview_candidates d5 = []"
    using d4(4) k5(4) d5(4) by (simp add: preview_candidates_empty unpreviewed_def)
  moreover have "row_filings d5 = row_filings d1" using p25 d2(5) by (simp add: in_place_def row_filings_def)
  moreover have "grows d d5" using g2 p25 by (auto simp: in_place_def intro: grows_trans)
  ultimately show ?thesis
    using d1(6) d5(3) in_place_keeps [OF p25] d2(2,4,6) ids by (intro exI [of _ d5]) simp
qed



end
