(* ===== verification/Digest_Refresher.thy ===== *)
theory Digest_Refresher
  imports Snapshot_Digests
begin

text \<open>
  The loop that keeps the stored session digests current (\<open>digestRefresher\<close> in \<open>cmd/cpa-session-collector/snapshot.go\<close>): rounds of
  two sessions, from the queue of sessions a snapshot asked for, or from all stale ones where offline full snapshots are
  allowed. The pauses between the rounds are \<open>digest_pause\<close>; what writers do meanwhile is the subject of \<open>archive_step\<close>.
\<close>

section \<open>Definitions\<close>

definition digest_round :: "nat \<Rightarrow> bool \<Rightarrow> db \<times> string list \<Rightarrow> (nat \<times> err option) \<times> db \<times> string list" where
  "digest_round n allowOfflineFull s =
    (if allowOfflineFull
     then (let (res, d') = RefreshSessionExportDigests n 2 (fst s) in (res, d', snd s))
     else RefreshQueuedSessionExportDigests n 2 (fst s) (snd s))"

text \<open>Milliseconds until the next round.\<close>

definition digest_pause :: "nat \<times> err option \<Rightarrow> nat" where
  "digest_pause res = (if snd res \<noteq> None then 5000 else if fst res = 0 then 30000 else 500)"

fun digest_rounds :: "nat \<Rightarrow> bool \<Rightarrow> nat \<Rightarrow> db \<times> string list \<Rightarrow> db \<times> string list" where
  "digest_rounds n allowOfflineFull 0 s = s"
| "digest_rounds n allowOfflineFull (Suc k) s = digest_rounds n allowOfflineFull k (snd (digest_round n allowOfflineFull s))"

section \<open>One session\<close>

text \<open>The stored digest of a session is that of its export now; a session without records has none.\<close>

definition settled :: "nat \<Rightarrow> db \<Rightarrow> string \<Rightarrow> bool" where
  "settled n d sid \<longleftrightarrow>
    (if session_rows d sid = [] then find_digest d sid = None
     else \<exists>g out. find_digest d sid = Some g \<and> exportStableSessionJSONL n d sid = Inr out
       \<and> dg_records_sha256 g = sha256_hex out \<and> dg_max_ingest_sequence g = log_fence d sid)"

definition exportable :: "nat \<Rightarrow> db \<Rightarrow> string \<Rightarrow> bool" where
  "exportable n d sid \<longleftrightarrow> (\<exists>out. exportStableSessionJSONL n d sid = Inr out)"

text \<open>Only digests change, and those of a session \<open>keep\<close> holds of do not.\<close>

definition redigested :: "(string \<Rightarrow> bool) \<Rightarrow> db \<Rightarrow> db \<Rightarrow> bool" where
  "redigested keep d d' \<longleftrightarrow>
    (\<exists>gs. d' = d\<lparr>export_digests := gs\<rparr>) \<and> (\<forall>s. keep s \<longrightarrow> find_digest d' s = find_digest d s)"

lemma redigested_refl: "redigested keep d d"
  unfolding redigested_def by (intro conjI exI [of _ "export_digests d"]) simp_all

lemma redigested_same:
  assumes "redigested keep d d'"
  shows "session_rows d' s = session_rows d s" "log_fence d' s = log_fence d s"
    "exportStableSessionJSONL n d' s = exportStableSessionJSONL n d s" "session_summaries d' = session_summaries d"
  using assms by (auto simp: redigested_def session_rows_def log_fence_def export_digests_irrelevant)

lemma settled_kept: "redigested keep d d' \<Longrightarrow> keep s \<Longrightarrow> settled n d' s = settled n d s"
  by (simp add: settled_def redigested_same) (simp add: redigested_def)

lemma redigested_trans: "redigested keep d d' \<Longrightarrow> redigested keep d' d'' \<Longrightarrow> redigested keep d d''"
  by (auto simp: redigested_def)

lemma redigested_weaken: "redigested keep d d' \<Longrightarrow> (\<And>s. keep' s \<Longrightarrow> keep s) \<Longrightarrow> redigested keep' d d'"
  by (auto simp: redigested_def)

lemma find_upsert_digest: "find (\<lambda>g'. dg_session_id g' = s) (upsert dg_session_id (\<lambda>_. g) g gs) =
    (if s = dg_session_id g then Some g else find (\<lambda>g'. dg_session_id g' = s) gs)"
proof -
  have "find (\<lambda>g'. dg_session_id g' = s) (map (\<lambda>r. if dg_session_id r = dg_session_id g then g else r) xs) =
      (if s = dg_session_id g then (if \<exists>r \<in> set xs. dg_session_id r = s then Some g else None) else find (\<lambda>g'. dg_session_id g' = s) xs)" for xs
    by (induction xs) auto
  moreover have "find (\<lambda>g'. dg_session_id g' = s) gs = None" if "\<forall>r \<in> set gs. dg_session_id r \<noteq> s"
    using that by (simp add: find_None_iff)
  ultimately show ?thesis by (auto simp: upsert_def find_append split: option.split)
qed

lemma refresh_settles:
  assumes "session_rows d sid = [] \<or> exportable n d sid"
  shows "\<exists>d'. refreshSessionExportDigest n sid d = Inr d' \<and> settled n d' sid \<and> redigested (\<lambda>s. s \<noteq> sid) d d'"
proof (cases "session_rows d sid = []")
  case True
  have other: "find (\<lambda>g. dg_session_id g = s) (filter (\<lambda>g. dg_session_id g \<noteq> sid) gs) =
      (if s = sid then None else find (\<lambda>g. dg_session_id g = s) gs)" for s gs
    by (induction gs) auto
  let ?d' = "d\<lparr>export_digests := filter (\<lambda>g. dg_session_id g \<noteq> sid) (export_digests d)\<rparr>"
  have "refreshSessionExportDigest n sid d = Inr ?d'"
    using True by (simp add: refreshSessionExportDigest_def refresh_read_def refresh_write_def Let_def)
  moreover have "settled n ?d' sid" using True by (simp add: settled_def session_rows_def find_digest_def other)
  moreover have "redigested (\<lambda>s. s \<noteq> sid) d ?d'" by (auto simp: redigested_def find_digest_def other)
  ultimately show ?thesis by blast
next
  case False
  with assms obtain out where out: "exportStableSessionJSONL n d sid = Inr out" by (auto simp: exportable_def)
  define g where "g = \<lparr>dg_session_id = sid, dg_requests = length (session_rows d sid), dg_first_at = min_text (map started_at (session_rows d sid)),
    dg_last_at = max_text (map completed_at (session_rows d sid)), dg_records_sha256 = sha256_hex out,
    dg_max_ingest_sequence = log_fence d sid\<rparr>"
  let ?d' = "d\<lparr>export_digests := upsert dg_session_id (\<lambda>_. g) g (export_digests d)\<rparr>"
  have "refreshSessionExportDigest n sid d = Inr ?d'"
    using False by (simp add: refreshSessionExportDigest_def refresh_read_def refresh_write_def out g_def log_fence_def Let_def)
  moreover have re: "redigested (\<lambda>s. s \<noteq> sid) d ?d'" by (auto simp: redigested_def find_digest_def find_upsert_digest g_def)
  moreover have "settled n ?d' sid"
    using False redigested_same [OF re] out by (simp add: settled_def find_digest_def find_upsert_digest g_def)
  ultimately show ?thesis by blast
qed

section \<open>A round\<close>

lemma refresh_all_settles:
  assumes "\<forall>s \<in> set sids. session_rows d s = [] \<or> exportable n d s" and "distinct sids"
  shows "\<exists>d'. refresh_all n sids k d = ((k + length sids, None), d', []) \<and> (\<forall>s \<in> set sids. settled n d' s)
    \<and> redigested (\<lambda>s. s \<notin> set sids) d d'"
  using assms
proof (induction sids arbitrary: k d)
  case Nil
  then show ?case by (simp add: redigested_refl)
next
  case (Cons x xs)
  from Cons.prems have "session_rows d x = [] \<or> exportable n d x" by simp
  from refresh_settles [OF this] obtain d1 where
    d1: "refreshSessionExportDigest n x d = Inr d1" "settled n d1 x" "redigested (\<lambda>s. s \<noteq> x) d d1"
    by blast
  have "\<forall>s \<in> set xs. session_rows d1 s = [] \<or> exportable n d1 s"
    using Cons.prems(1) by (simp add: exportable_def redigested_same [OF d1(3)])
  from Cons.IH [OF this, of "k + 1"] Cons.prems(2) obtain d2 where
    d2: "refresh_all n xs (k + 1) d1 = ((k + 1 + length xs, None), d2, [])" "\<forall>s \<in> set xs. settled n d2 s"
    "redigested (\<lambda>s. s \<notin> set xs) d1 d2"
    by auto
  have "settled n d2 x" using settled_kept [OF d2(3)] d1(2) Cons.prems(2) by simp
  moreover have "redigested (\<lambda>s. s \<notin> set (x # xs)) d d2"
    by (rule redigested_trans [of _ d d1]) (use d1(3) d2(3) in \<open>auto elim: redigested_weaken\<close>)
  ultimately show ?case using d1(1) d2(1,2) by simp
qed

text \<open>The sessions the rounds have still to do, in the order they are taken.\<close>

definition pending :: "bool \<Rightarrow> db \<times> string list \<Rightarrow> string list" where
  "pending allowOfflineFull s = (if allowOfflineFull then stale_sessions (fst s) else sort (snd s))"

lemma stale_iff:
  "s \<in> set (stale_sessions d) \<longleftrightarrow> s \<in> ss_session_id ` set (session_summaries d) \<and> session_rows d s \<noteq> []
    \<and> (\<forall>g. find_digest d s = Some g \<longrightarrow> dg_max_ingest_sequence g \<noteq> log_fence d s)"
  by (auto simp: stale_sessions_def log_fence_def split: option.splits)

lemma stale_distinct: "index_ok d \<Longrightarrow> distinct (stale_sessions d)"
  unfolding stale_sessions_def distinct_sort_by by (auto simp: index_ok_def distinct_map intro: inj_on_subset)

definition refreshable :: "nat \<Rightarrow> bool \<Rightarrow> db \<times> string list \<Rightarrow> bool" where
  "refreshable n allowOfflineFull s \<longleftrightarrow>
    index_ok (fst s) \<and> distinct (snd s)
    \<and> (\<forall>sid \<in> set (pending allowOfflineFull s). session_rows (fst s) sid = [] \<or> exportable n (fst s) sid)"

lemma round_settles:
  assumes "refreshable n off (d, q)"
  shows "\<exists>d' q'. digest_round n off (d, q) = ((length (take 2 (pending off (d, q))), None), d', q')
    \<and> (\<forall>s \<in> set (take 2 (pending off (d, q))). settled n d' s)
    \<and> redigested (\<lambda>s. s \<notin> set (take 2 (pending off (d, q)))) d d'
    \<and> set (pending off (d', q')) = set (pending off (d, q)) - set (take 2 (pending off (d, q))) \<and> distinct q'"
proof -
  let ?sids = "take 2 (pending off (d, q))"
  have two: "refresh_limit 2 = 2" by (simp add: refresh_limit_def clamp_def)
  have dist: "distinct (pending off (d, q))" using assms by (auto simp: refreshable_def pending_def stale_distinct)
  then have "\<forall>s \<in> set ?sids. session_rows d s = [] \<or> exportable n d s"
    using assms by (auto simp: refreshable_def dest: in_set_takeD)
  from refresh_all_settles [OF this, of 0] dist obtain d' where
    d': "refresh_all n ?sids 0 d = ((length ?sids, None), d', [])" "\<forall>s \<in> set ?sids. settled n d' s"
    "redigested (\<lambda>s. s \<notin> set ?sids) d d'"
    by auto
  show ?thesis
  proof (cases off)
    case True
    have "digest_round n off (d, q) = ((length ?sids, None), d', q)"
      using d'(1) True by (simp add: digest_round_def RefreshSessionExportDigests_def two pending_def)
    moreover have "s \<in> set (stale_sessions d') \<longleftrightarrow> s \<in> set (stale_sessions d) \<and> s \<notin> set ?sids" for s
    proof (cases "s \<in> set ?sids")
      case True
      with d'(2) have "settled n d' s" by blast
      with True show ?thesis by (auto simp: stale_iff settled_def split: if_splits)
    next
      case False
      with d'(3) have "find_digest d' s = find_digest d s" by (simp add: redigested_def)
      with False show ?thesis by (simp add: stale_iff redigested_same [OF d'(3)])
    qed
    then have "set (pending off (d', q)) = set (pending off (d, q)) - set ?sids" using True by (auto simp: pending_def)
    ultimately show ?thesis using d'(2,3) assms by (intro exI [of _ d'] exI [of _ q]) (simp add: refreshable_def)
  next
    case False
    let ?q' = "filter (\<lambda>s. s \<notin> set ?sids) q"
    have "digest_round n off (d, q) = ((length ?sids, None), d', ?q')"
      using d'(1) False by (simp add: digest_round_def RefreshQueuedSessionExportDigests_def takeSessionExportDigests_def two pending_def Let_def)
    moreover have "set (pending off (d', ?q')) = set (pending off (d, q)) - set ?sids" using False by (auto simp: pending_def)
    ultimately show ?thesis using d'(2,3) assms by (intro exI [of _ d'] exI [of _ ?q']) (simp add: refreshable_def)
  qed
qed

lemma refreshable_round:
  assumes "refreshable n off (d, q)" and "redigested keep d d'" and "set (pending off (d', q')) \<subseteq> set (pending off (d, q))" and "distinct q'"
  shows "refreshable n off (d', q')"
proof -
  have "session_indexed_requests d' = session_indexed_requests d" using assms(2) by (auto simp: redigested_def)
  with assms show ?thesis
    by (auto simp: refreshable_def index_ok_def exportable_def redigested_same [OF assms(2)])
qed

lemma pending_distinct: "refreshable n off (d, q) \<Longrightarrow> distinct (pending off (d, q))"
  by (auto simp: refreshable_def pending_def stale_distinct)

lemma rounds_settle:
  assumes "refreshable n off (d, q)" and "length (pending off (d, q)) \<le> 2 * k"
  shows "\<exists>d' q'. digest_rounds n off k (d, q) = (d', q') \<and> pending off (d', q') = [] \<and> refreshable n off (d', q')
    \<and> redigested (\<lambda>s. s \<notin> set (pending off (d, q))) d d' \<and> (\<forall>s \<in> set (pending off (d, q)). settled n d' s)"
  using assms
proof (induction k arbitrary: d q)
  case 0
  then show ?case by (simp add: redigested_refl)
next
  case (Suc k)
  let ?P = "pending off (d, q)" and ?T = "set (take 2 (pending off (d, q)))"
  from round_settles [OF Suc.prems(1)] obtain d1 q1 where
    r: "digest_round n off (d, q) = ((length (take 2 ?P), None), d1, q1)" "\<forall>s \<in> ?T. settled n d1 s" "redigested (\<lambda>s. s \<notin> ?T) d d1"
    "set (pending off (d1, q1)) = set ?P - ?T" "distinct q1"
    by blast
  have rd: "refreshable n off (d1, q1)" using refreshable_round [OF Suc.prems(1) r(3) _ r(5)] r(4) by blast
  have "length (pending off (d1, q1)) = card (set ?P - ?T)" using distinct_card [OF pending_distinct [OF rd]] r(4) by simp
  also have "\<dots> = length (drop 2 ?P)"
  proof -
    have "distinct (take 2 ?P @ drop 2 ?P)" using pending_distinct [OF Suc.prems(1)] by simp
    then have "?T \<inter> set (drop 2 ?P) = {}" unfolding distinct_append by blast
    moreover have "set ?P = ?T \<union> set (drop 2 ?P)" using set_append [of "take 2 ?P" "drop 2 ?P"] unfolding append_take_drop_id .
    ultimately have "set ?P - ?T = set (drop 2 ?P)" by blast
    then show ?thesis using pending_distinct [OF Suc.prems(1)] by (simp add: distinct_card)
  qed
  finally have "length (pending off (d1, q1)) \<le> 2 * k" using Suc.prems(2) by simp
  from Suc.IH [OF rd this] obtain d' q' where
    d': "digest_rounds n off k (d1, q1) = (d', q')" "pending off (d', q') = []" "refreshable n off (d', q')"
    "redigested (\<lambda>s. s \<notin> set ?P - ?T) d1 d'" "\<forall>s \<in> set ?P - ?T. settled n d' s"
    unfolding r(4) by blast
  have "settled n d' s" if "s \<in> set ?P" for s
    using that d'(5) r(2) settled_kept [OF d'(4), of s n] by blast
  moreover have "redigested (\<lambda>s. s \<notin> set ?P) d d'"
    by (rule redigested_trans [of _ d d1]) (use r(3) d'(4) in \<open>auto elim!: redigested_weaken dest: in_set_takeD\<close>)
  ultimately show ?case using d'(1-3) by (simp add: r(1))
qed

text \<open>
  C40. The digest loop catches up. While the archive is at rest and the waiting sessions can be exported, half as many rounds
  as sessions are waiting leave none waiting; every one of them then has the digest of its present export under its
  present ingest sequence, or none when it has no records, no other digest and nothing else of the archive has changed, and the next
  round finds nothing to do and pauses for 30 seconds.
\<close>

theorem digest_refresher_catches_up:
  assumes "index_ok d" and "distinct q"
    and "\<forall>sid \<in> set (if offline then stale_sessions d else q). session_rows d sid = [] \<or> exportable n d sid"
  shows "\<exists>d' q'. digest_rounds n offline ((length (if offline then stale_sessions d else q) + 1) div 2) (d, q) = (d', q')
    \<and> (if offline then stale_sessions d' else q') = []
    \<and> (\<forall>sid \<in> set (if offline then stale_sessions d else q). settled n d' sid)
    \<and> d' = d\<lparr>export_digests := export_digests d'\<rparr>
    \<and> (\<forall>sid. sid \<notin> set (if offline then stale_sessions d else q) \<longrightarrow> find_digest d' sid = find_digest d sid)
    \<and> digest_pause (fst (digest_round n offline (d', q'))) = 30000"
proof -
  let ?k = "(length (if offline then stale_sessions d else q) + 1) div 2"
  have p: "set (pending offline (d, q)) = set (if offline then stale_sessions d else q)"
    "length (pending offline (d, q)) = length (if offline then stale_sessions d else q)"
    by (simp_all add: pending_def)
  have rd: "refreshable n offline (d, q)" using assms p(1) by (simp add: refreshable_def)
  have "length (pending offline (d, q)) \<le> 2 * ?k" unfolding p(2) by linarith
  from rounds_settle [OF rd this] obtain d' q' where
    d': "digest_rounds n offline ?k (d, q) = (d', q')" "pending offline (d', q') = []" "refreshable n offline (d', q')"
    "redigested (\<lambda>s. s \<notin> set (pending offline (d, q))) d d'" "\<forall>s \<in> set (pending offline (d, q)). settled n d' s"
    by blast
  from round_settles [OF d'(3)] d'(2) have "fst (digest_round n offline (d', q')) = (0, None)" by auto
  then have "digest_pause (fst (digest_round n offline (d', q'))) = 30000" by (simp add: digest_pause_def)
  moreover have "(if offline then stale_sessions d' else q') = []"
    using d'(2) length_sort [of "\<lambda>x. x" q'] by (auto simp: pending_def simp del: length_sort split: if_splits)
  moreover have "d' = d\<lparr>export_digests := export_digests d'\<rparr>" using d'(4) by (auto simp: redigested_def)
  moreover have "\<forall>sid. sid \<notin> set (if offline then stale_sessions d else q) \<longrightarrow> find_digest d' sid = find_digest d sid"
    using d'(4) unfolding redigested_def p(1) by blast
  ultimately show ?thesis using d'(1,5) unfolding p(1) by (intro exI [of _ d'] exI [of _ q'] conjI)
qed

theorem digest_refresher_catches_up_witness:
  "\<exists>d' q'. digest_rounds 0 False 1 (indexed_sample, [''s'']) = (d', q') \<and> q' = [] \<and> settled 0 d' ''s'' \<and> \<not> settled 0 indexed_sample ''s''"
proof -
  have i: "index_ok indexed_sample" using indexed_sample_ok(1) by (simp add: archive_ok_def)
  have rows: "session_rows indexed_sample ''s'' \<noteq> []" by (simp add: session_rows_def indexed_sample_def)
  have e: "exportable 0 indexed_sample ''s''"
    by (simp add: exportable_def exportStableSessionJSONL_def session_rows_def indexed_sample_def blank_row_def requestWithQuery_def
        find_record_def load_row_def column_payload_def gunzipBytes_def gunzipBytesChecked_def)
  have n: "\<not> settled 0 indexed_sample ''s''" using rows by (simp add: settled_def find_digest_def indexed_sample_def empty_db_def)
  from digest_refresher_catches_up [OF i, of "[''s'']" False 0] e obtain d' q' where
    "digest_rounds 0 False 1 (indexed_sample, [''s'']) = (d', q')" "q' = []" "settled 0 d' ''s''"
    by auto
  with n show ?thesis by blast
qed

end
