(* ===== verification/Session_List.thy ===== *)
theory Session_List
  imports Read_Side Text_Safety "HOL-Library.Multiset"
begin

text \<open>
  The list of sessions and of facet values (\<open>Sessions\<close>, \<open>SessionsFiltered\<close> and \<open>Facets\<close> in
  \<open>internal/archive/store.go\<close>), which the browser page of the plugin shows.

  Two orders are left to SQLite and are parameters: the order of sessions with equal \<open>last_at\<close>, and the order in which
  \<open>GROUP_CONCAT\<close> joins its values. Queries do not fail.
\<close>

section \<open>Definitions\<close>

record SessionSummary =
  sl_SessionID :: string
  sl_Requests :: nat
  sl_FirstAt :: string
  sl_LastAt :: string
  sl_KeyID :: string
  sl_PrincipalID :: string
  sl_PrincipalAlias :: string
  sl_CredentialHashes :: "string list"
  sl_Model :: string
  sl_Project :: string
  sl_Summary :: string
  sl_Kinds :: "string list"
  sl_ThreadSources :: "string list"

record listing_sql =
  order_by_last :: "summary_row list \<Rightarrow> summary_row list"
  concat_order :: "string list \<Rightarrow> string list"

text \<open>What SQLite documents of both.\<close>

definition sql_orders :: "listing_sql \<Rightarrow> bool" where
  "sql_orders q \<longleftrightarrow>
    (\<forall>xs. mset (order_by_last q xs) = mset xs \<and> sorted_wrt (\<lambda>a b. ss_last_at b \<le> ss_last_at a) (order_by_last q xs)) \<and>
    (\<forall>vs. mset (concat_order q vs) = mset vs)"

definition splitProjectionValues :: "string \<Rightarrow> string list" where
  "splitProjectionValues v = (if v = [] then [] else SplitByte v (CHR 0x1F))"

definition splitCommaValues :: "string \<Rightarrow> string list" where
  "splitCommaValues v = (if v = [] then [] else SplitByte v (CHR '',''))"

definition session_hashes :: "db \<Rightarrow> string \<Rightarrow> string list" where
  "session_hashes d sid =
    remdups (map credential_hash (filter (\<lambda>r. session_id r = sid \<and> credential_hash r \<noteq> []) (records d)))"

definition session_facet_values :: "db \<Rightarrow> string \<Rightarrow> string \<Rightarrow> string list" where
  "session_facet_values d sid name = map (\<lambda>(_, _, v). v) (filter (\<lambda>(s, n, _). s = sid \<and> n = name) (session_facets d))"

text \<open>One row of the list: the columns of the query, split and cleaned.\<close>

definition session_summary_of :: "listing_sql \<Rightarrow> (string \<Rightarrow> nat list) \<Rightarrow> db \<Rightarrow> summary_row \<Rightarrow> SessionSummary result" where
  "session_summary_of q ent d s =
    (let sid = ss_session_id s;
         credentials = Join '','' (concat_order q (session_hashes d sid));
         kinds = Join [CHR 0x1F] (concat_order q (session_facet_values d sid ''request.kind''));
         sources = Join [CHR 0x1F] (concat_order q (session_facet_values d sid ''thread.source''))
     in bind_res (cleanTurnText ent (ss_summary s)) (\<lambda>text.
          Inr \<lparr>sl_SessionID = sid, sl_Requests = ss_requests s, sl_FirstAt = ss_first_at s, sl_LastAt = ss_last_at s,
               sl_KeyID = ss_key_id s, sl_PrincipalID = ss_principal_id s,
               sl_PrincipalAlias = alias_of d (ss_principal_id s), sl_CredentialHashes = splitCommaValues credentials,
               sl_Model = ss_model s, sl_Project = ss_project s, sl_Summary = text,
               sl_Kinds = splitProjectionValues kinds, sl_ThreadSources = splitProjectionValues sources\<rparr>))"

definition Sessions_list :: "listing_sql \<Rightarrow> (string \<Rightarrow> nat list) \<Rightarrow> int \<Rightarrow> db \<Rightarrow> SessionSummary list result" where
  "Sessions_list q ent limit d =
    map_res (session_summary_of q ent d) (limit_offset limit 0 (order_by_last q (session_summaries d)))"

text \<open>\<open>EXISTS (SELECT 1 FROM session_facets ...)\<close> for every filter.\<close>

definition session_matches :: "db \<Rightarrow> (string \<times> string) list \<Rightarrow> string \<Rightarrow> bool" where
  "session_matches d filters sid = list_all (\<lambda>(name, v). (sid, name, v) \<in> set (session_facets d)) filters"

definition session_hits :: "db \<Rightarrow> (string \<times> string) list \<Rightarrow> summary_row list" where
  "session_hits d filters = filter (\<lambda>s. session_matches d filters (ss_session_id s)) (session_summaries d)"

definition SessionsFiltered ::
  "listing_sql \<Rightarrow> (string \<Rightarrow> nat list) \<Rightarrow> int \<Rightarrow> (string \<times> string) list \<Rightarrow> db \<Rightarrow> SessionSummary list result" where
  "SessionsFiltered q ent limit filters d =
    map_res (session_summary_of q ent d) (limit_offset limit 0 (order_by_last q (session_hits d filters)))"

record FacetCount =
  fc_Name :: string
  fc_Value :: string
  fc_Sessions :: nat

definition unlisted_facets :: "string list" where
  "unlisted_facets =
    [''request.id'', ''trace.id'', ''response.id'', ''turn.id'', ''window.id'', ''tool.call_id'', ''client.request_id'',
     ''session.id'', ''conversation.id'', ''thread.id'', ''header.session-id'', ''header.thread-id'', ''execution.session.id'']"

text \<open>\<open>GROUP BY name, value\<close> with the count of the group.\<close>

definition facet_groups :: "db \<Rightarrow> FacetCount list" where
  "facet_groups d =
    map (\<lambda>(name, v). \<lparr>fc_Name = name, fc_Value = v,
                      fc_Sessions = length (filter (\<lambda>(_, n, w). n = name \<and> w = v) (session_facets d))\<rparr>)
      (remdups (map snd (filter (\<lambda>(_, n, _). n \<notin> set unlisted_facets) (session_facets d))))"

definition before_facet :: "FacetCount \<Rightarrow> FacetCount \<Rightarrow> bool" where
  "before_facet x y \<longleftrightarrow> fc_Sessions y < fc_Sessions x \<or> fc_Sessions x = fc_Sessions y \<and> fc_Value x < fc_Value y"

text \<open>\<open>ROW_NUMBER() OVER (PARTITION BY name ORDER BY COUNT(*) DESC, value)\<close>.\<close>

definition facet_rank :: "FacetCount list \<Rightarrow> FacetCount \<Rightarrow> nat" where
  "facet_rank gs x = Suc (length (filter (\<lambda>y. fc_Name y = fc_Name x \<and> before_facet y x) gs))"

definition Facets_list :: "db \<Rightarrow> FacetCount list" where
  "Facets_list d =
    sort_key (\<lambda>x. (fc_Name x, - int (fc_Sessions x), fc_Value x))
      (filter (\<lambda>x. facet_rank (facet_groups d) x \<le> 100) (facet_groups d))"

section \<open>Splitting what was joined\<close>

lemma SplitByte_sep: "c \<notin> set x \<Longrightarrow> SplitByte (x @ c # ys) c = x # SplitByte ys c"
  by (subst SplitByte.simps) (simp add: dropWhile_append2 takeWhile_append2 dropWhile_append takeWhile_append)

lemma SplitByte_none: "c \<notin> set x \<Longrightarrow> SplitByte x c = [x]"
proof -
  assume "c \<notin> set x"
  then have none: "dropWhile (\<lambda>d. d \<noteq> c) x = []" by (auto simp: dropWhile_eq_Nil_conv)
  show ?thesis by (subst SplitByte.simps) (simp only: none list.case)
qed

lemma SplitByte_Join: "xs \<noteq> [] \<Longrightarrow> \<forall>x \<in> set xs. c \<notin> set x \<Longrightarrow> SplitByte (Join [c] xs) c = xs"
  by (induction "[c]" xs rule: Join.induct) (simp_all add: SplitByte_sep SplitByte_none)

lemma Join_empty: "\<forall>x \<in> set xs. x \<noteq> [] \<Longrightarrow> Join sep xs = [] \<longleftrightarrow> xs = []"
  by (induction sep xs rule: Join.induct) simp_all

lemma split_values:
  assumes "\<forall>x \<in> set xs. x \<noteq> []"
  shows "\<forall>x \<in> set xs. CHR '','' \<notin> set x \<Longrightarrow> splitCommaValues (Join '','' xs) = xs"
    and "\<forall>x \<in> set xs. CHR 0x1F \<notin> set x \<Longrightarrow> splitProjectionValues (Join [CHR 0x1F] xs) = xs"
  using Join_empty [OF assms] SplitByte_Join [of xs]
  by (auto simp: splitCommaValues_def splitProjectionValues_def)

section \<open>The list of sessions\<close>

lemma order_by_last_facts:
  assumes "sql_orders q"
  shows "set (order_by_last q xs) = set xs" and "length (order_by_last q xs) = length xs"
    and "distinct (map f (order_by_last q xs)) = distinct (map f xs)"
    and "sorted_wrt (\<lambda>a b. ss_last_at b \<le> ss_last_at a) (order_by_last q xs)"
proof -
  have m: "mset (order_by_last q xs) = mset xs" using assms by (simp add: sql_orders_def)
  then show "set (order_by_last q xs) = set xs" "length (order_by_last q xs) = length xs"
    by (rule mset_eq_setD, rule mset_eq_length)
  have "mset (map f (order_by_last q xs)) = mset (map f xs)" using m by simp
  then show "distinct (map f (order_by_last q xs)) = distinct (map f xs)" by (rule mset_eq_imp_distinct_iff)
  show "sorted_wrt (\<lambda>a b. ss_last_at b \<le> ss_last_at a) (order_by_last q xs)" using assms by (simp add: sql_orders_def)
qed

lemma concat_order_set: "sql_orders q \<Longrightarrow> set (concat_order q vs) = set vs"
  by (auto simp: sql_orders_def dest: mset_eq_setD)

lemma limit_take: "limit_offset limit 0 xs = take (if limit < 0 then length xs else nat limit) xs"
  by (simp add: limit_offset_def)

lemma session_hashes_set:
  "set (session_hashes d sid) = {credential_hash r |r. r \<in> set (records d) \<and> session_id r = sid \<and> credential_hash r \<noteq> []}"
  by (auto simp: session_hashes_def)

lemma session_facet_values_set: "set (session_facet_values d sid name) = {v. (sid, name, v) \<in> set (session_facets d)}"
  by (force simp: session_facet_values_def)

text \<open>Values without a separator are listed as they are.\<close>

definition separable :: "db \<Rightarrow> bool" where
  "separable d \<longleftrightarrow>
    (\<forall>r \<in> set (records d). CHR '','' \<notin> set (credential_hash r)) \<and>
    (\<forall>(_, _, v) \<in> set (session_facets d). v \<noteq> [] \<and> CHR 0x1F \<notin> set v)"

lemma session_summary_row:
  assumes "sql_orders q" and "separable d"
  shows "\<exists>x. session_summary_of q ent d s = Inr x \<and> sl_SessionID x = ss_session_id s \<and> sl_Requests x = ss_requests s
    \<and> sl_LastAt x = ss_last_at s
    \<and> set (sl_CredentialHashes x) =
      {credential_hash r |r. r \<in> set (records d) \<and> session_id r = ss_session_id s \<and> credential_hash r \<noteq> []}
    \<and> set (sl_Kinds x) = {v. (ss_session_id s, ''request.kind'', v) \<in> set (session_facets d)}
    \<and> set (sl_ThreadSources x) = {v. (ss_session_id s, ''thread.source'', v) \<in> set (session_facets d)}"
proof -
  obtain t where t: "cleanTurnText ent (ss_summary s) = Inr t" using cleanTurnText_total by blast
  let ?cs = "concat_order q (session_hashes d (ss_session_id s))" and ?vs = "\<lambda>n. concat_order q (session_facet_values d (ss_session_id s) n)"
  have c: "splitCommaValues (Join '','' ?cs) = ?cs"
    using assms by (intro split_values) (auto simp: concat_order_set session_hashes_set separable_def)
  have v: "splitProjectionValues (Join [CHR 0x1F] (?vs n)) = ?vs n" for n
    using assms by (intro split_values) (auto simp: concat_order_set session_facet_values_set separable_def)
  show ?thesis
    by (simp add: session_summary_of_def Let_def t c v concat_order_set [OF assms(1)] session_hashes_set session_facet_values_set)
qed

lemma session_summary_total: "\<exists>x. session_summary_of q ent d s = Inr x \<and> sl_SessionID x = ss_session_id s"
  using cleanTurnText_total [of ent "ss_summary s"] by (auto simp: session_summary_of_def Let_def)

text \<open>
  C35. The filtered list of sessions is exact: it never fails, holds the newest sessions that have every filter
  facet, each once, newest first, as many as the limit allows; none that is left out is newer than one listed. Each
  carries the number of its indexed requests, and exactly the credentials of its records and its request kinds and
  thread sources, as long as no value contains a separator.
\<close>

theorem SessionsFiltered_exact:
  assumes q: "sql_orders q" and ok: "archive_ok d" and sep: "separable d"
  shows "\<exists>out. SessionsFiltered q ent limit filters d = Inr out
    \<and> length out = (if limit < 0 then length (session_hits d filters) else min (nat limit) (length (session_hits d filters)))
    \<and> distinct (map sl_SessionID out) \<and> sorted_wrt (\<lambda>x y. sl_LastAt y \<le> sl_LastAt x) out
    \<and> (\<forall>x \<in> set out. sl_SessionID x \<in> ss_session_id ` set (session_hits d filters)
         \<and> sl_Requests x = length (filter (\<lambda>p. snd p = sl_SessionID x) (session_indexed_requests d))
         \<and> set (sl_CredentialHashes x) =
           {credential_hash r |r. r \<in> set (records d) \<and> session_id r = sl_SessionID x \<and> credential_hash r \<noteq> []}
         \<and> set (sl_Kinds x) = {v. (sl_SessionID x, ''request.kind'', v) \<in> set (session_facets d)}
         \<and> set (sl_ThreadSources x) = {v. (sl_SessionID x, ''thread.source'', v) \<in> set (session_facets d)})
    \<and> (\<forall>s \<in> set (session_hits d filters). ss_session_id s \<notin> sl_SessionID ` set out \<longrightarrow> (\<forall>x \<in> set out. ss_last_at s \<le> sl_LastAt x))"
proof -
  let ?hits = "session_hits d filters"
  let ?ys = "order_by_last q ?hits"
  define k where "k = (if limit < 0 then length ?ys else nat limit)"
  note o = order_by_last_facts [OF q, where xs = ?hits]
  from session_summary_row [OF q sep, of ent] obtain g where g: "\<And>s. session_summary_of q ent d s = Inr (g s)"
    "\<And>s. sl_SessionID (g s) = ss_session_id s" "\<And>s. sl_Requests (g s) = ss_requests s" "\<And>s. sl_LastAt (g s) = ss_last_at s"
    "\<And>s. set (sl_CredentialHashes (g s)) =
      {credential_hash r |r. r \<in> set (records d) \<and> session_id r = ss_session_id s \<and> credential_hash r \<noteq> []}"
    "\<And>s. set (sl_Kinds (g s)) = {v. (ss_session_id s, ''request.kind'', v) \<in> set (session_facets d)}"
    "\<And>s. set (sl_ThreadSources (g s)) = {v. (ss_session_id s, ''thread.source'', v) \<in> set (session_facets d)}"
    by metis
  let ?out = "map g (take k ?ys)"
  have run: "SessionsFiltered q ent limit filters d = Inr ?out"
    unfolding SessionsFiltered_def limit_take k_def [symmetric] by (rule map_res_Inr) (rule g(1))
  have idx: "index_ok d" using ok by (simp add: archive_ok_def)
  have "distinct (map ss_session_id ?hits)" using idx by (auto simp: index_ok_def session_hits_def distinct_map intro: inj_on_subset)
  then have dist: "distinct (map ss_session_id (take k ?ys))" using order_by_last_facts(3) [OF q, of ss_session_id ?hits]
    by (simp add: take_map [symmetric])
  have hit: "s \<in> set ?hits" if "s \<in> set (take k ?ys)" for s using that o(1) by (auto dest: in_set_takeD)
  have cnt: "ss_requests s = length (filter (\<lambda>p. snd p = ss_session_id s) (session_indexed_requests d))"
    if "s \<in> set ?hits" for s
    using that idx by (auto simp: session_hits_def index_ok_def)
  have split: "sorted_wrt (\<lambda>a b. ss_last_at b \<le> ss_last_at a) (take k ?ys @ drop k ?ys)" using o(4) by simp
  have older: "ss_last_at s \<le> sl_LastAt x"
    if s: "s \<in> set ?hits" "ss_session_id s \<notin> sl_SessionID ` set ?out" and x: "x \<in> set ?out" for s x
  proof -
    have "s \<notin> set (take k ?ys)" using s(2) by (auto simp: g(2) image_image)
    moreover have "s \<in> set (take k ?ys @ drop k ?ys)" using s(1) o(1) by simp
    ultimately have "s \<in> set (drop k ?ys)" unfolding set_append by blast
    with split [unfolded sorted_wrt_append] x show ?thesis by (auto simp: g(4))
  qed
  have "sorted_wrt (\<lambda>x y. sl_LastAt y \<le> sl_LastAt x) ?out"
    using split [unfolded sorted_wrt_append] by (simp add: sorted_wrt_map g(4))
  moreover have "length ?out = (if limit < 0 then length ?hits else min (nat limit) (length ?hits))"
    using o(2) by (simp add: k_def min.commute)
  moreover have "distinct (map sl_SessionID ?out)" using dist by (simp add: comp_def g(2))
  ultimately show ?thesis
    using run older hit cnt by (intro exI [of _ ?out] conjI ballI impI) (auto simp: g)
qed

section \<open>Archived requests are found\<close>

definition index_state :: "db \<Rightarrow> (string \<times> string) list \<times> summary_row list \<times> (string \<times> string \<times> string) list" where
  "index_state d = (session_indexed_requests d, session_summaries d, session_facets d)"

lemma index_state_cong: "index_state d = index_state e \<Longrightarrow> index_state (indexSessionRecord r d) = index_state (indexSessionRecord r e)"
  by (simp add: index_state_def indexSessionRecord_def)

lemma upsert_record_index_state: "index_state (upsert_record m row d) = index_state d"
  by (simp add: index_state_def upsert_record_def update_records_fires insert_record_fires row_simps del: fires_simps)

lemma put_record_index_state:
  assumes "put_record sprint up idx r0 d = Inr d'"
  shows "index_state d' = index_state (indexSessionRecord (resolveIdentity sprint idx r0) d)"
proof -
  obtain r bs row where p: "r = resolveIdentity sprint idx r0"
    "put_record sprint up idx r0 d =
      bind_res (put_turn (RequestID r) (compactTurnFacets (Facets r))
        (upsert_record (merge_record row) row (d\<lparr>blobs := bs\<rparr>)))
        (\<lambda>d5. Inr (indexSessionRecord r (put_record_facets (RequestID r) (Facets r) d5)))"
    by (rule put_record_parts)
  let ?d4 = "upsert_record (merge_record row) row (d\<lparr>blobs := bs\<rparr>)"
  from assms p(2) obtain d5 where d5: "put_turn (RequestID r) (compactTurnFacets (Facets r)) ?d4 = Inr d5"
    "d' = indexSessionRecord r (put_record_facets (RequestID r) (Facets r) d5)"
    by (auto simp: bind_res_Inr_iff)
  have "index_state d5 = index_state ?d4"
    using d5(1) by (auto simp: put_turn_def index_state_def split: option.splits if_splits)
  also have "\<dots> = index_state d" by (simp add: upsert_record_index_state) (simp add: index_state_def)
  finally have "index_state (put_record_facets (RequestID r) (Facets r) d5) = index_state d"
    by (simp add: index_state_def put_record_facets_def)
  then show ?thesis unfolding d5(2) p(1) by (rule index_state_cong)
qed

lemma insert_ignore_set: "set (insert_ignore id y ys) = insert y (set ys)"
  using insert_ignore_keys [of id y ys] by (simp only: list.map_id id_apply)

lemma fold_insert_set: "set (fold (\<lambda>(n, v). insert_ignore id (s, n, v)) ps xs) = {s} \<times> set ps \<union> set xs"
proof (induction ps arbitrary: xs)
  case (Cons p ps)
  obtain n v where p: "p = (n, v)" by force
  show ?case unfolding p fold_simps comp_apply prod.case Cons.IH insert_ignore_set by auto
qed simp

lemma upsert_summary_ids:
  "ss_session_id ` set (upsert ss_session_id (merge_summary (new_summary r)) (new_summary r) ss) =
    insert (SessionID r) (ss_session_id ` set ss)"
proof -
  have "\<And>x. ss_session_id (merge_summary (new_summary r) x) = ss_session_id x" by (simp add: merge_summary_def Let_def)
  note keys = upsert_keys [of ss_session_id "new_summary r" "merge_summary (new_summary r)" ss, OF this]
  show ?thesis unfolding set_map [symmetric] keys by (auto simp: new_summary_def)
qed

lemma index_grows:
  "set (session_facets d) \<subseteq> set (session_facets (indexSessionRecord r d))"
  "ss_session_id ` set (session_summaries d) \<subseteq> ss_session_id ` set (session_summaries (indexSessionRecord r d))"
  using upsert_summary_ids [of r "session_summaries d"] by (auto simp: indexSessionRecord_def fold_insert_set)

lemma index_adds:
  assumes "RequestID r \<noteq> []" and "SessionID r \<noteq> []" and "RequestID r \<notin> fst ` set (session_indexed_requests d)"
  shows "{SessionID r} \<times> {nv \<in> set (facet_pairs (Facets r)). snd nv \<noteq> []} \<subseteq> set (session_facets (indexSessionRecord r d))"
    and "SessionID r \<in> ss_session_id ` set (session_summaries (indexSessionRecord r d))"
  using assms upsert_summary_ids [of r "session_summaries d"] by (auto simp: indexSessionRecord_def fold_insert_set)

text \<open>Over a batch: what the index has stays, and a request that comes up once is added.\<close>

definition findable :: "string \<Rightarrow> (string \<times> string) set \<Rightarrow> db \<Rightarrow> bool" where
  "findable sid fs d \<longleftrightarrow> sid \<in> ss_session_id ` set (session_summaries d) \<and> {sid} \<times> fs \<subseteq> set (session_facets d)"

lemma findable_put:
  assumes "put_record sprint up idx r0 d = Inr d'" and "findable sid fs d"
  shows "findable sid fs d'"
  using put_record_index_state [OF assms(1)] assms(2) index_grows [of d "resolveIdentity sprint idx r0"]
  by (auto simp: index_state_def findable_def)

lemma findable_put_new:
  assumes "put_record sprint up idx r d = Inr d'" and "RequestID r \<noteq> []" and "SessionID r \<noteq> []"
    and "RequestID r \<notin> fst ` set (session_indexed_requests d)"
    and "fs \<subseteq> {nv \<in> set (facet_pairs (Facets (resolveIdentity sprint idx r))). snd nv \<noteq> []}"
  shows "findable (SessionID r) fs d'"
  using put_record_index_state [OF assms(1)] assms(2-5) index_adds [of "resolveIdentity sprint idx r" d]
  by (force simp: index_state_def findable_def resolveIdentity_keeps)

lemma put_record_indexes_only:
  assumes "put_record sprint up idx r0 d = Inr d'"
  shows "fst ` set (session_indexed_requests d') \<subseteq> insert (RequestID r0) (fst ` set (session_indexed_requests d))"
  using put_record_index_state [OF assms] by (auto simp: index_state_def indexed_after resolveIdentity_keeps split: if_splits)

lemma batch_findable:
  assumes "foldM_res (put_record sprint up idx) batch d = Inr d'" and "distinct (map RequestID batch)" and "r \<in> set batch"
    and "RequestID r \<noteq> []" and "SessionID r \<noteq> []" and "RequestID r \<notin> fst ` set (session_indexed_requests d)"
    and "fs \<subseteq> {nv \<in> set (facet_pairs (Facets (resolveIdentity sprint idx r))). snd nv \<noteq> []}"
  shows "findable (SessionID r) fs d'"
  using assms(1-3,6)
proof (induction batch arbitrary: d)
  case (Cons x xs)
  from Cons.prems(1) obtain d1 where d1: "put_record sprint up idx x d = Inr d1" "foldM_res (put_record sprint up idx) xs d1 = Inr d'"
    by (auto simp: bind_res_Inr_iff)
  show ?case
  proof (cases "x = r")
    case True
    with findable_put_new [of sprint up idx r d d1] d1(1) assms(4,5,7) Cons.prems(4) have "findable (SessionID r) fs d1" by simp
    moreover from d1(2) have "findable (SessionID r) fs d1 \<longrightarrow> findable (SessionID r) fs d'"
      by (rule foldM_res_rel) (use findable_put in auto)
    ultimately show ?thesis by blast
  next
    case False
    with Cons.prems(3) have "RequestID r \<in> RequestID ` set xs" by simp
    with Cons.prems(2) have "RequestID r \<noteq> RequestID x" by auto
    with Cons.prems(4) have "RequestID r \<notin> fst ` set (session_indexed_requests d1)"
      using put_record_indexes_only [OF d1(1)] by blast
    with Cons.IH [OF d1(2)] Cons.prems False show ?thesis by simp
  qed
qed simp

text \<open>
  C36. An archived request can be found. After a batch has been archived, the session of every new request in it
  is listed under any filter made of the facets of the request (after its identity has been resolved);
  nothing in the archive can hide it but the limit of the list.
\<close>

theorem archived_request_listed:
  assumes "sql_orders q" and "archive_ok d" and "PutBatch sprint up batch d = Inr d'" and "distinct (map RequestID batch)"
    and "r \<in> set batch" and "RequestID r \<noteq> []" and "SessionID r \<noteq> []"
    and "RequestID r \<notin> fst ` set (session_indexed_requests d)"
    and "set filters \<subseteq> {nv \<in> set (facet_pairs (Facets (resolveIdentity sprint (credentialPrincipalIndex d) r))). snd nv \<noteq> []}"
    and "limit < 0 \<or> length (session_summaries d') \<le> nat limit"
  shows "\<exists>out. SessionsFiltered q ent limit filters d' = Inr out \<and> SessionID r \<in> sl_SessionID ` set out"
proof -
  have "findable (SessionID r) (set filters) d'"
    using assms(3-9) by (intro batch_findable) (auto simp: PutBatch_def)
  then obtain s where s: "s \<in> set (session_summaries d')" "ss_session_id s = SessionID r"
    "{SessionID r} \<times> set filters \<subseteq> set (session_facets d')"
    unfolding findable_def by auto
  then have hit: "s \<in> set (session_hits d' filters)"
    by (auto simp: session_hits_def session_matches_def list_all_iff)
  obtain g where g: "\<And>s. session_summary_of q ent d' s = Inr (g s)" "\<And>s. sl_SessionID (g s) = ss_session_id s"
    using session_summary_total [of q ent d'] by metis
  have "length (order_by_last q (session_hits d' filters)) \<le> length (session_summaries d')"
    using order_by_last_facts(2) [OF assms(1)] by (simp add: session_hits_def)
  with assms(10) have "limit_offset limit 0 (order_by_last q (session_hits d' filters)) = order_by_last q (session_hits d' filters)"
    by (auto simp: limit_take)
  then have "SessionsFiltered q ent limit filters d' = Inr (map g (order_by_last q (session_hits d' filters)))"
    unfolding SessionsFiltered_def by (simp add: map_res_Inr g(1))
  moreover have "SessionID r \<in> sl_SessionID ` set (map g (order_by_last q (session_hits d' filters)))"
    using hit s(2) by (auto simp: order_by_last_facts(1) [OF assms(1)] g(2) image_image intro: rev_image_eqI)
  ultimately show ?thesis by blast
qed

section \<open>The most frequent facet values\<close>

text \<open>Ranks in a finite strict order: the number of elements with a rank below \<open>k\<close> is \<open>k\<close>, or all of them.\<close>

lemma card_low_ranks:
  assumes fin: "finite S" and irr: "\<And>x. x \<in> S \<Longrightarrow> \<not> R x x"
    and tr: "\<And>x y z. x \<in> S \<Longrightarrow> y \<in> S \<Longrightarrow> z \<in> S \<Longrightarrow> R x y \<Longrightarrow> R y z \<Longrightarrow> R x z"
    and tot: "\<And>x y. x \<in> S \<Longrightarrow> y \<in> S \<Longrightarrow> x \<noteq> y \<Longrightarrow> R x y \<or> R y x"
  shows "card {x \<in> S. card {y \<in> S. R y x} < k} = min k (card S)"
proof -
  let ?rank = "\<lambda>x. card {y \<in> S. R y x}"
  have less: "?rank x < ?rank z" if "x \<in> S" "z \<in> S" "R x z" for x z
  proof (rule psubset_card_mono)
    show "{y \<in> S. R y x} \<subset> {y \<in> S. R y z}" using that irr [of x] tr [of _ x z] by auto
  qed (simp add: fin)
  have inj: "inj_on ?rank S"
  proof (rule inj_onI, rule ccontr)
    fix x z assume xz: "x \<in> S" "z \<in> S" "?rank x = ?rank z" "x \<noteq> z"
    with tot [of x z] less [of x z] less [of z x] show False by auto
  qed
  have "?rank ` S = {..<card S}"
  proof (rule card_subset_eq)
    show "?rank ` S \<subseteq> {..<card S}"
    proof
      fix i assume "i \<in> ?rank ` S"
      then obtain x where x: "x \<in> S" "i = ?rank x" by blast
      have "{y \<in> S. R y x} \<subset> S" using x(1) irr by blast
      then have "?rank x < card S" by (rule psubset_card_mono [OF fin])
      with x(2) show "i \<in> {..<card S}" by simp
    qed
  qed (simp_all add: card_image [OF inj])
  moreover have "?rank ` {x \<in> S. ?rank x < k} = ?rank ` S \<inter> {..<k}" by auto
  ultimately have "?rank ` {x \<in> S. ?rank x < k} = {..<min k (card S)}" by auto
  moreover have "inj_on ?rank {x \<in> S. ?rank x < k}" using inj by (rule inj_on_subset) auto
  ultimately show ?thesis using card_image by fastforce
qed

definition named_groups :: "db \<Rightarrow> string \<Rightarrow> FacetCount set" where
  "named_groups d name = {x \<in> set (facet_groups d). fc_Name x = name}"

lemma facet_groups_iff:
  "x \<in> set (facet_groups d) \<longleftrightarrow>
    fc_Name x \<notin> set unlisted_facets \<and> (\<exists>sid. (sid, fc_Name x, fc_Value x) \<in> set (session_facets d))
    \<and> fc_Sessions x = length (filter (\<lambda>(_, n, w). n = fc_Name x \<and> w = fc_Value x) (session_facets d))"
  by (cases x) (force simp: facet_groups_def)

lemma facet_groups_distinct: "distinct (map (\<lambda>x. (fc_Name x, fc_Value x)) (facet_groups d))"
  by (simp add: facet_groups_def comp_def split_beta)

lemma named_groups_order:
  assumes "x \<in> named_groups d name" and "y \<in> named_groups d name" and "x \<noteq> y"
  shows "before_facet x y \<or> before_facet y x"
proof -
  have "fc_Value x \<noteq> fc_Value y"
    using assms facet_groups_distinct [of d] by (auto simp: named_groups_def distinct_map inj_on_def)
  then show ?thesis by (auto simp: before_facet_def)
qed

lemma facet_rank_card:
  assumes "x \<in> named_groups d name"
  shows "facet_rank (facet_groups d) x = Suc (card {y \<in> named_groups d name. before_facet y x})"
proof -
  have "distinct (facet_groups d)" using facet_groups_distinct [of d] by (simp add: distinct_map)
  then show ?thesis using assms
    by (simp add: facet_rank_def named_groups_def distinct_length_filter Int_def conj_ac cong: conj_cong)
qed

lemma listed_facets: "{x \<in> set (Facets_list d). fc_Name x = name} =
    {x \<in> named_groups d name. card {y \<in> named_groups d name. before_facet y x} < 100}"
proof -
  have "facet_rank (facet_groups d) x \<le> 100 \<longleftrightarrow> card {y \<in> named_groups d name. before_facet y x} < 100"
    if "x \<in> named_groups d name" for x
    using facet_rank_card [OF that] by linarith
  then have "{x \<in> named_groups d name. facet_rank (facet_groups d) x \<le> 100} =
      {x \<in> named_groups d name. card {y \<in> named_groups d name. before_facet y x} < 100}"
    by blast
  then show ?thesis by (auto simp: Facets_list_def named_groups_def)
qed

lemma listed_facets_card: "card {x \<in> set (Facets_list d). fc_Name x = name} = min 100 (card (named_groups d name))"
  unfolding listed_facets
proof (rule card_low_ranks)
  show "finite (named_groups d name)" by (simp add: named_groups_def)
  show "before_facet x y \<or> before_facet y x" if "x \<in> named_groups d name" "y \<in> named_groups d name" "x \<noteq> y" for x y
    using that by (rule named_groups_order)
qed (auto simp: before_facet_def)

text \<open>A group that is not listed has 100 listed ones of its facet before it.\<close>

lemma unlisted_group:
  assumes g: "g \<in> named_groups d name" and out: "g \<notin> set (Facets_list d)"
  shows "card {x \<in> set (Facets_list d). fc_Name x = name} = 100"
    and "x \<in> set (Facets_list d) \<Longrightarrow> fc_Name x = name \<Longrightarrow> fc_Sessions g \<le> fc_Sessions x"
proof -
  let ?G = "named_groups d name"
  have fin: "finite ?G" by (simp add: named_groups_def)
  have "g \<notin> {x \<in> set (Facets_list d). fc_Name x = name}" using out by simp
  then have rank: "100 \<le> card {y \<in> ?G. before_facet y g}" using g unfolding listed_facets by simp
  also have "\<dots> \<le> card ?G" by (rule card_mono) (use fin in auto)
  finally show "card {x \<in> set (Facets_list d). fc_Name x = name} = 100" by (simp add: listed_facets_card)
  assume "x \<in> set (Facets_list d)" "fc_Name x = name"
  then have x: "x \<in> ?G" "card {y \<in> ?G. before_facet y x} < 100" using listed_facets [of d name] by blast+
  show "fc_Sessions g \<le> fc_Sessions x"
  proof (rule ccontr)
    assume "\<not> fc_Sessions g \<le> fc_Sessions x"
    then have "{y \<in> ?G. before_facet y g} \<subseteq> {y \<in> ?G. before_facet y x}" by (auto simp: before_facet_def)
    then have "card {y \<in> ?G. before_facet y g} \<le> card {y \<in> ?G. before_facet y x}" by (rule card_mono [rotated]) (use fin in auto)
    with rank x(2) show False by simp
  qed
qed

lemma listed_or_full:
  assumes "(sid, name, v) \<in> set (session_facets d)"
  shows "name \<in> set unlisted_facets \<or> (\<exists>x \<in> set (Facets_list d). fc_Name x = name \<and> fc_Value x = v)
    \<or> card {x \<in> set (Facets_list d). fc_Name x = name} = 100
      \<and> (\<forall>x \<in> set (Facets_list d). fc_Name x = name \<longrightarrow>
           length (filter (\<lambda>(_, n, w). n = name \<and> w = v) (session_facets d)) \<le> fc_Sessions x)"
proof -
  let ?g = "\<lparr>fc_Name = name, fc_Value = v,
    fc_Sessions = length (filter (\<lambda>(_, n, w). n = name \<and> w = v) (session_facets d))\<rparr>"
  show ?thesis
  proof (cases "name \<in> set unlisted_facets \<or> ?g \<in> set (Facets_list d)")
    case True
    then show ?thesis by (force intro: bexI [of _ ?g])
  next
    case False
    then have "?g \<in> named_groups d name" using assms by (auto simp: named_groups_def facet_groups_iff)
    from unlisted_group [OF this] False show ?thesis by simp
  qed
qed

text \<open>
  C1. The list of facet values shows, for every facet that identifies no single request or session, exactly the number of
  sessions that have each value, at most 100 values of a facet, and when it leaves one out, it shows 100 values of that facet
  that are at least as frequent.
\<close>

theorem Facets_most_frequent:
  assumes "distinct (session_facets d)"
  shows "(\<forall>x \<in> set (Facets_list d). fc_Name x \<notin> set unlisted_facets
      \<and> 0 < fc_Sessions x \<and> fc_Sessions x = card {sid. (sid, fc_Name x, fc_Value x) \<in> set (session_facets d)})
    \<and> (\<forall>(sid, name, v) \<in> set (session_facets d). name \<in> set unlisted_facets
      \<or> (\<exists>x \<in> set (Facets_list d). fc_Name x = name \<and> fc_Value x = v)
      \<or> card {x \<in> set (Facets_list d). fc_Name x = name} = 100
        \<and> (\<forall>x \<in> set (Facets_list d). fc_Name x = name \<longrightarrow> card {s. (s, name, v) \<in> set (session_facets d)} \<le> fc_Sessions x))
    \<and> (\<forall>name. card {x \<in> set (Facets_list d). fc_Name x = name} \<le> 100)"
proof (intro conjI)
  have count: "length (filter (\<lambda>(_, n, w). n = name \<and> w = v) (session_facets d)) = card {sid. (sid, name, v) \<in> set (session_facets d)}"
    (is "length ?f = card ?S") for name v
  proof -
    have "distinct ?f" using assms by (rule distinct_filter)
    then have "length ?f = card (set ?f)" by (rule distinct_card [symmetric])
    also have "set ?f = (\<lambda>s. (s, name, v)) ` ?S" by auto
    also have "card \<dots> = card ?S" by (rule card_image) (simp add: inj_on_def)
    finally show ?thesis .
  qed
  have sub: "set (Facets_list d) \<subseteq> set (facet_groups d)" by (auto simp: Facets_list_def)
  show "\<forall>x \<in> set (Facets_list d). fc_Name x \<notin> set unlisted_facets
      \<and> 0 < fc_Sessions x \<and> fc_Sessions x = card {sid. (sid, fc_Name x, fc_Value x) \<in> set (session_facets d)}"
  proof
    fix x assume "x \<in> set (Facets_list d)"
    with sub have x: "x \<in> set (facet_groups d)" by blast
    then obtain sid where "(sid, fc_Name x, fc_Value x) \<in> set (session_facets d)" by (auto simp: facet_groups_iff)
    then have "0 < length (filter (\<lambda>(_, n, w). n = fc_Name x \<and> w = fc_Value x) (session_facets d))"
      by (force simp: length_greater_0_conv filter_empty_conv)
    with x show "fc_Name x \<notin> set unlisted_facets
      \<and> 0 < fc_Sessions x \<and> fc_Sessions x = card {sid. (sid, fc_Name x, fc_Value x) \<in> set (session_facets d)}"
      by (auto simp: facet_groups_iff count)
  qed
  show "\<forall>name. card {x \<in> set (Facets_list d). fc_Name x = name} \<le> 100" by (simp add: listed_facets_card)
  show "\<forall>(sid, name, v) \<in> set (session_facets d). name \<in> set unlisted_facets
      \<or> (\<exists>x \<in> set (Facets_list d). fc_Name x = name \<and> fc_Value x = v)
      \<or> card {x \<in> set (Facets_list d). fc_Name x = name} = 100
        \<and> (\<forall>x \<in> set (Facets_list d). fc_Name x = name \<longrightarrow> card {s. (s, name, v) \<in> set (session_facets d)} \<le> fc_Sessions x)"
    using listed_or_full [of _ _ _ d] unfolding count by blast
qed

section \<open>Examples\<close>

definition plain_sql :: listing_sql where
  "plain_sql = \<lparr>order_by_last = (\<lambda>xs. rev (sort_key ss_last_at xs)), concat_order = (\<lambda>vs. vs)\<rparr>"

lemma plain_sql_orders: "sql_orders plain_sql"
proof -
  have "sorted_wrt (\<lambda>a b. ss_last_at b \<le> ss_last_at a) (rev (sort_key ss_last_at xs))" for xs :: "summary_row list"
    using sorted_sort_key [of ss_last_at xs] by (simp add: sorted_wrt_rev sorted_wrt_map)
  then show ?thesis by (simp add: sql_orders_def plain_sql_def)
qed

definition faceted :: db where
  "faceted = indexed_sample\<lparr>session_facets := [(''s'', ''request.kind'', ''turn'')]\<rparr>"

lemma faceted_ok: "archive_ok faceted" "separable faceted"
proof -
  show "archive_ok faceted" by (rule archive_ok_cong [OF indexed_sample_ok(1)]) (simp_all add: faceted_def)
  show "separable faceted" by (simp add: separable_def faceted_def indexed_sample_def blank_row_def)
qed

theorem SessionsFiltered_exact_witness:
  "\<exists>out. SessionsFiltered plain_sql (\<lambda>_. []) 10 [(''request.kind'', ''turn'')] faceted = Inr out \<and> length out = 1
    \<and> (\<forall>x \<in> set out. sl_SessionID x = ''s'')"
proof -
  have hits: "session_hits faceted [(''request.kind'', ''turn'')] = [new_summary sample_record]"
    by (simp add: session_hits_def session_matches_def faceted_def indexed_sample_def new_summary_def sample_record_def)
  from SessionsFiltered_exact [OF plain_sql_orders faceted_ok, of "\<lambda>_. []" 10 "[(''request.kind'', ''turn'')]"] obtain out where
    "SessionsFiltered plain_sql (\<lambda>_. []) 10 [(''request.kind'', ''turn'')] faceted = Inr out" "length out = 1"
    "\<forall>x \<in> set out. sl_SessionID x \<in> {''s''}"
    unfolding hits by (auto simp: new_summary_def sample_record_def)
  then show ?thesis by auto
qed

theorem archived_request_listed_witness:
  "\<exists>d' out. PutBatch (\<lambda>_. []) True [sample_record] empty_db = Inr d' \<and> SessionsFiltered plain_sql (\<lambda>_. []) (- 1) [] d' = Inr out
    \<and> ''s'' \<in> sl_SessionID ` set out"
proof -
  obtain d' where p: "PutBatch (\<lambda>_. []) True [sample_record] empty_db = Inr d'"
    using put_batch_ok [OF archive_ok_empty(1)] unfolding PutBatch_def by blast
  from archived_request_listed [OF plain_sql_orders archive_ok_empty(1) p, of sample_record "[]" "- 1" "\<lambda>_. []"]
  show ?thesis using p by (auto simp: sample_record_def empty_db_def)
qed

theorem Facets_most_frequent_witness:
  "\<exists>x \<in> set (Facets_list faceted). fc_Name x = ''request.kind'' \<and> fc_Value x = ''turn'' \<and> fc_Sessions x = 1"
proof -
  have d: "distinct (session_facets faceted)" by (simp add: faceted_def)
  have l: "Facets_list faceted = [\<lparr>fc_Name = ''request.kind'', fc_Value = ''turn'', fc_Sessions = 1\<rparr>]"
    by (simp add: Facets_list_def facet_groups_def facet_rank_def before_facet_def faceted_def unlisted_facets_def)
  from Facets_most_frequent [OF d] show ?thesis unfolding l by auto
qed

end
