(* ===== verification/Browse_Api.thy ===== *)
theory Browse_Api
  imports Session_List Timeline Tickets
begin

text \<open>
  The endpoints of the collector that the browser page reads (\<open>cmd/cpa-session-collector/main.go\<close>): lists and pages of
  sessions, a request with its context and its timeline, turns, facets, the identity mappings and the garbage collection.

  A handler gets the path and the decoded query; a request body arrives decoded, \<open>None\<close> when it cannot be read.
  \<open>msg\<close> is the text of an error. An answer is the value written as JSON, an error page, or none when the handler panics and
  \<open>net/http\<close> drops the connection. The client stays connected, and queries do not fail.
\<close>

section \<open>Answers and query parameters\<close>

datatype 'a http_answer = Json 'a | HttpError nat string | Aborted

definition failed :: "(err \<Rightarrow> string) \<Rightarrow> nat \<Rightarrow> err \<Rightarrow> 'a http_answer" where
  "failed msg status e = (if e = Panic then Aborted else HttpError status (msg e))"

definition answer :: "(err \<Rightarrow> string) \<Rightarrow> 'a result \<Rightarrow> 'a http_answer" where
  "answer msg r = (case r of Inl e \<Rightarrow> failed msg 500 e | Inr v \<Rightarrow> Json v)"

text \<open>The handlers tell a missing row by the text of the error.\<close>

definition answer_or_404 :: "(err \<Rightarrow> string) \<Rightarrow> string \<Rightarrow> 'a result \<Rightarrow> 'a http_answer" where
  "answer_or_404 msg needle r =
    (case r of
       Inl e \<Rightarrow> if e \<noteq> Panic \<and> Contains (ToLower (msg e)) needle then HttpError 404 ''not found'' else failed msg 500 e
     | Inr v \<Rightarrow> Json v)"

definition query_has :: "http_query \<Rightarrow> string \<Rightarrow> bool" where
  "query_has q k \<longleftrightarrow> map_of q k \<noteq> None"

text \<open>\<open>strconv.Atoi\<close> on a parameter; a value that is no number or out of range leaves the default.\<close>

definition int_param :: "http_query \<Rightarrow> string \<Rightarrow> int \<Rightarrow> int \<Rightarrow> int \<Rightarrow> int" where
  "int_param q k lo hi dflt =
    (case parse_int64 (query_get q k) of Some v \<Rightarrow> if lo \<le> v \<and> v \<le> hi then v else dflt | None \<Rightarrow> dflt)"

definition no_limit :: int where
  "no_limit = 2 ^ 63 - 1"

text \<open>Every other parameter is a facet to filter by.\<close>

definition query_filters :: "string list \<Rightarrow> http_query \<Rightarrow> (string \<times> string) list" where
  "query_filters skip q = map (\<lambda>(name, vs). (name, hd vs)) (filter (\<lambda>(name, vs). name \<notin> set skip \<and> vs \<noteq> []) q)"

section \<open>Sessions\<close>

datatype sessions_answer = Stable stable_response | Listed "SessionSummary list http_answer"

definition listed_sessions ::
  "listing_sql \<Rightarrow> (string \<Rightarrow> nat list) \<Rightarrow> (err \<Rightarrow> string) \<Rightarrow> http_query \<Rightarrow> db \<Rightarrow> SessionSummary list http_answer" where
  "listed_sessions sql ent msg q d =
    answer msg (SessionsFiltered sql ent (int_param q ''limit'' 1 1000 100) (query_filters [''limit''] q) d)"

definition sessions ::
  "listing_sql \<Rightarrow> (string \<Rightarrow> nat list) \<Rightarrow> (err \<Rightarrow> string) \<Rightarrow> (string \<Rightarrow> string \<Rightarrow> bool) \<Rightarrow> bool \<Rightarrow> (nat \<Rightarrow> int) \<Rightarrow> string \<Rightarrow>
    string \<Rightarrow> http_query \<Rightarrow> db \<Rightarrow> string list \<Rightarrow> stableSnapshotRegistry \<Rightarrow> sessions_answer \<times> stableSnapshotRegistry \<times> string list" where
  "sessions sql ent msg jd_ge allowOfflineFull clock random meth q d queue rg =
    (if query_has q ''cursor_protocol'' then
       (let (resp, rg', queue') = stableSessions jd_ge allowOfflineFull clock random meth q d queue rg
        in (Stable resp, rg', queue'))
     else (Listed (listed_sessions sql ent msg q d), rg, queue))"

text \<open>A page, the whole session, or a download with the error that cut it short.\<close>

datatype session_answer = Page SessionPage | Whole "Record list" | Download string string "err option"

definition page_filters :: "http_query \<Rightarrow> (string \<times> string) list" where
  "page_filters q = query_filters [''limit'', ''offset'', ''metadata_only'', ''preview_bytes'', ''order''] q"

definition session_page :: "nat \<Rightarrow> bool \<Rightarrow> string \<Rightarrow> http_query \<Rightarrow> db \<Rightarrow> SessionPage" where
  "session_page n storeUpstream sid q d =
    (let metadataOnly = (query_get q ''metadata_only'' = ''true'');
         limit = int_param q ''limit'' 1 (if metadataOnly then 1000 else 100) 20;
         offset = int_param q ''offset'' 0 no_limit 0
     in if metadataOnly then SessionMetadataRange d sid limit offset (query_get q ''order'') (page_filters q)
        else SessionRange n storeUpstream d sid limit offset (nat (int_param q ''preview_bytes'' 1024 1048576 65536)))"

definition session ::
  "(gz \<Rightarrow> nat) \<Rightarrow> nat \<Rightarrow> bool \<Rightarrow> string \<Rightarrow> http_query \<Rightarrow> db \<Rightarrow> session_answer http_answer" where
  "session glen n storeUpstream path q d =
    (let sid = TrimPrefix path ''/v1/sessions/'' in
     if HasSuffix sid ''/export'' then
       (let sid' = TrimSuffix sid ''/export'' in
        if sid' = [] then HttpError 400 ''session required''
        else let (body, e) = ExportArchiveJSONL glen n storeUpstream d sid'
             in Json (Download (''session-'' @ safeFilename sid' @ ''.jsonl'') body e))
     else if sid = [] then HttpError 400 ''session required''
     else if query_has q ''limit'' \<or> query_has q ''offset'' then Json (Page (session_page n storeUpstream sid q d))
     else Json (Whole (Session n storeUpstream d sid)))"

section \<open>Requests and turns\<close>

definition request :: "(err \<Rightarrow> string) \<Rightarrow> nat \<Rightarrow> bool \<Rightarrow> string \<Rightarrow> db \<Rightarrow> (Record \<times> gv) http_answer" where
  "request msg n storeUpstream path d =
    (let rid = TrimPrefix path ''/v1/requests/'' in
     if rid = [] then HttpError 400 ''request required''
     else answer_or_404 msg ''no rows'' (requestWithQuery n storeUpstream d rid))"

definition requestContext :: "(err \<Rightarrow> string) \<Rightarrow> nat \<Rightarrow> bool \<Rightarrow> http_query \<Rightarrow> db \<Rightarrow> (Record \<times> gv) list http_answer" where
  "requestContext msg n storeUpstream q d =
    (let rid = TrimSpace (query_get q ''id'') in
     if rid = [] then HttpError 400 ''request required''
     else answer_or_404 msg ''no rows''
            (RequestContext n storeUpstream d rid (int_param q ''before'' 0 4 0) (int_param q ''limit'' 1 32 16)))"

definition requestView ::
  "(string \<Rightarrow> nat list) \<Rightarrow> (err \<Rightarrow> string) \<Rightarrow> nat \<Rightarrow> bool \<Rightarrow> http_query \<Rightarrow> db \<Rightarrow> RequestTimelineView http_answer" where
  "requestView ent msg n storeUpstream q d =
    (let rid = TrimSpace (query_get q ''id'') in
     if rid = [] then HttpError 400 ''request required''
     else answer_or_404 msg ''no rows'' (RequestTimeline ent n storeUpstream d rid))"

datatype turns_answer = Detail TurnDetailPage | Turns TurnPage

definition turns :: "(string \<Rightarrow> nat list) \<Rightarrow> (err \<Rightarrow> string) \<Rightarrow> http_query \<Rightarrow> db \<Rightarrow> turns_answer http_answer" where
  "turns ent msg q d =
    (let sid = TrimSpace (query_get q ''session_id''); turnID = TrimSpace (query_get q ''turn_id'');
         limit = nat (int_param q ''limit'' 1 100 20); offset = nat (int_param q ''offset'' 0 no_limit 0)
     in if sid = [] then HttpError 400 ''session required''
        else if turnID \<noteq> [] then
          answer_or_404 msg ''not found''
            (bind_res (SessionTurnDetail ent d sid turnID limit offset) (\<lambda>p. Inr (Detail p)))
        else answer msg (bind_res (SessionTurnPage ent d sid limit offset (query_get q ''order'')) (\<lambda>p. Inr (Turns p))))"

definition facets_endpoint :: "db \<Rightarrow> FacetCount list http_answer" where
  "facets_endpoint d = Json (Facets_list d)"

section \<open>Mappings and maintenance\<close>

record credential_item =
  ci_KeyHash :: string
  ci_CredentialHash :: string
  ci_PrincipalID :: string
  ci_Alias :: string
  ci_Status :: string

text \<open>From the decoded envelope: its mappings, then its credentials.\<close>

definition DecodeCredentialPrincipals :: "CredentialPrincipal list \<times> credential_item list \<Rightarrow> CredentialPrincipal list" where
  "DecodeCredentialPrincipals env =
    fst env @
    map (\<lambda>c. \<lparr>cm_hash = (if ci_CredentialHash c = [] then ci_KeyHash c else ci_CredentialHash c), cm_principal = ci_PrincipalID c,
              cm_alias = ci_Alias c, cm_status = ci_Status c, cm_updated_at = []\<rparr>) (snd env)"

datatype mappings_answer = Mappings "principal_row list" | Updated nat

definition identityMappings ::
  "(err \<Rightarrow> string) \<Rightarrow> string \<Rightarrow> string \<Rightarrow> (string + (CredentialPrincipal list \<times> credential_item list) option) \<Rightarrow> db \<Rightarrow>
    mappings_answer http_answer \<times> db" where
  "identityMappings msg now meth body d =
    (if meth = ''GET'' then (Json (Mappings (CredentialPrincipals d)), d)
     else if meth = ''PUT'' \<or> meth = ''POST'' then
       (case body of
          Inl unread \<Rightarrow> (HttpError 400 unread, d)
        | Inr None \<Rightarrow> (HttpError 400 ''invalid or empty mappings'', d)
        | Inr (Some env) \<Rightarrow>
            let items = DecodeCredentialPrincipals env in
            if items = [] then (HttpError 400 ''invalid or empty mappings'', d)
            else case ApplyCredentialPrincipals now items d of
                   Inl e \<Rightarrow> (failed msg 400 e, d)
                 | Inr d' \<Rightarrow> (Json (Updated (length items)), d'))
     else (HttpError 405 ''method'', d))"

definition gc_endpoint :: "(err \<Rightarrow> string) \<Rightarrow> string \<Rightarrow> db \<Rightarrow> nat http_answer \<times> db" where
  "gc_endpoint msg meth d =
    (if meth \<noteq> ''POST'' then (HttpError 405 ''method'', d)
     else case GC d of Inl e \<Rightarrow> (failed msg 500 e, d) | Inr (k, d') \<Rightarrow> (Json k, d'))"

text \<open>
  The command that applies a mapping file (\<open>cmd/cpa-session-identity-migrate/main.go\<close>): its exit status. \<open>file\<close> is \<open>None\<close> when it
  cannot be read, otherwise its decoded content; \<open>opened\<close> is whether the archive can be opened.
\<close>

definition identity_migrate ::
  "string \<Rightarrow> string \<Rightarrow> string \<Rightarrow> (CredentialPrincipal list \<times> credential_item list) option option \<Rightarrow> bool \<Rightarrow> db \<Rightarrow> nat \<times> db" where
  "identity_migrate now dbPath filePath file opened d =
    (if dbPath = [] \<or> filePath = [] then (2, d)
     else case file of
            None \<Rightarrow> (1, d)
          | Some None \<Rightarrow> (1, d)
          | Some (Some env) \<Rightarrow>
              let items = DecodeCredentialPrincipals env in
              if items = [] then (1, d)
              else if \<not> opened then (1, d)
              else case ApplyCredentialPrincipals now items d of Inl e \<Rightarrow> (1, d) | Inr d' \<Rightarrow> (0, d'))"

section \<open>Answers are bounded\<close>

lemma int_param_range: "lo \<le> dflt \<Longrightarrow> dflt \<le> hi \<Longrightarrow> lo \<le> int_param q k lo hi dflt \<and> int_param q k lo hi dflt \<le> hi"
  by (auto simp: int_param_def split: option.splits)

lemma limit_param:
  assumes "1 \<le> dflt" and "dflt \<le> hi"
  shows "0 \<le> int_param q k 1 hi dflt" and "x \<le> nat (int_param q k 1 hi dflt) \<Longrightarrow> x \<le> nat hi"
  using int_param_range [OF assms, of q k] by simp_all linarith

lemma limit_offset_bounded: "0 \<le> limit \<Longrightarrow> length (limit_offset limit offset xs) \<le> nat limit"
  by (simp add: limit_offset_def Let_def)

lemma SessionsFiltered_bounded: "0 \<le> limit \<Longrightarrow> SessionsFiltered sql ent limit fs d = Inr out \<Longrightarrow> length out \<le> nat limit"
  unfolding SessionsFiltered_def using limit_offset_bounded by (auto dest!: map_res_length)

lemma SessionMetadataRange_bounded: "0 \<le> limit \<Longrightarrow> length (sp_records (SessionMetadataRange d sid limit offset order fs)) \<le> nat limit"
  by (simp add: SessionMetadataRange_def Let_def limit_offset_bounded)

lemma SessionRange_bounded: "0 \<le> limit \<Longrightarrow> length (sp_records (SessionRange n up d sid limit offset p)) \<le> nat limit"
  by (simp add: SessionRange_def Let_def limit_offset_bounded)

lemma page_record_bounded:
  "0 < p \<Longrightarrow> length (OriginalRequest (page_record n up d p r)) \<le> p \<and> length (Response (page_record n up d p r)) \<le> p
    \<and> UpstreamRequest (page_record n up d p r) = []"
  by (simp add: page_record_def Let_def cut_def)

lemma RequestContext_bounded:
  assumes "RequestContext n up d rid before limit = Inr out" and "1 \<le> limit" and "limit \<le> 32"
  shows "length out \<le> 4 + nat limit"
proof -
  have "nat (clamp 0 4 before) \<le> nat 4" by (rule nat_mono) (simp add: clamp_def)
  then show ?thesis
    using assms by (auto simp: RequestContext_def Let_def min_le_iff_disj dest!: map_res_length split: option.splits intro!: add_mono)
qed

lemma SessionTurnPage_bounded: "SessionTurnPage ent d sid limit offset order = Inr p \<Longrightarrow> length (tp_Turns p) \<le> limit"
  by (auto simp: SessionTurnPage_def Let_def bind_res_Inr_iff)

lemma SessionTurnDetail_bounded: "SessionTurnDetail ent d sid turn limit offset = Inr p \<Longrightarrow> length (td_Records p) \<le> limit"
  by (auto simp: SessionTurnDetail_def bind_res_Inr_iff dest!: map_res_length split: option.splits if_splits)

lemma answer_Json: "answer msg r = Json v \<longleftrightarrow> r = Inr v" "answer_or_404 msg needle r = Json v \<longleftrightarrow> r = Inr v"
  by (auto simp: answer_def answer_or_404_def failed_def split: sum.splits)

text \<open>A page of a session: rows without payloads, or records whose payloads are cut.\<close>

lemma session_page_bounded:
  "length (sp_records (session_page n up sid q d)) \<le> 1000
    \<and> (query_get q ''metadata_only'' \<noteq> ''true'' \<longrightarrow> length (sp_records (session_page n up sid q d)) \<le> 100)
    \<and> (\<forall>x \<in> set (sp_records (session_page n up sid q d)).
         length (OriginalRequest x) \<le> 1048576 \<and> length (Response x) \<le> 1048576 \<and> UpstreamRequest x = [])"
proof (cases "query_get q ''metadata_only'' = ''true''")
  case True
  have "length (sp_records (session_page n up sid q d)) \<le> nat 1000"
    by (rule limit_param(2) [of 20 _ _ q "''limit''"])
      (simp_all add: session_page_def Let_def True SessionMetadataRange_bounded limit_param(1))
  then have "length (sp_records (session_page n up sid q d)) \<le> 1000" by simp
  with True show ?thesis by (auto simp: session_page_def Let_def SessionMetadataRange_def scan_row_def)
next
  case False
  have p: "0 < int_param q ''preview_bytes'' 1024 1048576 65536 \<and> int_param q ''preview_bytes'' 1024 1048576 65536 \<le> 1048576"
    using int_param_range [of 1024 65536 1048576 q "''preview_bytes''"] by simp
  have "length (sp_records (session_page n up sid q d)) \<le> nat 100"
    by (rule limit_param(2) [of 20 _ _ q "''limit''"])
      (simp_all add: session_page_def Let_def False SessionRange_bounded limit_param(1))
  then have "length (sp_records (session_page n up sid q d)) \<le> 100" by simp
  moreover have "length (OriginalRequest x) \<le> 1048576 \<and> length (Response x) \<le> 1048576 \<and> UpstreamRequest x = []"
    if "x \<in> set (sp_records (session_page n up sid q d))" for x
  proof -
    let ?p = "nat (int_param q ''preview_bytes'' 1024 1048576 65536)"
    from that False obtain r where r: "x = page_record n up d ?p r" by (auto simp: session_page_def Let_def SessionRange_def)
    have "0 < ?p" "?p \<le> 1048576" using p by (simp_all add: nat_le_iff)
    with page_record_bounded [of ?p n up d r] show ?thesis unfolding r by linarith
  qed
  ultimately show ?thesis by auto
qed


section \<open>Every archived request is answered\<close>

text \<open>Of the errors of the store only the missing row says \<open>no rows\<close>, as \<open>sql.ErrNoRows\<close> does.\<close>

definition only_missing_says_no_rows :: "(err \<Rightarrow> string) \<Rightarrow> bool" where
  "only_missing_says_no_rows msg \<longleftrightarrow> (\<forall>e. Contains (ToLower (msg e)) ''no rows'' \<longleftrightarrow> e = NoRows)"

lemma missing_404: "only_missing_says_no_rows msg \<Longrightarrow> answer_or_404 msg ''no rows'' (Inl NoRows) = HttpError 404 ''not found''"
  by (simp add: only_missing_says_no_rows_def answer_or_404_def)

lemma answer_Inr: "answer_or_404 msg needle (Inr v) = Json v"
  by (simp add: answer_or_404_def)

lemma TrimPrefix_append: "TrimPrefix (p @ s) p = s"
  by (simp add: TrimPrefix_def HasPrefix_def)

lemma request_at:
  "rid \<noteq> [] \<Longrightarrow> request msg n up (''/v1/requests/'' @ rid) d = answer_or_404 msg ''no rows'' (requestWithQuery n up d rid)"
  unfolding request_def TrimPrefix_append Let_def by simp

lemma load_row_id: "load_row n up d r = Inr (x, f) \<Longrightarrow> RequestID x = request_id r"
  by (auto simp: load_row_def bind_res_Inr_iff scan_row_def)

lemma find_record_None: "find_record d rid = None \<longleftrightarrow> rid \<notin> request_id ` set (records d)"
  by (auto simp: find_record_def find_None_iff)

lemma find_record_Some: "find_record d rid = Some r \<Longrightarrow> r \<in> set (records d) \<and> request_id r = rid"
  by (auto simp: find_record_def find_Some_iff)

lemma first_in: "(case xs of [] \<Rightarrow> None | r # _ \<Rightarrow> Some r) = Some p \<Longrightarrow> p \<in> set xs"
  by (cases xs) auto

lemma previous_record_in: "previous_record d sid k = Some p \<Longrightarrow> p \<in> set (records d)"
  unfolding previous_record_def by (drule first_in) simp

lemma context_runs:
  assumes "\<forall>r \<in> set (records d). \<exists>x. load_row n up d r = Inr x" and "find_record d rid = Some r"
  shows "\<exists>out. RequestContext n up d rid before limit = Inr out"
proof -
  have "\<exists>x. requestWithQuery n up d q = Inr x" if "q \<in> request_id ` set (records d)" for q
    using that assms(1) find_record_None [of d q] find_record_Some [of d q]
    by (cases "find_record d q") (auto simp: requestWithQuery_def)
  then obtain g where "\<And>q. q \<in> request_id ` set (records d) \<Longrightarrow> requestWithQuery n up d q = Inr (g q)" by metis
  then have "map_res (requestWithQuery n up d) qs = Inr (map g qs)" if "set qs \<subseteq> request_id ` set (records d)" for qs
    using that by (intro map_res_Inr) auto
  moreover have "set (map request_id (rev (take b (rev (filter P (sort_key r_id (filter Q (records d)))))) @
      take l (filter R (sort_key r_id (filter Q (records d)))))) \<subseteq> request_id ` set (records d)" for P Q R b l
    by (auto dest!: in_set_takeD)
  ultimately show ?thesis using assms(2) by (auto simp: RequestContext_def Let_def)
qed

lemma timeline_runs:
  assumes ok: "archive_ok d" and load: "\<forall>r \<in> set (records d). \<exists>x. load_row n up d r = Inr x" and r: "find_record d rid = Some r"
  shows "\<exists>v. RequestTimeline ent n up d rid = Inr v \<and> pv_RequestID v = rid"
proof -
  have row: "r \<in> set (records d)" "request_id r = rid" using find_record_Some [OF r] by simp_all
  with load obtain x f where x: "load_row n up d r = Inr (x, f)" by force
  have view: "pv_RequestID (timeline_view ent x p) = rid" for p
    using load_row_id [OF x] row(2) by (simp add: timeline_view_def Let_def)
  show ?thesis
  proof (cases "previous_record d (SessionID x) (r_id r)")
    case None
    then show ?thesis by (simp add: RequestTimeline_def requestWithQuery_def r x view)
  next
    case (Some p)
    then have p: "p \<in> set (records d)" by (rule previous_record_in)
    have "distinct (map request_id (records d))" using ok by (simp add: archive_ok_def rec_keys_def comp_def)
    from find_record_row [OF this p] load p obtain y g where "requestWithQuery n up d (request_id p) = Inr (y, g)"
      by (force simp: requestWithQuery_def)
    with Some show ?thesis by (simp add: RequestTimeline_def requestWithQuery_def r x view)
  qed
qed

text \<open>
  C38. On a well-formed archive whose payloads can be read, the endpoints of a request answer for exactly the archived
  requests: the record, a context that contains it and its timeline when it is archived, and \<open>404 not found\<close> when it is not.
\<close>

theorem request_endpoints:
  assumes ok: "archive_ok d" and msg: "only_missing_says_no_rows msg" and load: "\<forall>r \<in> set (records d). \<exists>x. load_row n up d r = Inr x"
    and rid: "rid \<noteq> []" "TrimSpace (query_get q ''id'') = rid"
  shows "(rid \<notin> request_id ` set (records d) \<longrightarrow>
      request msg n up (''/v1/requests/'' @ rid) d = HttpError 404 ''not found''
      \<and> requestContext msg n up q d = HttpError 404 ''not found'' \<and> requestView ent msg n up q d = HttpError 404 ''not found'')
    \<and> (rid \<in> request_id ` set (records d) \<longrightarrow>
      (\<exists>x f. request msg n up (''/v1/requests/'' @ rid) d = Json (x, f) \<and> RequestID x = rid)
      \<and> (\<exists>ctx. requestContext msg n up q d = Json ctx \<and> rid \<in> (\<lambda>y. RequestID (fst y)) ` set ctx)
      \<and> (\<exists>v. requestView ent msg n up q d = Json v \<and> pv_RequestID v = rid))"
proof (intro conjI impI)
  assume "rid \<notin> request_id ` set (records d)"
  then have none: "find_record d rid = None" by (simp add: find_record_None)
  show "request msg n up (''/v1/requests/'' @ rid) d = HttpError 404 ''not found''"
    unfolding request_at [OF rid(1)] by (simp add: requestWithQuery_def none missing_404 [OF msg])
  show "requestContext msg n up q d = HttpError 404 ''not found''"
    using rid by (simp add: requestContext_def RequestContext_def none missing_404 [OF msg] Let_def)
  show "requestView ent msg n up q d = HttpError 404 ''not found''"
    using rid by (simp add: requestView_def RequestTimeline_def requestWithQuery_def none missing_404 [OF msg] Let_def)
next
  assume "rid \<in> request_id ` set (records d)"
  then obtain r where r: "find_record d rid = Some r" using find_record_None [of d rid] by (cases "find_record d rid") auto
  then have row: "r \<in> set (records d)" "request_id r = rid" using find_record_Some by simp_all
  with load obtain x f where x: "load_row n up d r = Inr (x, f)" by force
  have id: "RequestID x = rid" using load_row_id [OF x] row(2) by simp
  show "\<exists>x f. request msg n up (''/v1/requests/'' @ rid) d = Json (x, f) \<and> RequestID x = rid"
    unfolding request_at [OF rid(1)] using id by (simp add: requestWithQuery_def r x answer_Inr)
  from context_runs [OF load r] obtain ctx where
    ctx: "RequestContext n up d rid (int_param q ''before'' 0 4 0) (int_param q ''limit'' 1 32 16) = Inr ctx"
    by blast
  have "distinct (map r_id (records d))" using ok by (simp add: archive_ok_def rec_keys_def comp_def)
  from RequestContext_window [OF ctx this r] have "rid \<in> (\<lambda>y. RequestID (fst y)) ` set ctx" by auto
  then show "\<exists>ctx. requestContext msg n up q d = Json ctx \<and> rid \<in> (\<lambda>y. RequestID (fst y)) ` set ctx"
    using rid by (simp add: requestContext_def ctx answer_Inr Let_def)
  obtain v where "RequestTimeline ent n up d rid = Inr v" "pv_RequestID v = rid"
    using timeline_runs [OF ok load r] id by blast
  then show "\<exists>v. requestView ent msg n up q d = Json v \<and> pv_RequestID v = rid"
    using rid by (simp add: requestView_def answer_Inr Let_def)
qed

section \<open>Two ways to apply mappings\<close>

text \<open>The endpoint and the command change the archive in the same way, and say so exactly when they have.\<close>

lemma migrate_like_endpoint:
  assumes "meth = ''PUT'' \<or> meth = ''POST''" and "dbPath \<noteq> []" and "filePath \<noteq> []"
  shows "snd (identity_migrate now dbPath filePath (Some (Some env)) True d) = snd (identityMappings msg now meth (Inr (Some env)) d)"
    and "fst (identity_migrate now dbPath filePath (Some (Some env)) True d) = 0 \<longleftrightarrow>
      fst (identityMappings msg now meth (Inr (Some env)) d) = Json (Updated (length (DecodeCredentialPrincipals env)))"
  using assms by (auto simp: identity_migrate_def identityMappings_def failed_def Let_def split: sum.splits)

section \<open>Examples\<close>


definition plain_msg :: "err \<Rightarrow> string" where
  "plain_msg e = (if e = NoRows then ''sql: no rows in result set'' else ''error'')"

lemma plain_msg_ok: "only_missing_says_no_rows plain_msg"
proof -
  have "Contains (ToLower ''sql: no rows in result set'') ''no rows''" "\<not> Contains (ToLower ''error'') ''no rows''"
    by (simp_all add: ToLower_ascii lower_rune_def char_of_eq_iff Contains_def HasPrefix_def)
  then show ?thesis by (simp add: only_missing_says_no_rows_def plain_msg_def)
qed

definition browse_sample :: db where
  "browse_sample = empty_db\<lparr>records := [blank_row\<lparr>r_id := 1, request_id := ''q'', session_id := ''a/export''\<rparr>]\<rparr>"

lemma browse_sample_ok:
  "archive_ok browse_sample" "\<forall>r \<in> set (records browse_sample). \<exists>x. load_row 0 False browse_sample r = Inr x"
  by (simp_all add: browse_sample_def archive_ok_def index_ok_def turn_ok_def log_ok_def rec_keys_def empty_db_def blank_row_def
      load_row_def column_payload_def gunzipBytes_def gunzipBytesChecked_def)

theorem request_endpoints_witness:
  "request plain_msg 0 False ''/v1/requests/p'' browse_sample = HttpError 404 ''not found''
   \<and> (\<exists>x f. request plain_msg 0 False ''/v1/requests/q'' browse_sample = Json (x, f) \<and> RequestID x = ''q'')"
proof -
  have t: "TrimSpace (query_get [(''id'', [''p''])] ''id'') = ''p''" "TrimSpace (query_get [(''id'', [''q''])] ''id'') = ''q''"
    by (simp_all add: query_get_def TrimSpace_def runes_ascii rune_of_ascii is_space_def)
  have ids: "request_id ` set (records browse_sample) = {''q''}" by (simp add: browse_sample_def blank_row_def)
  show ?thesis
    using request_endpoints [OF browse_sample_ok(1) plain_msg_ok browse_sample_ok(2) _ t(1), of "\<lambda>_. []"]
      request_endpoints [OF browse_sample_ok(1) plain_msg_ok browse_sample_ok(2) _ t(2), of "\<lambda>_. []"]
    unfolding ids by auto
qed

section \<open>What the endpoints get wrong\<close>

text \<open>A session whose id ends in \<open>/export\<close> cannot be opened: its path is taken for the download of another one.\<close>

lemma export_suffix_hides_session:
  assumes "sid \<noteq> []"
  shows "\<exists>body e. session glen n up (''/v1/sessions/'' @ sid @ ''/export'') q d =
    Json (Download (''session-'' @ safeFilename sid @ ''.jsonl'') body e)"
proof -
  have "HasSuffix (sid @ ''/export'') ''/export''" "TrimSuffix (sid @ ''/export'') ''/export'' = sid"
    by (simp_all add: HasSuffix_def TrimSuffix_def)
  then show ?thesis unfolding session_def TrimPrefix_append Let_def using assms by (simp split: prod.split)
qed

text \<open>A record one of whose payloads is missing is reported as not found: the missing blob gives the same error as a missing row.\<close>

lemma damaged_record_not_found:
  assumes "only_missing_says_no_rows msg" and "rid \<noteq> []" and "find_record d rid = Some r" and "original_ref r \<noteq> []"
    and "LoadPayload n d (original_ref r) = Inl NoRows"
  shows "request msg n up (''/v1/requests/'' @ rid) d = HttpError 404 ''not found''"
  unfolding request_at [OF assms(2)] using assms by (simp add: requestWithQuery_def load_row_def column_payload_def missing_404)

lemma missing_blob_no_rows: "ref \<noteq> [] \<Longrightarrow> find_blob d ref = None \<Longrightarrow> LoadPayload n d ref = Inl NoRows"
  by (simp add: LoadPayload_def loadBlob_def)

end
