(* ===== verification/Management.thy ===== *)
theory Management
  imports Hooks Browse_Api
begin

text \<open>
  The management interface of the plugin (\<open>internal/archive/management.go\<close>): the page, and the routes it forwards to the
  collector. The escaping of paths and queries is that of \<open>net/url\<close>, on both sides.

  The request arrives decoded. \<open>collector\<close> is the HTTP client with the collector behind it, \<open>html\<close> the embedded page, \<open>errtext\<close>
  the body for a collector that cannot be reached. The path cleaning of \<open>http.ServeMux\<close>, which redirects a path
  with a \<open>.\<close> or \<open>..\<close> segment, is left out.
\<close>

section \<open>Escaping\<close>

definition unreserved :: "char \<Rightarrow> bool" where
  "unreserved c \<longleftrightarrow>
    (let n = of_char c :: nat in 97 \<le> n \<and> n \<le> 122 \<or> 65 \<le> n \<and> n \<le> 90 \<or> 48 \<le> n \<and> n \<le> 57) \<or> c \<in> set ''-_.~''"

definition kept_in_segment :: "char \<Rightarrow> bool" where
  "kept_in_segment c \<longleftrightarrow> unreserved c \<or> c \<in> set ''$&+:=@''"

definition upperhex :: "nat \<Rightarrow> char" where
  "upperhex d = (if d < 10 then char_of (48 + d) else char_of (55 + d))"

definition percent :: "char \<Rightarrow> string" where
  "percent c = [CHR ''%'', upperhex (of_char c div 16), upperhex (of_char c mod 16)]"

definition PathEscape :: "string \<Rightarrow> string" where
  "PathEscape s = concat (map (\<lambda>c. if kept_in_segment c then [c] else percent c) s)"

definition QueryEscape :: "string \<Rightarrow> string" where
  "QueryEscape s = concat (map (\<lambda>c. if unreserved c then [c] else if c = CHR '' '' then ''+'' else percent c) s)"

text \<open>The keys in order, each with its values.\<close>

definition url_Encode :: "http_query \<Rightarrow> string" where
  "url_Encode q =
    Join ''&'' (map (\<lambda>(k, v). QueryEscape k @ ''='' @ QueryEscape v)
      (concat (map (\<lambda>(k, vs). map (Pair k) vs) (sort_key fst q))))"

text \<open>What the server makes of it; in a query a plus sign is a space.\<close>

fun unescape :: "bool \<Rightarrow> string \<Rightarrow> string option" where
  "unescape inq [] = Some []"
| "unescape inq (c # s) =
    (if c = CHR ''%'' then
       (case s of
          a # b # r \<Rightarrow>
            (case (hexval a, hexval b) of
               (Some x, Some y) \<Rightarrow> map_option (Cons (char_of (16 * x + y))) (unescape inq r)
             | _ \<Rightarrow> None)
        | _ \<Rightarrow> None)
     else map_option (Cons (if inq \<and> c = CHR ''+'' then CHR '' '' else c)) (unescape inq s))"

definition parse_pair :: "string \<Rightarrow> (string \<times> string) option" where
  "parse_pair p =
    (if p = [] \<or> CHR '';'' \<in> set p then None
     else case (unescape True (takeWhile (\<lambda>c. c \<noteq> CHR ''='') p), unescape True (drop 1 (dropWhile (\<lambda>c. c \<noteq> CHR ''='') p))) of
            (Some k, Some v) \<Rightarrow> Some (k, v) | _ \<Rightarrow> None)"

definition add_value :: "string \<times> string \<Rightarrow> http_query \<Rightarrow> http_query" where
  "add_value kv q =
    (if fst kv \<in> fst ` set q then map (\<lambda>(k, vs). (k, if k = fst kv then vs @ [snd kv] else vs)) q
     else q @ [(fst kv, [snd kv])])"

definition ParseQuery :: "string \<Rightarrow> http_query" where
  "ParseQuery raw = fold add_value (List.map_filter parse_pair (SplitByte raw (CHR ''&''))) []"

text \<open>The path and the query a handler of the collector sees.\<close>

definition parse_target :: "string \<Rightarrow> (string \<times> http_query) option" where
  "parse_target t =
    map_option (\<lambda>path. (path, ParseQuery (drop 1 (dropWhile (\<lambda>c. c \<noteq> CHR ''?'') t))))
      (unescape False (takeWhile (\<lambda>c. c \<noteq> CHR ''?'') t))"

section \<open>Routes\<close>

record managementRequest =
  mr_Method :: string
  mr_Path :: string
  mr_Query :: http_query
  mr_Body :: string

record managementResponse =
  ms_StatusCode :: nat
  ms_Headers :: http_header
  ms_Body :: string

definition pluginID :: string where
  "pluginID = ''cpa-session-archive''"

definition resource_path :: string where
  "resource_path = ''/v0/resource/plugins/'' @ pluginID"

definition management_base :: string where
  "management_base = ''/v0/management/plugins/'' @ pluginID"

definition set_value :: "string \<Rightarrow> string \<Rightarrow> http_query \<Rightarrow> http_query" where
  "set_value k v q = filter (\<lambda>(k', _). k' \<noteq> k) q @ [(k, [v])]"

text \<open>The routes the plugin registers with its host, below \<open>/v0/management\<close>.\<close>

definition registered_names :: "(string \<times> string) list" where
  "registered_names =
    [(''GET'', ''/stats''), (''GET'', ''/facets''), (''GET'', ''/sessions''), (''GET'', ''/turns''), (''GET'', ''/turn-text''),
     (''GET'', ''/requests''), (''GET'', ''/request-context''), (''GET'', ''/request-view''), (''GET'', ''/export''),
     (''GET'', ''/identity-mappings''), (''PUT'', ''/identity-mappings'')]"

definition managementRegistration :: "(string \<times> string) list" where
  "managementRegistration = map (\<lambda>(meth, name). (meth, ''/plugins/'' @ pluginID @ name)) registered_names"

text \<open>The target, the parameters that are dropped, and the query, which the export route extends.\<close>

definition route :: "managementRequest \<Rightarrow> (string \<times> string list \<times> http_query) option" where
  "route r =
    (let path = TrimRightByte (mr_Path r) (CHR ''/''); get = (mr_Method r = ''GET''); q = mr_Query r; rid = query_get q ''id''
     in if get \<and> path = management_base @ ''/stats'' then Some (''/v1/stats'', [], q)
        else if get \<and> path = management_base @ ''/facets'' then Some (''/v1/facets'', [], q)
        else if (get \<or> mr_Method r = ''PUT'') \<and> path = management_base @ ''/identity-mappings'' then Some (''/v1/identity-mappings'', [], q)
        else if get \<and> path = management_base @ ''/sessions'' then
          (if rid \<noteq> [] then Some (''/v1/sessions/'' @ PathEscape rid, [''id''], q) else Some (''/v1/sessions'', [], q))
        else if get \<and> path = management_base @ ''/requests'' then Some (''/v1/requests/'' @ PathEscape rid, [''id''], q)
        else if get \<and> path = management_base @ ''/request-context'' then Some (''/v1/request-context'', [], q)
        else if get \<and> path = management_base @ ''/request-view'' then Some (''/v1/request-view'', [], q)
        else if get \<and> path = management_base @ ''/turns'' then Some (''/v1/turns'', [], q)
        else if get \<and> path = management_base @ ''/turn-text'' then Some (''/v1/turn-text'', [], q)
        else if get \<and> path = management_base @ ''/export'' then
          Some (''/v1/export-tickets'', [''id''], if rid \<noteq> [] then set_value ''session_id'' rid q else q)
        else None)"

definition with_query :: "string \<Rightarrow> http_query \<Rightarrow> string" where
  "with_query target q = (if q \<noteq> [] then target @ ''?'' @ url_Encode q else target)"

definition kept_query :: "string list \<Rightarrow> http_query \<Rightarrow> http_query" where
  "kept_query drops q = filter (\<lambda>(k, _). k \<notin> set drops) q"

definition request_target :: "string \<Rightarrow> string list \<Rightarrow> http_query \<Rightarrow> string" where
  "request_target target drops q = with_query target (kept_query drops q)"

definition unavailable :: "string \<Rightarrow> managementResponse" where
  "unavailable errtext = \<lparr>ms_StatusCode = 502, ms_Headers = [(''Content-Type'', [''application/json''])], ms_Body = errtext\<rparr>"

text \<open>The answer of the collector with the two headers that are passed on.\<close>

definition pass_on :: "nat \<times> http_header \<times> string \<Rightarrow> managementResponse" where
  "pass_on resp =
    (case resp of (status, headers, body) \<Rightarrow>
       \<lparr>ms_StatusCode = status,
        ms_Headers = [(''Content-Type'', [header_get headers ''Content-Type''])] @
          (let v = header_get headers ''Content-Disposition'' in if v \<noteq> [] then [(''Content-Disposition'', [v])] else []),
        ms_Body = body\<rparr>)"

definition handleManagement ::
  "string \<Rightarrow> (string \<Rightarrow> string) \<Rightarrow> (string \<Rightarrow> string \<Rightarrow> string \<Rightarrow> (nat \<times> http_header \<times> string) option) \<Rightarrow> Plugin \<Rightarrow> managementRequest \<Rightarrow>
    managementResponse" where
  "handleManagement html errtext collector p r =
    (let path = TrimRightByte (mr_Path r) (CHR ''/'') in
     if mr_Method r = ''GET'' \<and> HasPrefix path resource_path then
       (let found = (TrimPrefix path resource_path = ''/index.html'')
        in \<lparr>ms_StatusCode = (if found then 200 else 404),
            ms_Headers = [(''Content-Type'', [''text/html; charset=utf-8'']), (''Cache-Control'', [''no-store, max-age=0''])],
            ms_Body = (if found then html else ''not found'')\<rparr>)
     else case route r of
            None \<Rightarrow> \<lparr>ms_StatusCode = 404, ms_Headers = [], ms_Body = ''{\"error\":\"not found\"}''\<rparr>
          | Some (target, drops, q) \<Rightarrow>
              let u = TrimSuffix (pl_endpoint p) ''/ingest'' @ request_target target drops q
              in case collector (mr_Method r) u (mr_Body r) of
                   None \<Rightarrow> unavailable (errtext u)
                 | Some resp \<Rightarrow> pass_on resp)"

section \<open>The escapes are undone\<close>

lemma hexval_upperhex: "d < 16 \<Longrightarrow> hexval (upperhex d) = Some d"
  by (auto simp: hexval_def upperhex_def)

lemma byte_div_16: "of_char c div 16 < (16::nat)"
  by (rule less_mult_imp_div_less) simp

lemma unescape_percent: "unescape inq (percent c @ s) = map_option (Cons c) (unescape inq s)"
proof -
  have "hexval (upperhex (of_char c div 16)) = Some (of_char c div 16)" "hexval (upperhex (of_char c mod 16)) = Some (of_char c mod 16)"
    using byte_div_16 [of c] by (simp_all add: hexval_upperhex)
  then show ?thesis by (simp add: percent_def)
qed

lemma unescape_PathEscape: "unescape False (PathEscape s @ t) = map_option ((@) s) (unescape False t)"
proof (induction s)
  case Nil
  then show ?case by (simp add: PathEscape_def option.map_ident)
next
  case (Cons c s)
  have "kept_in_segment c \<Longrightarrow> c \<noteq> CHR ''%''" by (auto simp: kept_in_segment_def unreserved_def)
  moreover have "PathEscape (c # s) = (if kept_in_segment c then [c] else percent c) @ PathEscape s" by (simp add: PathEscape_def)
  ultimately show ?case using Cons by (auto simp: unescape_percent option.map_comp comp_def)
qed

lemma unescape_QueryEscape: "unescape True (QueryEscape s) = Some s"
proof (induction s)
  case Nil
  then show ?case by (simp add: QueryEscape_def)
next
  case (Cons c s)
  have u: "unreserved c \<Longrightarrow> c \<noteq> CHR ''%'' \<and> c \<noteq> CHR ''+''" by (auto simp: unreserved_def)
  have "QueryEscape (c # s) = (if unreserved c then [c] else if c = CHR '' '' then ''+'' else percent c) @ QueryEscape s"
    by (simp add: QueryEscape_def)
  then show ?case using Cons u by (auto simp: unescape_percent)
qed

lemma percent_chars: "set (percent c) \<subseteq> {c. unreserved c} \<union> {CHR ''%''}"
proof -
  have "unreserved (upperhex d)" if "d < 16" for d
    using that by (auto simp: upperhex_def unreserved_def)
  moreover have "of_char c div 16 < (16::nat)" using byte_div_16 .
  ultimately show ?thesis by (simp add: percent_def)
qed

lemma QueryEscape_chars: "c \<in> set (QueryEscape s) \<Longrightarrow> unreserved c \<or> c = CHR ''%'' \<or> c = CHR ''+''"
  using percent_chars by (fastforce simp: QueryEscape_def split: if_splits)

lemma PathEscape_chars: "c \<in> set (PathEscape s) \<Longrightarrow> kept_in_segment c \<or> c = CHR ''%''"
  using percent_chars by (fastforce simp: PathEscape_def kept_in_segment_def split: if_splits)

lemma QueryEscape_free:
  "CHR ''&'' \<notin> set (QueryEscape s)" "CHR ''='' \<notin> set (QueryEscape s)" "CHR '';'' \<notin> set (QueryEscape s)"
  using QueryEscape_chars [of _ s] by (fastforce simp: unreserved_def)+

lemma PathEscape_free: "CHR ''?'' \<notin> set (PathEscape s)"
  using PathEscape_chars [of _ s] by (fastforce simp: kept_in_segment_def unreserved_def)

lemma parse_pair_escape: "parse_pair (QueryEscape k @ ''='' @ QueryEscape v) = Some (k, v)"
proof -
  have all: "\<And>x. x \<in> set (QueryEscape k) \<Longrightarrow> x \<noteq> CHR ''=''" using QueryEscape_free(2) [of k] by auto
  have "takeWhile (\<lambda>c. c \<noteq> CHR ''='') (QueryEscape k @ CHR ''='' # QueryEscape v) = QueryEscape k"
    "dropWhile (\<lambda>c. c \<noteq> CHR ''='') (QueryEscape k @ CHR ''='' # QueryEscape v) = CHR ''='' # QueryEscape v"
    by (subst takeWhile_append2 dropWhile_append2, erule all, simp)+
  then show ?thesis using QueryEscape_free(3) by (simp add: parse_pair_def unescape_QueryEscape)
qed

text \<open>A query comes back with its keys in order, without the keys that have no value.\<close>

definition normal_query :: "http_query \<Rightarrow> http_query" where
  "normal_query q = filter (\<lambda>(_, vs). vs \<noteq> []) (sort_key fst q)"

lemma add_values_last:
  "k \<notin> fst ` set q \<Longrightarrow> fold add_value (map (Pair k) ws) (q @ [(k, vs)]) = q @ [(k, vs @ ws)]"
proof (induction ws arbitrary: vs)
  case (Cons w ws)
  have "map (\<lambda>(k', us). (k', if k' = k then us @ [w] else us)) q = q"
    using Cons.prems by (intro map_idI) (auto split: if_splits intro: rev_image_eqI)
  then have "add_value (k, w) (q @ [(k, vs)]) = q @ [(k, vs @ [w])]" unfolding add_value_def fst_conv snd_conv by simp
  with Cons show ?case by simp
qed simp

lemma add_values_grouped:
  "distinct (map fst q) \<Longrightarrow> fst ` set q \<inter> fst ` set m = {} \<Longrightarrow>
    fold add_value (concat (map (\<lambda>(k, vs). map (Pair k) vs) q)) m = m @ filter (\<lambda>(_, vs). vs \<noteq> []) q"
proof (induction q arbitrary: m)
  case (Cons kv q)
  obtain k vs where kv: "kv = (k, vs)" by force
  have k: "k \<notin> fst ` set m" using Cons.prems(2) by (auto simp: kv)
  show ?case
  proof (cases vs)
    case Nil
    with Cons kv show ?thesis by simp
  next
    case (Cons v ws)
    have "fold add_value (map (Pair k) vs) m = m @ [(k, vs)]"
      using k add_values_last [OF k, of ws "[v]"] by (simp add: Cons add_value_def)
    moreover have "fst ` set q \<inter> fst ` set (m @ [(k, vs)]) = {}" using Cons.prems by (auto simp: kv)
    ultimately show ?thesis using Cons.IH [of "m @ [(k, vs)]"] Cons.prems(1) Cons by (simp add: kv)
  qed
qed simp

lemma map_filter_pairs: "List.map_filter parse_pair (map (\<lambda>(k, v). QueryEscape k @ ''='' @ QueryEscape v) ps) = ps"
  by (induction ps) (auto simp: List.map_filter_simps parse_pair_escape [simplified])

lemma ParseQuery_Encode:
  assumes "distinct (map fst q)"
  shows "ParseQuery (url_Encode q) = normal_query q"
proof -
  let ?ps = "concat (map (\<lambda>(k, vs). map (Pair k) vs) (sort_key fst q))"
  let ?pieces = "map (\<lambda>(k, v). QueryEscape k @ ''='' @ QueryEscape v) ?ps"
  have "List.map_filter parse_pair (SplitByte (Join ''&'' ?pieces) (CHR ''&'')) = ?ps"
  proof (cases "?ps = []")
    case True
    show ?thesis unfolding True by (simp add: SplitByte_none List.map_filter_simps parse_pair_def)
  next
    case False
    have "\<forall>x \<in> set ?pieces. CHR ''&'' \<notin> set x" using QueryEscape_free(1) by auto
    with False have "SplitByte (Join ''&'' ?pieces) (CHR ''&'') = ?pieces" by (intro SplitByte_Join) auto
    then show ?thesis by (simp only: map_filter_pairs)
  qed
  moreover have "distinct (map fst (sort_key fst q))" using assms by (simp add: distinct_map)
  ultimately show ?thesis
    using add_values_grouped [of "sort_key fst q" "[]"] by (simp add: ParseQuery_def url_Encode_def normal_query_def)
qed

lemma parse_target_of:
  assumes "CHR ''?'' \<notin> set t" and "unescape False t = Some path" and "distinct (map fst q)"
  shows "parse_target (with_query t q) = Some (path, normal_query q)"
proof (cases "q = []")
  case True
  have tw: "takeWhile (\<lambda>c. c \<noteq> CHR ''?'') t = t" "dropWhile (\<lambda>c. c \<noteq> CHR ''?'') t = []"
    using assms(1) by (auto simp: takeWhile_eq_all_conv dropWhile_eq_Nil_conv)
  show ?thesis
    by (simp add: True tw assms(2) parse_target_def with_query_def ParseQuery_def SplitByte_none List.map_filter_simps parse_pair_def normal_query_def)
next
  case False
  have all: "\<And>x. x \<in> set t \<Longrightarrow> x \<noteq> CHR ''?''" using assms(1) by auto
  have "takeWhile (\<lambda>c. c \<noteq> CHR ''?'') (t @ CHR ''?'' # url_Encode q) = t"
    "dropWhile (\<lambda>c. c \<noteq> CHR ''?'') (t @ CHR ''?'' # url_Encode q) = CHR ''?'' # url_Encode q"
    by (subst takeWhile_append2 dropWhile_append2, erule all, simp)+
  with False assms(2) show ?thesis
    by (simp add: parse_target_def with_query_def ParseQuery_Encode [OF assms(3)])
qed

section \<open>The page reaches the collector\<close>

text \<open>The collector behind HTTP: \<open>serve\<close> gets the method, the decoded path and query, and the body.\<close>

definition reaches :: "(string \<Rightarrow> string \<Rightarrow> string \<Rightarrow> (nat \<times> http_header \<times> string) option) \<Rightarrow> string \<Rightarrow>
    (string \<Rightarrow> string \<Rightarrow> http_query \<Rightarrow> string \<Rightarrow> nat \<times> http_header \<times> string) \<Rightarrow> bool" where
  "reaches collector base serve \<longleftrightarrow>
    (\<forall>m t b path q. parse_target t = Some (path, q) \<longrightarrow> collector m (base @ t) b = Some (serve m path q b))"

definition asked_path :: "managementRequest \<Rightarrow> string" where
  "asked_path r = TrimRightByte (mr_Path r) (CHR ''/'')"

lemma kept_query_distinct: "distinct (map fst q) \<Longrightarrow> distinct (map fst (kept_query drops q))"
  by (auto simp: kept_query_def distinct_map intro: inj_on_subset)

lemma set_value_distinct: "distinct (map fst q) \<Longrightarrow> distinct (map fst (set_value k v q))"
  by (auto simp: set_value_def distinct_map intro: inj_on_subset)

lemma forwards:
  assumes "route r = Some (t, drops, q)" and "CHR ''?'' \<notin> set t" and "unescape False t = Some path" and "distinct (map fst q)"
    and "\<not> HasPrefix (asked_path r) resource_path" and "reaches collector (TrimSuffix (pl_endpoint p) ''/ingest'') serve"
  shows "handleManagement html errtext collector p r = pass_on (serve (mr_Method r) path (normal_query (kept_query drops q)) (mr_Body r))"
proof -
  have "parse_target (request_target t drops q) = Some (path, normal_query (kept_query drops q))"
    unfolding request_target_def using assms(2,3) kept_query_distinct [OF assms(4)] by (rule parse_target_of)
  with assms(6) have "collector (mr_Method r) (TrimSuffix (pl_endpoint p) ''/ingest'' @ request_target t drops q) (mr_Body r) =
      Some (serve (mr_Method r) path (normal_query (kept_query drops q)) (mr_Body r))"
    by (simp add: reaches_def)
  then show ?thesis using assms(5) by (simp add: handleManagement_def Let_def assms(1) asked_path_def)
qed

lemma management_not_resource: "\<not> HasPrefix (management_base @ s) resource_path"
  by (simp add: management_base_def resource_path_def pluginID_def HasPrefix_def)

lemma unescape_segment: "unescape False (PathEscape s) = Some s"
  using unescape_PathEscape [of s "[]"] by simp

definition plain_routes :: "string list" where
  "plain_routes = [''stats'', ''facets'', ''identity-mappings'', ''request-context'', ''request-view'', ''turns'', ''turn-text'']"

lemma plain_route:
  assumes "name \<in> set plain_routes" and "mr_Method r = ''GET''" and "asked_path r = management_base @ ''/'' @ name"
  shows "route r = Some (''/v1/'' @ name, [], mr_Query r)" and "CHR ''?'' \<notin> set (''/v1/'' @ name)"
    and "unescape False (''/v1/'' @ name) = Some (''/v1/'' @ name)"
proof -
  have "name = ''stats'' \<or> name = ''facets'' \<or> name = ''identity-mappings'' \<or> name = ''request-context''
    \<or> name = ''request-view'' \<or> name = ''turns'' \<or> name = ''turn-text''"
    using assms(1) by (simp add: plain_routes_def)
  then show "route r = Some (''/v1/'' @ name, [], mr_Query r)"
    using assms(3) by (elim disjE) (simp_all add: route_def Let_def asked_path_def [symmetric] assms(2))
  show "CHR ''?'' \<notin> set (''/v1/'' @ name)" "unescape False (''/v1/'' @ name) = Some (''/v1/'' @ name)"
    using assms(1) by (auto simp: plain_routes_def)
qed

lemma id_routes:
  assumes "mr_Method r = ''GET''"
  shows "asked_path r = management_base @ ''/sessions'' \<Longrightarrow> query_get (mr_Query r) ''id'' \<noteq> [] \<Longrightarrow>
      route r = Some (''/v1/sessions/'' @ PathEscape (query_get (mr_Query r) ''id''), [''id''], mr_Query r)"
    and "asked_path r = management_base @ ''/sessions'' \<Longrightarrow> query_get (mr_Query r) ''id'' = [] \<Longrightarrow>
      route r = Some (''/v1/sessions'', [], mr_Query r)"
    and "asked_path r = management_base @ ''/requests'' \<Longrightarrow>
      route r = Some (''/v1/requests/'' @ PathEscape (query_get (mr_Query r) ''id''), [''id''], mr_Query r)"
    and "asked_path r = management_base @ ''/export'' \<Longrightarrow> query_get (mr_Query r) ''id'' \<noteq> [] \<Longrightarrow>
      route r = Some (''/v1/export-tickets'', [''id''], set_value ''session_id'' (query_get (mr_Query r) ''id'') (mr_Query r))"
  using assms by (simp_all add: route_def Let_def asked_path_def [symmetric])

lemma segment_target:
  "CHR ''?'' \<notin> set (''/v1/sessions/'' @ PathEscape s)" "unescape False (''/v1/sessions/'' @ PathEscape s) = Some (''/v1/sessions/'' @ s)"
  "CHR ''?'' \<notin> set (''/v1/requests/'' @ PathEscape s)" "unescape False (''/v1/requests/'' @ PathEscape s) = Some (''/v1/requests/'' @ s)"
  using PathEscape_free unescape_segment by simp_all


text \<open>Every registered route is forwarded.\<close>

lemma registered_base: "''/v0/management'' @ ''/plugins/'' @ pluginID @ name = management_base @ name"
  by (simp add: management_base_def)

lemma registered_trim: "\<forall>(meth, name) \<in> set registered_names. name \<noteq> [] \<and> last name \<noteq> CHR ''/''"
  by (simp add: registered_names_def)

lemma TrimRightByte_none: "s \<noteq> [] \<Longrightarrow> last s \<noteq> c \<Longrightarrow> TrimRightByte s c = s"
  by (cases s rule: rev_cases) (simp_all add: TrimRightByte_def)

lemma registered_routes_handled:
  assumes "(meth, path) \<in> set managementRegistration"
  shows "route \<lparr>mr_Method = meth, mr_Path = ''/v0/management'' @ path, mr_Query = q, mr_Body = b\<rparr> \<noteq> None"
proof -
  from assms obtain name where n: "(meth, name) \<in> set registered_names" "''/v0/management'' @ path = management_base @ name"
    unfolding managementRegistration_def using registered_base by force
  then have "TrimRightByte (management_base @ name) (CHR ''/'') = management_base @ name"
    using registered_trim by (intro TrimRightByte_none) auto
  then have path: "TrimRightByte (''/v0/management'' @ path) (CHR ''/'') = management_base @ name" by (simp only: n(2))
  show ?thesis unfolding route_def path managementRequest.simps Let_def
    using n(1) unfolding registered_names_def list.set insert_iff empty_iff prod.inject by (elim disjE conjE FalseE) simp_all
qed

section \<open>Example\<close>

definition echo :: "string \<Rightarrow> string \<Rightarrow> string \<Rightarrow> (nat \<times> http_header \<times> string) option" where
  "echo m u b = map_option (\<lambda>(path, q). (200, [], path)) (parse_target u)"

definition open_request :: managementRequest where
  "open_request = \<lparr>mr_Method = ''GET'', mr_Path = management_base @ ''/sessions'', mr_Query = [(''id'', [''a/b ?''])], mr_Body = []\<rparr>"


end
