(* ===== verification/Readback.thy ===== *)
theory Readback
  imports Browse_Api
begin

text \<open>
  What a batch of records leaves to be read: the row of a new request with its payloads, under every later record of the
  batch (\<open>PutBatch\<close>, \<open>requestWithQuery\<close>).
\<close>

section \<open>Payloads that read back\<close>

definition storable_payload :: "string set \<Rightarrow> string \<Rightarrow> bool" where
  "storable_payload U raw \<longleftrightarrow> raw = [] \<or> archivable U raw"

text \<open>The JSON payload \<open>raw\<close> reads as \<open>body\<close>: its value without noise, numbers as \<open>float64\<close>, encoded again.\<close>

definition reads_as :: "string set \<Rightarrow> nat \<Rightarrow> string \<Rightarrow> string \<Rightarrow> bool" where
  "reads_as U n raw body \<longleftrightarrow>
    raw = [] \<and> body = []
    \<or> raw \<noteq> [] \<and> archivable U raw
      \<and> (\<exists>v rest w. Decode (effective raw) = Some (v, rest) \<and> no_ref v \<and> jdepth v < max_depth \<and> jdepth v \<le> n
           \<and> to_float (strip v) = Some w \<and> Data ` set (snd (compactValue 0 v)) \<subseteq> U \<and> body = Marshal w)"

lemma reads_as_storable: "reads_as U n raw body \<Longrightarrow> storable_payload U raw"
  by (auto simp: reads_as_def storable_payload_def)

lemma content_ok_blobs: "blobs d' = blobs d \<Longrightarrow> content_ok U d' = content_ok U d"
  by (simp add: content_ok_def)

lemma putPayload_ok:
  assumes "content_ok U d" and "storable_payload U raw"
  shows "content_ok U (snd (putPayload raw d))"
proof (cases "raw = []")
  case True
  with assms show ?thesis by (simp add: putPayload_def)
next
  case False
  with assms putPayload_stored(3) [of U d raw "fst (putPayload raw d)" "snd (putPayload raw d)"] show ?thesis
    by (simp add: storable_payload_def)
qed

lemma putPayload_reads:
  assumes "content_ok U d" and "reads_as U n raw body"
    and "\<And>h x. loadBlob (snd (putPayload raw d)) h = Inr x \<Longrightarrow> loadBlob e h = Inr x"
  shows "column_payload n e (fst (putPayload raw d)) NoData = Inr body"
    and "fst (putPayload raw d) \<noteq> [] \<Longrightarrow> LoadPayload n e (fst (putPayload raw d)) = Inr body"
    and "fst (putPayload raw d) = [] \<Longrightarrow> body = []"
proof -
  have *: "fst (putPayload raw d) \<noteq> [] \<and> LoadPayload n e (fst (putPayload raw d)) = Inr body" if "raw \<noteq> []"
  proof -
    from assms(2) that obtain v rest w where v: "Decode (effective raw) = Some (v, rest)" "no_ref v" "jdepth v < max_depth"
      "to_float (strip v) = Some w" "Data ` set (snd (compactValue 0 v)) \<subseteq> U" "archivable U raw" "jdepth v \<le> n" "body = Marshal w"
      by (auto simp: reads_as_def)
    obtain h d' where p: "putPayload raw d = (h, d')" by force
    from store_load_payload [OF assms(1) that v(1-6) p v(7)] have "LoadPayload n d' h = Inr (Marshal w)" by (rule conjunct1)
    then have "LoadPayload n e h = Inr (Marshal w)"
      by (rule LoadPayload_mono [rotated]) (rule assms(3), simp only: p snd_conv)
    moreover have "h = Hash (manifest_blob raw)" using p putPayload_eq [OF that, of d] by simp
    then have "h \<noteq> []" by (simp add: manifest_blob_def newBlob_def)
    ultimately show ?thesis by (simp only: p fst_conv v(8) not_False_eq_True simp_thms)
  qed
  have none: "fst (putPayload [] d) = []" by (simp add: putPayload_def)
  have "raw = [] \<Longrightarrow> body = []" using assms(2) by (auto simp: reads_as_def)
  with * none show "column_payload n e (fst (putPayload raw d)) NoData = Inr body"
    "fst (putPayload raw d) \<noteq> [] \<Longrightarrow> LoadPayload n e (fst (putPayload raw d)) = Inr body"
    "fst (putPayload raw d) = [] \<Longrightarrow> body = []"
    by (cases "raw = []"; auto simp: column_payload_def gunzipBytes_def gunzipBytesChecked_def)+
qed

section \<open>The row of a record\<close>

lemma records_upsert_record:
  "records (upsert_record m row d) =
    (if request_id row \<in> request_id ` set (records d) then map (\<lambda>r. if request_id r = request_id row then m r else r) (records d)
     else records d @ [row\<lparr>r_id := next_id (records d)\<rparr>])"
  by (simp add: upsert_record_def update_records_fires insert_record_fires row_simps del: fires_simps)

lemma find_record_upsert:
  assumes "\<And>r. request_id (m r) = request_id r"
  shows "q \<noteq> request_id row \<Longrightarrow> find_record (upsert_record m row d) q = find_record d q"
    and "request_id row \<notin> request_id ` set (records d) \<Longrightarrow>
      find_record (upsert_record m row d) (request_id row) = Some (row\<lparr>r_id := next_id (records d)\<rparr>)"
proof -
  show "q \<noteq> request_id row \<Longrightarrow> find_record (upsert_record m row d) q = find_record d q"
    using find_map_other [of request_id "\<lambda>r. if request_id r = request_id row then m r else r" q "records d"] assms
    by (auto simp: find_record_def records_upsert_record find_append split: option.split)
  show "find_record (upsert_record m row d) (request_id row) = Some (row\<lparr>r_id := next_id (records d)\<rparr>)"
    if new: "request_id row \<notin> request_id ` set (records d)"
  proof -
    have "find (\<lambda>r. request_id r = request_id row) (records d) = None"
      using new find_record_None [of d "request_id row"] by (simp add: find_record_def)
    with new show ?thesis by (simp add: find_record_def records_upsert_record find_append)
  qed
qed

text \<open>One record: the other rows stay findable, and a new row reads back.\<close>

lemma put_record_result:
  assumes "put_record sprint up idx r0 d = Inr d'"
  defines "r \<equiv> resolveIdentity sprint idx r0"
  defines "p1 \<equiv> putPayload (OriginalRequest r) d"
  defines "p2 \<equiv> (if up then putPayload (UpstreamRequest r) (snd p1) else ([], snd p1))"
  defines "p3 \<equiv> putPayload (Response r) (snd p2)"
  defines "row \<equiv> row_of r (fst p1) (fst p2) (fst p3)"
  shows "records d' = records (upsert_record (merge_record row) row d)" and "blobs d' = blobs (snd p3)"
proof -
  obtain b1 where b1: "snd p1 = d\<lparr>blobs := b1\<rparr>" unfolding p1_def using putPayload_only_blobs by blast
  obtain b2 where b2: "snd p2 = d\<lparr>blobs := b2\<rparr>"
    using putPayload_only_blobs [of "UpstreamRequest r" "snd p1"] b1 by (cases up) (auto simp: p2_def)
  obtain b3 where b3: "snd p3 = d\<lparr>blobs := b3\<rparr>"
    using putPayload_only_blobs [of "Response r" "snd p2"] b2 by (auto simp: p3_def)
  have "put_record sprint up idx r0 d =
      bind_res (put_turn (RequestID r) (compactTurnFacets (Facets r)) (upsert_record (merge_record row) row (snd p3)))
        (\<lambda>d5. Inr (indexSessionRecord r (put_record_facets (RequestID r) (Facets r) d5)))"
    by (simp add: put_record_def Let_def split_beta p1_def p2_def p3_def r_def row_def)
  with assms(1) obtain d5 where d5: "put_turn (RequestID r) (compactTurnFacets (Facets r)) (upsert_record (merge_record row) row (snd p3)) = Inr d5"
    "d' = indexSessionRecord r (put_record_facets (RequestID r) (Facets r) d5)"
    by (auto simp: bind_res_Inr_iff)
  have "records d5 = records (upsert_record (merge_record row) row (snd p3))" "blobs d5 = blobs (upsert_record (merge_record row) row (snd p3))"
    using d5(1) by (auto simp: put_turn_def split: option.splits if_splits)
  then show "records d' = records (upsert_record (merge_record row) row d)" "blobs d' = blobs (snd p3)"
    by (simp_all add: d5(2) row_simps put_record_facets_def records_upsert_record b3)
qed

definition row_reads :: "nat \<Rightarrow> bool \<Rightarrow> db \<Rightarrow> rec_row \<Rightarrow> string \<Rightarrow> string \<Rightarrow> string \<Rightarrow> bool" where
  "row_reads n up d row original upstream response \<longleftrightarrow>
    column_payload n d (original_ref row) (original_request_gz row) = Inr original
    \<and> (if upstream_ref row \<noteq> [] then LoadPayload n d (upstream_ref row)
        else Inr (if up then gunzipBytes (upstream_request_gz row) else [])) = Inr upstream
    \<and> column_payload n d (response_ref row) (response_gz row) = Inr response"

lemma load_row_reads:
  "row_reads n up d row original upstream response \<Longrightarrow>
    \<exists>x f. load_row n up d row = Inr (x, f) \<and> RequestID x = request_id row \<and> SessionID x = session_id row
      \<and> OriginalRequest x = original \<and> UpstreamRequest x = upstream \<and> Response x = response"
  by (simp add: row_reads_def load_row_def scan_row_def)

lemma row_reads_mono:
  assumes "row_reads n up d row original upstream response" and "\<And>h x. loadBlob d h = Inr x \<Longrightarrow> loadBlob d' h = Inr x"
  shows "row_reads n up d' row original upstream response"
proof -
  have "LoadPayload n d h = Inr x \<Longrightarrow> LoadPayload n d' h = Inr x" for h x
    using LoadPayload_mono [of d d', OF assms(2)] by blast
  then show ?thesis using assms(1) by (simp add: row_reads_def column_payload_def split: if_splits)
qed

lemma row_reads_row_of:
  "column_payload n d a NoData = Inr original \<Longrightarrow> column_payload n d c NoData = Inr response \<Longrightarrow>
    (if b \<noteq> [] then LoadPayload n d b else Inr []) = Inr upstream \<Longrightarrow>
    row_reads n up d ((row_of r a b c)\<lparr>r_id := i\<rparr>) original upstream response"
  by (simp add: row_reads_def row_of_def gunzipBytes_def gunzipBytesChecked_def split: if_splits)

definition storable_record :: "string set \<Rightarrow> bool \<Rightarrow> Record \<Rightarrow> bool" where
  "storable_record U up r \<longleftrightarrow> storable_payload U (OriginalRequest r) \<and> storable_payload U (Response r)
    \<and> (up \<longrightarrow> storable_payload U (UpstreamRequest r))"

lemma put_record_content:
  assumes "put_record sprint up idx r0 d = Inr d'" and "content_ok U d" and "storable_record U up r0"
  shows "content_ok U d'"
  unfolding content_ok_blobs [OF put_record_result(2) [OF assms(1)]]
  using assms(2,3) by (auto simp: storable_record_def resolveIdentity_keeps intro!: putPayload_ok)

lemma put_record_other:
  assumes "put_record sprint up idx r0 d = Inr d'" and "q \<noteq> RequestID r0"
  shows "find_record d' q = find_record d q"
proof -
  let ?r = "resolveIdentity sprint idx r0"
  obtain row where "records d' = records (upsert_record (merge_record row) row d)" "request_id row = RequestID ?r"
    using put_record_result(1) [OF assms(1)] by (simp add: row_of_def)
  then show ?thesis
    using find_record_upsert(1) [of "merge_record row" q row d] assms(2)
    by (simp add: find_record_def merge_record_def resolveIdentity_keeps)
qed

lemma put_record_new:
  assumes run: "put_record sprint up idx r0 d = Inr d'" and ok: "content_ok U d" and new: "RequestID r0 \<notin> request_id ` set (records d)"
    and o: "reads_as U n (OriginalRequest r0) original" and s: "reads_as U n (Response r0) response"
    and u: "if up then reads_as U n (UpstreamRequest r0) upstream else upstream = []"
  shows "\<exists>row. find_record d' (RequestID r0) = Some row \<and> session_id row = SessionID r0
    \<and> row_reads n up d' row original upstream response"
proof -
  let ?r = "resolveIdentity sprint idx r0"
  let ?p1 = "putPayload (OriginalRequest ?r) d"
  let ?p2 = "if up then putPayload (UpstreamRequest ?r) (snd ?p1) else ([], snd ?p1)"
  let ?p3 = "putPayload (Response ?r) (snd ?p2)"
  let ?row = "row_of ?r (fst ?p1) (fst ?p2) (fst ?p3)"
  note res = put_record_result [OF run]
  have k1: "content_ok U (snd ?p1)" using ok reads_as_storable [OF o] by (simp add: putPayload_ok resolveIdentity_keeps)
  have k2: "content_ok U (snd ?p2)" using k1 u reads_as_storable by (auto simp: putPayload_ok resolveIdentity_keeps)
  have m3: "loadBlob (snd ?p3) h = Inr x \<Longrightarrow> loadBlob d' h = Inr x" for h x using loadBlob_blobs [OF res(2)] by simp
  have m2: "loadBlob (snd ?p2) h = Inr x \<Longrightarrow> loadBlob d' h = Inr x" for h x using putPayload_mono m3 by blast
  have m1: "loadBlob (snd ?p1) h = Inr x \<Longrightarrow> loadBlob d' h = Inr x" for h x
    using putPayload_mono [of "snd ?p1" h x "UpstreamRequest ?r"] m2 [of h x] by (cases up) auto
  have "column_payload n d' (fst ?p1) NoData = Inr original"
    by (rule putPayload_reads(1) [OF ok _ m1]) (use o in \<open>simp add: resolveIdentity_keeps\<close>)
  moreover have "column_payload n d' (fst ?p3) NoData = Inr response"
    by (rule putPayload_reads(1) [OF k2 _ m3]) (use s in \<open>simp add: resolveIdentity_keeps\<close>)
  moreover have "(if fst ?p2 \<noteq> [] then LoadPayload n d' (fst ?p2) else Inr []) = Inr upstream"
  proof (cases up)
    case True
    with u have r: "reads_as U n (UpstreamRequest ?r) upstream" by (simp add: resolveIdentity_keeps)
    have m: "loadBlob (snd (putPayload (UpstreamRequest ?r) (snd ?p1))) h = Inr x \<Longrightarrow> loadBlob d' h = Inr x" for h x
      using m2 [of h x] True by simp
    show ?thesis using putPayload_reads(2,3) [OF k1 r m] True by auto
  qed (use u in simp)
  ultimately have "row_reads n up d' (?row\<lparr>r_id := next_id (records d)\<rparr>) original upstream response"
    by (rule row_reads_row_of)
  moreover have "find_record d' (RequestID r0) = Some (?row\<lparr>r_id := next_id (records d)\<rparr>)"
  proof -
    have id: "request_id ?row = RequestID r0" by (simp add: row_of_def resolveIdentity_keeps)
    have "find_record (upsert_record (merge_record ?row) ?row d) (RequestID r0) = Some (?row\<lparr>r_id := next_id (records d)\<rparr>)"
      using find_record_upsert(2) [of "merge_record ?row" ?row d, unfolded id, OF _ new] by (simp add: merge_record_def)
    then show ?thesis using res(1) by (simp add: find_record_def)
  qed
  moreover have "session_id (?row\<lparr>r_id := next_id (records d)\<rparr>) = SessionID r0" by (simp add: row_of_def resolveIdentity_keeps)
  ultimately show ?thesis by (intro exI conjI)
qed

lemma put_record_mono:
  assumes "put_record sprint up idx r0 d = Inr d'" and "loadBlob d h = Inr x"
  shows "loadBlob d' h = Inr x"
proof -
  have "blobs d' = blobs (snd (putPayload (Response (resolveIdentity sprint idx r0))
      (snd (if up then putPayload (UpstreamRequest (resolveIdentity sprint idx r0)) (snd (putPayload (OriginalRequest (resolveIdentity sprint idx r0)) d))
            else ([], snd (putPayload (OriginalRequest (resolveIdentity sprint idx r0)) d))))))"
    by (rule put_record_result(2) [OF assms(1)])
  from loadBlob_blobs [OF this] show ?thesis using assms(2) by (cases up) (auto intro!: putPayload_mono)
qed

section \<open>The batch\<close>

definition served_row :: "nat \<Rightarrow> bool \<Rightarrow> Record \<Rightarrow> string \<Rightarrow> string \<Rightarrow> string \<Rightarrow> db \<Rightarrow> bool" where
  "served_row n up r original upstream response d \<longleftrightarrow>
    (\<exists>row. find_record d (RequestID r) = Some row \<and> session_id row = SessionID r \<and> row_reads n up d row original upstream response)"

lemma served_row_kept:
  assumes "put_record sprint up idx x d = Inr d'" and "RequestID x \<noteq> RequestID r" and "served_row n up r original upstream response d"
  shows "served_row n up r original upstream response d'"
proof -
  from assms(3) obtain row where row: "find_record d (RequestID r) = Some row" "session_id row = SessionID r"
    "row_reads n up d row original upstream response"
    unfolding served_row_def by blast
  have "row_reads n up d' row original upstream response"
    using row(3) put_record_mono [OF assms(1)] by (rule row_reads_mono)
  with row put_record_other [OF assms(1), of "RequestID r"] assms(2) show ?thesis unfolding served_row_def by simp
qed

lemma batch_serves:
  assumes "foldM_res (put_record sprint up idx) batch d = Inr d'" and "content_ok U d" and "\<forall>x \<in> set batch. storable_record U up x"
    and "distinct (map RequestID batch)" and "r \<in> set batch" and "find_record d (RequestID r) = None"
    and "reads_as U n (OriginalRequest r) original" and "reads_as U n (Response r) response"
    and "if up then reads_as U n (UpstreamRequest r) upstream else upstream = []"
  shows "served_row n up r original upstream response d'"
  using assms(1-6)
proof (induction batch arbitrary: d)
  case (Cons x xs)
  from Cons.prems(1) obtain d1 where d1: "put_record sprint up idx x d = Inr d1" "foldM_res (put_record sprint up idx) xs d1 = Inr d'"
    by (auto simp: bind_res_Inr_iff)
  have other: "RequestID y \<noteq> RequestID x" if "y \<in> set xs" for y using imageI [OF that, of RequestID] Cons.prems(4) by auto
  show ?case
  proof (cases "x = r")
    case True
    have "served_row n up r original upstream response d1"
      using put_record_new [of sprint up idx r d d1 U n original response upstream] d1(1) True Cons.prems(2,6) assms(7-9)
      by (simp add: served_row_def find_record_None)
    moreover have "served_row n up r original upstream response e'"
      if "foldM_res (put_record sprint up idx) ys e = Inr e'" "set ys \<subseteq> set xs" "served_row n up r original upstream response e" for ys e e'
      using that
    proof (induction ys arbitrary: e)
      case (Cons y ys)
      then obtain e1 where e1: "put_record sprint up idx y e = Inr e1" "foldM_res (put_record sprint up idx) ys e1 = Inr e'"
        by (auto simp: bind_res_Inr_iff)
      from other Cons.prems(2) True have "RequestID y \<noteq> RequestID r" by auto
      from served_row_kept [OF e1(1) this Cons.prems(3)] Cons.IH [OF e1(2)] Cons.prems(2) show ?case by simp
    qed simp
    ultimately show ?thesis using d1(2) by blast
  next
    case False
    with Cons.prems(5) have "r \<in> set xs" by simp
    moreover have "find_record d1 (RequestID r) = None"
      using put_record_other [OF d1(1) other [OF \<open>r \<in> set xs\<close>]] Cons.prems(6) by simp
    ultimately show ?thesis
      using Cons.IH [OF d1(2)] put_record_content [OF d1(1) Cons.prems(2)] Cons.prems(3,4) by simp
  qed
qed simp

section \<open>Example\<close>

lemma noisy_reads: \<open>reads_as {Marshal (Obj [(''u'', Str ''y'')])} 1 noisy_payload ''{"u":"y"}''\<close>
proof -
  let ?w = "Obj [(''u'', Str ''y'')]"
  have "Marshal ?w \<noteq> []" "length (Marshal ?w) < 2 ^ 63"
    by (simp_all add: member_text_def quote_def quote_rune_def text_eval)
  then have a: "archivable {Marshal ?w} noisy_payload"
    using CompactPayload_json [OF noisy_facts(1,2)] noisy_compact
    by (simp add: archivable_def manifest_blob_def del: compactValue.simps marshal.simps)
  have w: "to_float (strip (Obj [(''Encrypted_Content'', Str ''x''), (''u'', Str ''y'')])) = Some ?w"
    by (simp add: noisy_facts noiseKeys_def strip_string_def)
  have m: \<open>Marshal ?w = ''{"u":"y"}''\<close> by (simp add: member_text_def quote_def quote_rune_def text_eval)
  have c: "no_ref (Obj [(''Encrypted_Content'', Str ''x''), (''u'', Str ''y'')])"
    "jdepth (Obj [(''Encrypted_Content'', Str ''x''), (''u'', Str ''y'')]) < max_depth"
    "jdepth (Obj [(''Encrypted_Content'', Str ''x''), (''u'', Str ''y'')]) \<le> 1"
    "Data ` set (snd (compactValue 0 (Obj [(''Encrypted_Content'', Str ''x''), (''u'', Str ''y'')]))) \<subseteq> {Marshal ?w}"
    by (simp_all add: noisy_compact max_depth_def del: compactValue.simps marshal.simps)
  show ?thesis
    unfolding reads_as_def m [symmetric] by (intro disjI2 conjI exI) (rule noisy_facts(1) a noisy_facts(2) c w refl)+
qed

section \<open>What is not read back\<close>

text \<open>Of a payload with several JSON values, such as newline-delimited JSON, only the first is stored.\<close>

lemma later_values_dropped: "CompactPayload ''1 2'' = CompactPayload ''1''"
proof -
  have e: "effective ''1 2'' = ''1 2''" "effective ''1'' = ''1''"
    by (simp_all add: effective_def terminalSSEPayload_def HasPrefix_def)
  have "pnum ''1 2'' = Some (''1'', '' 2'')" "pnum ''1'' = Some (''1'', [])" by code_simp+
  then have "Decode ''1 2'' = Some (Num ''1'', '' 2'')" "Decode ''1'' = Some (Num ''1'', [])"
    by (simp_all add: Decode_def max_depth_def text_eval)
  then show ?thesis using CompactPayload_json [of "''1 2''"] CompactPayload_json [of "''1''"] unfolding e by simp
qed

end
