(* ===== verification/Spec2Isabelle.thy ===== *)
theory Spec2Isabelle
  imports Capture_Bounds Collector Turn_Texts Ticket_Redeem Backup Startup Digest_Refresher Management Readback
begin

text \<open>
  \<^bold>\<open>Verification of the session archive\<close>

  The program records the requests that pass through an API proxy and keeps them as searchable, exportable sessions.

  \<^bold>\<open>Parts and their interaction.\<close> A plugin inside the proxy (\<open>internal/archive/plugin.go\<close>) collects every request with its
  response chunks into a \<open>Record\<close>, attributes it to a session and a caller, and posts it to a collector. The collector
  (\<open>cmd/cpa-session-collector\<close>) queues the records and writes them in batches into an SQLite archive
  (\<open>internal/archive/store.go\<close>): payloads become content-addressed blobs (\<open>cas.go\<close>), rows and
  projections are kept beside them (\<open>session_index.go\<close>, \<open>turn_projection.go\<close>, \<open>identity.go\<close>), and triggers append every change of a
  row to an ingest log. Readers see pages of sessions, turns and requests (\<open>turns.go\<close>, \<open>timeline.go\<close>), exports
  (\<open>store.go\<close>, \<open>training_export.go\<close>), and stable snapshots of the list of sessions with digests (\<open>snapshot.go\<close>), which
  the collector serves page by page under expiring cursors and download tickets. A backup tool
  (\<open>cmd/cpa-session-archive-backup\<close>) copies the live database.

  \<^bold>\<open>Foundations.\<close>
  \<^item> \<open>Prelude\<close>: results that are errors or values, upserts on lists of rows, the shared collections of lemmas.
  \<^item> \<open>Go_Strings\<close>, \<open>Unicode_Case\<close>, \<open>Times\<close>: byte strings with Go's UTF-8 decoding, letter case, time stamps.
  \<^item> \<open>Hashing\<close>: SHA-256 on 32-bit words, base64, hexadecimal.
  \<^item> \<open>Json\<close>, \<open>Json_Roundtrip\<close>, \<open>Json_Wf\<close>: \<open>encoding/json\<close>; decoding inverts encoding, decoded values are well formed.
  \<^item> \<open>Schema\<close>, \<open>Ingest\<close>: the tables and the triggers; nothing changes unlogged.

  \<^bold>\<open>The archive.\<close>
  \<^item> \<open>Cas\<close>, \<open>Cas_Roundtrip\<close> (\<open>cas.go\<close>): compaction of a payload into blobs and back.
  \<^item> \<open>Blob_Store\<close> (\<open>putPayload\<close>, \<open>LoadPayload\<close>, \<open>GC\<close>): stored payloads load; the collector removes exactly what no
    record reaches. The locale \<open>content_store\<close> is the contract of the blob table.
  \<^item> \<open>Identity\<close> (\<open>identity.go\<close>): identity is completed, never overwritten; mappings change nothing else.
  \<^item> \<open>Records\<close> (\<open>PutBatch\<close>, \<open>indexSessionRecord\<close>, \<open>BackfillSessionIndex\<close>, \<open>Stats\<close>): the invariant \<open>archive_ok\<close>.
  \<^item> \<open>Legacy\<close> (\<open>MigrateLegacy\<close>).
  \<^item> \<open>Evolution\<close>: what every operation of the store keeps, as the locale \<open>growing_op\<close>, interpreted on the operations.
  \<^item> \<open>Canonical_Repair\<close> (\<open>session_repair.go\<close>), \<open>Session_Repairs\<close> (\<open>session_index.go\<close>), \<open>Turn_Projection\<close> (\<open>turn_projection.go\<close>): the
    repairs of historical data in their transactions, their cursors and their retries. They end, leave nothing to do, and lose
    nothing; the locales \<open>repair_op\<close> and \<open>marked_work\<close> hold the argument that the three repairs over marked work share.
  \<^item> \<open>Session_List\<close> (\<open>Sessions\<close>, \<open>SessionsFiltered\<close>, \<open>Facets\<close>): the list is exact, and archived requests are found.
  \<^item> \<open>Readback\<close>: a batch leaves rows whose payloads load, whatever comes after them in the batch.
  \<^item> \<open>Payload_Cache\<close>, \<open>Read_Side\<close>, \<open>Export\<close> (\<open>store.go\<close>): the cached, batched exports equal the plain loops.
  \<^item> \<open>Snapshot\<close>, \<open>Snapshot_Pages\<close>, \<open>Snapshot_Digests\<close>, \<open>Snapshot_Delta\<close> (\<open>snapshot.go\<close>): listings, the digest queue, true
    digests in every interleaving of the operations (\<open>archive_step\<close>), and complete incremental snapshots.
  \<^item> \<open>User_Text\<close>, \<open>Text_Safety\<close> (\<open>plugin.go\<close>): the text taken out of requests, and when its slicing is in range.
  \<^item> \<open>Turns\<close>, \<open>Turns_Partition\<close>, \<open>Turn_Texts\<close>, \<open>Timeline\<close> (\<open>turns.go\<close>, \<open>timeline.go\<close>), \<open>Training_Export\<close>.

  \<^bold>\<open>The plugin and the collector.\<close>
  \<^item> \<open>Capture\<close>, \<open>Hooks\<close>, \<open>Capture_Safety\<close>, \<open>Capture_Bounds\<close> (\<open>plugin.go\<close>): hooks, queue, delivery.
  \<^item> \<open>Collector\<close> (\<open>ingest\<close>, \<open>writer\<close>): what was accepted is archived, in order.
  \<^item> \<open>Registry\<close>, \<open>Stable_Endpoint\<close>, \<open>Registry_Safety\<close>, \<open>Endpoint_Walk\<close>, \<open>Tickets\<close>, \<open>Ticket_Redeem\<close>: snapshots that are open for
    clients, cursors, exports and tickets.
  \<^item> \<open>Digest_Refresher\<close> (\<open>digestRefresher\<close>): the loop that keeps the digests current catches up.
  \<^item> \<open>Startup\<close> (\<open>main\<close>, \<open>startStartupTasks\<close>, \<open>retryStartup\<close>): the repairs in their order; ready means repaired.
  \<^item> \<open>Browse_Api\<close> (the handlers in \<open>main.go\<close>, \<open>cmd/cpa-session-identity-migrate\<close>): answers are bounded and found.
  \<^item> \<open>Management\<close> (\<open>management.go\<close>): ids and parameters survive the way from the page to the collector.
  \<^item> \<open>Backup\<close>: the backup tool.

  \<^bold>\<open>State and operations.\<close> \<open>db\<close> is the database: one list of rows per table, in the order of insertion, keys kept unique by
  the operations. A transaction is a function \<open>db \<Rightarrow> db result\<close>; an error leaves the database as it was. The triggers are part of the
  updates (\<open>fire\<close>). A panic is the error \<open>Panic\<close>. Concurrency is a step relation between atomic sections: the transactions of the store
  (\<open>archive_step\<close>), the critical sections of the registry (\<open>registry_step\<close>), of the plugin and of the collector.

  \<^bold>\<open>Parameters.\<close> What SQLite, the network or the operating system decides is an argument: \<open>pick\<close> (the row chosen without an order),
  \<open>fault\<close> and \<open>busy\<close> (which attempts fail with a lock), \<open>listing_sql\<close> (ties and \<open>GROUP_CONCAT\<close>), \<open>collector\<close> (the HTTP
  client), the clock, random bytes, and the steps of the SQLite backup. The record \<open>library\<close> holds third-party functions (\<open>gjson\<close>,
  YAML, durations, the table of HTML entities) and the order of map iteration; \<open>sprint\<close> is \<open>fmt.Sprint\<close> on values the code does not format itself.

  \<^bold>\<open>Fuel and bounds.\<close> The argument \<open>n\<close> of \<open>LoadPayload\<close> bounds the nesting of blobs in blobs; the depth of the value is enough
  (\<open>expand_compact_payload\<close>), so the 10000 levels that \<open>encoding/json\<close> accepts suffice for every payload. The JSON parser has the
  length of its input as fuel. All other loops end by a measure; the retry loops that depend on SQLite end under the
  stated limits on the number of faults.

  \<^bold>\<open>Not modelled.\<close> The text of SQL statements and the migration of an index (their effect is the database model), log lines, pauses,
  contexts that are cancelled outside exports and backups, interim responses, the statistics endpoint (sizes of files and counters), the
  wiring of \<open>net/http\<close> with the path cleaning of its multiplexer, the C interface of the plugin (\<open>cmd/cpa-session-archive\<close>),
  the browser page, and the bytes of gzip streams, which stand for their content.
\<close>

section \<open>From the batch to the reader\<close>


definition posted :: Record where
  "posted = blank_record\<lparr>RequestID := ''q'', SessionID := ''s'', OriginalRequest := noisy_payload\<rparr>"


end
